(* ===== verification/Prelude.thy ===== *)
theory Prelude
  imports
    Complex_Main
    "HOL-Library.Word"
    "HOL-Library.AList"
    "HOL-Library.Multiset"
    "HOL-Library.Char_ord"
    "HOL-Library.List_Lexorder"
    "HOL-Library.Product_Lexorder"
begin

text \<open>
  What the components of the AgnosAI model share: the types that stand for Rust's
  standard types, the association-list model of \<open>HashMap\<close> and \<open>DashMap\<close> with the
  contract its clients rely on (a locale and its interpretation), and the sorting,
  selection and string functions of Rust's standard library that the sources call.

  \<^item> \<open>u64\<close> and \<open>uuid\<close> are words, so that addition wraps as the atomics do; \<open>usize\<close>
    lengths and counters are natural numbers, with a failing decrement where the code
    could underflow.
  \<^item> \<open>Instant\<close>, \<open>Duration\<close> and \<open>DateTime\<close> are natural numbers (nanoseconds); a function
    that reads the clock or draws a fresh UUID takes the value it reads as an argument.
  \<^item> \<open>f64\<close> is the exact rational number \<open>rat\<close>: rounding, NaN and infinities are not modelled.
  \<^item> A \<open>HashMap\<close> is an association list with distinct keys. The list order is the
    iteration order, which Rust leaves open; every theorem is for any order.
\<close>

named_theorems map_laws \<open>what a hash map returns after each of its operations\<close>
named_theorems invariant_intros \<open>every operation keeps the invariant of its component\<close>
named_theorems state_defs \<open>the definitions of the operations of a stateful component\<close>

section \<open>Machine types\<close>

type_synonym u64 = "64 word"
type_synonym u32 = "32 word"
type_synonym u8 = "8 word"
type_synonym uuid = "128 word"
type_synonym instant = nat
type_synonym duration = nat

text \<open>\<open>Instant::duration_since\<close> saturates to zero when the argument is later.\<close>

definition duration_since :: "instant \<Rightarrow> instant \<Rightarrow> duration" where
  "duration_since now earlier = now - earlier"

text \<open>\<open>u64::saturating_sub\<close>.\<close>

definition saturating_sub :: "u64 \<Rightarrow> u64 \<Rightarrow> u64" where
  "saturating_sub a b = (if a < b then 0 else a - b)"

text \<open>A checked addition: \<open>None\<close> is the panic of an overflowing \<open>+\<close> on \<open>u64\<close>.\<close>

definition checked_add :: "u64 \<Rightarrow> u64 \<Rightarrow> u64 option" where
  "checked_add a b = (if unat a + unat b < 2 ^ 64 then Some (a + b) else None)"

text \<open>\<open>as f64\<close> of an unsigned word, exact here.\<close>

definition as_f64 :: "'a::len word \<Rightarrow> rat" where
  "as_f64 w = of_nat (unat w)"

lemma as_f64_nonneg [simp]: "0 \<le> as_f64 w"
  by (simp only: as_f64_def of_nat_0_le_iff)

lemma as_f64_pos [simp]: "0 < as_f64 w \<longleftrightarrow> 0 < w"
  by (simp only: as_f64_def of_nat_0_less_iff unat_gt_0 word_neq_0_conv)

lemma as_f64_mono: "v \<le> w \<Longrightarrow> as_f64 v \<le> as_f64 w"
  by (simp only: as_f64_def of_nat_le_iff word_le_nat_alt)

section \<open>Strings\<close>

text \<open>Strings are lists of bytes. \<open>str::eq_ignore_ascii_case\<close> and \<open>to_ascii_lowercase\<close>.\<close>

definition ascii_lower_char :: "char \<Rightarrow> char" where
  "ascii_lower_char c =
     (let n = (of_char c :: nat) in if 65 \<le> n \<and> n \<le> 90 then char_of (n + 32) else c)"

definition to_ascii_lowercase :: "string \<Rightarrow> string" where
  "to_ascii_lowercase s = map ascii_lower_char s"

definition eq_ignore_ascii_case :: "string \<Rightarrow> string \<Rightarrow> bool" where
  "eq_ignore_ascii_case s t \<longleftrightarrow> to_ascii_lowercase s = to_ascii_lowercase t"

text \<open>\<open>str::split\<close> on one character: always at least one segment.\<close>

fun split_on :: "char \<Rightarrow> string \<Rightarrow> string list" where
  "split_on c [] = [[]]"
| "split_on c (x # xs) =
     (if x = c then [] # split_on c xs
      else (case split_on c xs of [] \<Rightarrow> [[x]] | s # ss \<Rightarrow> (x # s) # ss))"

fun join_with :: "char \<Rightarrow> string list \<Rightarrow> string" where
  "join_with c [] = []"
| "join_with c [s] = s"
| "join_with c (s # t # ss) = s @ c # join_with c (t # ss)"

lemma split_on_nonempty [simp]: "split_on c s \<noteq> []"
  by (induction s) (auto split: list.splits)

lemma split_on_no_sep: "\<forall>s \<in> set (split_on c xs). c \<notin> set s"
  by (induction xs) (auto split: list.splits)

lemma join_split_on: "join_with c (split_on c xs) = xs"
proof (induction xs)
  case Nil
  then show ?case by simp
next
  case (Cons x xs)
  obtain s ss where s: "split_on c xs = s # ss"
    by (meson list.exhaust split_on_nonempty)
  with Cons show ?case by (cases ss) auto
qed

lemma split_on_segment: "c \<notin> set s \<Longrightarrow> split_on c s = [s]"
  by (induction s) auto

lemma split_on_append:
  "c \<notin> set s \<Longrightarrow> split_on c (s @ c # xs) = s # split_on c xs"
  by (induction s) auto

lemma split_on_join:
  "ss \<noteq> [] \<Longrightarrow> \<forall>s \<in> set ss. c \<notin> set s \<Longrightarrow> split_on c (join_with c ss) = ss"
  by (induction c ss rule: join_with.induct) (auto simp: split_on_segment split_on_append)

text \<open>\<open>str::starts_with\<close>, \<open>str::ends_with\<close>, \<open>str::contains\<close>, and the decimal form of a number.\<close>

definition starts_with :: "string \<Rightarrow> string \<Rightarrow> bool" where
  "starts_with s p \<longleftrightarrow> take (length p) s = p"

definition ends_with :: "string \<Rightarrow> string \<Rightarrow> bool" where
  "ends_with s suffix \<longleftrightarrow> length suffix \<le> length s \<and> drop (length s - length suffix) s = suffix"

fun str_contains :: "string \<Rightarrow> string \<Rightarrow> bool" where
  "str_contains [] p = (p = [])"
| "str_contains (c # cs) p = (starts_with (c # cs) p \<or> str_contains cs p)"

fun nat_str :: "nat \<Rightarrow> string" where
  "nat_str n = (if n < 10 then [char_of (48 + n)] else nat_str (n div 10) @ [char_of (48 + n mod 10)])"

declare nat_str.simps [simp del]

text \<open>\<open>Path::join\<close>: an absolute path replaces the first one.\<close>

definition path_join :: "string \<Rightarrow> string \<Rightarrow> string" where
  "path_join dir p =
     (if starts_with p ''/'' then p
      else if dir = [] \<or> ends_with dir ''/'' then dir @ p
      else dir @ ''/'' @ p)"

lemma starts_with_iff: "starts_with s p \<longleftrightarrow> (\<exists>b. s = p @ b)"
  by (metis append_eq_conv_conj append_take_drop_id starts_with_def)

lemma ends_with_iff: "ends_with s p \<longleftrightarrow> (\<exists>a. s = a @ p)"
proof
  assume "ends_with s p"
  then show "\<exists>a. s = a @ p" by (metis append_take_drop_id ends_with_def)
qed (auto simp: ends_with_def)

lemma str_contains_iff: "str_contains s p \<longleftrightarrow> (\<exists>a b. s = a @ p @ b)"
proof (induction s)
  case Nil
  then show ?case by auto
next
  case (Cons c cs)
  have "(\<exists>a b. c # cs = a @ p @ b) \<longleftrightarrow> (\<exists>b. c # cs = p @ b) \<or> (\<exists>a b. cs = a @ p @ b)"
    by (auto simp: Cons_eq_append_conv)
  with Cons show ?case by (simp add: starts_with_iff)
qed

section \<open>Hash maps\<close>

type_synonym ('k, 'v) hmap = "('k \<times> 'v) list"

definition hm_empty :: "('k, 'v) hmap" where
  "hm_empty = []"

definition hm_get :: "('k, 'v) hmap \<Rightarrow> 'k \<Rightarrow> 'v option" where
  "hm_get m k = map_of m k"

definition hm_contains :: "('k, 'v) hmap \<Rightarrow> 'k \<Rightarrow> bool" where
  "hm_contains m k \<longleftrightarrow> hm_get m k \<noteq> None"

definition hm_insert :: "'k \<Rightarrow> 'v \<Rightarrow> ('k, 'v) hmap \<Rightarrow> ('k, 'v) hmap" where
  "hm_insert k v m = AList.update k v m"

definition hm_remove :: "'k \<Rightarrow> ('k, 'v) hmap \<Rightarrow> ('k, 'v) hmap" where
  "hm_remove k m = AList.delete k m"

definition hm_len :: "('k, 'v) hmap \<Rightarrow> nat" where
  "hm_len m = length m"

definition hm_keys :: "('k, 'v) hmap \<Rightarrow> 'k list" where
  "hm_keys m = map fst m"

definition hm_values :: "('k, 'v) hmap \<Rightarrow> 'v list" where
  "hm_values m = map snd m"

definition hm_wf :: "('k, 'v) hmap \<Rightarrow> bool" where
  "hm_wf m \<longleftrightarrow> distinct (map fst m)"

text \<open>\<open>get_mut\<close> followed by an assignment, and a loop over \<open>values_mut\<close>.\<close>

definition hm_modify :: "'k \<Rightarrow> ('v \<Rightarrow> 'v) \<Rightarrow> ('k, 'v) hmap \<Rightarrow> ('k, 'v) hmap" where
  "hm_modify k f m = (case hm_get m k of None \<Rightarrow> m | Some v \<Rightarrow> hm_insert k (f v) m)"

definition hm_map_values :: "('v \<Rightarrow> 'w) \<Rightarrow> ('k, 'v) hmap \<Rightarrow> ('k, 'w) hmap" where
  "hm_map_values f m = map (\<lambda>(k, v). (k, f v)) m"

text \<open>\<open>iter().filter(..)\<close> over the entries, and \<open>remove\<close> of every key of a list.\<close>

definition hm_filter :: "('k \<Rightarrow> 'v \<Rightarrow> bool) \<Rightarrow> ('k, 'v) hmap \<Rightarrow> ('k, 'v) hmap" where
  "hm_filter P m = filter (\<lambda>(k, v). P k v) m"

definition hm_remove_all :: "'k list \<Rightarrow> ('k, 'v) hmap \<Rightarrow> ('k, 'v) hmap" where
  "hm_remove_all ks m = fold hm_remove ks m"


subsection \<open>The contract of a map\<close>

text \<open>
  The interface the components program against. \<open>contents\<close> is the mathematical map a
  structure stands for; the laws say what each operation does to it, that the number of
  entries is the size of its domain, and that every operation keeps well-formedness.
\<close>

locale map_contract =
  fixes wf :: "'m \<Rightarrow> bool"
    and contents :: "'m \<Rightarrow> 'k \<Rightarrow> 'v option"
    and empty :: "'m"
    and insert :: "'k \<Rightarrow> 'v \<Rightarrow> 'm \<Rightarrow> 'm"
    and remove :: "'k \<Rightarrow> 'm \<Rightarrow> 'm"
    and len :: "'m \<Rightarrow> nat"
  assumes wf_empty: "wf empty"
    and wf_insert: "wf m \<Longrightarrow> wf (insert k v m)"
    and wf_remove: "wf m \<Longrightarrow> wf (remove k m)"
    and contents_empty: "contents empty = (\<lambda>_. None)"
    and contents_insert: "wf m \<Longrightarrow> contents (insert k v m) = (contents m)(k \<mapsto> v)"
    and contents_remove: "wf m \<Longrightarrow> contents (remove k m) = (contents m)(k := None)"
    and contents_finite: "wf m \<Longrightarrow> finite (dom (contents m))"
    and len_card: "wf m \<Longrightarrow> len m = card (dom (contents m))"
begin

lemma len_insert:
  assumes "wf m"
  shows "len (insert k v m) = (if contents m k = None then Suc (len m) else len m)"
proof (cases "contents m k")
  case None
  then have "k \<notin> dom (contents m)" by auto
  with None assms show ?thesis
    by (simp add: len_card wf_insert contents_insert contents_finite)
next
  case (Some w)
  then have "Set.insert k (dom (contents m)) = dom (contents m)" by auto
  with Some assms show ?thesis
    by (simp add: len_card wf_insert contents_insert)
qed

lemma len_remove:
  assumes "wf m"
  shows "len (remove k m) = (if contents m k = None then len m else len m - 1)"
proof -
  have "dom (contents (remove k m)) = dom (contents m) - {k}"
    using assms by (auto simp: contents_remove split: if_splits)
  with assms show ?thesis
    by (auto simp: len_card wf_remove contents_finite card_Diff_singleton_if)
qed

lemma len_remove_le: "wf m \<Longrightarrow> len (remove k m) \<le> len m"
  by (simp add: len_remove)

lemma len_empty_iff: "wf m \<Longrightarrow> len m = 0 \<longleftrightarrow> contents m = (\<lambda>_. None)"
  by (auto simp: len_card contents_finite dom_eq_empty_conv)

text \<open>An insertion guarded by a bound on the number of entries keeps the bound.\<close>

lemma guarded_insert_bound:
  assumes "wf m" and "len m \<le> bound" and "contents m k \<noteq> None \<or> len m < bound"
  shows "len (insert k v m) \<le> bound"
  using assms by (auto simp: len_insert)

text \<open>Making room by removing one present key first keeps the bound too.\<close>

lemma evict_insert_bound:
  assumes "wf m" and "len m \<le> bound" and "0 < bound" and "contents m e \<noteq> None"
  shows "len (insert k v (remove e m)) \<le> bound"
proof -
  have "len m \<noteq> 0"
    using assms by (auto simp: len_empty_iff)
  with assms have "len (remove e m) < bound"
    by (auto simp: len_remove)
  then show ?thesis
    using assms guarded_insert_bound [of "remove e m" bound k v] by (simp add: wf_remove)
qed

end

subsection \<open>The association list keeps the contract\<close>

lemma hm_get_insert [simp, map_laws]:
  "hm_get (hm_insert k v m) k' = (if k' = k then Some v else hm_get m k')"
  by (simp add: hm_get_def hm_insert_def update_conv')

lemma hm_get_remove [simp, map_laws]:
  "hm_get (hm_remove k m) k' = (if k' = k then None else hm_get m k')"
  by (simp add: hm_get_def hm_remove_def delete_conv')

lemma hm_get_empty [simp, map_laws]: "hm_get hm_empty k = None"
  by (simp add: hm_get_def hm_empty_def)

lemma hm_wf_empty [simp]: "hm_wf hm_empty"
  by (simp add: hm_wf_def hm_empty_def)

lemma hm_len_empty [simp]: "hm_len hm_empty = 0"
  by (simp add: hm_len_def hm_empty_def)

lemma hm_wf_insert [simp]: "hm_wf m \<Longrightarrow> hm_wf (hm_insert k v m)"
  by (simp add: hm_wf_def hm_insert_def distinct_update)

lemma hm_wf_remove [simp]: "hm_wf m \<Longrightarrow> hm_wf (hm_remove k m)"
  by (simp add: hm_wf_def hm_remove_def distinct_delete)

lemma hm_dom: "dom (hm_get m) = fst ` set m"
  by (simp add: hm_get_def [abs_def] dom_map_of_conv_image_fst)

lemma hm_dom_empty [simp]: "dom (hm_get hm_empty) = {}"
  by (simp add: hm_dom hm_empty_def)

lemma hm_dom_insert [simp]: "dom (hm_get (hm_insert k v m)) = insert k (dom (hm_get m))"
  by (auto split: if_splits)

lemma hm_dom_remove [simp]: "dom (hm_get (hm_remove k m)) = dom (hm_get m) - {k}"
  by (auto split: if_splits)

lemma hm_len_card: "hm_wf m \<Longrightarrow> hm_len m = card (dom (hm_get m))"
  by (metis distinct_card hm_dom hm_len_def hm_wf_def length_map set_map)

interpretation hm: map_contract hm_wf hm_get hm_empty hm_insert hm_remove hm_len
proof unfold_locales
  show "finite (dom (hm_get m))" for m :: "('a, 'b) hmap"
    by (simp add: hm_dom)
qed (auto simp: hm_len_card)

lemma hm_get_mem: "hm_wf m \<Longrightarrow> hm_get m k = Some v \<longleftrightarrow> (k, v) \<in> set m"
  by (simp add: hm_get_def hm_wf_def)

lemma hm_get_in_keys: "k \<in> set (hm_keys m) \<longleftrightarrow> hm_get m k \<noteq> None"
  by (auto simp: hm_keys_def hm_get_def map_of_eq_None_iff)

lemma hm_values_get: "hm_wf m \<Longrightarrow> v \<in> set (hm_values m) \<longleftrightarrow> (\<exists>k. hm_get m k = Some v)"
  by (force simp: hm_values_def hm_get_mem)

lemma hm_values_insert_new: "hm_get m k = None \<Longrightarrow> hm_values (hm_insert k v m) = hm_values m @ [v]"
  by (induction m) (auto simp: hm_values_def hm_insert_def hm_get_def split: if_splits)

lemma hm_get_modify [simp, map_laws]:
  "hm_get (hm_modify k f m) k' = (if k' = k then map_option f (hm_get m k) else hm_get m k')"
  by (simp add: hm_modify_def split: option.splits)

lemma hm_wf_modify [simp]: "hm_wf m \<Longrightarrow> hm_wf (hm_modify k f m)"
  by (simp add: hm_modify_def split: option.splits)

lemma hm_len_modify [simp]: "hm_wf m \<Longrightarrow> hm_len (hm_modify k f m) = hm_len m"
  by (simp add: hm_modify_def hm.len_insert split: option.splits)

lemma hm_get_map_values [simp, map_laws]:
  "hm_get (hm_map_values f m) k = map_option f (hm_get m k)"
  by (induction m) (auto simp: hm_get_def hm_map_values_def)

lemma hm_wf_map_values [simp]: "hm_wf (hm_map_values f m) \<longleftrightarrow> hm_wf m"
  by (simp add: hm_wf_def hm_map_values_def case_prod_unfold comp_def)

lemma hm_len_map_values [simp]: "hm_len (hm_map_values f m) = hm_len m"
  by (simp add: hm_len_def hm_map_values_def)

lemma hm_get_filter [map_laws]:
  "hm_wf m \<Longrightarrow> hm_get (hm_filter P m) k =
     (case hm_get m k of None \<Rightarrow> None | Some v \<Rightarrow> if P k v then Some v else None)"
  by (induction m)
    (auto simp: hm_get_def hm_filter_def hm_wf_def map_of_eq_None_iff rev_image_eqI
       split: option.splits)

lemma hm_wf_filter [simp]: "hm_wf m \<Longrightarrow> hm_wf (hm_filter P m)"
  by (induction m) (auto simp: hm_wf_def hm_filter_def)

lemma hm_get_remove_all [simp, map_laws]:
  "hm_get (hm_remove_all ks m) k = (if k \<in> set ks then None else hm_get m k)"
  by (induction ks arbitrary: m) (auto simp: hm_remove_all_def)

lemma hm_wf_remove_all [simp]: "hm_wf m \<Longrightarrow> hm_wf (hm_remove_all ks m)"
  by (induction ks arbitrary: m) (auto simp: hm_remove_all_def)

lemma hm_len_remove_all: "hm_wf m \<Longrightarrow> hm_len (hm_remove_all ks m) \<le> hm_len m"
proof (induction ks arbitrary: m)
  case Nil
  then show ?case by (simp add: hm_remove_all_def)
next
  case (Cons k ks)
  from Cons.IH [of "hm_remove k m"] Cons.prems hm.len_remove_le [of m k]
  show ?case by (simp add: hm_remove_all_def)
qed


text \<open>A sum over the entries, and how the operations change it.\<close>

definition hm_sum :: "('k \<Rightarrow> 'v \<Rightarrow> nat) \<Rightarrow> ('k, 'v) hmap \<Rightarrow> nat" where
  "hm_sum f m = sum_list (map (\<lambda>(k, v). f k v) m)"

lemma hm_sum_empty [simp]: "hm_sum f hm_empty = 0"
  by (simp add: hm_sum_def hm_empty_def)

lemma hm_remove_absent: "hm_get m k = None \<Longrightarrow> hm_remove k m = m"
  by (induction m) (auto simp: hm_get_def hm_remove_def split: if_splits)

lemma hm_sum_remove:
  "hm_wf m \<Longrightarrow>
   hm_sum f (hm_remove k m) + (case hm_get m k of None \<Rightarrow> 0 | Some v \<Rightarrow> f k v) = hm_sum f m"
proof (induction m)
  case Nil
  then show ?case by (simp add: hm_sum_def hm_remove_def hm_get_def)
next
  case (Cons e m)
  obtain j w where e: "e = (j, w)" by (cases e)
  show ?case
  proof (cases "j = k")
    case True
    with Cons.prems e have "hm_get m k = None"
      by (auto simp: hm_wf_def hm_get_def map_of_eq_None_iff)
    with hm_remove_absent [of m k] True e show ?thesis
      by (simp add: hm_sum_def hm_remove_def hm_get_def)
  next
    case False
    with Cons e show ?thesis by (simp add: hm_sum_def hm_remove_def hm_get_def hm_wf_def)
  qed
qed

lemma hm_sum_insert:
  "hm_wf m \<Longrightarrow> hm_sum f (hm_insert k v m) + (case hm_get m k of None \<Rightarrow> 0 | Some w \<Rightarrow> f k w) =
     hm_sum f m + f k v"
proof (induction m)
  case Nil
  then show ?case by (simp add: hm_sum_def hm_insert_def hm_get_def)
next
  case (Cons e m)
  obtain j w where e: "e = (j, w)" by (cases e)
  show ?case
  proof (cases "j = k")
    case True
    with e show ?thesis by (simp add: hm_sum_def hm_insert_def hm_get_def)
  next
    case False
    with Cons e show ?thesis by (simp add: hm_sum_def hm_insert_def hm_get_def hm_wf_def)
  qed
qed

lemma hm_sum_ge: "hm_wf m \<Longrightarrow> hm_get m k = Some v \<Longrightarrow> f k v \<le> hm_sum f m"
  using hm_sum_remove [of m f k] by simp

section \<open>Lists\<close>

lemma count_list_pos_iff: "0 < count_list xs x \<longleftrightarrow> x \<in> set xs"
  by (metis count_list_0_iff gr0I less_irrefl)

lemma count_list_distinct: "distinct xs \<Longrightarrow> count_list xs x = (if x \<in> set xs then 1 else 0)"
  by (induction xs) auto

lemma map_of_map_key: "map_of (map (\<lambda>k. (k, f k)) ks) k = (if k \<in> set ks then Some (f k) else None)"
  by (induction ks) auto

lemma find_SomeD: "find P xs = Some x \<Longrightarrow> P x \<and> x \<in> set xs"
  by (auto simp: find_Some_iff)

lemma find_filter: "find P (filter Q xs) = find (\<lambda>x. Q x \<and> P x) xs"
  by (induction xs) auto

lemma takeWhile_neq_first: "v \<notin> set xs \<Longrightarrow> takeWhile (\<lambda>x. x \<noteq> v) (xs @ v # ys) = xs"
  by (induction xs) auto

section \<open>State machines\<close>

text \<open>
  A component is a set of initial states and the operations its clients may call, in any
  order. The contract: the initial states satisfy the invariant and every operation keeps
  it; then every sequence of operations does.
\<close>

locale invariant_machine =
  fixes init :: "'s \<Rightarrow> bool"
    and step :: "'e \<Rightarrow> 's \<Rightarrow> 's"
    and good :: "'s \<Rightarrow> bool"
  assumes init_good: "init s \<Longrightarrow> good s"
    and step_good: "good s \<Longrightarrow> good (step e s)"
begin

lemma run_keeps: "good s \<Longrightarrow> good (fold step es s)"
  by (induction es arbitrary: s) (auto intro: step_good)

lemma run_good: "init s \<Longrightarrow> good (fold step es s)"
  by (intro run_keeps init_good)

end

text \<open>Operations that commute may be interleaved in any way.\<close>

locale commuting_machine =
  fixes step :: "'e \<Rightarrow> 's \<Rightarrow> 's"
  assumes step_commute: "step e (step e' s) = step e' (step e s)"
begin

lemma interleaving: "mset es = mset es' \<Longrightarrow> fold step es s = fold step es' s"
  by (rule fold_permuted_eq [where P = "\<lambda>_. True"]) (auto simp: step_commute)

end

section \<open>Sorting and selection\<close>

text \<open>
  \<open>slice::sort_by\<close> and \<open>sort_by_key\<close> are stable. \<open>sort_desc f\<close> is the stable sort with
  the greatest key first, as \<open>sort_by_key(|x| Reverse(f(x)))\<close> and
  \<open>sort_by(|a, b| b.partial_cmp(a))\<close> give it.
\<close>

definition sort_desc :: "('a \<Rightarrow> 'b::linorder) \<Rightarrow> 'a list \<Rightarrow> 'a list" where
  "sort_desc f xs = rev (sort_key f (rev xs))"

text \<open>\<open>Iterator::max_by_key\<close> returns the last of the greatest elements,
  \<open>Iterator::min_by_key\<close> the first of the least.\<close>

fun max_by_key :: "('a \<Rightarrow> 'b::linorder) \<Rightarrow> 'a list \<Rightarrow> 'a option" where
  "max_by_key f [] = None"
| "max_by_key f (x # xs) =
     (case max_by_key f xs of None \<Rightarrow> Some x | Some y \<Rightarrow> Some (if f x \<le> f y then y else x))"

fun min_by_key :: "('a \<Rightarrow> 'b::linorder) \<Rightarrow> 'a list \<Rightarrow> 'a option" where
  "min_by_key f [] = None"
| "min_by_key f (x # xs) =
     (case min_by_key f xs of None \<Rightarrow> Some x | Some y \<Rightarrow> Some (if f x \<le> f y then x else y))"

lemma mset_sort_desc [simp]: "mset (sort_desc f xs) = mset xs"
  by (simp add: sort_desc_def)

lemma set_sort_desc [simp]: "set (sort_desc f xs) = set xs"
  by (simp add: sort_desc_def)

lemma length_sort_desc [simp]: "length (sort_desc f xs) = length xs"
  by (simp add: sort_desc_def)

lemma sort_desc_Nil_iff [simp]: "sort_desc f xs = [] \<longleftrightarrow> xs = []"
  by (metis length_0_conv length_sort_desc)

lemma sort_desc_Nil [simp]: "sort_desc f [] = []"
  by (simp add: sort_desc_def)

lemma distinct_sort_desc [simp]: "distinct (sort_desc f xs) \<longleftrightarrow> distinct xs"
  by (simp add: sort_desc_def)

lemma sort_desc_sorted: "sorted_wrt (\<lambda>a b. f b \<le> f a) (sort_desc f xs)"
proof -
  have "sorted (map f (sort_key f (rev xs)))" by simp
  then have "sorted_wrt (\<lambda>a b. f a \<le> f b) (sort_key f (rev xs))"
    by (simp only: sorted_map)
  then show ?thesis by (simp add: sort_desc_def sorted_wrt_rev)
qed

lemma sort_desc_stable: "filter (\<lambda>x. f x = k) (sort_desc f xs) = filter (\<lambda>x. f x = k) xs"
proof -
  have "filter (\<lambda>x. f x = k) (sort_desc f xs) = rev (filter (\<lambda>x. f x = k) (sort_key f (rev xs)))"
    by (simp add: sort_desc_def rev_filter)
  also have "\<dots> = rev (filter (\<lambda>x. f x = k) (rev xs))"
    by (simp add: sort_key_stable)
  finally show ?thesis by (simp add: rev_filter)
qed

lemma sort_desc_hd_max:
  assumes "sort_desc f xs = y # ys"
  shows "y \<in> set xs" and "\<forall>x \<in> set xs. f x \<le> f y"
proof -
  have eq: "set (y # ys) = set xs" by (metis assms set_sort_desc)
  then show "y \<in> set xs" by auto
  from sort_desc_sorted [of f xs] assms have "\<forall>x \<in> set ys. f x \<le> f y" by simp
  with eq show "\<forall>x \<in> set xs. f x \<le> f y" by force
qed

text \<open>The stable descending sort is the only list with these three properties.\<close>

lemma sort_desc_unique:
  assumes "mset ys = mset xs" and "sorted_wrt (\<lambda>a b. f b \<le> f a) ys"
    and "\<And>k. filter (\<lambda>x. f x = k) ys = filter (\<lambda>x. f x = k) xs"
  shows "sort_desc f xs = ys"
proof -
  have "sort_key f (rev xs) = rev ys"
  proof (rule properties_for_sort_key)
    show "mset (rev ys) = mset (rev xs)" using assms(1) by simp
    show "filter (\<lambda>x. f k = f x) (rev ys) = filter (\<lambda>x. f k = f x) (rev xs)" for k
      using assms(3) [of "f k"] by (simp add: rev_filter [symmetric] eq_commute)
    show "sorted (map f (rev ys))"
      using assms(2) by (simp add: sorted_map sorted_wrt_rev)
  qed
  then show ?thesis by (simp add: sort_desc_def)
qed

text \<open>Taking out the first of the greatest elements is the first step of the sort.\<close>

lemma sort_desc_select:
  assumes "\<forall>y \<in> set ys. f y < f x" and "\<forall>z \<in> set zs. f z \<le> f x"
  shows "sort_desc f (ys @ x # zs) = x # sort_desc f (ys @ zs)"
proof (rule sort_desc_unique)
  show "mset (x # sort_desc f (ys @ zs)) = mset (ys @ x # zs)" by simp
  show "sorted_wrt (\<lambda>a b. f b \<le> f a) (x # sort_desc f (ys @ zs))"
    using assms sort_desc_sorted [of f "ys @ zs"] by (auto intro: less_imp_le)
  show "filter (\<lambda>a. f a = k) (x # sort_desc f (ys @ zs)) = filter (\<lambda>a. f a = k) (ys @ x # zs)" for k
  proof (cases "f x = k")
    case True
    then have "filter (\<lambda>a. f a = k) ys = []"
      using assms(1) by (auto simp: filter_empty_conv)
    then show ?thesis by (simp add: sort_desc_stable)
  next
    case False
    then show ?thesis by (simp add: sort_desc_stable)
  qed
qed

text \<open>Among equal keys the first element of the input comes first.\<close>

lemma sort_desc_hd_first:
  assumes "sort_desc f xs = y # ys"
  shows "find (\<lambda>x. f x = f y) xs = Some y"
proof -
  have "filter (\<lambda>x. f x = f y) xs = y # filter (\<lambda>x. f x = f y) ys"
    using sort_desc_stable [of f "f y" xs] by (simp add: assms)
  then show ?thesis
    by (induction xs) (auto split: if_splits)
qed

lemma max_by_key_None [simp]: "max_by_key f xs = None \<longleftrightarrow> xs = []"
  by (cases xs) (auto split: option.splits)

lemma max_by_key_Some:
  "max_by_key f xs = Some y \<Longrightarrow> y \<in> set xs \<and> (\<forall>x \<in> set xs. f x \<le> f y)"
  by (induction xs arbitrary: y) (force split: option.splits if_splits)+

lemma min_by_key_None [simp]: "min_by_key f xs = None \<longleftrightarrow> xs = []"
  by (cases xs) (auto split: option.splits)

lemma min_by_key_Some:
  "min_by_key f xs = Some y \<Longrightarrow> y \<in> set xs \<and> (\<forall>x \<in> set xs. f y \<le> f x)"
  by (induction xs arbitrary: y) (force split: option.splits if_splits)+

end
