(* ===== verification/Resource.thy ===== *)
theory Resource
  imports Prelude
begin

text \<open>
  Hardware resources and budgets, \<open>core/resource.rs\<close>: accelerator types and families,
  compute devices, hardware requirements and inventories with the matching function
  \<open>satisfies\<close>, and the resource budget of a crew. The parts behind the \<open>hwaccel\<close> cargo
  feature are in the theory Hardware_Detection.
\<close>

section \<open>Data\<close>

datatype accelerator_family = FamCpu | FamGpu | FamNpu | FamTpu | FamAiAsic

datatype accelerator_type = Cpu | Cuda | Rocm | Metal | Vulkan | Tpu

fun family :: "accelerator_type \<Rightarrow> accelerator_family" where
  "family Cpu = FamCpu"
| "family Cuda = FamGpu"
| "family Rocm = FamGpu"
| "family Metal = FamGpu"
| "family Vulkan = FamGpu"
| "family Tpu = FamTpu"

definition is_gpu :: "accelerator_type \<Rightarrow> bool" where
  "is_gpu a \<longleftrightarrow> family a = FamGpu"

definition is_tpu :: "accelerator_type \<Rightarrow> bool" where
  "is_tpu a \<longleftrightarrow> family a = FamTpu"

record compute_device =
  dev_index :: nat
  dev_name :: string
  dev_accelerator :: accelerator_type
  dev_memory_total_mb :: u64
  dev_memory_available_mb :: u64

definition compute_device_new :: "nat \<Rightarrow> string \<Rightarrow> accelerator_type \<Rightarrow> u64 \<Rightarrow> compute_device" where
  "compute_device_new index name accel mem =
     \<lparr> dev_index = index, dev_name = name, dev_accelerator = accel,
       dev_memory_total_mb = mem, dev_memory_available_mb = mem \<rparr>"

definition device_with_available :: "u64 \<Rightarrow> compute_device \<Rightarrow> compute_device" where
  "device_with_available mb d = d\<lparr>dev_memory_available_mb := mb\<rparr>"

record hardware_requirement =
  req_accelerators :: "accelerator_type list"
  req_min_memory_mb :: u64
  req_min_device_count :: nat
  req_min_cpu_cores :: nat
  req_required_family :: "accelerator_family option"

definition hardware_requirement_default :: hardware_requirement where
  "hardware_requirement_default =
     \<lparr> req_accelerators = [], req_min_memory_mb = 0, req_min_device_count = 0,
       req_min_cpu_cores = 0, req_required_family = None \<rparr>"

definition for_accelerators :: "accelerator_type list \<Rightarrow> hardware_requirement" where
  "for_accelerators accs = hardware_requirement_default\<lparr>req_accelerators := accs\<rparr>"

definition with_min_memory :: "u64 \<Rightarrow> hardware_requirement \<Rightarrow> hardware_requirement" where
  "with_min_memory mb r = r\<lparr>req_min_memory_mb := mb\<rparr>"

definition with_min_devices :: "nat \<Rightarrow> hardware_requirement \<Rightarrow> hardware_requirement" where
  "with_min_devices n r = r\<lparr>req_min_device_count := n\<rparr>"

definition with_min_cpu_cores :: "nat \<Rightarrow> hardware_requirement \<Rightarrow> hardware_requirement" where
  "with_min_cpu_cores n r = r\<lparr>req_min_cpu_cores := n\<rparr>"

record hardware_inventory =
  inv_cpu_cores :: nat
  inv_memory_total_mb :: u64
  inv_devices :: "compute_device list"

definition hardware_inventory_new :: "nat \<Rightarrow> u64 \<Rightarrow> compute_device list \<Rightarrow> hardware_inventory" where
  "hardware_inventory_new cores mem devs =
     \<lparr> inv_cpu_cores = cores, inv_memory_total_mb = mem, inv_devices = devs \<rparr>"

definition hardware_inventory_default :: hardware_inventory where
  "hardware_inventory_default = hardware_inventory_new 0 0 []"

record resource_budget =
  budget_max_tokens :: "u64 option"
  budget_max_cost_usd :: "rat option"
  budget_max_duration_secs :: "u64 option"
  budget_max_concurrent_tasks :: "nat option"

definition resource_budget_new ::
    "u64 option \<Rightarrow> rat option \<Rightarrow> u64 option \<Rightarrow> nat option \<Rightarrow> resource_budget" where
  "resource_budget_new tokens cost secs conc =
     \<lparr> budget_max_tokens = tokens, budget_max_cost_usd = cost,
       budget_max_duration_secs = secs, budget_max_concurrent_tasks = conc \<rparr>"

definition resource_budget_default :: resource_budget where
  "resource_budget_default = resource_budget_new None None None (Some 10)"

section \<open>Matching an inventory against a requirement\<close>

text \<open>
  \<open>HardwareInventory::satisfies\<close>, with the code's order of checks and early returns: the
  CPU cores, then the family when one is required (which ends the check), then the list
  of accelerator types.
\<close>

definition satisfies :: "hardware_inventory \<Rightarrow> hardware_requirement \<Rightarrow> bool" where
  "satisfies hi req =
     (if 0 < req_min_cpu_cores req \<and> inv_cpu_cores hi < req_min_cpu_cores req then False
      else case req_required_family req of
        Some fam \<Rightarrow>
          (let matching = filter (\<lambda>d. family (dev_accelerator d) = fam) (inv_devices hi)
           in if matching = [] then False
              else if 0 < req_min_device_count req \<and> length matching < req_min_device_count req
                then False
              else if 0 < req_min_memory_mb req
                  \<and> \<not> list_ex (\<lambda>d. req_min_memory_mb req \<le> dev_memory_total_mb d) matching
                then False
              else True)
      | None \<Rightarrow>
          (if req_accelerators req \<noteq> [] then
             (let matching =
                filter (\<lambda>d. dev_accelerator d \<in> set (req_accelerators req)) (inv_devices hi)
              in if 0 < req_min_device_count req \<and> length matching < req_min_device_count req
                   then False
                 else if 0 < req_min_memory_mb req
                     \<and> \<not> list_ex (\<lambda>d. req_min_memory_mb req \<le> dev_memory_total_mb d) matching
                   then False
                 else if matching = [] then False
                 else True)
           else True))"

definition devices_of_type :: "accelerator_type \<Rightarrow> hardware_inventory \<Rightarrow> compute_device list" where
  "devices_of_type a hi = filter (\<lambda>d. dev_accelerator d = a) (inv_devices hi)"

text \<open>\<open>total_memory_mb\<close> sums with \<open>Iterator::sum\<close>, which panics on overflow in a debug
  build and wraps in a release build; the word sum is the release value.\<close>

definition total_memory_mb :: "accelerator_type \<Rightarrow> hardware_inventory \<Rightarrow> u64" where
  "total_memory_mb a hi = sum_list (map dev_memory_total_mb (devices_of_type a hi))"

section \<open>Properties of the matching\<close>

text \<open>The devices a requirement selects: those of the family when one is given, else
  those of a listed type, else all of them.\<close>

definition selected_devices :: "hardware_requirement \<Rightarrow> hardware_inventory \<Rightarrow> compute_device list" where
  "selected_devices req hi =
     filter (\<lambda>d. case req_required_family req of
         Some fam \<Rightarrow> family (dev_accelerator d) = fam
       | None \<Rightarrow> req_accelerators req = [] \<or> dev_accelerator d \<in> set (req_accelerators req))
     (inv_devices hi)"

definition asks_for_device :: "hardware_requirement \<Rightarrow> bool" where
  "asks_for_device req \<longleftrightarrow> req_required_family req \<noteq> None \<or> req_accelerators req \<noteq> []"

text \<open>\<open>satisfies\<close> as one formula: enough cores and, when the requirement names a family or
  a type, at least one selected device, at least the asked number of them, and one of
  them with the asked memory.\<close>

lemma satisfies_iff:
  "satisfies hi req \<longleftrightarrow>
     req_min_cpu_cores req \<le> inv_cpu_cores hi \<and>
     (asks_for_device req \<longrightarrow>
        selected_devices req hi \<noteq> [] \<and>
        req_min_device_count req \<le> length (selected_devices req hi) \<and>
        (req_min_memory_mb req = 0 \<or>
           (\<exists>d \<in> set (selected_devices req hi). req_min_memory_mb req \<le> dev_memory_total_mb d)))"
proof -
  have count: "(0 < n \<and> k < n) \<longleftrightarrow> \<not> n \<le> k" for n k :: nat
    by auto
  show ?thesis
  proof (cases "req_required_family req")
    case None
    then show ?thesis
      by (cases "req_accelerators req = []")
        (auto simp: satisfies_def asks_for_device_def selected_devices_def count
           list_ex_iff word_gt_0 Let_def)
  next
    case (Some fam)
    then show ?thesis
      by (auto simp: satisfies_def asks_for_device_def selected_devices_def count
            list_ex_iff word_gt_0 Let_def)
  qed
qed

text \<open>Adding a device or cores never breaks a requirement that was met.\<close>

lemma satisfies_mono:
  assumes "satisfies hi req"
    and "inv_cpu_cores hi \<le> inv_cpu_cores hi'"
    and "inv_devices hi' = xs @ inv_devices hi @ ys"
  shows "satisfies hi' req"
proof -
  have "set (selected_devices req hi) \<subseteq> set (selected_devices req hi')"
    and "length (selected_devices req hi) \<le> length (selected_devices req hi')"
    using assms(3) by (auto simp: selected_devices_def)
  with assms(1,2) show ?thesis
    by (force simp: satisfies_iff)
qed

lemma gpu_family_iff: "is_gpu a \<longleftrightarrow> a \<in> {Cuda, Rocm, Metal, Vulkan}"
  by (cases a) (auto simp: is_gpu_def)

end
