(* ===== verification/Core_Types.thy ===== *)
theory Core_Types
  imports Resource
begin

text \<open>
  The foundation types of \<open>core/\<close>: errors, agents, tasks, crews and messages, with their
  constructors and builder methods. Identifiers and timestamps that the code draws from
  \<open>Uuid::new_v4\<close> and \<open>Utc::now\<close> are arguments.
\<close>

section \<open>Errors (core/error.rs)\<close>

datatype agnosai_error =
    AgentNotFound string
  | TaskNotFound string
  | CrewNotFound string
  | InvalidDefinition string
  | CyclicDAG
  | Scheduling string
  | LlmProvider string
  | ToolExecution string
  | Sandbox string
  | Fleet string
  | Ipc string
  | Serialization string
  | Io string
  | Timeout duration
  | Other string

type_synonym 'a res = "agnosai_error + 'a"

text \<open>\<open>Display\<close>; the debug form of a \<open>Duration\<close> is an argument.\<close>

fun error_display :: "(duration \<Rightarrow> string) \<Rightarrow> agnosai_error \<Rightarrow> string" where
  "error_display dbg (AgentNotFound s) = ''agent not found: '' @ s"
| "error_display dbg (TaskNotFound s) = ''task not found: '' @ s"
| "error_display dbg (CrewNotFound s) = ''crew not found: '' @ s"
| "error_display dbg (InvalidDefinition s) = ''invalid definition: '' @ s"
| "error_display dbg CyclicDAG = ''task DAG contains a cycle''"
| "error_display dbg (Scheduling s) = ''scheduling error: '' @ s"
| "error_display dbg (LlmProvider s) = ''LLM provider error: '' @ s"
| "error_display dbg (ToolExecution s) = ''tool execution error: '' @ s"
| "error_display dbg (Sandbox s) = ''sandbox error: '' @ s"
| "error_display dbg (Fleet s) = ''fleet error: '' @ s"
| "error_display dbg (Ipc s) = ''IPC error: '' @ s"
| "error_display dbg (Serialization s) = ''serialization error: '' @ s"
| "error_display dbg (Io s) = ''I/O error: '' @ s"
| "error_display dbg (Timeout d) = ''timeout after '' @ dbg d"
| "error_display dbg (Other s) = s"

section \<open>JSON values\<close>

text \<open>\<open>serde_json::Value\<close>: its six variants and the accessors the sources call.\<close>

datatype json =
    JNull
  | JBool bool
  | JNumber rat
  | JString string
  | JArray "json list"
  | JObject "(string \<times> json) list"

fun as_str :: "json \<Rightarrow> string option" where
  "as_str (JString s) = Some s"
| "as_str _ = None"

fun as_bool :: "json \<Rightarrow> bool option" where
  "as_bool (JBool b) = Some b"
| "as_bool _ = None"

fun as_array :: "json \<Rightarrow> json list option" where
  "as_array (JArray xs) = Some xs"
| "as_array _ = None"

fun as_object :: "json \<Rightarrow> (string \<times> json) list option" where
  "as_object (JObject m) = Some m"
| "as_object _ = None"

fun json_get :: "string \<Rightarrow> json \<Rightarrow> json option" where
  "json_get k (JObject m) = map_of m k"
| "json_get k _ = None"

section \<open>Agents (core/agent.rs)\<close>

type_synonym agent_id = uuid

text \<open>The personality profile is a type of the bhava crate: the type parameter \<open>'p\<close>.\<close>

record 'p agent_definition =
  agent_key :: string
  agent_name :: string
  agent_role :: string
  agent_goal :: string
  agent_backstory :: "string option"
  agent_domain :: "string option"
  agent_tools :: "string list"
  agent_complexity :: string
  agent_llm_model :: "string option"
  agent_gpu_required :: bool
  agent_gpu_preferred :: bool
  agent_gpu_memory_min_mb :: "u64 option"
  agent_hardware :: "hardware_requirement option"
  agent_personality :: "'p option"

definition default_complexity :: string where
  "default_complexity = ''medium''"

definition agent_definition_new :: "string \<Rightarrow> string \<Rightarrow> string \<Rightarrow> 'p agent_definition" where
  "agent_definition_new key role goal =
     \<lparr> agent_key = key, agent_name = key, agent_role = role, agent_goal = goal,
       agent_backstory = None, agent_domain = None, agent_tools = [],
       agent_complexity = default_complexity, agent_llm_model = None,
       agent_gpu_required = False, agent_gpu_preferred = False,
       agent_gpu_memory_min_mb = None, agent_hardware = None, agent_personality = None \<rparr>"

definition with_tools :: "string list \<Rightarrow> 'p agent_definition \<Rightarrow> 'p agent_definition" where
  "with_tools tools a = a\<lparr>agent_tools := tools\<rparr>"

definition with_domain :: "string \<Rightarrow> 'p agent_definition \<Rightarrow> 'p agent_definition" where
  "with_domain d a = a\<lparr>agent_domain := Some d\<rparr>"

definition with_name :: "string \<Rightarrow> 'p agent_definition \<Rightarrow> 'p agent_definition" where
  "with_name n a = a\<lparr>agent_name := n\<rparr>"

definition with_hardware :: "hardware_requirement \<Rightarrow> 'p agent_definition \<Rightarrow> 'p agent_definition" where
  "with_hardware hw a = a\<lparr>agent_hardware := Some hw\<rparr>"

definition with_personality :: "'p \<Rightarrow> 'p agent_definition \<Rightarrow> 'p agent_definition" where
  "with_personality p a = a\<lparr>agent_personality := Some p\<rparr>"

text \<open>\<open>hardware_requirement\<close>: the explicit field, else the legacy GPU fields.\<close>

definition agent_hardware_requirement :: "'p agent_definition \<Rightarrow> hardware_requirement" where
  "agent_hardware_requirement a =
     (case agent_hardware a of
        Some hw \<Rightarrow> hw
      | None \<Rightarrow>
          (let req = hardware_requirement_default
           in if agent_gpu_required a then
                (let req = req\<lparr>req_accelerators := [Cuda, Rocm]\<rparr>
                 in case agent_gpu_memory_min_mb a of
                      Some mb \<Rightarrow> req\<lparr>req_min_memory_mb := mb\<rparr>
                    | None \<Rightarrow> req)
              else req))"

datatype agent_state = AgIdle | AgAssigned | AgWorking | AgBlocked | AgCompleted | AgFailed

section \<open>Tasks (core/task.rs)\<close>

type_synonym task_id = uuid

datatype task_risk = RiskLow | RiskMedium | RiskHigh

datatype task_priority = Background | Low | Normal | High | Critical

text \<open>The discriminant, \<open>priority as usize\<close>; the derived \<open>Ord\<close> compares discriminants.\<close>

fun tier :: "task_priority \<Rightarrow> nat" where
  "tier Background = 0"
| "tier Low = 1"
| "tier Normal = 2"
| "tier High = 3"
| "tier Critical = 4"

lemma tier_inject [simp]: "tier p = tier q \<longleftrightarrow> p = q"
  by (cases p; cases q) auto

lemma tier_less_5 [simp]: "tier p < 5"
  by (cases p) auto

instantiation task_priority :: linorder
begin

definition less_eq_task_priority :: "task_priority \<Rightarrow> task_priority \<Rightarrow> bool" where
  "less_eq_task_priority p q \<longleftrightarrow> tier p \<le> tier q"

definition less_task_priority :: "task_priority \<Rightarrow> task_priority \<Rightarrow> bool" where
  "less_task_priority p q \<longleftrightarrow> tier p < tier q"

instance
  by standard (auto simp: less_eq_task_priority_def less_task_priority_def)

end

datatype task_status = Pending | Queued | Running | Completed | Failed | Cancelled

record task =
  task_id :: task_id
  task_description :: string
  task_expected_output :: "string option"
  task_assigned_agent :: "agent_id option"
  task_priority :: task_priority
  task_status :: task_status
  task_dependencies :: "task_id list"
  task_context :: "(string, json) hmap"
  task_risk :: task_risk
  task_output_schema :: "json option"

definition task_new :: "uuid \<Rightarrow> string \<Rightarrow> task" where
  "task_new fresh descr =
     \<lparr> task_id = fresh, task_description = descr, task_expected_output = None,
       task_assigned_agent = None, task_priority = Normal, task_status = Pending,
       task_dependencies = [], task_context = hm_empty, task_risk = RiskLow,
       task_output_schema = None \<rparr>"

definition with_expected_output :: "string \<Rightarrow> task \<Rightarrow> task" where
  "with_expected_output out t = t\<lparr>task_expected_output := Some out\<rparr>"

definition with_risk :: "task_risk \<Rightarrow> task \<Rightarrow> task" where
  "with_risk r t = t\<lparr>task_risk := r\<rparr>"

definition with_output_schema :: "json \<Rightarrow> task \<Rightarrow> task" where
  "with_output_schema s t = t\<lparr>task_output_schema := Some s\<rparr>"

definition with_priority :: "task_priority \<Rightarrow> task \<Rightarrow> task" where
  "with_priority p t = t\<lparr>task_priority := p\<rparr>"

definition with_dependency :: "task_id \<Rightarrow> task \<Rightarrow> task" where
  "with_dependency dep t = t\<lparr>task_dependencies := task_dependencies t @ [dep]\<rparr>"

definition with_context :: "string \<Rightarrow> json \<Rightarrow> task \<Rightarrow> task" where
  "with_context k v t = t\<lparr>task_context := hm_insert k v (task_context t)\<rparr>"

record task_result =
  result_task_id :: task_id
  result_output :: string
  result_status :: task_status
  result_metadata :: "(string, json) hmap"

datatype process_mode =
    Sequential
  | Hierarchical agent_id
  | Dag
  | Parallel nat

record task_dag =
  dag_tasks :: "(string, task) hmap"
  dag_edges :: "(string \<times> string) list"
  dag_process :: process_mode

definition task_dag_new ::
    "(string, task) hmap \<Rightarrow> (string \<times> string) list \<Rightarrow> process_mode \<Rightarrow> task_dag" where
  "task_dag_new tasks edges process =
     \<lparr> dag_tasks = tasks, dag_edges = edges, dag_process = process \<rparr>"

section \<open>Crews (core/crew.rs)\<close>

type_synonym crew_id = uuid

record 'p crew_spec =
  crew_id :: crew_id
  crew_name :: string
  crew_agents :: "'p agent_definition list"
  crew_tasks :: "task list"
  crew_process :: process_mode
  crew_metadata :: "(string, json) hmap"
  crew_trust_level :: string

definition default_trust_level :: string where
  "default_trust_level = ''basic''"

definition crew_spec_new :: "uuid \<Rightarrow> string \<Rightarrow> 'p crew_spec" where
  "crew_spec_new fresh name =
     \<lparr> crew_id = fresh, crew_name = name, crew_agents = [], crew_tasks = [],
       crew_process = Sequential, crew_metadata = hm_empty,
       crew_trust_level = default_trust_level \<rparr>"

definition with_agents :: "'p agent_definition list \<Rightarrow> 'p crew_spec \<Rightarrow> 'p crew_spec" where
  "with_agents ags c = c\<lparr>crew_agents := ags\<rparr>"

definition with_tasks :: "task list \<Rightarrow> 'p crew_spec \<Rightarrow> 'p crew_spec" where
  "with_tasks ts c = c\<lparr>crew_tasks := ts\<rparr>"

definition with_process :: "process_mode \<Rightarrow> 'p crew_spec \<Rightarrow> 'p crew_spec" where
  "with_process p c = c\<lparr>crew_process := p\<rparr>"

definition with_trust_level :: "string \<Rightarrow> 'p crew_spec \<Rightarrow> 'p crew_spec" where
  "with_trust_level l c = c\<lparr>crew_trust_level := l\<rparr>"

datatype crew_status = CrPending | CrRunning | CrCompleted | CrFailed | CrCancelled

record crew_profile =
  prof_wall_ms :: u64
  prof_task_ms :: "(task_id, u64) hmap"
  prof_task_count :: nat
  prof_cost_usd :: rat
  prof_agent_cost_usd :: "(string, rat) hmap"
  prof_task_cost_usd :: "(task_id, rat) hmap"
  prof_sandbox_strength :: "u8 option"

record crew_state =
  state_crew_id :: crew_id
  state_status :: crew_status
  state_results :: "task_result list"
  state_profile :: "crew_profile option"

section \<open>Messages (core/message.rs)\<close>

datatype message_target = ToAgent agent_id | ToTopic string | Broadcast

record message =
  msg_id :: uuid
  msg_from :: agent_id
  msg_to :: message_target
  msg_payload :: json
  msg_timestamp :: instant

definition message_new ::
    "uuid \<Rightarrow> instant \<Rightarrow> agent_id \<Rightarrow> message_target \<Rightarrow> json \<Rightarrow> message" where
  "message_new fresh now from to payload =
     \<lparr> msg_id = fresh, msg_from = from, msg_to = to, msg_payload = payload,
       msg_timestamp = now \<rparr>"

section \<open>The legacy hardware fields\<close>

text \<open>What an inventory must have to satisfy an agent that only uses the legacy fields:
  nothing when no GPU is required, else a CUDA or ROCm device, one of them with the
  asked memory when an amount is given.\<close>

lemma legacy_requirement_iff:
  assumes "agent_hardware a = None"
  shows "satisfies hi (agent_hardware_requirement a) \<longleftrightarrow>
    (agent_gpu_required a \<longrightarrow>
      (\<exists>d \<in> set (inv_devices hi). dev_accelerator d \<in> {Cuda, Rocm} \<and>
         (case agent_gpu_memory_min_mb a of None \<Rightarrow> True
          | Some mb \<Rightarrow> mb \<le> dev_memory_total_mb d)))"
  using assms
  by (auto simp: satisfies_iff agent_hardware_requirement_def asks_for_device_def
        selected_devices_def hardware_requirement_default_def Let_def filter_empty_conv
        split: option.splits)

end
