(* ===== verification/Kahn.thy ===== *)
theory Kahn
  imports Core_Types
begin

text \<open>
  The part that the two topological sorts of \<open>orchestrator/scheduler.rs\<close> share: the loop
  over the successors of a finished node, and a locale that proves once, for any way of
  picking the next node from the queue, what Kahn's algorithm promises. The scheduler
  interprets the locale on its FIFO sort and on its priority-heap sort.
\<close>

section \<open>Releasing the successors of a node\<close>

text \<open>
  \<^verbatim>\<open>
  for succ in succs {
      if let Some(deg) = in_degree.get_mut(succ) {
          *deg -= 1;
          if *deg == 0 { queue.push(mk(succ)); }
      }
  }
  \<close>
  \<open>None\<close> is the panic of \<open>*deg -= 1\<close> on a zero \<open>usize\<close>. The queue is the list of its
  entries; \<open>mk\<close> builds the entry (the key itself, or the pair of priority and id).
\<close>

fun relax :: "('a \<Rightarrow> 'e) \<Rightarrow> ('a, nat) hmap \<Rightarrow> 'e list \<Rightarrow> 'a list
    \<Rightarrow> (('a, nat) hmap \<times> 'e list) option" where
  "relax mk deg q [] = Some (deg, q)"
| "relax mk deg q (s # ss) =
     (case hm_get deg s of
        None \<Rightarrow> relax mk deg q ss
      | Some 0 \<Rightarrow> None
      | Some (Suc d) \<Rightarrow> relax mk (hm_insert s d deg) (if d = 0 then q @ [mk s] else q) ss)"

text \<open>What a round of the loop consumes: the open in-degrees and the queue length.\<close>

definition workload :: "('a, nat) hmap \<Rightarrow> 'e list \<Rightarrow> nat" where
  "workload deg q = sum_list (hm_values deg) + length q"

lemma sum_values_insert:
  "hm_get m k = Some v \<Longrightarrow>
     sum_list (hm_values (hm_insert k w m)) + v = sum_list (hm_values m) + (w :: nat)"
  by (induction m) (auto simp: hm_get_def hm_insert_def hm_values_def split: if_splits)

lemma relax_workload:
  "relax mk deg q ss = Some (deg', q') \<Longrightarrow> workload deg' q' \<le> workload deg q"
proof (induction ss arbitrary: deg q)
  case Nil
  then show ?case by simp
next
  case (Cons s ss)
  show ?case
  proof (cases "hm_get deg s")
    case None
    with Cons show ?thesis by simp
  next
    case (Some n)
    with Cons.prems obtain d where d: "n = Suc d" by (cases n) auto
    let ?q = "if d = 0 then q @ [mk s] else q"
    have "relax mk (hm_insert s d deg) ?q ss = Some (deg', q')"
      using Cons.prems Some d by simp
    then have "workload deg' q' \<le> workload (hm_insert s d deg) ?q"
      by (rule Cons.IH)
    moreover have "sum_list (hm_values (hm_insert s d deg)) + Suc d = sum_list (hm_values deg) + d"
      using sum_values_insert [of deg s "Suc d" d] Some d by simp
    ultimately show ?thesis by (simp add: workload_def split: if_splits)
  qed
qed

text \<open>
  The whole effect of the loop, when no in-degree is smaller than the number of times
  its node occurs: it does not panic, every in-degree drops by that number, and exactly
  the nodes whose in-degree reaches zero are pushed, once each.
\<close>

lemma relax_effect:
  assumes "\<And>s d. hm_get deg s = Some d \<Longrightarrow> count_list ss s \<le> d"
  shows "\<exists>deg' new. relax mk deg q ss = Some (deg', q @ map mk new)
    \<and> (\<forall>s. hm_get deg' s = map_option (\<lambda>d. d - count_list ss s) (hm_get deg s))
    \<and> distinct new \<and> set new = {s \<in> set ss. hm_get deg s = Some (count_list ss s)}"
  using assms
proof (induction ss arbitrary: deg q)
  case Nil
  then show ?case by (auto simp: option.map_ident)
next
  case (Cons s ss)
  show ?case
  proof (cases "hm_get deg s")
    case None
    with Cons.prems have "\<And>x d. hm_get deg x = Some d \<Longrightarrow> count_list ss x \<le> d"
      by (metis count_list.simps(2) option.distinct(1))
    from Cons.IH [where q = q, OF this] obtain deg' new where
      "relax mk deg q ss = Some (deg', q @ map mk new)"
      "\<forall>x. hm_get deg' x = map_option (\<lambda>d. d - count_list ss x) (hm_get deg x)"
      "distinct new" "set new = {x \<in> set ss. hm_get deg x = Some (count_list ss x)}"
      by blast
    with None show ?thesis by (intro exI [of _ deg'] exI [of _ new]) auto
  next
    case (Some n)
    with Cons.prems [of s n] obtain d where d: "n = Suc d" "count_list ss s \<le> d"
      by (cases n) auto
    let ?deg = "hm_insert s d deg" and ?q = "if d = 0 then q @ [mk s] else q"
    have "count_list ss x \<le> e" if "hm_get ?deg x = Some e" for x e
      using that d(2) Cons.prems [of x e] by (auto split: if_splits)
    from Cons.IH [where q = ?q, OF this] obtain deg' new where
      IH: "relax mk ?deg ?q ss = Some (deg', ?q @ map mk new)"
        "\<forall>x. hm_get deg' x = map_option (\<lambda>e. e - count_list ss x) (hm_get ?deg x)"
        "distinct new" "set new = {x \<in> set ss. hm_get ?deg x = Some (count_list ss x)}"
      by blast
    let ?new = "if d = 0 then s # new else new"
    have "relax mk deg q (s # ss) = Some (deg', q @ map mk ?new)"
      using Some d IH(1) by simp
    moreover have "\<forall>x. hm_get deg' x = map_option (\<lambda>e. e - count_list (s # ss) x) (hm_get deg x)"
      using Some d IH(2) by auto
    moreover have "s \<notin> set ss" if "d = 0"
      using that d(2) by (simp add: count_list_0_iff)
    then have "distinct ?new"
      using IH(3,4) by auto
    moreover have "set ?new = {x \<in> set (s # ss). hm_get deg x = Some (count_list (s # ss) x)}"
    proof -
      have same: "hm_get ?deg x = Some (count_list ss x) \<longleftrightarrow>
          hm_get deg x = Some (count_list (s # ss) x)" for x
        using Some d(1) by simp
      have "d \<noteq> 0 \<Longrightarrow> s \<notin> set ss \<Longrightarrow> hm_get deg s \<noteq> Some (count_list (s # ss) s)"
        and "d = 0 \<Longrightarrow> hm_get deg s = Some (count_list (s # ss) s)"
        using Some d by (simp_all add: count_list_0_iff)
      moreover have "set new = {x \<in> set ss. hm_get deg x = Some (count_list (s # ss) x)}"
        by (simp only: IH(4) same)
      ultimately show ?thesis
        by (cases "d = 0") (auto simp del: count_list.simps)
    qed
    ultimately show ?thesis by blast
  qed
qed

lemma relax_pushes: "relax mk deg q ss = Some (deg', q') \<Longrightarrow> set q' \<subseteq> set q \<union> range mk"
  by (induction ss arbitrary: deg q) (force split: option.splits nat.splits if_splits)+

text \<open>The loop sees the in-degrees through look-ups only, so the order in which the
  hash map holds them does not matter.\<close>

lemma relax_cong:
  assumes "hm_get deg1 = hm_get deg2"
  shows "rel_option (\<lambda>(d1, q1) (d2, q2). hm_get d1 = hm_get d2 \<and> q1 = q2)
           (relax mk deg1 q ss) (relax mk deg2 q ss)"
  using assms
proof (induction ss arbitrary: deg1 deg2 q)
  case Nil
  then show ?case by simp
next
  case (Cons s ss)
  have "hm_get (hm_insert s d deg1) = hm_get (hm_insert s d deg2)" for d
    using Cons.prems by (simp add: fun_eq_iff)
  with Cons show ?case by (auto split: option.splits nat.splits)
qed

section \<open>Kahn's algorithm for any choice of the next node\<close>

text \<open>
  A graph as the sorts see it: the nodes, the successors of each node as the list the
  inner loop runs over, and the initial in-degree of each node, at least the number of
  times the node occurs among the successors of nodes. It may be more: an edge from a
  node that is not in the graph is counted but never released.
\<close>

locale kahn_graph =
  fixes nodes :: "'a set"
    and succs :: "'a \<Rightarrow> 'a list"
    and indeg :: "'a \<Rightarrow> nat"
  assumes nodes_finite: "finite nodes"
    and indeg_ge: "v \<in> nodes \<Longrightarrow> (\<Sum>u \<in> nodes. count_list (succs u) v) \<le> indeg v"
begin

text \<open>The edges between nodes; the nodes all of whose edges come from nodes; the nodes
  that may run next once \<open>done\<close> are finished.\<close>

definition edges :: "('a \<times> 'a) set" where
  "edges = {(u, v). u \<in> nodes \<and> v \<in> nodes \<and> v \<in> set (succs u)}"

definition grounded :: "'a \<Rightarrow> bool" where
  "grounded v \<longleftrightarrow> indeg v = (\<Sum>u \<in> nodes. count_list (succs u) v)"

definition ready :: "'a set \<Rightarrow> 'a set" where
  "ready fin = {v \<in> nodes - fin. grounded v \<and> (\<forall>u. (u, v) \<in> edges \<longrightarrow> u \<in> fin)}"

text \<open>Every node stands after all its predecessors.\<close>

definition topological :: "'a list \<Rightarrow> bool" where
  "topological order \<longleftrightarrow>
     (\<forall>xs v ys. order = xs @ v # ys \<longrightarrow> (\<forall>u. (u, v) \<in> edges \<longrightarrow> u \<in> set xs))"

definition kahn_inv :: "('a, nat) hmap \<Rightarrow> 'a list \<Rightarrow> 'a list \<Rightarrow> bool" where
  "kahn_inv deg queue order \<longleftrightarrow>
     dom (hm_get deg) = nodes \<and> distinct (order @ queue) \<and> set order \<subseteq> nodes
     \<and> set queue = {v \<in> nodes - set order. hm_get deg v = Some 0}
     \<and> (\<forall>v \<in> set order. hm_get deg v = Some 0)
     \<and> (\<forall>v \<in> nodes. the (hm_get deg v) + (\<Sum>u \<in> set order. count_list (succs u) v) = indeg v)
     \<and> topological order"

lemma kahn_inv_init:
  assumes "dom (hm_get deg) = nodes" and "\<And>v. v \<in> nodes \<Longrightarrow> hm_get deg v = Some (indeg v)"
    and "distinct queue" and "set queue = {v \<in> nodes. indeg v = 0}"
  shows "kahn_inv deg queue []"
proof -
  have "set queue = {v \<in> nodes. hm_get deg v = Some 0}"
    using assms(2,4) by auto
  with assms show ?thesis by (simp add: kahn_inv_def topological_def)
qed

text \<open>A zero in-degree means that the node is grounded and its predecessors are finished,
  and the other way round: the queue is exactly the set of ready nodes.\<close>

lemma zero_indegree_iff:
  assumes inv: "kahn_inv deg queue order" and v: "v \<in> nodes"
  shows "hm_get deg v = Some 0 \<longleftrightarrow> grounded v \<and> (\<forall>u. (u, v) \<in> edges \<longrightarrow> u \<in> set order)"
proof -
  have sub: "set order \<subseteq> nodes" and dom: "hm_get deg v \<noteq> None"
    and eq: "the (hm_get deg v) + (\<Sum>u \<in> set order. count_list (succs u) v) = indeg v"
    using inv v by (auto simp: kahn_inv_def)
  have split: "(\<Sum>u \<in> nodes. count_list (succs u) v) =
      (\<Sum>u \<in> set order. count_list (succs u) v) + (\<Sum>u \<in> nodes - set order. count_list (succs u) v)"
    by (simp add: sum.subset_diff [OF sub nodes_finite] add.commute)
  have rest: "(\<Sum>u \<in> nodes - set order. count_list (succs u) v) = 0 \<longleftrightarrow>
      (\<forall>u. (u, v) \<in> edges \<longrightarrow> u \<in> set order)"
    using v by (auto simp: nodes_finite edges_def count_list_0_iff)
  have "hm_get deg v = Some 0 \<longleftrightarrow> (\<Sum>u \<in> set order. count_list (succs u) v) = indeg v"
    using eq dom by auto
  also have "\<dots> \<longleftrightarrow> grounded v \<and> (\<Sum>u \<in> nodes - set order. count_list (succs u) v) = 0"
    using indeg_ge [OF v] by (auto simp: grounded_def split)
  finally show ?thesis by (simp add: rest)
qed

lemma queue_ready:
  assumes "kahn_inv deg queue order"
  shows "set queue = ready (set order)"
proof -
  have "set queue = {v \<in> nodes - set order. hm_get deg v = Some 0}"
    using assms by (simp add: kahn_inv_def)
  also have "\<dots> = ready (set order)"
    unfolding ready_def using zero_indegree_iff [OF assms] by blast
  finally show ?thesis .
qed

text \<open>Picking any node of the queue and releasing its successors never panics and keeps
  the invariant.\<close>

lemma kahn_step:
  assumes inv: "kahn_inv deg queue order"
    and pick: "mset queue = add_mset v (mset (map el q))"
    and el: "\<And>x. el (mk x) = x"
  shows "\<exists>deg' q'. relax mk deg q (succs v) = Some (deg', q')
    \<and> kahn_inv deg' (map el q') (order @ [v])"
proof -
  have dom: "dom (hm_get deg) = nodes" and dis: "distinct (order @ queue)"
    and sub: "set order \<subseteq> nodes" and q0: "set queue = {v \<in> nodes - set order. hm_get deg v = Some 0}"
    and o0: "\<forall>v \<in> set order. hm_get deg v = Some 0"
    and eq: "\<forall>v \<in> nodes. the (hm_get deg v) + (\<Sum>u \<in> set order. count_list (succs u) v) = indeg v"
    and topo: "topological order"
    using inv by (auto simp: kahn_inv_def)
  have qs: "set queue = insert v (set (map el q))"
    by (metis pick set_mset_add_mset_insert set_mset_mset)
  have dq: "distinct (v # map el q)"
    using dis pick by (metis distinct_append mset.simps(2) mset_eq_imp_distinct_iff)
  have v: "v \<in> nodes" "v \<notin> set order" "hm_get deg v = Some 0"
    using q0 qs by auto
  have sum_v: "(\<Sum>u \<in> set (order @ [v]). count_list (succs u) x) =
      (\<Sum>u \<in> set order. count_list (succs u) x) + count_list (succs v) x" for x
    using v(2) by simp
  have count: "count_list (succs v) x \<le> d" if "hm_get deg x = Some d" for x d
  proof -
    have x: "x \<in> nodes" using that dom by auto
    have "(\<Sum>u \<in> set (order @ [v]). count_list (succs u) x) \<le> (\<Sum>u \<in> nodes. count_list (succs u) x)"
      using sub v(1) by (intro sum_mono2 nodes_finite) auto
    then show ?thesis
      using indeg_ge [OF x] eq x that sum_v [of x] by force
  qed
  obtain deg' new where
    R: "relax mk deg q (succs v) = Some (deg', q @ map mk new)"
    and D: "\<forall>x. hm_get deg' x = map_option (\<lambda>d. d - count_list (succs v) x) (hm_get deg x)"
    and N: "distinct new" "set new = {x \<in> set (succs v). hm_get deg x = Some (count_list (succs v) x)}"
    using relax_effect [of deg "succs v" mk q] count by blast
  have map_el: "map el (q @ map mk new) = map el q @ new"
    using el by (simp add: comp_def)
  have zero: "hm_get deg' x = Some 0 \<longleftrightarrow> hm_get deg x = Some 0 \<or> x \<in> set new" for x
  proof (cases "hm_get deg x")
    case None
    then show ?thesis by (simp add: D N)
  next
    case (Some d)
    with count [OF Some] show ?thesis
      by (auto simp: D N count_list_0_iff count_list_pos_iff)
  qed
  have pos: "x \<notin> set new" if "hm_get deg x = Some 0" for x
    using that by (auto simp: N count_list_0_iff)
  have newn: "set new \<subseteq> nodes" using N dom by auto
  have "kahn_inv deg' (map el q @ new) (order @ [v])"
    unfolding kahn_inv_def
  proof (intro conjI)
    show "dom (hm_get deg') = nodes" using D dom by auto
    show "distinct ((order @ [v]) @ map el q @ new)"
      using dis dq N(1) pos q0 qs o0 v by auto
    show "set (order @ [v]) \<subseteq> nodes" using sub v by auto
    show "set (map el q @ new) = {x \<in> nodes - set (order @ [v]). hm_get deg' x = Some 0}"
      using zero pos newn q0 qs dq o0 v by auto
    show "\<forall>x \<in> set (order @ [v]). hm_get deg' x = Some 0"
      using zero o0 v by auto
    show "\<forall>x \<in> nodes. the (hm_get deg' x) + (\<Sum>u \<in> set (order @ [v]). count_list (succs u) x) = indeg x"
    proof
      fix x assume x: "x \<in> nodes"
      then obtain d where d: "hm_get deg x = Some d" using dom by auto
      then show "the (hm_get deg' x) + (\<Sum>u \<in> set (order @ [v]). count_list (succs u) x) = indeg x"
        unfolding sum_v using count [OF d] eq x D by force
    qed
    have "\<forall>u. (u, v) \<in> edges \<longrightarrow> u \<in> set order"
      using zero_indegree_iff [OF inv v(1)] v(3) by blast
    then show "topological (order @ [v])"
      using topo unfolding topological_def
      by (auto simp: append_eq_append_conv2 append_eq_Cons_conv Cons_eq_append_conv)
  qed
  then show ?thesis using R map_el by auto
qed

text \<open>When the queue is empty the order is complete exactly when the graph has no cycle
  and no node waits for something outside it.\<close>

lemma topological_acyclic:
  assumes "topological order" and "set order = nodes" and "distinct order"
  shows "acyclic edges"
proof -
  define pos where "pos v = length (takeWhile (\<lambda>x. x \<noteq> v) order)" for v
  have "pos u < pos v" if e: "(u, v) \<in> edges" for u v
  proof -
    have "v \<in> set order" using e assms(2) by (auto simp: edges_def)
    then obtain xs ys where o: "order = xs @ v # ys" "v \<notin> set xs"
      by (meson split_list_first)
    then have "u \<in> set xs" using assms(1) e by (auto simp: topological_def)
    then obtain as bs where xs: "xs = as @ u # bs" "u \<notin> set as"
      by (meson split_list_first)
    have "pos v = length xs" using o by (simp add: pos_def takeWhile_neq_first)
    moreover have "pos u = length as" using o xs by (simp add: pos_def takeWhile_neq_first)
    ultimately show ?thesis using xs by simp
  qed
  then have "edges \<subseteq> measure pos" by auto
  then show ?thesis by (meson wf_acyclic wf_measure wf_subset)
qed

lemma kahn_complete:
  assumes inv: "kahn_inv deg [] order"
  shows "set order = nodes \<longleftrightarrow> acyclic edges \<and> (\<forall>v \<in> nodes. grounded v)"
proof
  assume all: "set order = nodes"
  have "topological order" "distinct order" "\<forall>v \<in> nodes. hm_get deg v = Some 0"
    using inv all by (auto simp: kahn_inv_def)
  then show "acyclic edges \<and> (\<forall>v \<in> nodes. grounded v)"
    using topological_acyclic [OF _ all] zero_indegree_iff [OF inv] by blast
next
  assume good: "acyclic edges \<and> (\<forall>v \<in> nodes. grounded v)"
  have sub: "set order \<subseteq> nodes" using inv by (simp add: kahn_inv_def)
  have "edges \<subseteq> nodes \<times> nodes" by (auto simp: edges_def)
  then have "finite edges" using nodes_finite by (meson finite_SigmaI finite_subset)
  then have wf: "wf edges" using good finite_acyclic_wf by blast
  show "set order = nodes"
  proof (rule ccontr)
    assume "set order \<noteq> nodes"
    then obtain v where v: "v \<in> nodes - set order"
      and min: "\<And>u. (u, v) \<in> edges \<Longrightarrow> u \<notin> nodes - set order"
      using sub wfE_min [OF wf, of _ "nodes - set order"] by (metis Diff_eq_empty_iff all_not_in_conv subset_antisym)
    have "u \<in> set order" if "(u, v) \<in> edges" for u
      using min that by (auto simp: edges_def)
    with v good have "hm_get deg v = Some 0"
      using zero_indegree_iff [OF inv] by blast
    with v inv show False by (auto simp: kahn_inv_def)
  qed
qed

lemma kahn_count:
  assumes "kahn_inv deg queue order"
  shows "length order = card nodes \<longleftrightarrow> set order = nodes"
proof -
  have "distinct order" "set order \<subseteq> nodes"
    using assms by (auto simp: kahn_inv_def)
  then show ?thesis
    by (metis card_subset_eq distinct_card nodes_finite)
qed

end

end
