(* ===== verification/Scheduler.thy ===== *)
theory Scheduler
  imports Kahn
begin

text \<open>
  The scheduler, \<open>orchestrator/scheduler.rs\<close>: five FIFO queues, one per priority tier,
  and the DAG of named tasks with its topological sort (Kahn's algorithm over a sorted
  FIFO queue) and the query for ready tasks; and the sort of a task slice by the
  dependency lists of the tasks, over a priority heap.

  A \<open>HashSet\<close> is the distinct list of its elements. A result of type \<open>option\<close> is \<open>None\<close>
  where the code would panic; the theorems show that it never does.
\<close>

section \<open>State and priority queues\<close>

record scheduler =
  sched_queues :: "task list list"
  sched_dag_tasks :: "(string, task) hmap"
  sched_dependents :: "(string, string list) hmap"
  sched_dependencies :: "(string, string list) hmap"
  sched_id_to_key :: "(task_id, string) hmap"

definition scheduler_new :: scheduler where
  "scheduler_new =
     \<lparr> sched_queues = replicate 5 [], sched_dag_tasks = hm_empty, sched_dependents = hm_empty,
       sched_dependencies = hm_empty, sched_id_to_key = hm_empty \<rparr>"

definition enqueue :: "task \<Rightarrow> scheduler \<Rightarrow> scheduler" where
  "enqueue t s =
     (let i = tier (task_priority t)
      in s\<lparr>sched_queues := (sched_queues s)[i := sched_queues s ! i @ [t]]\<rparr>)"

text \<open>The loop of \<open>dequeue\<close> over the tiers, then the call on \<open>(0..5).rev()\<close>.\<close>

fun dequeue_from :: "nat list \<Rightarrow> task list list \<Rightarrow> (task \<times> task list list) option" where
  "dequeue_from [] qs = None"
| "dequeue_from (i # is) qs =
     (case qs ! i of
        [] \<Rightarrow> dequeue_from is qs
      | t # rest \<Rightarrow> Some (t, qs[i := rest]))"

definition dequeue :: "scheduler \<Rightarrow> task option \<times> scheduler" where
  "dequeue s =
     (case dequeue_from (rev [0..<5]) (sched_queues s) of
        None \<Rightarrow> (None, s)
      | Some (t, qs) \<Rightarrow> (Some t, s\<lparr>sched_queues := qs\<rparr>))"

definition scheduler_len :: "scheduler \<Rightarrow> nat" where
  "scheduler_len s = sum_list (map length (sched_queues s))"

definition scheduler_is_empty :: "scheduler \<Rightarrow> bool" where
  "scheduler_is_empty s \<longleftrightarrow> list_all (\<lambda>q. q = []) (sched_queues s)"

section \<open>DAG operations\<close>

text \<open>\<open>entry(k).or_default()\<close> and \<open>entry(k).or_default().insert(x)\<close> on a map to sets.\<close>

definition entry_or_default :: "'k \<Rightarrow> ('k, 'v list) hmap \<Rightarrow> ('k, 'v list) hmap" where
  "entry_or_default k m = (case hm_get m k of None \<Rightarrow> hm_insert k [] m | Some _ \<Rightarrow> m)"

definition entry_insert :: "'k \<Rightarrow> 'v \<Rightarrow> ('k, 'v list) hmap \<Rightarrow> ('k, 'v list) hmap" where
  "entry_insert k x m =
     hm_insert k (List.insert x (case hm_get m k of None \<Rightarrow> [] | Some xs \<Rightarrow> xs)) m"

text \<open>The adjacency maps: forward edges \<open>dependents\<close> and reverse edges \<open>dependencies\<close>.\<close>

definition build_dependents :: "task_dag \<Rightarrow> (string, string list) hmap" where
  "build_dependents dag =
     fold (\<lambda>(src, dst). entry_insert src dst) (dag_edges dag)
       (fold entry_or_default (hm_keys (dag_tasks dag)) hm_empty)"

definition build_dependencies :: "task_dag \<Rightarrow> (string, string list) hmap" where
  "build_dependencies dag =
     fold (\<lambda>(src, dst). entry_insert dst src) (dag_edges dag)
       (fold entry_or_default (hm_keys (dag_tasks dag)) hm_empty)"

text \<open>The \<open>while let Some(node) = queue.pop_front()\<close> loop of \<open>kahn_sort\<close>.\<close>

function kahn_loop :: "(string, string list) hmap \<Rightarrow> (string, nat) hmap \<Rightarrow> string list
    \<Rightarrow> string list \<Rightarrow> string list option" where
  "kahn_loop dependents in_degree [] order = Some order"
| "kahn_loop dependents in_degree (node # queue) order =
     (case (case hm_get dependents node of
              None \<Rightarrow> Some (in_degree, queue)
            | Some succs \<Rightarrow> relax (\<lambda>s. s) in_degree queue (sort succs)) of
        None \<Rightarrow> None
      | Some (in_degree', queue') \<Rightarrow> kahn_loop dependents in_degree' queue' (order @ [node]))"
  by pat_completeness auto
termination
proof (relation "measure (\<lambda>(_, deg, queue, _). workload deg queue)")
  fix dependents :: "(string, string list) hmap" and in_degree :: "(string, nat) hmap"
    and node :: string and queue order :: "string list" and x2 x y
  assume "(case hm_get dependents node of None \<Rightarrow> Some (in_degree, queue)
      | Some succs \<Rightarrow> relax (\<lambda>s. s) in_degree queue (sort succs)) = Some x2" and "(x, y) = x2"
  then have "workload x y \<le> workload in_degree queue"
    using relax_workload by (cases "hm_get dependents node") fastforce+
  then show "((dependents, x, y, order @ [node]), dependents, in_degree, node # queue, order)
      \<in> measure (\<lambda>(_, deg, queue, _). workload deg queue)"
    by (simp add: workload_def)
qed simp

definition initial_in_degree :: "(string, task) hmap \<Rightarrow> (string, string list) hmap \<Rightarrow> (string, nat) hmap" where
  "initial_in_degree tasks dependencies =
     map (\<lambda>k. (k, case hm_get dependencies k of None \<Rightarrow> 0 | Some s \<Rightarrow> length s)) (hm_keys tasks)"

definition kahn_sort :: "(string, task) hmap \<Rightarrow> (string, string list) hmap
    \<Rightarrow> (string, string list) hmap \<Rightarrow> string list res option" where
  "kahn_sort tasks dependents dependencies =
     (let in_degree = initial_in_degree tasks dependencies;
          queue = sort (map fst (filter (\<lambda>(_, deg). deg = 0) in_degree))
      in case kahn_loop dependents in_degree queue [] of
           None \<Rightarrow> None
         | Some order \<Rightarrow>
             Some (if length order \<noteq> hm_len tasks then Inl CyclicDAG else Inr order))"

definition topological_sort :: "task_dag \<Rightarrow> string list res option" where
  "topological_sort dag = kahn_sort (dag_tasks dag) (build_dependents dag) (build_dependencies dag)"

definition load_dag :: "task_dag \<Rightarrow> scheduler \<Rightarrow> (unit res \<times> scheduler) option" where
  "load_dag dag s =
     (let dependents = build_dependents dag; dependencies = build_dependencies dag
      in case kahn_sort (dag_tasks dag) dependents dependencies of
           None \<Rightarrow> None
         | Some (Inl e) \<Rightarrow> Some (Inl e, s)
         | Some (Inr _) \<Rightarrow>
             Some (Inr (),
               s\<lparr> sched_dag_tasks := dag_tasks dag,
                  sched_dependents := dependents,
                  sched_dependencies := dependencies,
                  sched_id_to_key :=
                    fold (\<lambda>(key, t). hm_insert (task_id t) key) (dag_tasks dag) hm_empty \<rparr>))"

definition ready_tasks :: "task_id list \<Rightarrow> scheduler \<Rightarrow> task list" where
  "ready_tasks completed s =
     (let completed_keys = List.map_filter (hm_get (sched_id_to_key s)) completed;
          ready = map snd (filter (\<lambda>(key, t).
             task_id t \<notin> set completed \<and>
             (case hm_get (sched_dependencies s) key of
                None \<Rightarrow> True
              | Some deps \<Rightarrow> list_all (\<lambda>d. d \<in> set completed_keys) deps)) (sched_dag_tasks s))
      in sort_desc task_priority ready)"

section \<open>Sorting a slice of tasks\<close>

text \<open>A \<open>BinaryHeap\<close> of pairs is the list of its entries; \<open>pop\<close> removes a greatest one.\<close>

definition heap_pop :: "'e::linorder list \<Rightarrow> ('e \<times> 'e list) option" where
  "heap_pop h = map_option (\<lambda>m. (m, remove1 m h)) (max_by_key (\<lambda>e. e) h)"

text \<open>The nested loops that count the dependencies inside the slice.\<close>

definition count_dependency :: "task_id \<Rightarrow> task_id
    \<Rightarrow> (task_id, nat) hmap \<times> (task_id, task_id list) hmap
    \<Rightarrow> (task_id, nat) hmap \<times> (task_id, task_id list) hmap" where
  "count_dependency tid dep = (\<lambda>(in_degree, dependents).
     (hm_insert tid (Suc (case hm_get in_degree tid of None \<Rightarrow> 0 | Some d \<Rightarrow> d)) in_degree,
      hm_insert dep ((case hm_get dependents dep of None \<Rightarrow> [] | Some cs \<Rightarrow> cs) @ [tid]) dependents))"

definition build_task_graph :: "task list
    \<Rightarrow> (task_id, nat) hmap \<times> (task_id, task_id list) hmap" where
  "build_task_graph tasks =
     (let ids = map task_id tasks
      in fold (\<lambda>t. fold (\<lambda>dep. if dep \<in> set ids then count_dependency (task_id t) dep else (\<lambda>st. st))
                     (task_dependencies t))
           tasks
           (fold (\<lambda>t. hm_insert (task_id t) 0) tasks hm_empty, hm_empty))"

definition priority_of :: "(task_id, task_priority) hmap \<Rightarrow> task_id \<Rightarrow> task_priority" where
  "priority_of pm i = (case hm_get pm i of None \<Rightarrow> Normal | Some p \<Rightarrow> p)"

function topo_loop :: "(task_id, task_id list) hmap \<Rightarrow> (task_id, task_priority) hmap
    \<Rightarrow> (task_id, nat) hmap \<Rightarrow> (task_priority \<times> task_id) list \<Rightarrow> task_id list
    \<Rightarrow> task_id list option" where
  "topo_loop dependents pm in_degree queue order =
     (case heap_pop queue of
        None \<Rightarrow> Some order
      | Some ((_, i), queue') \<Rightarrow>
          (case (case hm_get dependents i of
                   None \<Rightarrow> Some (in_degree, queue')
                 | Some children \<Rightarrow>
                     relax (\<lambda>c. (priority_of pm c, c)) in_degree queue' children) of
             None \<Rightarrow> None
           | Some (in_degree', queue'') \<Rightarrow>
               topo_loop dependents pm in_degree' queue'' (order @ [i])))"
  by pat_completeness auto

lemma heap_pop_Some:
  "heap_pop h = Some (m, h') \<Longrightarrow>
     m \<in> set h \<and> mset h = add_mset m (mset h') \<and> (\<forall>x \<in> set h. x \<le> m) \<and> length h = Suc (length h')"
  by (auto simp: heap_pop_def length_remove1 dest!: max_by_key_Some)
    (metis Suc_pred length_pos_if_in_set)

lemma heap_pop_Nil [simp]: "heap_pop [] = None"
  by (simp add: heap_pop_def)

lemma heap_pop_None [simp]: "heap_pop h = None \<longleftrightarrow> h = []"
  by (simp add: heap_pop_def)

termination topo_loop
proof (relation "measure (\<lambda>(_, _, deg, queue, _). workload deg queue)", goal_cases)
  case 1
  then show ?case by simp
next
  case (2 dependents pm in_degree queue order x2 x y xa ya x2a xb yb)
  then have "workload xb yb \<le> workload in_degree y"
    using relax_workload by (cases "hm_get dependents ya") fastforce+
  moreover have "length queue = Suc (length y)"
    using 2 heap_pop_Some [of queue "(xa, ya)" y] by simp
  ultimately show ?case by (simp add: workload_def)
qed

definition topological_sort_tasks :: "task list \<Rightarrow> task_id list res option" where
  "topological_sort_tasks tasks =
     (let (in_degree, dependents) = build_task_graph tasks;
          pm = fold (\<lambda>t. hm_insert (task_id t) (task_priority t)) tasks hm_empty;
          queue = map (\<lambda>(i, _). (priority_of pm i, i)) (filter (\<lambda>(_, deg). deg = 0) in_degree)
      in case topo_loop dependents pm in_degree queue [] of
           None \<Rightarrow> None
         | Some order \<Rightarrow>
             Some (if length order \<noteq> length tasks then Inl CyclicDAG else Inr order))"

section \<open>The priority queues sort stably\<close>

text \<open>Taking up to \<open>n\<close> elements out of a queue.\<close>

primrec drain :: "('q \<Rightarrow> 'a option \<times> 'q) \<Rightarrow> nat \<Rightarrow> 'q \<Rightarrow> 'a list" where
  "drain deq 0 q = []"
| "drain deq (Suc n) q = (case deq q of (None, _) \<Rightarrow> [] | (Some x, q') \<Rightarrow> x # drain deq n q')"

text \<open>
  The contract of a queue that is FIFO within a priority: \<open>rep q xs\<close> says that \<open>q\<close> holds
  the elements \<open>xs\<close>, in order of arrival. An element that leaves is the first of the
  greatest.
\<close>

locale fifo_priority_queue =
  fixes rep :: "'q \<Rightarrow> 'a list \<Rightarrow> bool"
    and init :: "'q"
    and enq :: "'a \<Rightarrow> 'q \<Rightarrow> 'q"
    and deq :: "'q \<Rightarrow> 'a option \<times> 'q"
    and prio :: "'a \<Rightarrow> 'p::linorder"
  assumes rep_init: "rep init []"
    and rep_enq: "rep q xs \<Longrightarrow> rep (enq x q) (xs @ [x])"
    and rep_deq_Nil: "rep q [] \<Longrightarrow> deq q = (None, q)"
    and rep_deq: "rep q xs \<Longrightarrow> xs \<noteq> [] \<Longrightarrow>
      \<exists>ys x zs q'. xs = ys @ x # zs \<and> deq q = (Some x, q') \<and> rep q' (ys @ zs)
        \<and> (\<forall>y \<in> set ys. prio y < prio x) \<and> (\<forall>z \<in> set zs. prio z \<le> prio x)"
begin

lemma rep_enq_all: "rep q xs \<Longrightarrow> rep (fold enq ys q) (xs @ ys)"
proof (induction ys arbitrary: q xs)
  case Nil
  then show ?case by simp
next
  case (Cons y ys)
  from Cons.IH [OF rep_enq [OF Cons.prems]] show ?case by simp
qed

lemma drain_sorts: "rep q xs \<Longrightarrow> length xs \<le> n \<Longrightarrow> drain deq n q = sort_desc prio xs"
proof (induction n arbitrary: q xs)
  case 0
  then show ?case by simp
next
  case (Suc n)
  show ?case
  proof (cases "xs = []")
    case True
    with Suc.prems show ?thesis by (simp add: rep_deq_Nil)
  next
    case False
    with Suc.prems obtain ys x zs q' where s: "xs = ys @ x # zs" "deq q = (Some x, q')"
      "rep q' (ys @ zs)" "\<forall>y \<in> set ys. prio y < prio x" "\<forall>z \<in> set zs. prio z \<le> prio x"
      using rep_deq by blast
    with Suc.IH [of q' "ys @ zs"] Suc.prems show ?thesis
      by (simp add: sort_desc_select)
  qed
qed

lemma drain_enq_all: "drain deq (length ys) (fold enq ys init) = sort_desc prio ys"
  using rep_enq_all [OF rep_init, of ys] by (simp add: drain_sorts)

end

text \<open>
  The weaker contract of a queue that only promises the priorities: \<open>holds q M\<close> says that
  \<open>q\<close> holds the elements of \<open>M\<close>, and an element that leaves is one of the greatest.
\<close>

locale priority_pool =
  fixes holds :: "'q \<Rightarrow> 'a multiset \<Rightarrow> bool"
    and init :: "'q"
    and enq :: "'a \<Rightarrow> 'q \<Rightarrow> 'q"
    and deq :: "'q \<Rightarrow> 'a option \<times> 'q"
    and prio :: "'a \<Rightarrow> 'p::linorder"
  assumes holds_init: "holds init {#}"
    and holds_enq: "holds q M \<Longrightarrow> holds (enq x q) (add_mset x M)"
    and holds_deq_empty: "holds q {#} \<Longrightarrow> deq q = (None, q)"
    and holds_deq: "holds q M \<Longrightarrow> M \<noteq> {#} \<Longrightarrow>
      \<exists>x q'. deq q = (Some x, q') \<and> x \<in># M \<and> holds q' (M - {#x#}) \<and> (\<forall>y \<in># M. prio y \<le> prio x)"
begin

lemma deq_None: "holds q M \<Longrightarrow> deq q = (None, q') \<Longrightarrow> M = {#} \<and> q' = q"
  using holds_deq holds_deq_empty by fastforce

lemma deq_Some:
  assumes "holds q M" and "deq q = (Some x, q')"
  shows "x \<in># M" and "holds q' (M - {#x#})" and "\<forall>y \<in># M. prio y \<le> prio x"
proof -
  have "M \<noteq> {#}" using assms holds_deq_empty by fastforce
  from holds_deq [OF assms(1) this] assms(2)
  show "x \<in># M" "holds q' (M - {#x#})" "\<forall>y \<in># M. prio y \<le> prio x" by auto
qed

end

text \<open>A queue that is FIFO within a priority keeps the weaker contract.\<close>

sublocale fifo_priority_queue \<subseteq> pool: priority_pool "\<lambda>q M. \<exists>xs. rep q xs \<and> mset xs = M" init enq deq prio
proof unfold_locales
  show "\<exists>xs. rep init xs \<and> mset xs = {#}" using rep_init by auto
  show "\<exists>ys. rep (enq x q) ys \<and> mset ys = add_mset x M" if "\<exists>xs. rep q xs \<and> mset xs = M" for q M x
    using that rep_enq by fastforce
  show "deq q = (None, q)" if "\<exists>xs. rep q xs \<and> mset xs = {#}" for q
    using that rep_deq_Nil by auto
  show "\<exists>x q'. deq q = (Some x, q') \<and> x \<in># M \<and> (\<exists>ys. rep q' ys \<and> mset ys = M - {#x#})
      \<and> (\<forall>y \<in># M. prio y \<le> prio x)"
    if "\<exists>xs. rep q xs \<and> mset xs = M" "M \<noteq> {#}" for q M
  proof -
    from that obtain xs where xs: "rep q xs" "mset xs = M" "xs \<noteq> []" by auto
    from rep_deq [OF xs(1,3)] obtain ys x zs q' where d: "xs = ys @ x # zs" "deq q = (Some x, q')"
      "rep q' (ys @ zs)" "\<forall>y \<in> set ys. prio y < prio x" "\<forall>z \<in> set zs. prio z \<le> prio x"
      by blast
    have "\<forall>y \<in> set ys. prio y \<le> prio x" using d(4) less_imp_le by blast
    then have "mset (ys @ zs) = M - {#x#}" "\<forall>y \<in># M. prio y \<le> prio x"
      using d(1,5) xs(2) by auto
    with d xs(2) show ?thesis by (metis in_multiset_in_set in_set_conv_decomp)
  qed
qed


text \<open>Queue \<open>i\<close> holds the tasks of tier \<open>i\<close> in order of arrival.\<close>

definition queues_hold :: "scheduler \<Rightarrow> task list \<Rightarrow> bool" where
  "queues_hold s xs \<longleftrightarrow> length (sched_queues s) = 5 \<and>
     (\<forall>i < 5. sched_queues s ! i = filter (\<lambda>t. tier (task_priority t) = i) xs)"

lemma rev_upt_5: "rev [0..<5] = [4, 3, 2, 1, 0 :: nat]"
  by (simp add: upt_rec)

lemma dequeue_from_None: "dequeue_from is qs = None \<longleftrightarrow> (\<forall>i \<in> set is. qs ! i = [])"
  by (induction "is") (auto split: list.splits)

lemma dequeue_from_Some:
  "dequeue_from is qs = Some (t, qs') \<Longrightarrow>
     \<exists>as i bs rest. is = as @ i # bs \<and> (\<forall>a \<in> set as. qs ! a = []) \<and> qs ! i = t # rest
       \<and> qs' = qs[i := rest]"
proof (induction "is")
  case Nil
  then show ?case by simp
next
  case (Cons j js)
  show ?case
  proof (cases "qs ! j")
    case Nil
    with Cons obtain as i bs rest where "js = as @ i # bs" "\<forall>a \<in> set as. qs ! a = []"
      "qs ! i = t # rest" "qs' = qs[i := rest]" by auto
    with Nil have "j # js = (j # as) @ i # bs" "\<forall>a \<in> set (j # as). qs ! a = []" by auto
    with \<open>qs ! i = t # rest\<close> \<open>qs' = qs[i := rest]\<close> show ?thesis by blast
  next
    case (Cons u us)
    with Cons.prems have "j # js = [] @ j # js" "qs ! j = t # us" "qs' = qs[j := us]" by auto
    then show ?thesis by (metis empty_iff empty_set)
  qed
qed

lemma tiers_above:
  assumes "rev [0..<5] = as @ i # bs"
  shows "i < 5" and "\<And>j. i < j \<Longrightarrow> j < 5 \<Longrightarrow> j \<in> set as"
  using assms unfolding rev_upt_5 by (auto simp: Cons_eq_append_conv)

lemma queues_hold_dequeue:
  assumes "queues_hold s xs" and "xs \<noteq> []"
  shows "\<exists>ys x zs s'. xs = ys @ x # zs \<and> dequeue s = (Some x, s') \<and> queues_hold s' (ys @ zs)
    \<and> (\<forall>y \<in> set ys. task_priority y < task_priority x)
    \<and> (\<forall>z \<in> set zs. task_priority z \<le> task_priority x)"
proof -
  let ?qs = "sched_queues s" and ?of = "\<lambda>i t. tier (task_priority t) = i"
  have len: "length ?qs = 5" and q: "\<And>i. i < 5 \<Longrightarrow> ?qs ! i = filter (?of i) xs"
    using assms(1) by (auto simp: queues_hold_def)
  obtain t where t: "t \<in> set xs" using assms(2) by (meson last_in_set)
  then have "?qs ! tier (task_priority t) \<noteq> []"
    by (auto simp: q filter_empty_conv)
  then have "dequeue_from (rev [0..<5]) ?qs \<noteq> None"
    by (auto simp: dequeue_from_None)
  then obtain x qs' where d: "dequeue_from (rev [0..<5]) ?qs = Some (x, qs')" by auto
  then obtain as i bs rest where i: "rev [0..<5] = as @ i # bs" "\<forall>a \<in> set as. ?qs ! a = []"
    "?qs ! i = x # rest" "qs' = ?qs[i := rest]"
    using dequeue_from_Some by blast
  note above = tiers_above [OF i(1)]
  have "filter (?of i) xs = x # rest" using q [OF above(1)] i(3) by simp
  then obtain ys zs where s: "xs = ys @ x # zs" "\<forall>y \<in> set ys. \<not> ?of i y" "?of i x"
    "rest = filter (?of i) zs" by (auto simp: filter_eq_Cons_iff)
  have le: "tier (task_priority y) \<le> i" if "y \<in> set xs" for y
  proof (rule ccontr)
    let ?j = "tier (task_priority y)"
    assume "\<not> ?j \<le> i"
    then have "?qs ! ?j = []" using above(2) [of ?j] i(2) by auto
    then show False using that q [of ?j] by (auto simp: filter_empty_conv)
  qed
  have "queues_hold (s\<lparr>sched_queues := qs'\<rparr>) (ys @ zs)"
    using len q s i(4) by (auto simp: queues_hold_def nth_list_update filter_empty_conv)
  moreover have "\<forall>y \<in> set ys. task_priority y < task_priority x"
    using le s(1-3) by (auto simp: less_task_priority_def intro: le_neq_implies_less)
  moreover have "\<forall>z \<in> set zs. task_priority z \<le> task_priority x"
    using le s by (auto simp: less_eq_task_priority_def)
  ultimately show ?thesis using s(1) d by (auto simp: dequeue_def)
qed

interpretation sq: fifo_priority_queue queues_hold scheduler_new enqueue dequeue task_priority
proof unfold_locales
  show "queues_hold scheduler_new []"
    by (simp add: queues_hold_def scheduler_new_def)
  show "queues_hold (enqueue x q) (xs @ [x])" if "queues_hold q xs" for q xs x
    using that by (auto simp: queues_hold_def enqueue_def Let_def nth_list_update)
  show "dequeue q = (None, q)" if "queues_hold q []" for q
  proof -
    have "dequeue_from (rev [0..<5]) (sched_queues q) = None"
      using that by (simp add: dequeue_from_None queues_hold_def)
    then show ?thesis by (simp add: dequeue_def)
  qed
qed (rule queues_hold_dequeue)

text \<open>The scheduler's queues as a priority pool: \<open>dequeue\<close> returns a task of the greatest priority.\<close>

lemma dequeue_greatest:
  assumes "queues_hold s xs" and "dequeue s = (Some t, s')"
  shows "t \<in> set xs" and "\<forall>u \<in> set xs. task_priority u \<le> task_priority t"
  using sq.pool.deq_Some(1,3) [of s "mset xs" t s'] assms by auto

section \<open>The DAG sort\<close>

text \<open>The set stored under a key, empty when there is no entry.\<close>

definition adj :: "('k, 'v list) hmap \<Rightarrow> 'k \<Rightarrow> 'v list" where
  "adj m k = (case hm_get m k of None \<Rightarrow> [] | Some xs \<Rightarrow> xs)"

lemma adj_empty [simp]: "adj hm_empty k = []"
  by (simp add: adj_def)

lemma adj_entry_or_default [simp]: "adj (entry_or_default k m) k' = adj m k'"
  by (auto simp: adj_def entry_or_default_def split: option.splits)

lemma adj_entry_insert [simp]:
  "adj (entry_insert k x m) k' = (if k' = k then List.insert x (adj m k) else adj m k')"
  by (simp add: adj_def entry_insert_def)

lemma adj_fold_default [simp]: "adj (fold entry_or_default ks m) k = adj m k"
  by (induction ks arbitrary: m) auto

lemma adj_fold_insert:
  assumes "\<And>k. distinct (adj m k)"
  shows "distinct (adj (fold (\<lambda>e. entry_insert (f e) (g e)) es m) k)
    \<and> set (adj (fold (\<lambda>e. entry_insert (f e) (g e)) es m) k) =
        set (adj m k) \<union> {g e | e. e \<in> set es \<and> f e = k}"
  using assms
proof (induction es arbitrary: m)
  case Nil
  then show ?case by simp
next
  case (Cons e es)
  have "\<And>k. distinct (adj (entry_insert (f e) (g e) m) k)"
    using Cons.prems by simp
  from Cons.IH [OF this] show ?case by auto
qed

lemma build_dependents_adj:
  "distinct (adj (build_dependents dag) u)"
  "set (adj (build_dependents dag) u) = {v. (u, v) \<in> set (dag_edges dag)}"
  using adj_fold_insert [of "fold entry_or_default (hm_keys (dag_tasks dag)) hm_empty" fst snd "dag_edges dag" u]
  by (auto simp: build_dependents_def case_prod_unfold)

lemma build_dependencies_adj:
  "distinct (adj (build_dependencies dag) v)"
  "set (adj (build_dependencies dag) v) = {u. (u, v) \<in> set (dag_edges dag)}"
  using adj_fold_insert [of "fold entry_or_default (hm_keys (dag_tasks dag)) hm_empty" snd fst "dag_edges dag" v]
  by (auto simp: build_dependencies_def case_prod_unfold)

definition dag_nodes :: "task_dag \<Rightarrow> string set" where
  "dag_nodes dag = set (hm_keys (dag_tasks dag))"

definition dag_succs :: "task_dag \<Rightarrow> string \<Rightarrow> string list" where
  "dag_succs dag u = sort (adj (build_dependents dag) u)"

definition dag_indeg :: "task_dag \<Rightarrow> string \<Rightarrow> nat" where
  "dag_indeg dag v = length (adj (build_dependencies dag) v)"

lemma dag_succs_count:
  "count_list (dag_succs dag u) v = (if (u, v) \<in> set (dag_edges dag) then 1 else 0)"
  by (simp add: dag_succs_def count_list_distinct build_dependents_adj)

lemma dag_pred_count:
  "(\<Sum>u \<in> dag_nodes dag. count_list (dag_succs dag u) v) =
     card {u \<in> dag_nodes dag. (u, v) \<in> set (dag_edges dag)}"
  by (simp add: dag_succs_count dag_nodes_def sum.If_cases Int_def)

lemma dag_indeg_card: "dag_indeg dag v = card {u. (u, v) \<in> set (dag_edges dag)}"
  unfolding build_dependencies_adj(2) [symmetric] dag_indeg_def
  by (rule distinct_card [OF build_dependencies_adj(1), symmetric])

lemma dag_preds_finite: "finite {u. (u, v) \<in> set (dag_edges (dag :: task_dag))}"
  unfolding build_dependencies_adj(2) [symmetric] by (rule List.finite_set)

interpretation dg: kahn_graph "dag_nodes dag" "dag_succs dag" "dag_indeg dag" for dag
proof unfold_locales
  show "finite (dag_nodes dag)" by (simp add: dag_nodes_def)
  show "(\<Sum>u \<in> dag_nodes dag. count_list (dag_succs dag u) v) \<le> dag_indeg dag v" for v
    unfolding dag_pred_count dag_indeg_card by (rule card_mono [OF dag_preds_finite]) auto
qed

lemma dag_edges_iff:
  "(u, v) \<in> dg.edges dag \<longleftrightarrow>
     u \<in> dag_nodes dag \<and> v \<in> dag_nodes dag \<and> (u, v) \<in> set (dag_edges dag)"
  by (simp add: dg.edges_def dag_succs_def build_dependents_adj)

lemma dag_grounded_iff:
  "dg.grounded dag v \<longleftrightarrow> (\<forall>u. (u, v) \<in> set (dag_edges dag) \<longrightarrow> u \<in> dag_nodes dag)"
proof -
  let ?P = "{u. (u, v) \<in> set (dag_edges dag)}"
  have sub: "{u \<in> dag_nodes dag. (u, v) \<in> set (dag_edges dag)} \<subseteq> ?P" by auto
  have "dg.grounded dag v \<longleftrightarrow> card ?P = card {u \<in> dag_nodes dag. (u, v) \<in> set (dag_edges dag)}"
    by (simp only: dg.grounded_def dag_pred_count dag_indeg_card)
  also have "\<dots> \<longleftrightarrow> {u \<in> dag_nodes dag. (u, v) \<in> set (dag_edges dag)} = ?P"
  proof
    assume "card ?P = card {u \<in> dag_nodes dag. (u, v) \<in> set (dag_edges dag)}"
    then show "{u \<in> dag_nodes dag. (u, v) \<in> set (dag_edges dag)} = ?P"
      by (intro card_subset_eq [OF dag_preds_finite sub]) (rule sym)
  qed (rule arg_cong [of _ _ card, symmetric])
  finally show ?thesis by auto
qed

text \<open>The loop ends, without a panic, in a state of the invariant with an empty queue.\<close>

lemma kahn_loop_unfold:
  "kahn_loop (build_dependents dag) deg (node # queue) order =
     (case relax (\<lambda>s. s) deg queue (dag_succs dag node) of
        None \<Rightarrow> None
      | Some (deg', queue') \<Rightarrow> kahn_loop (build_dependents dag) deg' queue' (order @ [node]))"
  by (simp add: dag_succs_def adj_def split: option.splits)

lemma kahn_loop_inv:
  "dg.kahn_inv dag deg queue order \<Longrightarrow>
     \<exists>order' deg'. kahn_loop (build_dependents dag) deg queue order = Some order'
       \<and> dg.kahn_inv dag deg' [] order'"
proof (induction "build_dependents dag" deg queue order rule: kahn_loop.induct)
  case (1 deg order)
  then show ?case by auto
next
  case (2 deg node queue order)
  obtain deg' queue' where
    step: "relax (\<lambda>s. s) deg queue (dag_succs dag node) = Some (deg', queue')"
      "dg.kahn_inv dag deg' queue' (order @ [node])"
    using dg.kahn_step [OF 2(2), of node "\<lambda>s. s" queue "\<lambda>s. s"] by auto
  moreover from step(1) have "(case hm_get (build_dependents dag) node of None \<Rightarrow> Some (deg, queue)
      | Some succs \<Rightarrow> relax (\<lambda>s. s) deg queue (sort succs)) = Some (deg', queue')"
    by (simp add: dag_succs_def adj_def split: option.splits)
  ultimately show ?case
    using 2(1) by (auto simp: kahn_loop_unfold simp del: kahn_loop.simps)
qed

lemma initial_in_degree_get:
  "hm_get (initial_in_degree tasks deps) k =
     (if k \<in> set (hm_keys tasks) then Some (length (adj deps k)) else None)"
  unfolding hm_get_def initial_in_degree_def map_of_map_key
  by (simp add: adj_def hm_get_def split: option.splits)

text \<open>What \<open>topological_sort\<close> computes, in the terms of the graph.\<close>

lemma topological_sort_run:
  assumes "hm_wf (dag_tasks dag)"
  shows "\<exists>order deg. dg.kahn_inv dag deg [] order \<and>
    topological_sort dag =
      Some (if set order = dag_nodes dag then Inr order else Inl CyclicDAG)"
proof -
  let ?deg = "initial_in_degree (dag_tasks dag) (build_dependencies dag)"
  let ?queue = "sort (map fst (filter (\<lambda>(_, deg). deg = 0) ?deg))"
  have get: "hm_get ?deg v = (if v \<in> dag_nodes dag then Some (dag_indeg dag v) else None)" for v
    by (simp add: initial_in_degree_get dag_nodes_def dag_indeg_def)
  have keys: "map fst ?deg = hm_keys (dag_tasks dag)"
    by (simp add: initial_in_degree_def comp_def)
  have wf: "hm_wf ?deg"
    using assms keys by (simp add: hm_wf_def hm_keys_def)
  then have "set ?queue = {v. hm_get ?deg v = Some 0}"
    by (force simp: hm_get_mem)
  also have "\<dots> = {v \<in> dag_nodes dag. dag_indeg dag v = 0}"
    by (auto simp: get split: if_splits)
  finally have "dg.kahn_inv dag ?deg ?queue []"
    using wf by (intro dg.kahn_inv_init) (auto simp: get hm_wf_def distinct_map_filter split: if_splits)
  then obtain order deg where run: "kahn_loop (build_dependents dag) ?deg ?queue [] = Some order"
    "dg.kahn_inv dag deg [] order"
    using kahn_loop_inv by blast
  have "hm_len (dag_tasks dag) = card (dag_nodes dag)"
    using assms by (metis distinct_card dag_nodes_def hm_keys_def hm_len_def hm_wf_def length_map)
  then have "length order = hm_len (dag_tasks dag) \<longleftrightarrow> set order = dag_nodes dag"
    using dg.kahn_count [OF run(2)] by simp
  with run show ?thesis
    by (auto simp: topological_sort_def kahn_sort_def Let_def simp del: kahn_loop.simps)
qed

lemma dag_closed_iff:
  "(\<forall>v \<in> dag_nodes dag. dg.grounded dag v) \<longleftrightarrow>
     (\<forall>(u, v) \<in> set (dag_edges dag). v \<in> dag_nodes dag \<longrightarrow> u \<in> dag_nodes dag)"
  by (auto simp: dag_grounded_iff)

lemma dag_edges_set:
  "dg.edges dag = {(u, v) \<in> set (dag_edges dag). u \<in> dag_nodes dag \<and> v \<in> dag_nodes dag}"
  using dag_edges_iff by auto

lemma topological_sort_Inr:
  assumes "hm_wf (dag_tasks dag)" and "topological_sort dag = Some (Inr order)"
  shows "distinct order" and "set order = dag_nodes dag" and "dg.topological dag order"
    and "\<And>u v. (u, v) \<in> set (dag_edges dag) \<Longrightarrow> v \<in> dag_nodes dag \<Longrightarrow> u \<in> dag_nodes dag"
proof -
  obtain o' deg where inv: "dg.kahn_inv dag deg [] o'"
    and run: "topological_sort dag = Some (if set o' = dag_nodes dag then Inr o' else Inl CyclicDAG)"
    using topological_sort_run [OF assms(1)] by blast
  then have eq: "o' = order" "set order = dag_nodes dag"
    using assms(2) by (auto split: if_splits)
  then show "distinct order" "set order = dag_nodes dag" "dg.topological dag order"
    using inv by (auto simp: dg.kahn_inv_def)
  show "u \<in> dag_nodes dag" if "(u, v) \<in> set (dag_edges dag)" "v \<in> dag_nodes dag" for u v
    using dg.kahn_complete [OF inv] eq that by (auto simp: dag_closed_iff)
qed

text \<open>The sort depends on the tasks and edges as sets only.\<close>

lemma kahn_loop_cong:
  assumes "dag_succs d1 = dag_succs d2"
  shows "hm_get deg1 = hm_get deg2 \<Longrightarrow>
    kahn_loop (build_dependents d1) deg1 queue order = kahn_loop (build_dependents d2) deg2 queue order"
proof (induction "build_dependents d1" deg1 queue order arbitrary: deg2 rule: kahn_loop.induct)
  case (1 deg order)
  then show ?case by simp
next
  case (2 deg node queue order)
  let ?r = "\<lambda>dg. relax (\<lambda>s. s) dg queue (dag_succs d2 node)"
  have rel: "rel_option (\<lambda>(x1, q1) (x2, q2). hm_get x1 = hm_get x2 \<and> q1 = q2) (?r deg) (?r deg2)"
    by (rule relax_cong [OF 2(2)])
  have IH: "kahn_loop (build_dependents d1) x q (order @ [node]) = kahn_loop (build_dependents d2) x' q (order @ [node])"
    if "?r deg = Some (x, q)" "hm_get x = hm_get x'" for x x' q
  proof (rule 2(1) [OF _ refl that(2)])
    show "(case hm_get (build_dependents d1) node of None \<Rightarrow> Some (deg, queue)
       | Some succs \<Rightarrow> relax (\<lambda>s. s) deg queue (sort succs)) = Some (x, q)"
      using that(1) unfolding assms [symmetric]
      by (simp add: dag_succs_def adj_def split: option.splits)
  qed
  show ?case
  proof (cases "?r deg")
    case None
    with rel show ?thesis by (simp only: kahn_loop_unfold assms) simp
  next
    case (Some xq)
    then obtain x q x' where "?r deg = Some (x, q)" "?r deg2 = Some (x', q)" "hm_get x = hm_get x'"
      using rel by (cases xq) (auto simp: option_rel_Some1)
    with IH [of x q x'] show ?thesis by (simp only: kahn_loop_unfold assms) simp
  qed
qed

lemma sort_eq_iff_set: "distinct xs \<Longrightarrow> distinct ys \<Longrightarrow> set xs = set ys \<Longrightarrow> sort xs = sort ys"
  by (simp add: sorted_distinct_set_unique)

lemma topological_sort_cong:
  assumes wf: "hm_wf (dag_tasks d1)" "hm_wf (dag_tasks d2)"
    and tasks: "hm_get (dag_tasks d1) = hm_get (dag_tasks d2)"
    and edges: "set (dag_edges d1) = set (dag_edges d2)"
  shows "topological_sort d1 = topological_sort d2"
proof -
  have nodes: "dag_nodes d1 = dag_nodes d2"
    by (auto simp: dag_nodes_def hm_get_in_keys tasks)
  have succs: "dag_succs d1 = dag_succs d2"
    by (rule ext) (simp add: dag_succs_def sort_eq_iff_set build_dependents_adj edges)
  let ?deg = "\<lambda>d. initial_in_degree (dag_tasks d) (build_dependencies d)"
  have get: "hm_get (?deg d) v = (if v \<in> dag_nodes d then Some (dag_indeg d v) else None)" for d v
    by (simp add: initial_in_degree_get dag_nodes_def dag_indeg_def)
  have deg: "hm_get (?deg d1) = hm_get (?deg d2)"
    by (rule ext) (simp add: get nodes dag_indeg_card edges)
  have wfd: "hm_wf (?deg d)" if "hm_wf (dag_tasks d)" for d
    using that by (simp add: hm_wf_def hm_keys_def initial_in_degree_def comp_def)
  have queue: "set (map fst (filter (\<lambda>(_, n). n = 0) (?deg d))) = {v. hm_get (?deg d) v = Some 0}"
    if "hm_wf (dag_tasks d)" for d
    using wfd [OF that] by (force simp: hm_get_mem)
  have "sort (map fst (filter (\<lambda>(_, n). n = 0) (?deg d1))) = sort (map fst (filter (\<lambda>(_, n). n = 0) (?deg d2)))"
    using wfd wf queue deg
    by (intro sort_eq_iff_set) (auto simp: hm_wf_def distinct_map_filter)
  moreover have "hm_len (dag_tasks d1) = hm_len (dag_tasks d2)"
    by (simp add: hm_len_card wf tasks)
  ultimately show ?thesis
    unfolding topological_sort_def kahn_sort_def Let_def
    using kahn_loop_cong [OF succs deg] by (simp only:)
qed

section \<open>Ready tasks of a loaded DAG\<close>

lemma load_dag_cases:
  assumes "hm_wf (dag_tasks dag)"
  shows "load_dag dag s =
    (case topological_sort dag of
       Some (Inr _) \<Rightarrow> Some (Inr (),
         s\<lparr> sched_dag_tasks := dag_tasks dag, sched_dependents := build_dependents dag,
            sched_dependencies := build_dependencies dag,
            sched_id_to_key := fold (\<lambda>(key, t). hm_insert (task_id t) key) (dag_tasks dag) hm_empty \<rparr>)
     | _ \<Rightarrow> Some (Inl CyclicDAG, s))"
  using topological_sort_run [OF assms]
  by (auto simp: load_dag_def topological_sort_def Let_def split: option.splits sum.splits if_splits)

lemma id_to_key_get:
  assumes "distinct (map (\<lambda>(_, t). task_id t) kts)"
  shows "hm_get (fold (\<lambda>(key, t). hm_insert (task_id t) key) kts m) i =
    (case find (\<lambda>(_, t). task_id t = i) kts of Some (key, _) \<Rightarrow> Some key | None \<Rightarrow> hm_get m i)"
  using assms
proof (induction kts arbitrary: m)
  case Nil
  then show ?case by simp
next
  case (Cons kt kts)
  obtain key t where kt: "kt = (key, t)" by (cases kt)
  have "find (\<lambda>(_, u). task_id u = task_id t) kts = None"
    using Cons.prems kt by (auto simp: find_None_iff case_prod_unfold image_iff)
  with Cons kt show ?case by (auto split: option.splits)
qed

text \<open>Looking an id up in \<open>id_to_key\<close> gives the key of the task with that id, when the ids
  of the tasks are distinct (they are UUIDs drawn for each task).\<close>

definition distinct_ids :: "task_dag \<Rightarrow> bool" where
  "distinct_ids dag \<longleftrightarrow> distinct (map (\<lambda>(_, t). task_id t) (dag_tasks dag))"

lemma id_to_key_iff:
  assumes "hm_wf (dag_tasks dag)" and "distinct_ids dag"
  shows "hm_get (fold (\<lambda>(key, t). hm_insert (task_id t) key) (dag_tasks dag) hm_empty) i = Some key
    \<longleftrightarrow> (\<exists>t. hm_get (dag_tasks dag) key = Some t \<and> task_id t = i)"
proof -
  have uniq: "a = b" if "a \<in> set (dag_tasks dag)" "b \<in> set (dag_tasks dag)"
    "task_id (snd a) = task_id (snd b)" for a b
    using assms(2) that by (auto simp: distinct_ids_def distinct_map inj_on_def case_prod_unfold)
  show ?thesis
  proof (cases "find (\<lambda>(_, t). task_id t = i) (dag_tasks dag)")
    case None
    then have "task_id t \<noteq> i" if "(k, t) \<in> set (dag_tasks dag)" for k t
      using that by (auto simp: find_None_iff)
    with None show ?thesis
      by (auto simp: id_to_key_get [OF assms(2) [unfolded distinct_ids_def]]
            hm_get_mem [OF assms(1)])
  next
    case (Some kt)
    obtain k0 t0 where kt: "kt = (k0, t0)" by (cases kt)
    with Some have t0: "(k0, t0) \<in> set (dag_tasks dag)" "task_id t0 = i"
      by (auto dest: find_SomeD)
    have "(\<exists>t. (key, t) \<in> set (dag_tasks dag) \<and> task_id t = i) \<longleftrightarrow> key = k0"
    proof
      assume "\<exists>t. (key, t) \<in> set (dag_tasks dag) \<and> task_id t = i"
      then obtain t where "(key, t) \<in> set (dag_tasks dag)" "task_id t = i" by blast
      with uniq [of "(key, t)" "(k0, t0)"] t0 show "key = k0" by simp
    qed (use t0 in blast)
    with Some kt show ?thesis
      by (auto simp: id_to_key_get [OF assms(2) [unfolded distinct_ids_def]] hm_get_mem [OF assms(1)])
  qed
qed

text \<open>The tasks a finished set of ids makes ready, read off the DAG itself.\<close>

definition dag_ready :: "task_dag \<Rightarrow> task_id set \<Rightarrow> task set" where
  "dag_ready dag fin = {t. \<exists>k. hm_get (dag_tasks dag) k = Some t \<and> task_id t \<notin> fin \<and>
     (\<forall>a. (a, k) \<in> set (dag_edges dag) \<longrightarrow>
        (\<exists>u. hm_get (dag_tasks dag) a = Some u \<and> task_id u \<in> fin))}"

lemma ready_tasks_loaded:
  assumes wf: "hm_wf (dag_tasks dag)" and ids: "distinct_ids dag"
    and load: "load_dag dag s = Some (Inr (), s')"
  shows "set (ready_tasks completed s') = dag_ready dag (set completed)"
proof -
  let ?ik = "fold (\<lambda>(key, t). hm_insert (task_id t) key) (dag_tasks dag) hm_empty"
  have s': "sched_dag_tasks s' = dag_tasks dag" "sched_dependencies s' = build_dependencies dag"
    "sched_id_to_key s' = ?ik"
    using load by (auto simp: load_dag_cases [OF wf] split: option.splits sum.splits)
  have keys: "a \<in> set (List.map_filter (hm_get ?ik) completed) \<longleftrightarrow>
      (\<exists>u. hm_get (dag_tasks dag) a = Some u \<and> task_id u \<in> set completed)" for a
  proof -
    have "a \<in> set (List.map_filter (hm_get ?ik) completed) \<longleftrightarrow>
        (\<exists>i \<in> set completed. hm_get ?ik i = Some a)"
      by (force simp: List.map_filter_def)
    then show ?thesis by (auto simp: id_to_key_iff [OF wf ids])
  qed
  have deps: "(case hm_get (build_dependencies dag) k of None \<Rightarrow> True | Some ds \<Rightarrow> list_all P ds)
      \<longleftrightarrow> (\<forall>a. (a, k) \<in> set (dag_edges dag) \<longrightarrow> P a)" for k P
  proof -
    have "(case hm_get (build_dependencies dag) k of None \<Rightarrow> True | Some ds \<Rightarrow> list_all P ds)
        \<longleftrightarrow> (\<forall>a \<in> set (adj (build_dependencies dag) k). P a)"
      by (auto simp: adj_def list_all_iff split: option.splits)
    then show ?thesis by (simp add: build_dependencies_adj)
  qed
  show ?thesis
    unfolding ready_tasks_def Let_def s' deps keys set_sort_desc dag_ready_def hm_get_mem [OF wf]
    by force
qed

text \<open>In a loaded DAG with an unfinished task there is a ready one: the first unfinished
  task in topological order.\<close>

lemma dag_ready_progress:
  assumes wf: "hm_wf (dag_tasks dag)" and sorted: "topological_sort dag = Some (Inr order)"
    and open_task: "hm_get (dag_tasks dag) k = Some t" "task_id t \<notin> fin"
  shows "dag_ready dag fin \<noteq> {}"
proof -
  note order = topological_sort_Inr [OF wf sorted]
  let ?open = "\<lambda>k. task_id (the (hm_get (dag_tasks dag) k)) \<notin> fin"
  have node: "k \<in> dag_nodes dag \<longleftrightarrow> hm_get (dag_tasks dag) k \<noteq> None" for k
    by (simp add: dag_nodes_def hm_get_in_keys)
  have "\<exists>k \<in> set order. ?open k" using order(2) open_task by (force simp: node)
  then obtain xs b ys where first: "order = xs @ b # ys" "?open b" "\<forall>x \<in> set xs. \<not> ?open x"
    using split_list_first_prop [of order ?open] by blast
  then have b: "b \<in> dag_nodes dag" using order(2) by auto
  then obtain u where u: "hm_get (dag_tasks dag) b = Some u" by (auto simp: node)
  have "\<exists>v. hm_get (dag_tasks dag) a = Some v \<and> task_id v \<in> fin" if e: "(a, b) \<in> set (dag_edges dag)" for a
  proof -
    have a: "a \<in> dag_nodes dag" using order(4) [OF e b] .
    then have "a \<in> set xs"
      using order(3) first(1) e b by (auto simp: dg.topological_def dag_edges_iff)
    with a first(3) show ?thesis by (auto simp: node)
  qed
  with u first(2) show ?thesis by (auto simp: dag_ready_def)
qed

section \<open>The slice sort\<close>

declare topo_loop.simps [simp del]

text \<open>The dependencies inside a slice, one pair (dependency, task) per occurrence.\<close>

definition task_nodes :: "task list \<Rightarrow> task_id set" where
  "task_nodes ts = task_id ` set ts"

definition task_edges :: "task list \<Rightarrow> (task_id \<times> task_id) list" where
  "task_edges ts =
     concat (map (\<lambda>t. map (\<lambda>d. (d, task_id t))
       (filter (\<lambda>d. d \<in> task_nodes ts) (task_dependencies t))) ts)"

definition task_succs :: "task list \<Rightarrow> task_id \<Rightarrow> task_id list" where
  "task_succs ts u = map snd (filter (\<lambda>e. fst e = u) (task_edges ts))"

definition task_indeg :: "task list \<Rightarrow> task_id \<Rightarrow> nat" where
  "task_indeg ts v = length (filter (\<lambda>e. snd e = v) (task_edges ts))"

lemma task_edges_iff:
  "(d, v) \<in> set (task_edges ts) \<longleftrightarrow>
     (\<exists>t \<in> set ts. task_id t = v \<and> d \<in> set (task_dependencies t)) \<and> d \<in> task_nodes ts"
  by (auto simp: task_edges_def)

lemma fold_dependencies:
  "fold (\<lambda>dep. if dep \<in> S then count_dependency i dep else (\<lambda>st. st)) deps st =
     fold (\<lambda>(d, v). count_dependency v d) (map (\<lambda>d. (d, i)) (filter (\<lambda>d. d \<in> S) deps)) st"
  by (induction deps arbitrary: st) auto

lemma build_task_graph_fold:
  "build_task_graph ts =
     fold (\<lambda>(d, v). count_dependency v d) (task_edges ts)
       (fold (\<lambda>t. hm_insert (task_id t) 0) ts hm_empty, hm_empty)"
proof -
  have "fold (\<lambda>t. fold (\<lambda>dep. if dep \<in> S then count_dependency (task_id t) dep else (\<lambda>st. st))
        (task_dependencies t)) us st =
      fold (\<lambda>(d, v). count_dependency v d)
        (concat (map (\<lambda>t. map (\<lambda>d. (d, task_id t)) (filter (\<lambda>d. d \<in> S) (task_dependencies t))) us)) st"
    for us S st
    by (induction us arbitrary: st) (auto simp: fold_dependencies)
  then show ?thesis
    by (simp add: build_task_graph_def task_edges_def task_nodes_def)
qed

lemma count_dependencies_adj:
  "fold (\<lambda>(d, v). count_dependency v d) es (deg, dep) = (deg', dep') \<Longrightarrow>
     adj dep' u = adj dep u @ map snd (filter (\<lambda>e. fst e = u) es)"
proof (induction es arbitrary: deg dep)
  case Nil
  then show ?case by simp
next
  case (Cons e es)
  obtain d w where e: "e = (d, w)" by (cases e)
  from Cons.IH Cons.prems show ?case
    by (auto simp: e count_dependency_def adj_def split: option.splits)
qed

lemma count_dependencies_get:
  "fold (\<lambda>(d, v). count_dependency v d) es (deg, dep) = (deg', dep') \<Longrightarrow>
     snd ` set es \<subseteq> dom (hm_get deg) \<Longrightarrow>
     hm_get deg' v = map_option (\<lambda>n. n + length (filter (\<lambda>e. snd e = v) es)) (hm_get deg v)"
proof (induction es arbitrary: deg dep)
  case Nil
  then show ?case by (simp add: option.map_ident)
next
  case (Cons e es)
  obtain d w where e: "e = (d, w)" by (cases e)
  obtain n where n: "hm_get deg w = Some n" using Cons.prems(2) e by auto
  let ?deg = "hm_insert w (Suc n) deg"
  obtain dep2 where "fold (\<lambda>(d, v). count_dependency v d) es (?deg, dep2) = (deg', dep')"
    using Cons.prems(1) e n by (auto simp: count_dependency_def)
  moreover have "snd ` set es \<subseteq> dom (hm_get ?deg)" using Cons.prems(2) by auto
  ultimately have "hm_get deg' v =
      map_option (\<lambda>n. n + length (filter (\<lambda>e. snd e = v) es)) (hm_get ?deg v)"
    by (rule Cons.IH)
  then show ?case using e n by (auto simp: option.map_comp comp_def)
qed

lemma count_dependencies_wf:
  "fold (\<lambda>(d, v). count_dependency v d) es (deg, dep) = (deg', dep') \<Longrightarrow> hm_wf deg \<Longrightarrow> hm_wf deg'"
  by (induction es arbitrary: deg dep) (auto simp: count_dependency_def)

lemma fold_insert_wf: "hm_wf m \<Longrightarrow> hm_wf (fold (\<lambda>t. hm_insert (f t) (c t)) ts m)"
  by (induction ts arbitrary: m) auto

lemma fold_insert_other:
  "v \<notin> f ` set ts \<Longrightarrow> hm_get (fold (\<lambda>t. hm_insert (f t) (c t)) ts m) v = hm_get m v"
  by (induction ts arbitrary: m) auto

lemma fold_insert_const:
  "hm_get (fold (\<lambda>t. hm_insert (f t) c) ts m) v = (if v \<in> f ` set ts then Some c else hm_get m v)"
  by (induction ts arbitrary: m) auto

lemma fold_insert_distinct:
  "distinct (map f ts) \<Longrightarrow> t \<in> set ts \<Longrightarrow>
     hm_get (fold (\<lambda>t. hm_insert (f t) (c t)) ts m) (f t) = Some (c t)"
  by (induction ts arbitrary: m) (auto simp: fold_insert_other)

lemma task_pred_count:
  "(\<Sum>u \<in> task_nodes ts. count_list (task_succs ts u) v) = task_indeg ts v"
proof -
  have "(\<Sum>u \<in> N. count_list (map snd (filter (\<lambda>e. fst e = u) es)) v) =
      length (filter (\<lambda>e. snd e = v) es)" if "finite N" "fst ` set es \<subseteq> N"
    for N :: "task_id set" and es :: "(task_id \<times> task_id) list"
    using that(2)
  proof (induction es)
    case Nil
    then show ?case by simp
  next
    case (Cons e es)
    have "count_list (map snd (filter (\<lambda>e. fst e = u) (e # es))) v =
        (if fst e = u then (if snd e = v then 1 else 0) else 0)
          + count_list (map snd (filter (\<lambda>e. fst e = u) es)) v" for u
      by simp
    with Cons that(1) show ?case
      by (simp add: sum.distrib sum.delta del: filter.simps)  (simp add: sum.delta)
  qed
  then show ?thesis
    unfolding task_succs_def task_indeg_def
    by (rule) (auto simp: task_nodes_def task_edges_iff)
qed

lemma task_nodes_finite: "finite (task_nodes ts)"
  by (simp add: task_nodes_def)

interpretation tk: kahn_graph "task_nodes ts" "task_succs ts" "task_indeg ts" for ts
  by unfold_locales (simp_all add: task_nodes_finite task_pred_count)

lemma tk_grounded [simp]: "tk.grounded ts v"
  by (simp add: tk.grounded_def task_pred_count)

lemma tk_edges: "tk.edges ts = set (task_edges ts)"
proof -
  have "v \<in> set (task_succs ts u) \<longleftrightarrow> (u, v) \<in> set (task_edges ts)" for u v
    by (force simp: task_succs_def)
  moreover have "u \<in> task_nodes ts \<and> v \<in> task_nodes ts" if "(u, v) \<in> set (task_edges ts)" for u v
    using that by (auto simp: task_edges_iff task_nodes_def)
  ultimately show ?thesis by (auto simp: tk.edges_def)
qed

text \<open>
  The next task is always the greatest, by priority and then by id, of those whose
  dependencies are done.
\<close>

definition greedy :: "task list \<Rightarrow> (task_id \<Rightarrow> task_priority) \<Rightarrow> task_id list \<Rightarrow> bool" where
  "greedy ts prio order \<longleftrightarrow>
     (\<forall>xs v ys. order = xs @ v # ys \<longrightarrow>
        (\<forall>w \<in> tk.ready ts (set xs). (prio w, w) \<le> (prio v, v)))"

lemma greedy_snoc:
  assumes "greedy ts prio order" and "\<forall>w \<in> tk.ready ts (set order). (prio w, w) \<le> (prio v, v)"
  shows "greedy ts prio (order @ [v])"
  using assms unfolding greedy_def
  by (auto simp: append_eq_append_conv2 append_eq_Cons_conv Cons_eq_append_conv)

lemma topo_loop_inv:
  assumes "tk.kahn_inv ts deg (map snd queue) order"
    and "\<forall>(p, i) \<in> set queue. p = priority_of pm i" and "greedy ts (priority_of pm) order"
    and "\<And>u. adj dependents u = task_succs ts u"
  shows "\<exists>order' deg'. topo_loop dependents pm deg queue order = Some order'
    \<and> tk.kahn_inv ts deg' [] order' \<and> greedy ts (priority_of pm) order'"
  using assms
proof (induction dependents pm deg queue order rule: topo_loop.induct)
  case (1 dependents pm deg queue order)
  show ?case
  proof (cases "heap_pop queue")
    case None
    then have "topo_loop dependents pm deg queue order = Some order" and "queue = []"
      by (simp_all add: topo_loop.simps [of dependents pm deg "[]" order])
    with "1.prems" show ?thesis by auto
  next
    case (Some r)
    then obtain p i rest where pop: "heap_pop queue = Some ((p, i), rest)" by (cases r) auto
    note top = heap_pop_Some [OF pop]
    have p: "p = priority_of pm i" using top "1.prems"(2) by auto
    let ?mk = "\<lambda>c. (priority_of pm c, c)"
    have "mset (map snd queue) = add_mset i (mset (map snd rest))"
      using top by (metis image_mset_add_mset mset_map snd_conv)
    then obtain deg' queue' where
      step: "relax ?mk deg rest (task_succs ts i) = Some (deg', queue')"
      and inv: "tk.kahn_inv ts deg' (map snd queue') (order @ [i])"
      using tk.kahn_step [OF "1.prems"(1), of i snd rest ?mk] by auto
    have same: "(case hm_get dependents i of None \<Rightarrow> Some (deg, rest)
        | Some children \<Rightarrow> relax ?mk deg rest children) = relax ?mk deg rest (task_succs ts i)"
      unfolding "1.prems"(4) [symmetric] by (simp add: adj_def split: option.splits)
    have "set queue = insert (p, i) (set rest)"
      using top by (metis set_mset_add_mset_insert set_mset_mset)
    then have "\<forall>(p, i) \<in> set queue'. p = priority_of pm i"
      using relax_pushes [OF step] "1.prems"(2) by fastforce
    moreover have "greedy ts (priority_of pm) (order @ [i])"
    proof (rule greedy_snoc [OF "1.prems"(3)], rule)
      fix w assume "w \<in> tk.ready ts (set order)"
      then have "w \<in> set (map snd queue)" by (simp only: tk.queue_ready [OF "1.prems"(1)])
      then show "(priority_of pm w, w) \<le> (priority_of pm i, i)"
        using top p "1.prems"(2) by fastforce
    qed
    ultimately show ?thesis
      using "1.IH" [OF pop refl refl] inv step same "1.prems"(4)
      by (simp add: topo_loop.simps [of dependents pm deg queue order] pop)
  qed
qed

text \<open>What \<open>topological_sort_tasks\<close> computes, in the terms of the graph.\<close>

lemma topological_sort_tasks_run:
  "\<exists>order deg. tk.kahn_inv ts deg [] order
     \<and> greedy ts (priority_of (fold (\<lambda>t. hm_insert (task_id t) (task_priority t)) ts hm_empty)) order
     \<and> topological_sort_tasks ts =
         Some (if length order = length ts then Inr order else Inl CyclicDAG)"
proof -
  let ?pm = "fold (\<lambda>t. hm_insert (task_id t) (task_priority t)) ts hm_empty"
  obtain deg dep where g: "build_task_graph ts = (deg, dep)" by (cases "build_task_graph ts")
  let ?deg0 = "fold (\<lambda>t. hm_insert (task_id t) (0 :: nat)) ts hm_empty"
  have get0: "hm_get ?deg0 v = (if v \<in> task_nodes ts then Some 0 else None)" for v
    by (simp add: fold_insert_const task_nodes_def)
  note run = g [unfolded build_task_graph_fold]
  have adj: "adj dep u = task_succs ts u" for u
    using count_dependencies_adj [OF run] by (simp add: task_succs_def)
  have "snd ` set (task_edges ts) \<subseteq> dom (hm_get ?deg0)"
    by (auto simp: get0 task_edges_iff task_nodes_def split: if_splits)
  then have get: "hm_get deg v = (if v \<in> task_nodes ts then Some (task_indeg ts v) else None)" for v
    using count_dependencies_get [OF run] by (simp add: get0 task_indeg_def)
  have wf: "hm_wf deg"
    by (rule count_dependencies_wf [OF run]) (simp add: fold_insert_wf)
  let ?queue = "map (\<lambda>(i, _). (priority_of ?pm i, i)) (filter (\<lambda>(_, n). n = 0) deg)"
  have snds: "map snd ?queue = map fst (filter (\<lambda>(_, n). n = 0) deg)"
    by (simp add: case_prod_unfold comp_def)
  have "set (map snd ?queue) = {v. hm_get deg v = Some 0}"
    unfolding snds using wf by (force simp: hm_get_mem)
  then have "tk.kahn_inv ts deg (map snd ?queue) []"
    using wf unfolding snds
    by (intro tk.kahn_inv_init) (auto simp: get hm_wf_def distinct_map_filter split: if_splits)
  moreover have "greedy ts (priority_of ?pm) []" by (simp add: greedy_def)
  moreover have "\<forall>(p, i) \<in> set ?queue. p = priority_of ?pm i" by auto
  ultimately obtain order deg' where
    loop: "topo_loop dep ?pm deg ?queue [] = Some order" "tk.kahn_inv ts deg' [] order"
      "greedy ts (priority_of ?pm) order"
    using topo_loop_inv [where dependents = dep] adj by blast
  then show ?thesis
    by (auto simp: topological_sort_tasks_def g Let_def)
qed

lemma topological_sort_tasks_Inr:
  assumes "topological_sort_tasks ts = Some (Inr order)"
  shows "distinct order" and "set order = task_nodes ts" and "distinct (map task_id ts)"
    and "tk.topological ts order"
    and "greedy ts (priority_of (fold (\<lambda>t. hm_insert (task_id t) (task_priority t)) ts hm_empty)) order"
proof -
  obtain o' deg where inv: "tk.kahn_inv ts deg [] o'"
    and gr: "greedy ts (priority_of (fold (\<lambda>t. hm_insert (task_id t) (task_priority t)) ts hm_empty)) o'"
    and run: "topological_sort_tasks ts = Some (if length o' = length ts then Inr o' else Inl CyclicDAG)"
    using topological_sort_tasks_run by blast
  then have eq: "o' = order" and len: "length order = length ts"
    using assms by (auto split: if_splits)
  have o': "distinct order" "set order \<subseteq> task_nodes ts" "tk.topological ts order"
    using inv eq by (auto simp: tk.kahn_inv_def)
  have "length order = card (set order)" using o'(1) by (simp add: distinct_card)
  also have "\<dots> \<le> card (task_nodes ts)" using o'(2) by (simp add: card_mono task_nodes_finite)
  finally have "length ts \<le> card (task_nodes ts)" using len by simp
  moreover have nodes: "task_nodes ts = set (map task_id ts)" by (simp add: task_nodes_def)
  moreover have "card (set (map task_id ts)) \<le> length (map task_id ts)" by (rule card_length)
  ultimately have full: "card (set (map task_id ts)) = length (map task_id ts)"
    and all: "length order = card (task_nodes ts)"
    using len by simp_all
  show "distinct (map task_id ts)" using full by (rule card_distinct)
  show "set order = task_nodes ts" using tk.kahn_count [OF inv] all eq by blast
  show "distinct order" "tk.topological ts order"
    "greedy ts (priority_of (fold (\<lambda>t. hm_insert (task_id t) (task_priority t)) ts hm_empty)) order"
    using o' gr eq by auto
qed

lemma topological_sort_tasks_complete:
  assumes "distinct (map task_id ts)"
  shows "(\<exists>order. topological_sort_tasks ts = Some (Inr order)) \<longleftrightarrow> acyclic (set (task_edges ts))"
proof -
  obtain order deg where inv: "tk.kahn_inv ts deg [] order"
    and run: "topological_sort_tasks ts = Some (if length order = length ts then Inr order else Inl CyclicDAG)"
    using topological_sort_tasks_run by blast
  have "card (task_nodes ts) = length ts"
    using distinct_card [OF assms] by (simp add: task_nodes_def)
  then have "length order = length ts \<longleftrightarrow> acyclic (set (task_edges ts))"
    using tk.kahn_count [OF inv] tk.kahn_complete [OF inv] by (simp add: tk_edges)
  then show ?thesis by (simp add: run)
qed

lemma task_priority_lookup:
  assumes "distinct (map task_id ts)" and "t \<in> set ts"
  shows "priority_of (fold (\<lambda>t. hm_insert (task_id t) (task_priority t)) ts hm_empty) (task_id t) =
    task_priority t"
  using fold_insert_distinct [OF assms, of task_priority hm_empty] by (simp add: priority_of_def)

section \<open>Properties\<close>

text \<open>A diamond of named tasks and the same tasks as a slice, for the instances below.\<close>

definition sample_tasks :: "task list" where
  "sample_tasks =
     [ with_dependency 1 (with_priority High (task_new 2 ''build'')),
       task_new 1 ''plan'',
       with_dependency 1 (task_new 3 ''document''),
       with_dependency 3 (with_dependency 2 (task_new 4 ''ship'')) ]"

definition sample_dag :: task_dag where
  "sample_dag = task_dag_new
     (zip [''build'', ''plan'', ''document'', ''ship''] sample_tasks)
     [(''plan'', ''build''), (''plan'', ''document''), (''build'', ''ship''), (''document'', ''ship'')]
     Dag"

lemma sample_dag_wf: "hm_wf (dag_tasks sample_dag)" "distinct_ids sample_dag"
  by code_simp+

lemma sample_dag_sorted:
  "topological_sort sample_dag = Some (Inr [''plan'', ''build'', ''document'', ''ship''])"
  by code_simp

lemma sample_tasks_sorted: "topological_sort_tasks sample_tasks = Some (Inr [1, 2, 3, 4])"
  by code_simp


text \<open>C3. When \<open>topological_sort\<close> succeeds, the order lists every task key exactly once, and
  every key that some edge puts before another one stands before it.\<close>

theorem topological_sort_sound:
  assumes "hm_wf (dag_tasks dag)" and "topological_sort dag = Some (Inr order)"
  shows "distinct order \<and> set order = set (hm_keys (dag_tasks dag)) \<and>
    (\<forall>xs b ys a. order = xs @ b # ys \<longrightarrow> (a, b) \<in> set (dag_edges dag) \<longrightarrow> a \<in> set xs)"
proof -
  note r = topological_sort_Inr [OF assms]
  have "a \<in> set xs" if "order = xs @ b # ys" "(a, b) \<in> set (dag_edges dag)" for xs b ys a
  proof -
    have b: "b \<in> dag_nodes dag" using that(1) r(2) by auto
    then have "(a, b) \<in> dg.edges dag" using r(4) that(2) by (simp add: dag_edges_iff)
    with r(3) that(1) show ?thesis by (auto simp: dg.topological_def)
  qed
  with r(1,2) show ?thesis by (simp add: dag_nodes_def)
qed

theorem topological_sort_sound_witness:
  "distinct [''plan'', ''build'', ''document'', ''ship''] \<and>
   set [''plan'', ''build'', ''document'', ''ship''] = set (hm_keys (dag_tasks sample_dag))"
  using topological_sort_sound [OF sample_dag_wf(1) sample_dag_sorted] by blast

text \<open>C4. \<open>topological_sort\<close> decides the graph: it never panics, it succeeds exactly when
  the edges between tasks have no cycle and no task depends on a key that is not a task,
  and otherwise it returns \<open>CyclicDAG\<close>.\<close>

theorem topological_sort_decides:
  assumes "hm_wf (dag_tasks dag)"
  shows "if acyclic {(a, b) \<in> set (dag_edges dag). a \<in> set (hm_keys (dag_tasks dag)) \<and>
              b \<in> set (hm_keys (dag_tasks dag))}
           \<and> (\<forall>(a, b) \<in> set (dag_edges dag). b \<in> set (hm_keys (dag_tasks dag)) \<longrightarrow>
              a \<in> set (hm_keys (dag_tasks dag)))
         then \<exists>order. topological_sort dag = Some (Inr order)
         else topological_sort dag = Some (Inl CyclicDAG)"
proof -
  obtain order deg where inv: "dg.kahn_inv dag deg [] order"
    and run: "topological_sort dag =
      Some (if set order = dag_nodes dag then Inr order else Inl CyclicDAG)"
    using topological_sort_run [OF assms] by blast
  have "set order = dag_nodes dag \<longleftrightarrow> acyclic (dg.edges dag) \<and>
      (\<forall>(a, b) \<in> set (dag_edges dag). b \<in> dag_nodes dag \<longrightarrow> a \<in> dag_nodes dag)"
    using dg.kahn_complete [OF inv] by (simp only: dag_closed_iff)
  then show ?thesis
    unfolding dag_edges_set dag_nodes_def [symmetric] by (simp add: run)
qed

theorem topological_sort_decides_witness:
  "hm_wf (dag_tasks sample_dag) \<and> topological_sort sample_dag \<noteq> None"
  using topological_sort_decides [OF sample_dag_wf(1)] sample_dag_wf(1)
  by (auto split: if_splits simp del: split_paired_All)

text \<open>The order is a function of the graph: two DAGs with the same tasks and the same
  set of edges are sorted alike, whatever the iteration order of their hash maps and
  whatever the order and multiplicity of the edges.\<close>

theorem topological_sort_deterministic:
  assumes "hm_wf (dag_tasks d1)" and "hm_wf (dag_tasks d2)"
    and "hm_get (dag_tasks d1) = hm_get (dag_tasks d2)"
    and "set (dag_edges d1) = set (dag_edges d2)"
  shows "topological_sort d1 = topological_sort d2"
  using assms by (rule topological_sort_cong)

theorem topological_sort_deterministic_witness:
  "topological_sort (task_dag_new (rev (dag_tasks sample_dag)) (rev (dag_edges sample_dag)) Dag) =
   topological_sort sample_dag"
proof (rule topological_sort_deterministic)
  let ?d = "task_dag_new (rev (dag_tasks sample_dag)) (rev (dag_edges sample_dag)) Dag"
  show wf: "hm_wf (dag_tasks ?d)" by code_simp
  show "hm_get (dag_tasks ?d) = hm_get (dag_tasks sample_dag)"
  proof
    fix k
    have "hm_get (dag_tasks ?d) k = Some t \<longleftrightarrow> hm_get (dag_tasks sample_dag) k = Some t" for t
      using hm_get_mem [OF wf] hm_get_mem [OF sample_dag_wf(1)] by (simp add: task_dag_new_def)
    then show "hm_get (dag_tasks ?d) k = hm_get (dag_tasks sample_dag) k"
      by (metis option.exhaust)
  qed
qed (simp_all add: sample_dag_wf task_dag_new_def)

text \<open>After \<open>load_dag\<close> succeeds, \<open>ready_tasks\<close> returns exactly the unfinished tasks
  whose dependencies are all finished, highest priority first.\<close>

theorem ready_tasks_correct:
  assumes "hm_wf (dag_tasks dag)" and "distinct_ids dag"
    and "load_dag dag s = Some (Inr (), s')"
  shows "set (ready_tasks completed s') = dag_ready dag (set completed) \<and>
    sorted_wrt (\<lambda>t u. task_priority u \<le> task_priority t) (ready_tasks completed s')"
  using ready_tasks_loaded [OF assms] by (simp add: ready_tasks_def Let_def sort_desc_sorted)

theorem ready_tasks_correct_witness:
  "\<exists>s'. load_dag sample_dag scheduler_new = Some (Inr (), s') \<and>
     map task_id (ready_tasks [1] s') = [2, 3] \<and>
     set (ready_tasks [1] s') = dag_ready sample_dag (set [1])"
proof -
  have load: "load_dag sample_dag scheduler_new =
      Some (Inr (), snd (the (load_dag sample_dag scheduler_new)))"
    by code_simp
  have "map task_id (ready_tasks [1] (snd (the (load_dag sample_dag scheduler_new)))) = [2, 3]"
    by code_simp
  with load conjunct1 [OF ready_tasks_correct [OF sample_dag_wf load, of "[1]"]] show ?thesis
    by (intro exI conjI)
qed

text \<open>C25. A loaded DAG whose tasks have pairwise different ids never gets stuck: as long as the id of some
  task is not completed, \<open>ready_tasks\<close> returns a task. (The keys of the task map are distinct, as in
  any \<open>HashMap\<close>; the ids are not checked by \<open>load_dag\<close>, and without distinct ids the DAG can get
  stuck: \<open>loaded_dag_shared_id_stuck\<close>.)\<close>

theorem loaded_dag_progress:
  assumes "hm_wf (dag_tasks dag)" and "distinct_ids dag"
    and "load_dag dag s = Some (Inr (), s')"
    and "hm_get (dag_tasks dag) k = Some t" and "task_id t \<notin> set completed"
  shows "ready_tasks completed s' \<noteq> []"
proof -
  obtain order where "topological_sort dag = Some (Inr order)"
    using assms(3) by (auto simp: load_dag_cases [OF assms(1)] split: option.splits sum.splits)
  then have "dag_ready dag (set completed) \<noteq> {}"
    using assms(1,4,5) dag_ready_progress by blast
  moreover have "set (ready_tasks completed s') = dag_ready dag (set completed)"
    by (rule ready_tasks_loaded [OF assms(1-3)])
  ultimately show ?thesis by force
qed

theorem loaded_dag_progress_witness:
  "\<exists>s'. load_dag sample_dag scheduler_new = Some (Inr (), s') \<and> ready_tasks [1, 2] s' \<noteq> []"
proof -
  have load: "load_dag sample_dag scheduler_new =
      Some (Inr (), snd (the (load_dag sample_dag scheduler_new)))"
    by code_simp
  have "hm_get (dag_tasks sample_dag) ''document'' = Some (with_dependency 1 (task_new 3 ''document''))"
    by code_simp
  moreover have "task_id (with_dependency 1 (task_new 3 ''document'')) \<notin> set [1, 2]"
    by code_simp
  ultimately show ?thesis
    using load loaded_dag_progress [OF sample_dag_wf load] by blast
qed

text \<open>\<open>id_to_key\<close> keeps one key per task id, so when two keys share an id, a task that depends on
  both is never ready: \<open>load_dag\<close> accepts the DAG, the shared id is completed, and the remaining task
  is not offered.\<close>

definition shared_id_dag :: task_dag where
  "shared_id_dag = task_dag_new
     [(''a'', task_new 1 ''a''), (''b'', task_new 1 ''b''), (''c'', task_new 2 ''c'')]
     [(''a'', ''c''), (''b'', ''c'')] Dag"

theorem loaded_dag_shared_id_stuck:
  "\<exists>s'. load_dag shared_id_dag scheduler_new = Some (Inr (), s') \<and>
     map task_id (ready_tasks [] s') = [1, 1] \<and> ready_tasks [1] s' = []"
proof -
  have "load_dag shared_id_dag scheduler_new = Some (Inr (), snd (the (load_dag shared_id_dag scheduler_new)))"
    by code_simp
  moreover have "map task_id (ready_tasks [] (snd (the (load_dag shared_id_dag scheduler_new)))) = [1, 1]"
    "ready_tasks [1] (snd (the (load_dag shared_id_dag scheduler_new))) = []" by code_simp+
  ultimately show ?thesis by (intro exI conjI)
qed

text \<open>C27. The priority queues are a stable sort: tasks put in with \<open>enqueue\<close> come out of
  \<open>dequeue\<close> by decreasing priority, in order of arrival within a priority.\<close>

theorem dequeue_stable_priority_order:
  "drain dequeue (length ts) (fold enqueue ts scheduler_new) = sort_desc task_priority ts"
  by (rule sq.drain_enq_all)

lemma topological_sort_tasks_order:
  assumes "topological_sort_tasks ts = Some (Inr order)" and "order = xs @ task_id t # ys"
    and "t \<in> set ts" and "d \<in> set (task_dependencies t)" and "d \<in> task_id ` set ts"
  shows "d \<in> set xs"
proof -
  have "(d, task_id t) \<in> set (task_edges ts)"
    using assms(3-5) by (auto simp: task_edges_iff task_nodes_def)
  then have "(d, task_id t) \<in> tk.edges ts" by (simp only: tk_edges)
  with topological_sort_tasks_Inr(4) [OF assms(1)] assms(2) show ?thesis by (auto simp: tk.topological_def)
qed

text \<open>When \<open>topological_sort_tasks\<close> succeeds, the order lists the id of every task
  exactly once and every task after its dependencies in the slice.\<close>

theorem topological_sort_tasks_sound:
  assumes "topological_sort_tasks ts = Some (Inr order)"
  shows "distinct order \<and> set order = task_id ` set ts \<and>
    (\<forall>xs ys t d. order = xs @ task_id t # ys \<longrightarrow> t \<in> set ts \<longrightarrow> d \<in> set (task_dependencies t) \<longrightarrow>
       d \<in> task_id ` set ts \<longrightarrow> d \<in> set xs)"
  using topological_sort_tasks_Inr(1,2) [OF assms] topological_sort_tasks_order [OF assms]
  by (simp add: task_nodes_def)

theorem topological_sort_tasks_sound_witness:
  "distinct [1, 2, 3, 4 :: task_id] \<and> set [1, 2, 3, 4] = task_id ` set sample_tasks"
  using topological_sort_tasks_sound [OF sample_tasks_sorted] by blast

text \<open>\<open>topological_sort_tasks\<close> never panics; it succeeds exactly when the task ids are
  distinct and the dependencies inside the slice have no cycle, and otherwise returns
  \<open>CyclicDAG\<close>.\<close>

theorem topological_sort_tasks_decides:
  "if distinct (map task_id ts) \<and>
      acyclic {(d, task_id t) | d t. t \<in> set ts \<and> d \<in> set (task_dependencies t) \<and> d \<in> task_id ` set ts}
   then \<exists>order. topological_sort_tasks ts = Some (Inr order)
   else topological_sort_tasks ts = Some (Inl CyclicDAG)"
proof -
  have edges: "{(d, task_id t) | d t. t \<in> set ts \<and> d \<in> set (task_dependencies t) \<and> d \<in> task_id ` set ts}
      = set (task_edges ts)"
    by (auto simp: task_edges_iff task_nodes_def)
  have fail: "topological_sort_tasks ts = Some (Inl CyclicDAG)"
    if "\<nexists>order. topological_sort_tasks ts = Some (Inr order)"
    using that topological_sort_tasks_run [of ts] by (auto split: if_splits)
  show ?thesis
    unfolding edges
    using topological_sort_tasks_complete [of ts] topological_sort_tasks_Inr(3) [of ts] fail
    by auto
qed

text \<open>C26. \<open>topological_sort_tasks\<close> is greedy in the priorities: each task of the order has the
  greatest pair of priority and id among the tasks of the slice that were ready at that point (not yet
  in the order, with every dependency inside the slice before it). This is what the code does; its
  doc comment promises something else, the highest priority first among the tasks of the same dependency
  depth, which \<open>topological_sort_tasks_not_by_depth\<close> refutes.\<close>

theorem topological_sort_tasks_greedy:
  assumes "topological_sort_tasks ts = Some (Inr order)" and "order = xs @ task_id t # ys"
    and "t \<in> set ts" and "u \<in> set ts" and "task_id u \<notin> set xs"
    and "\<forall>d \<in> set (task_dependencies u). d \<in> task_id ` set ts \<longrightarrow> d \<in> set xs"
  shows "(task_priority u, task_id u) \<le> (task_priority t, task_id t)"
proof -
  note r = topological_sort_tasks_Inr [OF assms(1)]
  have uniq: "w = u" if "w \<in> set ts" "task_id w = task_id u" for w
    using r(3) that assms(4) by (auto simp: distinct_map inj_on_def)
  have "d \<in> set xs" if "(d, task_id u) \<in> set (task_edges ts)" for d
    using that assms(6) uniq by (auto simp: task_edges_iff task_nodes_def)
  moreover have "task_id u \<in> task_nodes ts" using assms(4) by (simp add: task_nodes_def)
  ultimately have "task_id u \<in> tk.ready ts (set xs)"
    using assms(5) by (auto simp: tk.ready_def tk_edges)
  with r(5) assms(2) have
    "(priority_of (fold (\<lambda>t. hm_insert (task_id t) (task_priority t)) ts hm_empty) (task_id u), task_id u)
     \<le> (priority_of (fold (\<lambda>t. hm_insert (task_id t) (task_priority t)) ts hm_empty) (task_id t), task_id t)"
    by (auto simp: greedy_def)
  then show ?thesis
    using task_priority_lookup [OF r(3)] assms(3,4) by simp
qed

theorem topological_sort_tasks_greedy_witness:
  "(task_priority (sample_tasks ! 2), task_id (sample_tasks ! 2)) \<le>
   (task_priority (sample_tasks ! 0), task_id (sample_tasks ! 0))"
proof (rule topological_sort_tasks_greedy [OF sample_tasks_sorted, where xs = "[1]" and ys = "[3, 4]"])
  show "[1, 2, 3, 4] = [1] @ task_id (sample_tasks ! 0) # [3, 4]" by code_simp
  show "sample_tasks ! 0 \<in> set sample_tasks" "sample_tasks ! 2 \<in> set sample_tasks"
    by (simp_all add: sample_tasks_def)
  show "task_id (sample_tasks ! 2) \<notin> set [1]" by code_simp
  show "\<forall>d \<in> set (task_dependencies (sample_tasks ! 2)). d \<in> task_id ` set sample_tasks \<longrightarrow> d \<in> set [1]"
    by code_simp
qed

text \<open>Two tasks of depth one, P with low and Q with high priority: P comes first, because its dependency
  does.\<close>

definition depth_tasks :: "task list" where
  "depth_tasks =
     [ with_priority High (task_new 1 ''X''), with_priority Background (task_new 2 ''Y''),
       with_dependency 1 (with_priority Low (task_new 3 ''P'')),
       with_dependency 2 (with_priority High (task_new 4 ''Q'')) ]"

theorem topological_sort_tasks_not_by_depth: "topological_sort_tasks depth_tasks = Some (Inr [1, 3, 2, 4])"
  by code_simp

end
