(* ===== verification/Ranking.thy ===== *)
theory Ranking
  imports Prelude
begin

text \<open>
  Ranking by score, the contract that agent scoring and node placement share: every
  candidate gets an entry made from its position, the number of candidates and the
  candidate; entries that are not kept are dropped; the rest is sorted stably, best first.
\<close>

locale ranking =
  fixes rank :: "'a list \<Rightarrow> 'r list"
    and entry :: "nat \<Rightarrow> nat \<Rightarrow> 'a \<Rightarrow> 'r"
    and keep :: "'r \<Rightarrow> bool"
    and score_of :: "'r \<Rightarrow> 's::linorder"
  assumes rank_eq: "rank xs =
    sort_desc score_of (filter keep (map (\<lambda>(i, x). entry i (length xs) x) (enumerate 0 xs)))"
begin

lemma rank_mem:
  "r \<in> set (rank xs) \<longleftrightarrow> (\<exists>i < length xs. r = entry i (length xs) (xs ! i) \<and> keep r)"
  by (auto simp: rank_eq in_set_enumerate_eq)

lemma rank_sorted: "sorted_wrt (\<lambda>a b. score_of b \<le> score_of a) (rank xs)"
  by (simp add: rank_eq sort_desc_sorted)

lemma rank_empty_iff: "rank xs = [] \<longleftrightarrow> (\<forall>i < length xs. \<not> keep (entry i (length xs) (xs ! i)))"
proof -
  have "rank xs = [] \<longleftrightarrow> (\<forall>r. r \<notin> set (rank xs))" by (cases "rank xs") auto
  then show ?thesis unfolding rank_mem by blast
qed

text \<open>The first entry is the best one, and the first among equals.\<close>

lemma rank_best:
  assumes "rank xs = r # rs"
  shows "\<exists>i < length xs. r = entry i (length xs) (xs ! i) \<and> keep r \<and>
    (\<forall>j < length xs. keep (entry j (length xs) (xs ! j)) \<longrightarrow>
       score_of (entry j (length xs) (xs ! j)) \<le> score_of r \<and>
       (j < i \<longrightarrow> score_of (entry j (length xs) (xs ! j)) < score_of r))"
proof -
  let ?e = "\<lambda>i. entry i (length xs) (xs ! i)"
  have es: "map (\<lambda>(i, x). entry i (length xs) x) (enumerate 0 xs) = map ?e [0..<length xs]"
    by (auto simp: enumerate_eq_zip intro!: nth_equalityI)
  have s: "sort_desc score_of (filter keep (map ?e [0..<length xs])) = r # rs"
    using assms by (simp only: rank_eq es)
  note max = sort_desc_hd_max [OF s]
  have "find (\<lambda>x. score_of x = score_of r) (filter keep (map ?e [0..<length xs])) = Some r"
    by (rule sort_desc_hd_first [OF s])
  then have "find (\<lambda>x. keep x \<and> score_of x = score_of r) (map ?e [0..<length xs]) = Some r"
    by (simp add: find_filter)
  then obtain i where i: "i < length xs" "keep (?e i)" "r = ?e i"
    and first: "\<forall>j < i. \<not> (keep (?e j) \<and> score_of (?e j) = score_of r)"
    by (auto simp: find_Some_iff)
  have "score_of (?e j) \<le> score_of r \<and> (j < i \<longrightarrow> score_of (?e j) < score_of r)"
    if "j < length xs" "keep (?e j)" for j
  proof -
    have "?e j \<in> set (filter keep (map ?e [0..<length xs]))" using that by simp
    with max(2) have "score_of (?e j) \<le> score_of r" by blast
    with first that(2) show ?thesis by (auto simp: order.order_iff_strict)
  qed
  with i show ?thesis by blast
qed

end

end
