(* ===== verification/Scoring.thy ===== *)
theory Scoring
  imports Core_Types Ranking
begin

text \<open>
  Agent scoring, \<open>orchestrator/scoring.rs\<close>, and delegation by a manager,
  \<open>orchestrator/hierarchical.rs\<close>. The trait values of a personality profile come from the
  bhava crate, and the Unicode lower-case mapping from the standard library's tables: both
  are arguments. \<open>f64\<close> scores are exact rationals.
\<close>

definition WEIGHT_TOOL_COVERAGE :: rat where "WEIGHT_TOOL_COVERAGE = 35 / 100"
definition WEIGHT_COMPLEXITY :: rat where "WEIGHT_COMPLEXITY = 25 / 100"
definition WEIGHT_GPU :: rat where "WEIGHT_GPU = 10 / 100"
definition WEIGHT_DOMAIN :: rat where "WEIGHT_DOMAIN = 15 / 100"
definition WEIGHT_PERSONALITY :: rat where "WEIGHT_PERSONALITY = 15 / 100"

lemmas weights = WEIGHT_TOOL_COVERAGE_def WEIGHT_COMPLEXITY_def WEIGHT_GPU_def WEIGHT_DOMAIN_def
  WEIGHT_PERSONALITY_def

definition complexity_level :: "string \<Rightarrow> u8" where
  "complexity_level s =
     (if eq_ignore_ascii_case s ''low'' then 1
      else if eq_ignore_ascii_case s ''high'' then 3 else 2)"

text \<open>\<open>from_value::<Vec<String>>\<close> succeeds on an array of strings.\<close>

fun json_strings :: "json list \<Rightarrow> string list option" where
  "json_strings [] = Some []"
| "json_strings (v # vs) =
     (case as_str v of
        None \<Rightarrow> None
      | Some s \<Rightarrow> map_option (\<lambda>ss. s # ss) (json_strings vs))"

definition extract_required_tools :: "task \<Rightarrow> string list option" where
  "extract_required_tools t =
     (case hm_get (task_context t) ''required_tools'' of
        None \<Rightarrow> None
      | Some v \<Rightarrow> (case as_array v of None \<Rightarrow> None | Some vs \<Rightarrow> json_strings vs))"

definition tool_coverage_score :: "'p agent_definition \<Rightarrow> string list option \<Rightarrow> rat" where
  "tool_coverage_score a pre_extracted =
     (case pre_extracted of
        None \<Rightarrow> 1
      | Some required \<Rightarrow>
          if required = [] then 1
          else of_nat (length (filter (\<lambda>t. t \<in> set (agent_tools a)) required)) / of_nat (length required))"

text \<open>\<open>context.get(key).and_then(|v| v.as_str())\<close>.\<close>

definition context_str :: "string \<Rightarrow> task \<Rightarrow> string option" where
  "context_str k t = (case hm_get (task_context t) k of None \<Rightarrow> None | Some v \<Rightarrow> as_str v)"

definition complexity_score :: "'p agent_definition \<Rightarrow> task \<Rightarrow> rat" where
  "complexity_score a t =
     (let task_complexity = (case context_str ''complexity'' t of None \<Rightarrow> ''medium'' | Some s \<Rightarrow> s);
          agent_level = of_nat (unat (complexity_level (agent_complexity a)));
          task_level = of_nat (unat (complexity_level task_complexity))
      in 1 - \<bar>agent_level - task_level\<bar> / 3)"

definition gpu_score :: "'p agent_definition \<Rightarrow> task \<Rightarrow> rat" where
  "gpu_score a t =
     (let gpu_required =
        (case hm_get (task_context t) ''gpu_required'' of
           None \<Rightarrow> False
         | Some v \<Rightarrow> (case as_bool v of None \<Rightarrow> False | Some b \<Rightarrow> b))
      in if \<not> gpu_required then 1
         else if agent_gpu_required a \<or> agent_gpu_preferred a then 1 else 0)"

definition domain_score :: "'p agent_definition \<Rightarrow> task \<Rightarrow> rat" where
  "domain_score a t =
     (case context_str ''domain'' t of
        None \<Rightarrow> 1
      | Some task_domain \<Rightarrow>
          (case agent_domain a of
             Some d \<Rightarrow> if eq_ignore_ascii_case d task_domain then 1 else 0
           | None \<Rightarrow> 1))"

text \<open>The trait groups and kinds of the bhava crate that the code names.\<close>

datatype trait_group = Social | Cognitive | Behavioral | Professional

datatype trait_kind =
    Warmth | Empathy | Humor | Patience | Confidence | Creativity | Curiosity | Skepticism
  | Directness | Precision | Autonomy | Pedagogy | Formality | Verbosity | RiskTolerance

record 'p personality_ops =
  po_group_average :: "'p \<Rightarrow> trait_group \<Rightarrow> rat"
  po_trait_normalized :: "'p \<Rightarrow> trait_kind \<Rightarrow> rat"
  po_to_lowercase :: "string \<Rightarrow> string"

definition trait_group_of :: "string \<Rightarrow> trait_group option" where
  "trait_group_of s = map_of
     [(''social'', Social), (''cognitive'', Cognitive), (''behavioral'', Behavioral),
      (''professional'', Professional)] s"

definition trait_kind_of :: "string \<Rightarrow> trait_kind option" where
  "trait_kind_of s = map_of
     [(''warmth'', Warmth), (''empathy'', Empathy), (''humor'', Humor), (''patience'', Patience),
      (''confidence'', Confidence), (''creativity'', Creativity), (''curiosity'', Curiosity),
      (''skepticism'', Skepticism), (''directness'', Directness), (''precision'', Precision),
      (''autonomy'', Autonomy), (''pedagogy'', Pedagogy), (''formality'', Formality),
      (''verbosity'', Verbosity), (''risk_tolerance'', RiskTolerance)] s"

definition personality_score :: "'p personality_ops \<Rightarrow> 'p agent_definition \<Rightarrow> task \<Rightarrow> rat" where
  "personality_score ops a t =
     (case agent_personality a of
        None \<Rightarrow> 1 / 2
      | Some profile \<Rightarrow>
          (let score = 1 / 2;
               score =
                 (case context_str ''personality_group'' t of
                    None \<Rightarrow> score
                  | Some group_name \<Rightarrow>
                      (case trait_group_of (po_to_lowercase ops group_name) of
                         None \<Rightarrow> score
                       | Some g \<Rightarrow> (po_group_average ops profile g + 1) / 2))
           in case context_str ''personality_trait'' t of
                None \<Rightarrow> score
              | Some trait_name \<Rightarrow>
                  (case trait_kind_of (po_to_lowercase ops trait_name) of
                     None \<Rightarrow> score
                   | Some k \<Rightarrow> (po_trait_normalized ops profile k + 1) / 2)))"

definition clamp :: "rat \<Rightarrow> rat \<Rightarrow> rat \<Rightarrow> rat" where
  "clamp lo hi x = (if x < lo then lo else if hi < x then hi else x)"

definition score_agent_with_tools ::
    "'p personality_ops \<Rightarrow> 'p agent_definition \<Rightarrow> task \<Rightarrow> string list option \<Rightarrow> rat" where
  "score_agent_with_tools ops a t required_tools =
     (let score = WEIGHT_TOOL_COVERAGE * tool_coverage_score a required_tools
                + WEIGHT_COMPLEXITY * complexity_score a t
                + WEIGHT_GPU * gpu_score a t
                + WEIGHT_DOMAIN * domain_score a t;
          score = score + WEIGHT_PERSONALITY * personality_score ops a t
      in clamp 0 1 score)"

definition score_agent :: "'p personality_ops \<Rightarrow> 'p agent_definition \<Rightarrow> task \<Rightarrow> rat" where
  "score_agent ops a t = score_agent_with_tools ops a t (extract_required_tools t)"

definition rank_agents ::
    "'p personality_ops \<Rightarrow> 'p agent_definition list \<Rightarrow> task \<Rightarrow> (nat \<times> rat) list" where
  "rank_agents ops agents t =
     (let required_tools = extract_required_tools t
      in sort_desc snd
           (map (\<lambda>(i, a). (i, score_agent_with_tools ops a t required_tools)) (enumerate 0 agents)))"

section \<open>Delegation (orchestrator/hierarchical.rs)\<close>

record 'p manager_agent =
  mgr_definition :: "'p agent_definition"
  mgr_agents :: "'p agent_definition list"
  mgr_tasks :: "task list"

definition manager_agent_new ::
    "'p agent_definition \<Rightarrow> 'p agent_definition list \<Rightarrow> task list \<Rightarrow> 'p manager_agent" where
  "manager_agent_new d ags ts = \<lparr> mgr_definition = d, mgr_agents = ags, mgr_tasks = ts \<rparr>"

definition delegate_task ::
    "'p personality_ops \<Rightarrow> 'p agent_definition \<Rightarrow> 'p agent_definition list \<Rightarrow> task \<Rightarrow> task_id \<times> string" where
  "delegate_task ops manager agents t =
     (if agents = [] then (task_id t, agent_key manager)
      else
        (let ranked = rank_agents ops agents t;
             best_idx = (case ranked of [] \<Rightarrow> 0 | (i, _) # _ \<Rightarrow> i)
         in (task_id t, agent_key (agents ! best_idx))))"

definition delegate_tasks :: "'p personality_ops \<Rightarrow> 'p agent_definition
    \<Rightarrow> 'p agent_definition list \<Rightarrow> task list \<Rightarrow> (task_id \<times> string) list" where
  "delegate_tasks ops manager agents ts = map (delegate_task ops manager agents) ts"

definition delegate :: "'p personality_ops \<Rightarrow> 'p manager_agent \<Rightarrow> (task_id \<times> string) list" where
  "delegate ops m = delegate_tasks ops (mgr_definition m) (mgr_agents m) (mgr_tasks m)"

section \<open>Ranking\<close>

interpretation ra: ranking "\<lambda>ags. rank_agents ops ags t" "\<lambda>i n a. (i, score_agent ops a t)"
  "\<lambda>_. True" snd for ops :: "'p personality_ops" and t
  by unfold_locales (simp add: rank_agents_def score_agent_def)

text \<open>The personality values that bhava documents lie between -1 and 1.\<close>

definition normalised :: "'p personality_ops \<Rightarrow> bool" where
  "normalised ops \<longleftrightarrow>
     (\<forall>p g. - 1 \<le> po_group_average ops p g \<and> po_group_average ops p g \<le> 1) \<and>
     (\<forall>p k. - 1 \<le> po_trait_normalized ops p k \<and> po_trait_normalized ops p k \<le> 1)"

lemma tool_coverage_unit: "0 \<le> tool_coverage_score a req" "tool_coverage_score a req \<le> 1"
  by (auto simp: tool_coverage_score_def divide_le_eq_1 split: option.splits)

lemma complexity_level_range: "1 \<le> unat (complexity_level s)" "unat (complexity_level s) \<le> 3"
  by (simp_all add: complexity_level_def)

lemma complexity_unit: "0 \<le> complexity_score a t" "complexity_score a t \<le> 1"
proof -
  have "\<bar>of_nat m - of_nat n\<bar> \<le> (3 :: rat)" if "m \<le> 3" "n \<le> 3" for m n
    using that of_nat_mono [of m 3, where 'a = rat] of_nat_mono [of n 3, where 'a = rat]
      of_nat_0_le_iff [of m, where 'a = rat] of_nat_0_le_iff [of n, where 'a = rat]
    by (simp add: abs_le_iff)
  from this [OF complexity_level_range(2) complexity_level_range(2)]
  show "0 \<le> complexity_score a t" "complexity_score a t \<le> 1"
    unfolding complexity_score_def Let_def by (simp_all add: divide_le_eq)
qed

lemma gpu_unit: "0 \<le> gpu_score a t" "gpu_score a t \<le> 1"
  by (auto simp: gpu_score_def Let_def)

lemma domain_unit: "0 \<le> domain_score a t" "domain_score a t \<le> 1"
  by (auto simp: domain_score_def split: option.splits)

lemma personality_unit:
  assumes "normalised ops"
  shows "0 \<le> personality_score ops a t" and "personality_score ops a t \<le> 1"
proof -
  have "0 \<le> po_group_average ops p g + 1" "po_group_average ops p g \<le> 1"
    "0 \<le> po_trait_normalized ops p k + 1" "po_trait_normalized ops p k \<le> 1" for p g k
    using assms by (simp_all add: normalised_def minus_le_iff add.commute [of _ 1] diff_le_eq [symmetric])
  then show "0 \<le> personality_score ops a t" and "personality_score ops a t \<le> 1"
    by (simp_all add: personality_score_def Let_def split: option.split)
qed

lemma clamp_mono: "lo \<le> hi \<Longrightarrow> x \<le> y \<Longrightarrow> clamp lo hi x \<le> clamp lo hi y"
  by (auto simp: clamp_def)

lemma filter_length_mono:
  "(\<And>x. P x \<Longrightarrow> Q x) \<Longrightarrow> length (filter P xs) \<le> length (filter Q xs)"
  by (induction xs) auto

section \<open>Properties\<close>

text \<open>The score of an agent is the weighted mean of the five factors, with the weights
  0.35, 0.25, 0.10, 0.15 and 0.15, each factor lying between 0 and 1: clamping never
  changes it. An agent with a profile is scored so when bhava's values are normalised.\<close>

theorem score_agent_weighted_mean:
  assumes "normalised ops"
  shows "score_agent ops a t =
      35 / 100 * tool_coverage_score a (extract_required_tools t) + 25 / 100 * complexity_score a t +
      10 / 100 * gpu_score a t + 15 / 100 * domain_score a t + 15 / 100 * personality_score ops a t \<and>
    0 \<le> score_agent ops a t \<and> score_agent ops a t \<le> 1"
proof -
  let ?s = "35 / 100 * tool_coverage_score a (extract_required_tools t) + 25 / 100 * complexity_score a t +
      10 / 100 * gpu_score a t + 15 / 100 * domain_score a t + 15 / 100 * personality_score ops a t"
  have "0 \<le> ?s" "?s \<le> 1"
    using tool_coverage_unit [of a "extract_required_tools t"] complexity_unit [of a t]
      gpu_unit [of a t] domain_unit [of a t] personality_unit [OF assms, of a t] by linarith+
  then show ?thesis
    by (simp add: score_agent_def score_agent_with_tools_def weights clamp_def Let_def not_less)
qed

definition sample_ops :: "unit personality_ops" where
  "sample_ops = \<lparr> po_group_average = (\<lambda>_ _. 1), po_trait_normalized = (\<lambda>_ _. 0),
     po_to_lowercase = to_ascii_lowercase \<rparr>"

theorem score_agent_weighted_mean_witness:
  "0 \<le> score_agent sample_ops
     (with_personality () (agent_definition_new ''a'' ''r'' ''g'')) (task_new 1 ''t'')"
proof -
  have "normalised sample_ops" by (simp add: normalised_def sample_ops_def)
  from score_agent_weighted_mean [OF this] show ?thesis by blast
qed

text \<open>An agent that gains tools never scores lower.\<close>

theorem score_agent_tools_mono:
  assumes "set (agent_tools a) \<subseteq> set tools"
  shows "score_agent ops a t \<le> score_agent ops (with_tools tools a) t"
proof -
  have "tool_coverage_score a req \<le> tool_coverage_score (with_tools tools a) req" for req
    using assms
    by (auto simp: tool_coverage_score_def with_tools_def divide_right_mono filter_length_mono subset_iff
          split: option.splits)
  moreover have "complexity_score (with_tools tools a) t = complexity_score a t"
    "gpu_score (with_tools tools a) t = gpu_score a t"
    "domain_score (with_tools tools a) t = domain_score a t"
    "personality_score ops (with_tools tools a) t = personality_score ops a t"
    by (simp_all add: with_tools_def complexity_score_def gpu_score_def domain_score_def
          personality_score_def split: option.split)
  ultimately show ?thesis
    by (auto simp: score_agent_def score_agent_with_tools_def Let_def weights intro!: clamp_mono)
qed

theorem score_agent_tools_mono_witness:
  "score_agent sample_ops (agent_definition_new ''a'' ''r'' ''g'') (task_new 1 ''t'')
   \<le> score_agent sample_ops (with_tools [''x''] (agent_definition_new ''a'' ''r'' ''g'')) (task_new 1 ''t'')"
  by (rule score_agent_tools_mono) (simp add: agent_definition_new_def)

text \<open>\<open>rank_agents\<close> returns every agent's index with its score exactly once, best score
  first.\<close>

theorem rank_agents_correct:
  "mset (rank_agents ops agents t) = mset (map (\<lambda>i. (i, score_agent ops (agents ! i) t)) [0..<length agents]) \<and>
   sorted_wrt (\<lambda>a b. snd b \<le> snd a) (rank_agents ops agents t)"
proof -
  have "map (\<lambda>(i, a). (i, score_agent ops a t)) (enumerate 0 agents) =
      map (\<lambda>i. (i, score_agent ops (agents ! i) t)) [0..<length agents]"
    by (auto simp: enumerate_eq_zip intro!: nth_equalityI)
  then show ?thesis using ra.rank_sorted [of ops agents t] by (simp add: ra.rank_eq)
qed

text \<open>Delegation assigns the tasks in order, each to an agent of maximal score, the
  first such agent in the list; the manager takes a task only when there are no workers.\<close>

theorem delegate_tasks_best:
  "map fst (delegate_tasks ops manager agents ts) = map task_id ts \<and>
   (\<forall>k < length ts.
      if agents = [] then snd (delegate_tasks ops manager agents ts ! k) = agent_key manager
      else \<exists>i < length agents. snd (delegate_tasks ops manager agents ts ! k) = agent_key (agents ! i) \<and>
        (\<forall>j < length agents.
           score_agent ops (agents ! j) (ts ! k) \<le> score_agent ops (agents ! i) (ts ! k) \<and>
           (j < i \<longrightarrow> score_agent ops (agents ! j) (ts ! k) < score_agent ops (agents ! i) (ts ! k))))"
proof -
  have one: "\<exists>i < length agents. snd (delegate_task ops manager agents t) = agent_key (agents ! i) \<and>
      (\<forall>j < length agents. score_agent ops (agents ! j) t \<le> score_agent ops (agents ! i) t \<and>
         (j < i \<longrightarrow> score_agent ops (agents ! j) t < score_agent ops (agents ! i) t))"
    if "agents \<noteq> []" for t
  proof -
    have "rank_agents ops agents t \<noteq> []" using that by (auto simp: ra.rank_empty_iff)
    then obtain r rs where r: "rank_agents ops agents t = r # rs" by (cases "rank_agents ops agents t") auto
    from ra.rank_best [OF r] show ?thesis
      using that by (auto simp: delegate_task_def r)
  qed
  have "fst (delegate_task ops manager agents t) = task_id t" for t
    by (simp add: delegate_task_def Let_def)
  with one show ?thesis
    by (auto simp: delegate_tasks_def delegate_task_def [of ops manager "[]"])
qed

theorem delegate_tasks_best_witness:
  "snd (delegate_tasks sample_ops (agent_definition_new ''m'' ''r'' ''g'')
      [agent_definition_new ''a'' ''r'' ''g''] [task_new 1 ''t''] ! 0) = ''a''"
  using delegate_tasks_best [of sample_ops "agent_definition_new ''m'' ''r'' ''g''"
      "[agent_definition_new ''a'' ''r'' ''g'']" "[task_new 1 ''t'']"]
  by (simp add: agent_definition_new_def)

end
