(* ===== verification/Budget.thy ===== *)
theory Budget
  imports Core_Types
begin

text \<open>
  Token and cost budgets, \<open>orchestrator/budget.rs\<close>. The two atomic counters are 64-bit
  words and \<open>fetch_add\<close> wraps. Costs are kept in units of 1/10000 USD; the cast of a
  rounded-up \<open>f64\<close> to \<open>u64\<close> saturates at both ends.
\<close>

datatype budget_exceeded =
    TokensExceeded u64 u64
  | CostExceeded u64 u64

record budget_tracker =
  bt_tokens_used :: u64
  bt_cost_units :: u64
  bt_max_tokens :: "u64 option"
  bt_max_cost_units :: "u64 option"

text \<open>\<open>(c * 10_000.0).ceil() as u64\<close>.\<close>

definition usd_to_units :: "rat \<Rightarrow> u64" where
  "usd_to_units c =
     (let n = \<lceil>c * 10000\<rceil>
      in if n < 0 then 0 else if 2 ^ 64 \<le> n then - 1 else word_of_int n)"

definition budget_tracker_new :: "resource_budget \<Rightarrow> budget_tracker" where
  "budget_tracker_new b =
     \<lparr> bt_tokens_used = 0, bt_cost_units = 0, bt_max_tokens = budget_max_tokens b,
       bt_max_cost_units = map_option usd_to_units (budget_max_cost_usd b) \<rparr>"

definition budget_check :: "budget_tracker \<Rightarrow> budget_exceeded + unit" where
  "budget_check t =
     (case (case bt_max_tokens t of
              Some limit \<Rightarrow>
                if limit \<le> bt_tokens_used t then Some (TokensExceeded (bt_tokens_used t) limit) else None
            | None \<Rightarrow> None) of
        Some e \<Rightarrow> Inl e
      | None \<Rightarrow>
          (case bt_max_cost_units t of
             Some limit \<Rightarrow>
               if limit \<le> bt_cost_units t then Inl (CostExceeded (bt_cost_units t) limit) else Inr ()
           | None \<Rightarrow> Inr ()))"

definition record_tokens :: "u64 \<Rightarrow> budget_tracker \<Rightarrow> budget_tracker" where
  "record_tokens n t = t\<lparr>bt_tokens_used := bt_tokens_used t + n\<rparr>"

definition record_cost :: "rat \<Rightarrow> budget_tracker \<Rightarrow> budget_tracker" where
  "record_cost c t = t\<lparr>bt_cost_units := bt_cost_units t + usd_to_units c\<rparr>"

definition tokens_used :: "budget_tracker \<Rightarrow> u64" where
  "tokens_used t = bt_tokens_used t"

definition cost_usd :: "budget_tracker \<Rightarrow> rat" where
  "cost_usd t = of_nat (unat (bt_cost_units t)) / 10000"

definition has_limits :: "budget_tracker \<Rightarrow> bool" where
  "has_limits t \<longleftrightarrow> bt_max_tokens t \<noteq> None \<or> bt_max_cost_units t \<noteq> None"

section \<open>Usage records\<close>

text \<open>What concurrent task executions do to the shared tracker: they record the tokens
  and the cost of finished inference calls.\<close>

datatype usage = UsedTokens u64 | UsedCost rat

fun record_usage :: "usage \<Rightarrow> budget_tracker \<Rightarrow> budget_tracker" where
  "record_usage (UsedTokens n) t = record_tokens n t"
| "record_usage (UsedCost c) t = record_cost c t"

fun usage_tokens :: "usage \<Rightarrow> nat" where
  "usage_tokens (UsedTokens n) = unat n"
| "usage_tokens (UsedCost c) = 0"

fun usage_cost :: "usage \<Rightarrow> rat" where
  "usage_cost (UsedTokens n) = 0"
| "usage_cost (UsedCost c) = c"

definition usage_units :: "usage \<Rightarrow> nat" where
  "usage_units u = nat \<lceil>usage_cost u * 10000\<rceil>"

lemma unat_word_of_int: "0 \<le> n \<Longrightarrow> n < 2 ^ 64 \<Longrightarrow> unat (word_of_int n :: u64) = nat n"
  by (simp add: unsigned_of_int take_bit_int_eq_self)

lemma unat_usd_to_units:
  assumes "nat \<lceil>c * 10000\<rceil> < 2 ^ 64"
  shows "unat (usd_to_units c) = nat \<lceil>c * 10000\<rceil>"
proof -
  define n where "n = \<lceil>c * 10000\<rceil>"
  have "n < 2 ^ 64"
    using assms unfolding n_def [symmetric] by (simp only: nat_less_numeral_power_cancel_iff)
  then have "unat (if n < 0 then 0 else if 2 ^ 64 \<le> n then - 1 else word_of_int n :: u64) = nat n"
    using unat_word_of_int [of n] by auto
  then show ?thesis by (simp only: usd_to_units_def Let_def n_def)
qed

lemma unat_add_no_wrap:
  "unat a + unat b < 2 ^ LENGTH('w) \<Longrightarrow> unat (a + b :: 'w::len word) = unat a + unat b"
  by (simp add: unat_word_ariths)

interpretation bu: commuting_machine record_usage
proof unfold_locales
  show "record_usage e (record_usage e' s) = record_usage e' (record_usage e s)" for e e' s
    by (cases e; cases e') (simp_all add: record_tokens_def record_cost_def add_ac)
qed

lemma record_usage_limits [simp]:
  "bt_max_tokens (fold record_usage us t) = bt_max_tokens t"
  "bt_max_cost_units (fold record_usage us t) = bt_max_cost_units t"
proof (induction us arbitrary: t)
  case (Cons u us)
  { case 1 then show ?case using Cons by (cases u) (simp_all add: record_tokens_def record_cost_def) }
  { case 2 then show ?case using Cons by (cases u) (simp_all add: record_tokens_def record_cost_def) }
qed simp_all

text \<open>As long as the true totals fit in 64 bits the counters hold them.\<close>

lemma recorded_tokens:
  "unat (bt_tokens_used t) + sum_list (map usage_tokens us) < 2 ^ 64 \<Longrightarrow>
   unat (bt_tokens_used (fold record_usage us t)) =
     unat (bt_tokens_used t) + sum_list (map usage_tokens us)"
proof (induction us arbitrary: t)
  case Nil
  then show ?case by simp
next
  case (Cons u us)
  have "unat (bt_tokens_used (record_usage u t)) = unat (bt_tokens_used t) + usage_tokens u"
    using Cons.prems
    by (cases u) (auto simp: record_tokens_def record_cost_def unat_add_no_wrap)
  with Cons.IH [of "record_usage u t"] Cons.prems show ?case by simp
qed

lemma recorded_units:
  "unat (bt_cost_units t) + sum_list (map usage_units us) < 2 ^ 64 \<Longrightarrow>
   unat (bt_cost_units (fold record_usage us t)) =
     unat (bt_cost_units t) + sum_list (map usage_units us)"
proof (induction us arbitrary: t)
  case Nil
  then show ?case by simp
next
  case (Cons u us)
  have "unat (bt_cost_units (record_usage u t)) = unat (bt_cost_units t) + usage_units u"
    using Cons.prems
    by (cases u)
      (auto simp: record_tokens_def record_cost_def usage_units_def unat_usd_to_units unat_add_no_wrap)
  with Cons.IH [of "record_usage u t"] Cons.prems show ?case by simp
qed

lemma usage_units_bounds:
  assumes "0 \<le> usage_cost u"
  shows "usage_cost u \<le> of_nat (usage_units u) / 10000"
    and "of_nat (usage_units u) / 10000 < usage_cost u + 1 / 10000"
proof -
  have "of_nat (usage_units u) = (of_int \<lceil>usage_cost u * 10000\<rceil> :: rat)"
    using assms by (simp add: usage_units_def)
  then show "usage_cost u \<le> of_nat (usage_units u) / 10000"
    and "of_nat (usage_units u) / 10000 < usage_cost u + 1 / 10000"
    using ceiling_correct [of "usage_cost u * 10000"] by (simp_all add: field_simps)
qed

lemma sum_units_bounds:
  assumes "\<forall>u \<in> set us. 0 \<le> usage_cost u"
  shows "sum_list (map usage_cost us) \<le> of_nat (sum_list (map usage_units us)) / 10000 \<and>
    of_nat (sum_list (map usage_units us)) / 10000 \<le>
      sum_list (map usage_cost us) + of_nat (length us) / 10000"
  using assms
proof (induction us)
  case Nil
  then show ?case by simp
next
  case (Cons u us)
  with usage_units_bounds [of u] show ?case by (force simp: add_divide_distrib)
qed

section \<open>Properties\<close>

text \<open>The order in which concurrent executions record their usage does not matter:
  every interleaving of the same records gives the same tracker, wrap-around included.\<close>

theorem budget_interleaving:
  assumes "mset us = mset vs"
  shows "fold record_usage us t = fold record_usage vs t"
  using assms by (rule bu.interleaving)

theorem budget_interleaving_witness:
  "fold record_usage [UsedTokens 7, UsedCost 2, UsedTokens 5] (budget_tracker_new resource_budget_default) =
   fold record_usage [UsedCost 2, UsedTokens 5, UsedTokens 7] (budget_tracker_new resource_budget_default)"
  by (rule budget_interleaving) simp

text \<open>The check is exact: after any sequence of usage records whose totals fit in 64
  bits, \<open>check\<close> refuses exactly when the tokens used have reached the token limit or the
  cost units have reached the cost limit.\<close>

theorem budget_check_exact:
  assumes "sum_list (map usage_tokens us) < 2 ^ 64" and "sum_list (map usage_units us) < 2 ^ 64"
  shows "budget_check (fold record_usage us (budget_tracker_new b)) = Inr () \<longleftrightarrow>
    (\<forall>limit. budget_max_tokens b = Some limit \<longrightarrow> sum_list (map usage_tokens us) < unat limit) \<and>
    (\<forall>limit. budget_max_cost_usd b = Some limit \<longrightarrow>
       sum_list (map usage_units us) < unat (usd_to_units limit))"
  using recorded_tokens [of "budget_tracker_new b" us] recorded_units [of "budget_tracker_new b" us] assms
  by (auto simp: budget_check_def budget_tracker_new_def word_le_nat_alt split: option.splits)

theorem budget_check_exact_witness:
  "budget_check (fold record_usage [UsedTokens 7, UsedTokens 5]
     (budget_tracker_new (resource_budget_default\<lparr>budget_max_tokens := Some 12\<rparr>))) \<noteq> Inr ()"
  using budget_check_exact [of "[UsedTokens 7, UsedTokens 5]"
      "resource_budget_default\<lparr>budget_max_tokens := Some 12\<rparr>"]
  by (simp add: usage_units_def)

text \<open>The tracker never under-reports: for non-negative costs whose units fit in 64
  bits, the reported cost is at least the true total and exceeds it by at most one unit
  (1/10000 USD) per record.\<close>

theorem budget_cost_bounds:
  assumes "\<forall>u \<in> set us. 0 \<le> usage_cost u" and "sum_list (map usage_units us) < 2 ^ 64"
  shows "sum_list (map usage_cost us) \<le> cost_usd (fold record_usage us (budget_tracker_new b)) \<and>
    cost_usd (fold record_usage us (budget_tracker_new b)) \<le>
      sum_list (map usage_cost us) + of_nat (length us) / 10000"
  using recorded_units [of "budget_tracker_new b" us] sum_units_bounds [OF assms(1)] assms(2)
  by (simp add: cost_usd_def budget_tracker_new_def)

theorem budget_cost_bounds_witness:
  "1 / 3 \<le> cost_usd (fold record_usage [UsedCost (1 / 3)] (budget_tracker_new resource_budget_default))"
proof -
  have "\<lceil>10000 / 3 :: rat\<rceil> \<le> 3334" by (simp add: ceiling_le_iff)
  then have "nat \<lceil>10000 / 3 :: rat\<rceil> < 2 ^ 64"
    unfolding nat_less_numeral_power_cancel_iff by (rule order.strict_trans1) simp
  then show ?thesis
    using budget_cost_bounds [of "[UsedCost (1 / 3)]" resource_budget_default]
    by (simp add: usage_units_def)
qed

end
