(* ===== verification/PubSub.thy ===== *)
theory PubSub
  imports Core_Types
begin

text \<open>
  Topic publish/subscribe, \<open>orchestrator/pubsub.rs\<close>: the wildcard matcher with its
  recursion limit, and the hub with its bound on the number of patterns. The broadcast
  channels are tokio's: the hub takes their three operations as an argument.
\<close>

definition CHANNEL_CAPACITY :: nat where
  "CHANNEL_CAPACITY = 256"

definition MAX_SUBSCRIPTION_PATTERNS :: nat where
  "MAX_SUBSCRIPTION_PATTERNS = 10000"

definition MAX_MATCH_DEPTH :: nat where
  "MAX_MATCH_DEPTH = 32"

section \<open>Pattern matching\<close>

function matches_recursive_inner :: "string list \<Rightarrow> string list \<Rightarrow> nat \<Rightarrow> bool" where
  "matches_recursive_inner pat topic depth =
     (if MAX_MATCH_DEPTH < depth then False
      else case pat of
        [] \<Rightarrow> topic = []
      | p # rest_pat \<Rightarrow>
          if p = ''#'' then
            (if rest_pat = [] then True
             else list_ex (\<lambda>i. matches_recursive_inner rest_pat (drop i topic) (depth + 1))
                    [0..<length topic + 1])
          else case topic of
            [] \<Rightarrow> list_all (\<lambda>s. s = ''#'') pat
          | t # rest_topic \<Rightarrow>
              if p = ''*'' then matches_recursive_inner rest_pat rest_topic (depth + 1)
              else if p = t then matches_recursive_inner rest_pat rest_topic (depth + 1)
              else False)"
  by pat_completeness auto

termination matches_recursive_inner
  by (relation "measure (\<lambda>(pat, _, _). length pat)") auto

declare matches_recursive_inner.simps [simp del]

definition matches_recursive :: "string list \<Rightarrow> string list \<Rightarrow> bool" where
  "matches_recursive pat topic = matches_recursive_inner pat topic 0"

text \<open>Up to 16 segments the code copies the segments into stack arrays of 16 slots and
  matches the filled prefixes; beyond that it collects vectors.\<close>

definition fill_buffer :: "string list \<Rightarrow> string list" where
  "fill_buffer segs = fold (\<lambda>(i, seg) buf. buf[i := seg]) (enumerate 0 segs) (replicate 16 [])"

definition matches_pattern :: "string \<Rightarrow> string \<Rightarrow> bool" where
  "matches_pattern pattern topic =
     (let pat_count = length (split_on CHR ''.'' pattern);
          topic_count = length (split_on CHR ''.'' topic)
      in if pat_count \<le> 16 \<and> topic_count \<le> 16 then
           matches_recursive
             (take pat_count (fill_buffer (split_on CHR ''.'' pattern)))
             (take topic_count (fill_buffer (split_on CHR ''.'' topic)))
         else
           matches_recursive (split_on CHR ''.'' pattern) (split_on CHR ''.'' topic))"

section \<open>The hub\<close>

record topic_message =
  tm_topic :: string
  tm_payload :: json
  tm_timestamp :: instant

text \<open>The operations of tokio's broadcast channels: a new channel of a given capacity, a
  new receiver, and a send (whose error the code ignores).\<close>

record ('tx, 'rx) broadcast_ops =
  bc_channel :: "nat \<Rightarrow> 'tx"
  bc_subscribe :: "'tx \<Rightarrow> 'tx \<times> 'rx"
  bc_send :: "topic_message \<Rightarrow> 'tx \<Rightarrow> 'tx"

record 'tx pubsub =
  subscriptions :: "(string, 'tx) hmap"

definition pubsub_new :: "'tx pubsub" where
  "pubsub_new = \<lparr> subscriptions = hm_empty \<rparr>"

definition subscribe :: "('tx, 'rx) broadcast_ops \<Rightarrow> string \<Rightarrow> 'tx pubsub \<Rightarrow> 'rx option \<times> 'tx pubsub" where
  "subscribe ops pattern ps =
     (case hm_get (subscriptions ps) pattern of
        Some tx \<Rightarrow>
          (let (tx', rx) = bc_subscribe ops tx
           in (Some rx, ps\<lparr>subscriptions := hm_insert pattern tx' (subscriptions ps)\<rparr>))
      | None \<Rightarrow>
          if MAX_SUBSCRIPTION_PATTERNS \<le> hm_len (subscriptions ps) then (None, ps)
          else
            (let (tx', rx) = bc_subscribe ops (bc_channel ops CHANNEL_CAPACITY)
             in (Some rx, ps\<lparr>subscriptions := hm_insert pattern tx' (subscriptions ps)\<rparr>)))"

definition publish :: "('tx, 'rx) broadcast_ops \<Rightarrow> instant \<Rightarrow> string \<Rightarrow> json \<Rightarrow> 'tx pubsub \<Rightarrow> 'tx pubsub" where
  "publish ops now topic payload ps =
     (let msg = \<lparr> tm_topic = topic, tm_payload = payload, tm_timestamp = now \<rparr>
      in ps\<lparr>subscriptions :=
             map (\<lambda>(pattern, tx). (pattern, if matches_pattern pattern topic then bc_send ops msg tx else tx))
               (subscriptions ps)\<rparr>)"

definition unsubscribe_all :: "string \<Rightarrow> 'tx pubsub \<Rightarrow> 'tx pubsub" where
  "unsubscribe_all pattern ps = ps\<lparr>subscriptions := hm_remove pattern (subscriptions ps)\<rparr>"

definition pattern_count :: "'tx pubsub \<Rightarrow> nat" where
  "pattern_count ps = hm_len (subscriptions ps)"

section \<open>What the wildcards mean\<close>

text \<open>The documented rules, as a relation between the segments of a pattern and of a
  topic: \<open>#\<close> stands for any run of segments, \<open>*\<close> for exactly one, anything else for itself.\<close>

inductive segments_match :: "string list \<Rightarrow> string list \<Rightarrow> bool" where
  match_Nil: "segments_match [] []"
| match_hash: "segments_match ps ts \<Longrightarrow> segments_match (''#'' # ps) (us @ ts)"
| match_star: "segments_match ps ts \<Longrightarrow> segments_match (''*'' # ps) (t # ts)"
| match_literal: "p \<noteq> ''#'' \<Longrightarrow> p \<noteq> ''*'' \<Longrightarrow> segments_match ps ts \<Longrightarrow> segments_match (p # ps) (p # ts)"

inductive_cases segments_match_NilE: "segments_match [] ts"
inductive_cases segments_match_ConsE: "segments_match (p # ps) ts"
inductive_simps segments_match_Nil_iff [simp]: "segments_match [] ts"
inductive_simps segments_match_Cons_iff: "segments_match (p # ps) ts"

lemma segments_match_hash_drop:
  "segments_match (''#'' # ps) ts \<longleftrightarrow> (\<exists>i \<le> length ts. segments_match ps (drop i ts))"
proof
  assume "segments_match (''#'' # ps) ts"
  then obtain us ts' where "ts = us @ ts'" "segments_match ps ts'"
    by (auto elim: segments_match_ConsE)
  then show "\<exists>i \<le> length ts. segments_match ps (drop i ts)"
    by (intro exI [of _ "length us"]) simp
next
  assume "\<exists>i \<le> length ts. segments_match ps (drop i ts)"
  then obtain i where "segments_match ps (drop i ts)" by blast
  then show "segments_match (''#'' # ps) ts"
    using match_hash [of ps "drop i ts" "take i ts"] by simp
qed

lemma segments_match_hash: "segments_match [''#''] ts"
  using match_hash [OF match_Nil, of ts] by simp

lemma segments_match_no_hash:
  assumes "p \<noteq> ''#''"
  shows "segments_match (p # ps) ts \<longleftrightarrow>
    (\<exists>t ts'. ts = t # ts' \<and> (p = ''*'' \<or> p = t) \<and> segments_match ps ts')"
  using assms by (auto simp: segments_match_Cons_iff)

lemma matches_inner_Nil:
  "matches_recursive_inner [] ts d \<longleftrightarrow> d \<le> MAX_MATCH_DEPTH \<and> ts = []"
  by (simp add: matches_recursive_inner.simps [of "[]"])

lemma matches_inner_hash:
  "matches_recursive_inner (''#'' # ps) ts d \<longleftrightarrow> d \<le> MAX_MATCH_DEPTH \<and>
     (ps = [] \<or> (\<exists>i \<le> length ts. matches_recursive_inner ps (drop i ts) (Suc d)))"
  by (auto simp: matches_recursive_inner.simps [of "''#'' # ps"] list_ex_iff Bex_def less_Suc_eq_le
        simp del: upt_Suc)

lemma matches_inner_other:
  assumes "p \<noteq> ''#''"
  shows "matches_recursive_inner (p # ps) ts d \<longleftrightarrow> d \<le> MAX_MATCH_DEPTH \<and>
     (\<exists>t ts'. ts = t # ts' \<and> (p = ''*'' \<or> p = t) \<and> matches_recursive_inner ps ts' (Suc d))"
  using assms by (auto simp: matches_recursive_inner.simps [of "p # ps"] split: list.splits)

lemmas matches_inner_rules = matches_inner_Nil matches_inner_hash matches_inner_other

lemma matches_inner_sound:
  "matches_recursive_inner pat topic depth \<Longrightarrow> segments_match pat topic"
proof (induction pat arbitrary: topic depth)
  case Nil
  then show ?case by (simp add: matches_inner_rules)
next
  case (Cons p ps)
  show ?case
  proof (cases "p = ''#''")
    case True
    with Cons show ?thesis
      by (cases "ps = []") (auto simp: matches_inner_hash segments_match_hash segments_match_hash_drop)
  next
    case False
    with Cons show ?thesis
      by (auto simp: matches_inner_other segments_match_no_hash)
  qed
qed

lemma matches_inner_complete:
  "segments_match pat topic \<Longrightarrow> depth + length pat \<le> MAX_MATCH_DEPTH \<Longrightarrow>
   matches_recursive_inner pat topic depth"
proof (induction pat arbitrary: topic depth)
  case Nil
  then show ?case by (simp add: matches_inner_rules)
next
  case (Cons p ps)
  show ?case
  proof (cases "p = ''#''")
    case True
    with Cons.prems Cons.IH [where depth = "Suc depth"] show ?thesis
      by (auto simp: matches_inner_hash segments_match_hash_drop)
  next
    case False
    with Cons.prems Cons.IH [where depth = "Suc depth"] show ?thesis
      by (auto simp: matches_inner_other segments_match_no_hash)
  qed
qed

text \<open>The stack arrays hold the segments.\<close>

lemma fold_update_enumerate:
  "n + length segs \<le> length buf \<Longrightarrow>
   fold (\<lambda>(i, seg) buf. buf[i := seg]) (enumerate n segs) buf =
     take n buf @ segs @ drop (n + length segs) buf"
proof (induction segs arbitrary: n buf)
  case Nil
  then show ?case by simp
next
  case (Cons s segs)
  have "take (Suc n) (buf[n := s]) = take n buf @ [s]"
    using Cons.prems by (simp add: take_Suc_conv_app_nth)
  with Cons.IH [of "Suc n" "buf[n := s]"] Cons.prems show ?case by simp
qed

lemma take_fill_buffer: "length segs \<le> 16 \<Longrightarrow> take (length segs) (fill_buffer segs) = segs"
  by (simp add: fill_buffer_def fold_update_enumerate)

lemma matches_pattern_segments:
  "matches_pattern pattern topic =
     matches_recursive (split_on CHR ''.'' pattern) (split_on CHR ''.'' topic)"
  by (simp add: matches_pattern_def Let_def take_fill_buffer)

section \<open>The hub's invariant\<close>

definition pubsub_ok :: "'tx pubsub \<Rightarrow> bool" where
  "pubsub_ok ps \<longleftrightarrow> hm_wf (subscriptions ps) \<and> hm_len (subscriptions ps) \<le> MAX_SUBSCRIPTION_PATTERNS"

datatype pubsub_op =
    OpSubscribe string
  | OpPublish instant string json
  | OpUnsubscribeAll string

fun pubsub_step :: "('tx, 'rx) broadcast_ops \<Rightarrow> pubsub_op \<Rightarrow> 'tx pubsub \<Rightarrow> 'tx pubsub" where
  "pubsub_step ops (OpSubscribe pattern) ps = snd (subscribe ops pattern ps)"
| "pubsub_step ops (OpPublish now topic payload) ps = publish ops now topic payload ps"
| "pubsub_step ops (OpUnsubscribeAll pattern) ps = unsubscribe_all pattern ps"

lemma subscribe_ok [invariant_intros]: "pubsub_ok ps \<Longrightarrow> pubsub_ok (snd (subscribe ops pattern ps))"
  by (auto simp: pubsub_ok_def subscribe_def hm.len_insert split: option.splits prod.splits)

lemma publish_get:
  "hm_get (subscriptions (publish ops now topic payload ps)) pattern =
     map_option (\<lambda>tx. if matches_pattern pattern topic
        then bc_send ops \<lparr> tm_topic = topic, tm_payload = payload, tm_timestamp = now \<rparr> tx else tx)
       (hm_get (subscriptions ps) pattern)"
proof -
  have "map_of (map (\<lambda>(k, v). (k, f k v)) m) k = map_option (f k) (map_of m k)"
    for f :: "string \<Rightarrow> 'a \<Rightarrow> 'a" and m k
    by (induction m) auto
  then show ?thesis by (simp add: publish_def Let_def hm_get_def)
qed

lemma publish_ok [invariant_intros]: "pubsub_ok ps \<Longrightarrow> pubsub_ok (publish ops now topic payload ps)"
  by (auto simp: pubsub_ok_def publish_def Let_def hm_wf_def hm_len_def comp_def case_prod_unfold)

lemma unsubscribe_all_ok [invariant_intros]: "pubsub_ok ps \<Longrightarrow> pubsub_ok (unsubscribe_all pattern ps)"
  using hm.len_remove_le [of "subscriptions ps" pattern] by (simp add: pubsub_ok_def unsubscribe_all_def)

interpretation pm: invariant_machine "\<lambda>ps. ps = pubsub_new" "pubsub_step ops" pubsub_ok
  for ops :: "('tx, 'rx) broadcast_ops"
proof unfold_locales
  show "pubsub_ok s" if "s = pubsub_new" for s :: "'tx pubsub"
    using that by (simp add: pubsub_ok_def pubsub_new_def)
  show "pubsub_ok (pubsub_step ops e s)" if "pubsub_ok s" for s and e
    using that by (cases e) (simp_all add: invariant_intros)
qed

section \<open>Properties\<close>

text \<open>C34. The matcher implements the documented wildcard rules: it never accepts a topic
  that the rules refuse, and for patterns of at most 32 segments (the recursion limit) it
  accepts exactly the topics the rules accept.\<close>

theorem matches_pattern_correct:
  "(matches_pattern pattern topic \<longrightarrow>
      segments_match (split_on CHR ''.'' pattern) (split_on CHR ''.'' topic)) \<and>
   (length (split_on CHR ''.'' pattern) \<le> 32 \<longrightarrow>
      (matches_pattern pattern topic \<longleftrightarrow>
         segments_match (split_on CHR ''.'' pattern) (split_on CHR ''.'' topic)))"
  using matches_inner_sound matches_inner_complete [where depth = 0]
  by (auto simp: matches_pattern_segments matches_recursive_def MAX_MATCH_DEPTH_def)

theorem matches_pattern_correct_witness:
  "segments_match (split_on CHR ''.'' ''agent.#.done'') (split_on CHR ''.'' ''agent.a.b.done'') \<and>
   \<not> segments_match (split_on CHR ''.'' ''task.*'') (split_on CHR ''.'' ''task.a.b'')"
proof
  have "matches_pattern ''agent.#.done'' ''agent.a.b.done''" by code_simp
  then show "segments_match (split_on CHR ''.'' ''agent.#.done'') (split_on CHR ''.'' ''agent.a.b.done'')"
    using matches_pattern_correct by blast
  have "\<not> matches_pattern ''task.*'' ''task.a.b''" by code_simp
  moreover have "length (split_on CHR ''.'' ''task.*'') \<le> 32" by code_simp
  ultimately show "\<not> segments_match (split_on CHR ''.'' ''task.*'') (split_on CHR ''.'' ''task.a.b'')"
    using matches_pattern_correct by blast
qed

text \<open>Publications reach exactly the matching subscriptions: whatever sequence of messages is
  published, the channel of every subscribed pattern has been sent the messages whose topic
  matches the pattern, in the order of publication, and nothing else; a pattern nobody
  subscribed to gets no channel.\<close>

theorem publish_delivers:
  "hm_get (subscriptions (fold (\<lambda>m. publish ops (tm_timestamp m) (tm_topic m) (tm_payload m)) ms ps)) pattern =
     map_option (fold (bc_send ops) (filter (\<lambda>m. matches_pattern pattern (tm_topic m)) ms))
       (hm_get (subscriptions ps) pattern)"
proof (induction ms arbitrary: ps)
  case Nil
  then show ?case by (simp add: option.map_ident)
next
  case (Cons m ms)
  then show ?case
    by (cases m; cases "hm_get (subscriptions ps) pattern") (simp_all add: publish_get)
qed

text \<open>However the hub is used, it holds at most 10000 patterns; a subscription is
  refused exactly when the hub is full and the pattern is new.\<close>

theorem pubsub_bounded:
  "pattern_count (fold (pubsub_step ops) es pubsub_new) \<le> 10000 \<and>
   (fst (subscribe ops pattern ps) = None \<longleftrightarrow>
      10000 \<le> pattern_count ps \<and> hm_get (subscriptions ps) pattern = None)"
  using pm.run_good [of pubsub_new ops es]
  by (auto simp: pubsub_ok_def pattern_count_def MAX_SUBSCRIPTION_PATTERNS_def subscribe_def
        split: option.splits prod.splits)

end
