(* ===== verification/Approval.thy ===== *)
theory Approval
  imports Core_Types
begin

text \<open>
  Approval gates, \<open>orchestrator/approval.rs\<close>. A pending approval is the sender of a tokio
  oneshot channel, an abstract value of type \<open>'tx\<close>: the channel that \<open>request_approval\<close>
  creates, the success of a send and the outcome of awaiting the receiver under the
  timeout are arguments.
\<close>

definition DEFAULT_APPROVAL_TIMEOUT :: duration where
  "DEFAULT_APPROVAL_TIMEOUT = 300 * 1000000000"

definition MAX_PENDING_APPROVALS :: nat where
  "MAX_PENDING_APPROVALS = 1000"

datatype approval_decision = Approved | Rejected

record approval_request =
  ar_task_id :: task_id
  ar_output :: string
  ar_risk :: task_risk
  ar_agent :: "string option"

record 'tx approval_gate =
  ag_pending :: "(task_id, 'tx) hmap"
  ag_timeout :: duration

definition approval_gate_new :: "'tx approval_gate" where
  "approval_gate_new = \<lparr> ag_pending = hm_empty, ag_timeout = DEFAULT_APPROVAL_TIMEOUT \<rparr>"

definition approval_gate_with_timeout :: "duration \<Rightarrow> 'tx approval_gate" where
  "approval_gate_with_timeout d = \<lparr> ag_pending = hm_empty, ag_timeout = d \<rparr>"

fun requires_approval :: "task_risk \<Rightarrow> bool \<Rightarrow> bool" where
  "requires_approval RiskHigh require_medium = True"
| "requires_approval RiskMedium require_medium = require_medium"
| "requires_approval RiskLow require_medium = False"

definition request_approval ::
    "'tx \<times> 'rx \<Rightarrow> task_id \<Rightarrow> 'tx approval_gate \<Rightarrow> 'rx option \<times> 'tx approval_gate" where
  "request_approval chan i g =
     (if MAX_PENDING_APPROVALS \<le> hm_len (ag_pending g) then (None, g)
      else (Some (snd chan), g\<lparr>ag_pending := hm_insert i (fst chan) (ag_pending g)\<rparr>))"

text \<open>\<open>send_ok tx d\<close> is the result of \<open>tx.send(d).is_ok()\<close>. The second component is the
  send that takes place.\<close>

definition submit_decision :: "('tx \<Rightarrow> approval_decision \<Rightarrow> bool) \<Rightarrow> task_id \<Rightarrow> approval_decision
    \<Rightarrow> 'tx approval_gate \<Rightarrow> bool \<times> ('tx \<times> approval_decision) option \<times> 'tx approval_gate" where
  "submit_decision send_ok i d g =
     (case hm_get (ag_pending g) i of
        Some tx \<Rightarrow> (send_ok tx d, Some (tx, d), g\<lparr>ag_pending := hm_remove i (ag_pending g)\<rparr>)
      | None \<Rightarrow> (False, None, g))"

text \<open>How awaiting the receiver under the timeout ends: a decision, a dropped sender, or
  the timeout.\<close>

datatype wait_outcome = Delivered approval_decision | SenderDropped | TimedOut

fun wait_for_decision ::
    "wait_outcome \<Rightarrow> task_id \<Rightarrow> 'tx approval_gate \<Rightarrow> approval_decision \<times> 'tx approval_gate" where
  "wait_for_decision (Delivered d) i g = (d, g)"
| "wait_for_decision SenderDropped i g = (Rejected, g)"
| "wait_for_decision TimedOut i g = (Rejected, g\<lparr>ag_pending := hm_remove i (ag_pending g)\<rparr>)"

definition pending_count :: "'tx approval_gate \<Rightarrow> nat" where
  "pending_count g = hm_len (ag_pending g)"

definition pending_tasks :: "'tx approval_gate \<Rightarrow> task_id list" where
  "pending_tasks g = hm_keys (ag_pending g)"

definition cancel_approval :: "task_id \<Rightarrow> 'tx approval_gate \<Rightarrow> bool \<times> 'tx approval_gate" where
  "cancel_approval i g =
     (hm_contains (ag_pending g) i, g\<lparr>ag_pending := hm_remove i (ag_pending g)\<rparr>)"

section \<open>The gate as a state machine\<close>

datatype 'tx gate_op =
    GRequest 'tx task_id
  | GSubmit task_id approval_decision
  | GWait wait_outcome task_id
  | GCancel task_id

fun gate_step :: "'tx gate_op \<Rightarrow> 'tx approval_gate \<Rightarrow> 'tx approval_gate" where
  "gate_step (GRequest tx i) g = snd (request_approval (tx, ()) i g)"
| "gate_step (GSubmit i d) g = snd (snd (submit_decision (\<lambda>_ _. True) i d g))"
| "gate_step (GWait out i) g = snd (wait_for_decision out i g)"
| "gate_step (GCancel i) g = snd (cancel_approval i g)"

definition gate_ok :: "'tx approval_gate \<Rightarrow> bool" where
  "gate_ok g \<longleftrightarrow> hm_wf (ag_pending g) \<and> hm_len (ag_pending g) \<le> MAX_PENDING_APPROVALS"

lemma gate_ok_remove:
  "gate_ok g \<Longrightarrow> gate_ok (g\<lparr>ag_pending := hm_remove i (ag_pending g)\<rparr>)"
  using hm.len_remove_le [of "ag_pending g" i] by (simp add: gate_ok_def)

lemma request_approval_ok [invariant_intros]:
  "gate_ok g \<Longrightarrow> gate_ok (snd (request_approval chan i g))"
  by (simp add: gate_ok_def request_approval_def hm.guarded_insert_bound)

lemma submit_decision_ok [invariant_intros]:
  "gate_ok g \<Longrightarrow> gate_ok (snd (snd (submit_decision send_ok i d g)))"
  by (simp add: submit_decision_def gate_ok_remove split: option.split)

lemma wait_for_decision_ok [invariant_intros]:
  "gate_ok g \<Longrightarrow> gate_ok (snd (wait_for_decision out i g))"
  by (cases out) (simp_all add: gate_ok_remove)

lemma cancel_approval_ok [invariant_intros]:
  "gate_ok g \<Longrightarrow> gate_ok (snd (cancel_approval i g))"
  by (simp add: cancel_approval_def gate_ok_remove)

interpretation gm: invariant_machine
  "\<lambda>g. g = approval_gate_new \<or> (\<exists>d. g = approval_gate_with_timeout d)" gate_step gate_ok
proof unfold_locales
  show "gate_ok g"
    if "g = approval_gate_new \<or> (\<exists>d. g = approval_gate_with_timeout d)" for g :: "'a approval_gate"
    using that by (auto simp: gate_ok_def approval_gate_new_def approval_gate_with_timeout_def)
  show "gate_ok (gate_step e g)" if "gate_ok g" for e and g :: "'a approval_gate"
    using that by (cases e) (simp_all add: invariant_intros)
qed

text \<open>Which operations touch the entry of a task.\<close>

fun concerns :: "task_id \<Rightarrow> 'tx gate_op \<Rightarrow> bool" where
  "concerns i (GRequest tx j) = (i = j)"
| "concerns i (GSubmit j d) = (i = j)"
| "concerns i (GWait out j) = (i = j \<and> out = TimedOut)"
| "concerns i (GCancel j) = (i = j)"

lemma wait_for_decision_other:
  "i \<noteq> j \<or> out \<noteq> TimedOut \<Longrightarrow>
   hm_get (ag_pending (snd (wait_for_decision out j g))) i = hm_get (ag_pending g) i"
  by (cases out) auto

lemma gate_step_other:
  "\<not> concerns i e \<Longrightarrow> hm_get (ag_pending (gate_step e g)) i = hm_get (ag_pending g) i"
  by (cases e)
    (auto simp: request_approval_def submit_decision_def cancel_approval_def wait_for_decision_other
       split: option.split)

lemma gate_run_other:
  "\<forall>e \<in> set es. \<not> concerns i e \<Longrightarrow>
   hm_get (ag_pending (fold gate_step es g)) i = hm_get (ag_pending g) i"
  by (induction es arbitrary: g) (auto simp: gate_step_other)

section \<open>Properties\<close>

text \<open>However the gate is used, the map of pending approvals stays well-formed and
  holds at most 1000 entries.\<close>

theorem approval_gate_bounded:
  "hm_wf (ag_pending (fold gate_step es (approval_gate_with_timeout d))) \<and>
   pending_count (fold gate_step es (approval_gate_with_timeout d)) \<le> 1000"
  using gm.run_good [of "approval_gate_with_timeout d" es]
  by (auto simp: gate_ok_def pending_count_def MAX_PENDING_APPROVALS_def)

text \<open>C37. A decision reaches the waiter that asked for it: after a request for task \<open>i\<close> is
  accepted, any other operations that do not concern \<open>i\<close> may happen, and the next submitted
  decision for \<open>i\<close> is sent on exactly the channel that request created and removes the
  entry, so a second decision for \<open>i\<close> is refused.\<close>

theorem submit_reaches_requester:
  assumes "request_approval (tx, rx) i g = (Some rx', g1)"
    and "\<forall>e \<in> set es. \<not> concerns i e"
    and "submit_decision send_ok i d (fold gate_step es g1) = (ok, sent, g2)"
  shows "rx' = rx \<and> sent = Some (tx, d) \<and> ok = send_ok tx d \<and> i \<notin> set (pending_tasks g2) \<and>
    submit_decision send_ok i d' g2 = (False, None, g2)"
proof -
  have "hm_get (ag_pending g1) i = Some tx" and rx: "rx' = rx"
    using assms(1) by (auto simp: request_approval_def split: if_splits)
  then have "hm_get (ag_pending (fold gate_step es g1)) i = Some tx"
    using gate_run_other [OF assms(2)] by simp
  then show ?thesis
    using assms(3) rx by (auto simp: submit_decision_def pending_tasks_def hm_get_in_keys)
qed

theorem submit_reaches_requester_witness:
  "\<exists>g1 g2. request_approval (''a'', ()) 7 approval_gate_new = (Some (), g1) \<and>
     submit_decision (\<lambda>_ _. True) 7 Approved (fold gate_step [GRequest ''b'' 8, GCancel 8] g1)
       = (True, Some (''a'', Approved), g2) \<and>
     submit_decision (\<lambda>_ _. True) 7 Rejected g2 = (False, None, g2)"
proof -
  let ?g1 = "snd (request_approval (''a'', ()) 7 approval_gate_new)"
  have r: "request_approval (''a'', ()) 7 approval_gate_new = (Some (), ?g1)"
    by (simp add: request_approval_def approval_gate_new_def MAX_PENDING_APPROVALS_def)
  have e: "\<forall>e \<in> set [GRequest ''b'' 8, GCancel 8]. \<not> concerns 7 e" by simp
  obtain ok sent g2 where s: "submit_decision (\<lambda>_ _. True) 7 Approved
      (fold gate_step [GRequest ''b'' 8, GCancel 8] ?g1) = (ok, sent, g2)"
    by (rule prod_cases3)
  from submit_reaches_requester [OF r e s, of Rejected] r s show ?thesis by blast
qed

text \<open>The gate fails closed: waiting yields \<open>Approved\<close> only when the channel delivered
  \<open>Approved\<close> (a dropped channel and a timeout reject), a timeout removes the pending
  entry, and a request at capacity is refused without changing the gate.\<close>

theorem approval_fails_closed:
  "(fst (wait_for_decision out i g) = Approved \<longleftrightarrow> out = Delivered Approved) \<and>
   hm_get (ag_pending (snd (wait_for_decision TimedOut i g))) i = None \<and>
   (fst (request_approval (tx, rx) i g) = None \<longleftrightarrow> 1000 \<le> pending_count g) \<and>
   (fst (request_approval (tx, rx) i g) = None \<longrightarrow> request_approval (tx, rx) i g = (None, g))"
  by (cases out) (auto simp: request_approval_def pending_count_def MAX_PENDING_APPROVALS_def)

theorem approval_fails_closed_witness:
  "fst (wait_for_decision TimedOut 1 (approval_gate_new :: unit approval_gate)) \<noteq> Approved"
  using approval_fails_closed [of TimedOut 1 "approval_gate_new :: unit approval_gate" "()" "()"] by simp

end
