(* ===== verification/Memory.thy ===== *)
theory Memory
  imports Prelude
begin

text \<open>
  Conversation buffers, \<open>orchestrator/memory.rs\<close>. A message is a value of the hoosh crate,
  the type \<open>'m\<close>; its constructor for a role is an argument.
\<close>

datatype memory_strategy = Full | SlidingWindow | HeadTail

record 'm conversation_buffer =
  cb_messages :: "'m list"
  cb_max_messages :: nat
  cb_strategy :: memory_strategy
  cb_agent_id :: string

definition buffer_new :: "string \<Rightarrow> 'm conversation_buffer" where
  "buffer_new a = \<lparr> cb_messages = [], cb_max_messages = 0, cb_strategy = Full, cb_agent_id = a \<rparr>"

definition with_sliding_window :: "string \<Rightarrow> nat \<Rightarrow> 'm conversation_buffer" where
  "with_sliding_window a n =
     \<lparr> cb_messages = [], cb_max_messages = n, cb_strategy = SlidingWindow, cb_agent_id = a \<rparr>"

definition with_head_tail :: "string \<Rightarrow> nat \<Rightarrow> 'm conversation_buffer" where
  "with_head_tail a n =
     \<lparr> cb_messages = [], cb_max_messages = n, cb_strategy = HeadTail, cb_agent_id = a \<rparr>"

text \<open>\<open>Vec::drain(a..b)\<close> removes the elements of a range.\<close>

definition drain_range :: "nat \<Rightarrow> nat \<Rightarrow> 'a list \<Rightarrow> 'a list" where
  "drain_range a b xs = take a xs @ drop b xs"

definition trim :: "'m conversation_buffer \<Rightarrow> 'm conversation_buffer" where
  "trim cb =
     (let len = length (cb_messages cb); max = cb_max_messages cb
      in if max = 0 \<or> len \<le> max then cb
         else case cb_strategy cb of
           Full \<Rightarrow> cb
         | SlidingWindow \<Rightarrow> cb\<lparr>cb_messages := drain_range 0 (len - max) (cb_messages cb)\<rparr>
         | HeadTail \<Rightarrow>
             if max = 1 then cb\<lparr>cb_messages := drain_range 0 (len - 1) (cb_messages cb)\<rparr>
             else
               (let keep_tail = max - 1; remove_start = 1; remove_end = len - keep_tail
                in if remove_start < remove_end
                   then cb\<lparr>cb_messages := drain_range remove_start remove_end (cb_messages cb)\<rparr>
                   else cb))"

definition push :: "'m \<Rightarrow> 'm conversation_buffer \<Rightarrow> 'm conversation_buffer" where
  "push m cb = trim (cb\<lparr>cb_messages := cb_messages cb @ [m]\<rparr>)"

definition add_user :: "(string \<Rightarrow> 'm) \<Rightarrow> string \<Rightarrow> 'm conversation_buffer \<Rightarrow> 'm conversation_buffer" where
  "add_user user_message content cb = push (user_message content) cb"

definition add_assistant :: "(string \<Rightarrow> 'm) \<Rightarrow> string \<Rightarrow> 'm conversation_buffer \<Rightarrow> 'm conversation_buffer" where
  "add_assistant assistant_message content cb = push (assistant_message content) cb"

definition buffer_messages :: "'m conversation_buffer \<Rightarrow> 'm list" where
  "buffer_messages cb = cb_messages cb"

definition buffer_len :: "'m conversation_buffer \<Rightarrow> nat" where
  "buffer_len cb = length (cb_messages cb)"

definition buffer_is_empty :: "'m conversation_buffer \<Rightarrow> bool" where
  "buffer_is_empty cb \<longleftrightarrow> cb_messages cb = []"

definition buffer_clear :: "'m conversation_buffer \<Rightarrow> 'm conversation_buffer" where
  "buffer_clear cb = cb\<lparr>cb_messages := []\<rparr>"

section \<open>What each strategy retains\<close>

definition last_n :: "nat \<Rightarrow> 'a list \<Rightarrow> 'a list" where
  "last_n n xs = drop (length xs - n) xs"

text \<open>The history that a strategy with a limit keeps of the whole conversation.\<close>

definition retained :: "memory_strategy \<Rightarrow> nat \<Rightarrow> 'm list \<Rightarrow> 'm list" where
  "retained strategy n ms =
     (if n = 0 \<or> length ms \<le> n \<or> strategy = Full then ms
      else if strategy = SlidingWindow \<or> n = 1 then last_n n ms
      else hd ms # last_n (n - 1) ms)"

lemma length_last_n [simp]: "length (last_n n xs) = min n (length xs)"
  by (simp add: last_n_def min_def)

lemma last_n_snoc: "0 < n \<Longrightarrow> last_n n (xs @ [x]) = last_n (n - 1) xs @ [x]"
  by (cases "n \<le> length xs") (auto simp: last_n_def)

lemma last_n_Cons: "n \<le> length xs \<Longrightarrow> last_n n (x # xs) = last_n n xs"
  by (simp add: last_n_def Suc_diff_le)

lemma push_fields [simp]:
  "cb_max_messages (push m cb) = cb_max_messages cb" "cb_strategy (push m cb) = cb_strategy cb"
  "cb_agent_id (push m cb) = cb_agent_id cb"
  by (auto simp: push_def trim_def Let_def split: memory_strategy.split)

text \<open>One more message: trimming the retained history gives the retained longer history.\<close>

lemma push_retained:
  assumes "cb_messages cb = retained (cb_strategy cb) (cb_max_messages cb) ms"
  shows "cb_messages (push m cb) = retained (cb_strategy cb) (cb_max_messages cb) (ms @ [m])"
proof -
  let ?n = "cb_max_messages cb"
  consider "?n = 0 \<or> cb_strategy cb = Full" | "0 < ?n" "length ms < ?n"
    | "0 < ?n" "?n \<le> length ms" "cb_strategy cb = SlidingWindow \<or> ?n = 1" "cb_strategy cb \<noteq> Full"
    | "1 < ?n" "?n \<le> length ms" "cb_strategy cb = HeadTail"
    by (cases "cb_strategy cb") linarith+
  then show ?thesis
  proof cases
    case 1
    then show ?thesis
      using assms by (auto simp: push_def trim_def retained_def Let_def split: memory_strategy.split)
  next
    case 2
    then show ?thesis using assms by (simp add: push_def trim_def retained_def Let_def)
  next
    case 3
    then have "cb_messages cb = last_n ?n ms"
      using assms by (auto simp: retained_def last_n_def)
    with 3 show ?thesis
      by (auto simp: push_def trim_def retained_def Let_def drain_range_def last_n_snoc
            last_n_def min_def Suc_diff_le split: memory_strategy.split)
  next
    case 4
    then obtain a as where a: "ms = a # as" by (cases ms) auto
    have "cb_messages cb = a # last_n (?n - 1) as"
      using assms 4 a by (auto simp: retained_def last_n_Cons) (auto simp: last_n_def)
    with 4 a show ?thesis
      by (auto simp: push_def trim_def retained_def Let_def drain_range_def last_n_def min_def Suc_diff_le)
  qed
qed

lemma buffer_run:
  assumes "cb_messages cb = retained (cb_strategy cb) (cb_max_messages cb) hist"
  shows "cb_messages (fold push ms cb) = retained (cb_strategy cb) (cb_max_messages cb) (hist @ ms)"
  using assms
proof (induction ms arbitrary: cb hist)
  case Nil
  then show ?case by simp
next
  case (Cons m ms)
  from Cons.IH [of "push m cb" "hist @ [m]"] push_retained [OF Cons.prems] show ?case by simp
qed

lemma strategy_run:
  "cb_messages (fold push ms (buffer_new a)) = retained Full 0 ms"
  "cb_messages (fold push ms (with_sliding_window a n)) = retained SlidingWindow n ms"
  "cb_messages (fold push ms (with_head_tail a n)) = retained HeadTail n ms"
  using buffer_run [of "buffer_new a" "[]" ms] buffer_run [of "with_sliding_window a n" "[]" ms]
    buffer_run [of "with_head_tail a n" "[]" ms]
  by (simp_all add: buffer_new_def with_sliding_window_def with_head_tail_def retained_def [of _ _ "[]"])

section \<open>Properties\<close>

text \<open>Trimming on every push keeps exactly what the strategy promises of the whole
  conversation: everything without a limit, the last \<open>n\<close> messages with a sliding window,
  and the first and the last \<open>n - 1\<close> with head-tail (only the last one for \<open>n = 1\<close>).\<close>

theorem buffer_retains:
  "cb_messages (fold push ms (buffer_new a)) = ms \<and>
   cb_messages (fold push ms (with_sliding_window a n)) = (if n = 0 then ms else last_n n ms) \<and>
   cb_messages (fold push ms (with_head_tail a n)) =
     (if n = 0 \<or> length ms \<le> n then ms else if n = 1 then [last ms] else hd ms # last_n (n - 1) ms)"
proof -
  have "last_n n ms = ms" if "length ms \<le> n" using that by (simp add: last_n_def)
  moreover have "last_n 1 ms = [last ms]" if "\<not> length ms \<le> 1"
    using that by (cases ms rule: rev_cases) (auto simp: last_n_def)
  ultimately show ?thesis by (auto simp: strategy_run retained_def)
qed

text \<open>A limited buffer never holds more messages than its limit, and the latest message
  is always in it.\<close>

theorem buffer_bounded:
  assumes "0 < n"
  shows "buffer_len (fold push ms (with_sliding_window a n)) \<le> n \<and>
    buffer_len (fold push ms (with_head_tail a n)) \<le> n \<and>
    last (cb_messages (fold push (ms @ [m]) (with_sliding_window a n))) = m \<and>
    last (cb_messages (fold push (ms @ [m]) (with_head_tail a n))) = m"
proof -
  have last: "last (retained st n (ms @ [m])) = m" for st
    using assms by (auto simp: retained_def last_n_def)
  have len: "length (retained st n ms) \<le> n" if "st \<noteq> Full" for st
    using assms that by (auto simp: retained_def)
  show ?thesis
    unfolding buffer_len_def strategy_run using last len [of SlidingWindow] len [of HeadTail] by simp
qed

theorem buffer_bounded_witness:
  "last (cb_messages (fold push [1, 2, 3, 4 :: nat] (with_head_tail ''a'' 2))) = 4"
  using buffer_bounded [of 2 "[1, 2, 3 :: nat]" "''a''" 4] by simp

end
