(* ===== verification/Plan_Cache.thy ===== *)
theory Plan_Cache
  imports Core_Types
begin

text \<open>
  The plan cache, \<open>orchestrator/plan_cache.rs\<close>: an LRU map with a time to live, keyed by a
  hash of the sorted parts of a crew. The algorithm of \<open>DefaultHasher\<close> is unspecified: its
  state, the hashing of a string and \<open>finish\<close> are arguments. \<open>Instant::now\<close> is an argument.
\<close>

definition MAX_CACHED_PLANS :: nat where
  "MAX_CACHED_PLANS = 256"

definition DEFAULT_TTL :: duration where
  "DEFAULT_TTL = 3600 * 1000000000"

record cached_plan =
  plan_assignments :: "(task_id, string) hmap"
  plan_execution_order :: "task_id list"
  plan_model_selections :: "(task_id, string) hmap"

record cache_entry =
  ce_plan :: cached_plan
  ce_created_at :: instant
  ce_last_accessed :: instant

datatype plan_key = PlanKey u64

definition from_crew :: "'h \<Rightarrow> (string \<Rightarrow> 'h \<Rightarrow> 'h) \<Rightarrow> ('h \<Rightarrow> u64)
    \<Rightarrow> string list \<Rightarrow> string list \<Rightarrow> string \<Rightarrow> plan_key" where
  "from_crew new_hasher hash_str finish agent_keys task_descriptions process_mode =
     (let hasher = fold hash_str (sort agent_keys) new_hasher;
          hasher = fold hash_str (sort task_descriptions) hasher;
          hasher = hash_str process_mode hasher
      in PlanKey (finish hasher))"

record plan_cache =
  pc_entries :: "(plan_key, cache_entry) hmap"
  pc_ttl :: duration

definition plan_cache_new :: plan_cache where
  "plan_cache_new = \<lparr> pc_entries = hm_empty, pc_ttl = DEFAULT_TTL \<rparr>"

definition plan_cache_with_ttl :: "duration \<Rightarrow> plan_cache" where
  "plan_cache_with_ttl ttl = \<lparr> pc_entries = hm_empty, pc_ttl = ttl \<rparr>"

definition expired :: "instant \<Rightarrow> plan_cache \<Rightarrow> cache_entry \<Rightarrow> bool" where
  "expired now c e \<longleftrightarrow> pc_ttl c < duration_since now (ce_created_at e)"

definition cache_get :: "instant \<Rightarrow> plan_key \<Rightarrow> plan_cache \<Rightarrow> cached_plan option \<times> plan_cache" where
  "cache_get now key c =
     (case hm_get (pc_entries c) key of
        Some e \<Rightarrow>
          if expired now c e then (None, c\<lparr>pc_entries := hm_remove key (pc_entries c)\<rparr>)
          else (Some (ce_plan e),
                c\<lparr>pc_entries := hm_modify key (ce_last_accessed_update (\<lambda>_. now)) (pc_entries c)\<rparr>)
      | None \<Rightarrow> (None, c))"

definition evict_lru :: "plan_cache \<Rightarrow> plan_cache" where
  "evict_lru c =
     (case min_by_key (\<lambda>(_, e). ce_last_accessed e) (pc_entries c) of
        Some (oldest_key, _) \<Rightarrow> c\<lparr>pc_entries := hm_remove oldest_key (pc_entries c)\<rparr>
      | None \<Rightarrow> c)"

definition cache_insert :: "instant \<Rightarrow> plan_key \<Rightarrow> cached_plan \<Rightarrow> plan_cache \<Rightarrow> plan_cache" where
  "cache_insert now key plan c =
     (let c = (if MAX_CACHED_PLANS \<le> hm_len (pc_entries c) then evict_lru c else c)
      in c\<lparr>pc_entries := hm_insert key
            \<lparr> ce_plan = plan, ce_created_at = now, ce_last_accessed = now \<rparr> (pc_entries c)\<rparr>)"

definition cache_len :: "plan_cache \<Rightarrow> nat" where
  "cache_len c = hm_len (pc_entries c)"

definition cache_is_empty :: "plan_cache \<Rightarrow> bool" where
  "cache_is_empty c \<longleftrightarrow> pc_entries c = []"

section \<open>The cache as a state machine\<close>

datatype cache_op = CGet instant plan_key | CInsert instant plan_key cached_plan

fun cache_step :: "cache_op \<Rightarrow> plan_cache \<Rightarrow> plan_cache" where
  "cache_step (CGet now key) c = snd (cache_get now key c)"
| "cache_step (CInsert now key plan) c = cache_insert now key plan c"

definition cache_ok :: "plan_cache \<Rightarrow> bool" where
  "cache_ok c \<longleftrightarrow> hm_wf (pc_entries c) \<and> hm_len (pc_entries c) \<le> MAX_CACHED_PLANS"

lemma evict_lru_ttl [simp]: "pc_ttl (evict_lru c) = pc_ttl c"
  by (auto simp: evict_lru_def split: option.splits)

lemma evict_lru_cases:
  assumes "hm_wf (pc_entries c)" and "pc_entries c \<noteq> []"
  obtains k e where "hm_get (pc_entries c) k = Some e"
    and "pc_entries (evict_lru c) = hm_remove k (pc_entries c)"
    and "\<And>k' e'. hm_get (pc_entries c) k' = Some e' \<Longrightarrow> ce_last_accessed e \<le> ce_last_accessed e'"
proof -
  obtain k e where m: "min_by_key (\<lambda>(_, e). ce_last_accessed e) (pc_entries c) = Some (k, e)"
    using assms(2) by (metis min_by_key_None not_None_eq surj_pair)
  note sel = min_by_key_Some [OF m]
  show thesis
  proof (rule that)
    show "hm_get (pc_entries c) k = Some e" using sel assms(1) by (simp add: hm_get_mem)
    show "pc_entries (evict_lru c) = hm_remove k (pc_entries c)" by (simp add: evict_lru_def m)
    show "ce_last_accessed e \<le> ce_last_accessed e'" if "hm_get (pc_entries c) k' = Some e'" for k' e'
      using sel that assms(1) by (force simp: hm_get_mem)
  qed
qed

lemma full_nonempty: "MAX_CACHED_PLANS \<le> hm_len (pc_entries c) \<Longrightarrow> pc_entries c \<noteq> []"
  by (auto simp: hm_len_def MAX_CACHED_PLANS_def)

lemma cache_insert_ok [invariant_intros]:
  assumes "cache_ok c"
  shows "cache_ok (cache_insert now key plan c)"
proof (cases "MAX_CACHED_PLANS \<le> hm_len (pc_entries c)")
  case True
  have wf: "hm_wf (pc_entries c)" using assms by (simp add: cache_ok_def)
  obtain k e where k: "hm_get (pc_entries c) k = Some e"
    "pc_entries (evict_lru c) = hm_remove k (pc_entries c)"
    using evict_lru_cases [OF wf full_nonempty [OF True]] .
  then show ?thesis
    using assms True hm.evict_insert_bound [of "pc_entries c" MAX_CACHED_PLANS k key]
    by (simp add: cache_ok_def cache_insert_def MAX_CACHED_PLANS_def)
next
  case False
  then show ?thesis
    using assms by (simp add: cache_ok_def cache_insert_def hm.guarded_insert_bound)
qed

lemma cache_get_ok [invariant_intros]: "cache_ok c \<Longrightarrow> cache_ok (snd (cache_get now key c))"
  using hm.len_remove_le [of "pc_entries c" key]
  by (auto simp: cache_ok_def cache_get_def split: option.splits)

interpretation pcm: invariant_machine
  "\<lambda>c. c = plan_cache_new \<or> (\<exists>ttl. c = plan_cache_with_ttl ttl)" cache_step cache_ok
proof unfold_locales
  show "cache_ok c" if "c = plan_cache_new \<or> (\<exists>ttl. c = plan_cache_with_ttl ttl)" for c
    using that by (auto simp: cache_ok_def plan_cache_new_def plan_cache_with_ttl_def)
  show "cache_ok (cache_step e c)" if "cache_ok c" for e c
    using that by (cases e) (simp_all add: invariant_intros)
qed

section \<open>Properties\<close>

text \<open>The plan key does not depend on the order of the agents or of the tasks, whatever
  the hash function.\<close>

theorem plan_key_order_independent:
  assumes "mset agents = mset agents'" and "mset tasks = mset tasks'"
  shows "from_crew nh hash_str fin agents tasks mode = from_crew nh hash_str fin agents' tasks' mode"
proof -
  have "sort agents = sort agents'" "sort tasks = sort tasks'"
    using assms by (metis mset_sort properties_for_sort sorted_sort)+
  then show ?thesis by (simp add: from_crew_def)
qed

theorem plan_key_order_independent_witness:
  "from_crew [] (@) (\<lambda>s. of_nat (length s)) [''a'', ''b''] [''t''] ''dag'' =
   from_crew [] (@) (\<lambda>s. of_nat (length s)) [''b'', ''a''] [''t''] ''dag''"
  by (rule plan_key_order_independent) simp_all

text \<open>A lookup right after an insertion finds the plan exactly until the time to live
  has passed; an expired entry is removed by the lookup.\<close>

theorem plan_cache_lookup:
  assumes "now \<le> later"
  shows "(later - now \<le> pc_ttl c \<longrightarrow>
      fst (cache_get later key (cache_insert now key plan c)) = Some plan) \<and>
    (pc_ttl c < later - now \<longrightarrow>
      fst (cache_get later key (cache_insert now key plan c)) = None \<and>
      hm_get (pc_entries (snd (cache_get later key (cache_insert now key plan c)))) key = None)"
  using assms
  by (auto simp: cache_get_def cache_insert_def expired_def duration_since_def Let_def)

theorem plan_cache_lookup_witness:
  "fst (cache_get 15 (PlanKey 1) (cache_insert 10 (PlanKey 1)
     \<lparr> plan_assignments = [], plan_execution_order = [4], plan_model_selections = [] \<rparr>
     (plan_cache_with_ttl 5))) =
   Some \<lparr> plan_assignments = [], plan_execution_order = [4], plan_model_selections = [] \<rparr>"
  using plan_cache_lookup [of 10 15 "plan_cache_with_ttl 5" "PlanKey 1"
      "\<lparr> plan_assignments = [], plan_execution_order = [4], plan_model_selections = [] \<rparr>"]
  by (simp add: plan_cache_with_ttl_def)

text \<open>The cache is bounded and evicts in LRU order: under every use it holds at most
  256 plans; an insertion into a full cache removes one entry, which no kept entry
  precedes in the order of last access, and keeps all the others.\<close>

theorem plan_cache_lru:
  assumes "cache_ok c" and "hm_len (pc_entries c) = 256"
  shows "\<exists>k e. hm_get (pc_entries c) k = Some e \<and>
    (\<forall>k' e'. hm_get (pc_entries c) k' = Some e' \<longrightarrow> ce_last_accessed e \<le> ce_last_accessed e') \<and>
    (\<forall>k'. k' \<noteq> key \<longrightarrow> hm_get (pc_entries (cache_insert now key plan c)) k' =
       (if k' = k then None else hm_get (pc_entries c) k')) \<and>
    (\<forall>es. cache_len (fold cache_step es (cache_insert now key plan c)) \<le> 256)"
proof -
  have full: "MAX_CACHED_PLANS \<le> hm_len (pc_entries c)" using assms(2) by (simp add: MAX_CACHED_PLANS_def)
  have wf: "hm_wf (pc_entries c)" using assms(1) by (simp add: cache_ok_def)
  obtain k e where k: "hm_get (pc_entries c) k = Some e"
    "pc_entries (evict_lru c) = hm_remove k (pc_entries c)"
    "\<And>k' e'. hm_get (pc_entries c) k' = Some e' \<Longrightarrow> ce_last_accessed e \<le> ce_last_accessed e'"
    by (rule evict_lru_cases [OF wf full_nonempty [OF full]]) blast
  have "cache_len (fold cache_step es (cache_insert now key plan c)) \<le> 256" for es
    using pcm.run_keeps [OF cache_insert_ok [OF assms(1)]]
    by (auto simp: cache_ok_def cache_len_def MAX_CACHED_PLANS_def)
  with k full show ?thesis
    by (intro exI [of _ k] exI [of _ e]) (auto simp: cache_insert_def Let_def)
qed

text \<open>A full cache with keys 0 to 255, each last used at the time of its number.\<close>

definition sample_cache :: plan_cache where
  "sample_cache =
     \<lparr> pc_entries = map (\<lambda>i. (PlanKey (of_nat i),
         \<lparr> ce_plan = \<lparr> plan_assignments = [], plan_execution_order = [], plan_model_selections = [] \<rparr>,
           ce_created_at = i, ce_last_accessed = i \<rparr>)) [0..<256],
       pc_ttl = 1000 \<rparr>"

lemma sample_cache_full: "cache_ok sample_cache" "hm_len (pc_entries sample_cache) = 256"
proof -
  have "inj_on (\<lambda>i. PlanKey (of_nat i)) {0..<256}"
    by (auto simp: inj_on_def word_of_nat_eq_iff take_bit_nat_eq_self)
  then show "cache_ok sample_cache"
    by (simp add: cache_ok_def sample_cache_def hm_wf_def hm_len_def MAX_CACHED_PLANS_def comp_def
          distinct_map)
  show "hm_len (pc_entries sample_cache) = 256"
    by (simp add: sample_cache_def hm_len_def)
qed

theorem plan_cache_lru_witness:
  "\<exists>k e. hm_get (pc_entries sample_cache) k = Some e \<and> ce_last_accessed e = 0 \<and>
     cache_len (cache_insert 300 (PlanKey 999)
       \<lparr> plan_assignments = [], plan_execution_order = [], plan_model_selections = [] \<rparr> sample_cache) \<le> 256"
proof -
  let ?plan = "\<lparr> plan_assignments = [], plan_execution_order = [], plan_model_selections = [] \<rparr>"
  obtain k e where k: "hm_get (pc_entries sample_cache) k = Some e"
    "\<forall>k' e'. hm_get (pc_entries sample_cache) k' = Some e' \<longrightarrow> ce_last_accessed e \<le> ce_last_accessed e'"
    "\<forall>es. cache_len (fold cache_step es (cache_insert 300 (PlanKey 999) ?plan sample_cache)) \<le> 256"
    using plan_cache_lru [OF sample_cache_full, of "PlanKey 999" 300 ?plan] by blast
  have "[0..<256] = 0 # [Suc 0..<256]" by (rule upt_conv_Cons) simp
  then have "hm_get (pc_entries sample_cache) (PlanKey 0) =
      Some \<lparr> ce_plan = ?plan, ce_created_at = 0, ce_last_accessed = 0 \<rparr>"
    by (simp add: sample_cache_def hm_get_def)
  with k(2) have "ce_last_accessed e = 0" by fastforce
  with k(1) k(3) [rule_format, of "[]"] show ?thesis by auto
qed

end
