(* ===== verification/Tenants.thy ===== *)
theory Tenants
  imports Prelude
begin

text \<open>
  Tenant budgets, \<open>orchestrator/multi_tenant.rs\<close>: a registry from tenant ids to limits and
  the check of a usage against them.
\<close>

type_synonym tenant_id = string

record tenant_budget =
  tb_max_tokens :: u64
  tb_max_cost_usd :: rat
  tb_max_concurrent_crews :: nat

definition tenant_budget_new :: "u64 \<Rightarrow> rat \<Rightarrow> nat \<Rightarrow> tenant_budget" where
  "tenant_budget_new tokens cost crews =
     \<lparr> tb_max_tokens = tokens, tb_max_cost_usd = cost, tb_max_concurrent_crews = crews \<rparr>"

datatype budget_check_result =
    CheckOk | CheckTokensExceeded | CheckCostExceeded | CheckConcurrencyExceeded | CheckTenantNotFound

record tenant_registry =
  tenant_budgets :: "(tenant_id, tenant_budget) hmap"

definition tenant_registry_new :: tenant_registry where
  "tenant_registry_new = \<lparr> tenant_budgets = hm_empty \<rparr>"

definition register_tenant :: "tenant_id \<Rightarrow> tenant_budget \<Rightarrow> tenant_registry \<Rightarrow> tenant_registry" where
  "register_tenant i b r = r\<lparr>tenant_budgets := hm_insert i b (tenant_budgets r)\<rparr>"

definition get_budget :: "tenant_id \<Rightarrow> tenant_registry \<Rightarrow> tenant_budget option" where
  "get_budget i r = hm_get (tenant_budgets r) i"

definition check_tenant_budget ::
    "tenant_id \<Rightarrow> u64 \<Rightarrow> rat \<Rightarrow> nat \<Rightarrow> tenant_registry \<Rightarrow> budget_check_result" where
  "check_tenant_budget i used_tokens used_cost_usd active_crews r =
     (case hm_get (tenant_budgets r) i of
        None \<Rightarrow> CheckTenantNotFound
      | Some b \<Rightarrow>
          if tb_max_tokens b < used_tokens then CheckTokensExceeded
          else if tb_max_cost_usd b < used_cost_usd then CheckCostExceeded
          else if tb_max_concurrent_crews b < active_crews then CheckConcurrencyExceeded
          else CheckOk)"

definition remove_tenant :: "tenant_id \<Rightarrow> tenant_registry \<Rightarrow> tenant_budget option \<times> tenant_registry" where
  "remove_tenant i r =
     (hm_get (tenant_budgets r) i, r\<lparr>tenant_budgets := hm_remove i (tenant_budgets r)\<rparr>)"

definition tenant_count :: "tenant_registry \<Rightarrow> nat" where
  "tenant_count r = hm_len (tenant_budgets r)"

definition tenant_is_empty :: "tenant_registry \<Rightarrow> bool" where
  "tenant_is_empty r \<longleftrightarrow> tenant_budgets r = []"

section \<open>Isolation and monotonicity\<close>

datatype tenant_op = TRegister tenant_id tenant_budget | TRemove tenant_id

fun tenant_step :: "tenant_op \<Rightarrow> tenant_registry \<Rightarrow> tenant_registry" where
  "tenant_step (TRegister i b) r = register_tenant i b r"
| "tenant_step (TRemove i) r = snd (remove_tenant i r)"

fun op_tenant :: "tenant_op \<Rightarrow> tenant_id" where
  "op_tenant (TRegister i b) = i"
| "op_tenant (TRemove i) = i"

lemma tenant_run_other:
  "\<forall>e \<in> set es. op_tenant e \<noteq> i \<Longrightarrow>
   hm_get (tenant_budgets (fold tenant_step es r)) i = hm_get (tenant_budgets r) i"
proof (induction es arbitrary: r)
  case Nil
  then show ?case by simp
next
  case (Cons e es)
  then have "hm_get (tenant_budgets (tenant_step e r)) i = hm_get (tenant_budgets r) i"
    by (cases e) (auto simp: register_tenant_def remove_tenant_def)
  with Cons show ?case by simp
qed

section \<open>Properties\<close>

text \<open>Tenants are isolated and the check is fail-closed: what other tenants register or
  remove does not change a tenant's check; an unregistered tenant is never accepted; and
  an accepted usage is within all three limits of the latest registration, so any smaller
  usage is accepted too.\<close>

theorem tenant_check:
  assumes "\<forall>e \<in> set es. op_tenant e \<noteq> i"
  shows "(check_tenant_budget i tok cost crews (fold tenant_step es (register_tenant i b r)) = CheckOk
      \<longleftrightarrow> tok \<le> tb_max_tokens b \<and> cost \<le> tb_max_cost_usd b \<and> crews \<le> tb_max_concurrent_crews b) \<and>
    check_tenant_budget i tok cost crews (fold tenant_step es (snd (remove_tenant i r))) =
      CheckTenantNotFound"
  using tenant_run_other [OF assms]
  by (auto simp: check_tenant_budget_def register_tenant_def remove_tenant_def)

theorem tenant_check_witness:
  "check_tenant_budget ''a'' 10 (1 / 2) 1 (fold tenant_step [TRemove ''b'']
     (register_tenant ''a'' (tenant_budget_new 10 1 2) tenant_registry_new)) = CheckOk"
  using tenant_check [of "[TRemove ''b'']" "''a''" 10 "1 / 2" 1 "tenant_budget_new 10 1 2"]
  by (simp add: tenant_budget_new_def)

end
