(* ===== verification/Ipc.thy ===== *)
theory Ipc
  imports Core_Types
begin

text \<open>
  Framing on the local socket, \<open>orchestrator/ipc.rs\<close>: a 32-bit big-endian length and that
  many bytes of JSON. The socket's \<open>write_all\<close>, \<open>flush\<close> and \<open>read_exact\<close> and serde_json's
  \<open>to_vec\<close> and \<open>from_slice\<close> are arguments.
\<close>

unbundle bit_operations_syntax

definition MAX_FRAME_SIZE :: u32 where
  "MAX_FRAME_SIZE = 16 * 1024 * 1024"

datatype read_error = UnexpectedEof | OtherIo string

record 's stream_ops =
  so_write_all :: "u8 list \<Rightarrow> 's \<Rightarrow> (string + unit) \<times> 's"
  so_flush :: "'s \<Rightarrow> (string + unit) \<times> 's"
  so_read_exact :: "nat \<Rightarrow> 's \<Rightarrow> (read_error + u8 list) \<times> 's"

text \<open>\<open>u32::to_be_bytes\<close> and \<open>u32::from_be_bytes\<close>.\<close>

definition to_be_bytes :: "u32 \<Rightarrow> u8 list" where
  "to_be_bytes w = [ucast (drop_bit 24 w), ucast (drop_bit 16 w), ucast (drop_bit 8 w), ucast w]"

fun from_be_bytes :: "u8 list \<Rightarrow> u32" where
  "from_be_bytes [a, b, c, d] =
     push_bit 24 (ucast a) OR push_bit 16 (ucast b) OR push_bit 8 (ucast c) OR ucast d"
| "from_be_bytes _ = 0"

definition too_big :: "u32 \<Rightarrow> string" where
  "too_big len = ''frame size '' @ nat_str (unat len) @ '' exceeds maximum '' @
     nat_str (unat MAX_FRAME_SIZE)"

definition write_frame :: "'s stream_ops \<Rightarrow> u8 list \<Rightarrow> 's \<Rightarrow> unit res \<times> 's" where
  "write_frame ops data s =
     (if 2 ^ 32 \<le> length data
      then (Inl (Ipc (''frame too large: '' @ nat_str (length data) @ '' bytes'')), s)
      else
        (let len = of_nat (length data) :: u32
         in if MAX_FRAME_SIZE < len then (Inl (Ipc (too_big len)), s)
            else case so_write_all ops (to_be_bytes len) s of
              (Inl e, s) \<Rightarrow> (Inl (Ipc (''write length failed: '' @ e)), s)
            | (Inr _, s) \<Rightarrow>
                (case so_write_all ops data s of
                   (Inl e, s) \<Rightarrow> (Inl (Ipc (''write payload failed: '' @ e)), s)
                 | (Inr _, s) \<Rightarrow>
                     (case so_flush ops s of
                        (Inl e, s) \<Rightarrow> (Inl (Ipc (''flush failed: '' @ e)), s)
                      | (Inr _, s) \<Rightarrow> (Inr (), s)))))"

definition read_frame :: "'s stream_ops \<Rightarrow> 's \<Rightarrow> u8 list res \<times> 's" where
  "read_frame ops s =
     (case so_read_exact ops 4 s of
        (Inl UnexpectedEof, s) \<Rightarrow> (Inl (Ipc ''peer disconnected (EOF on length read)''), s)
      | (Inl (OtherIo e), s) \<Rightarrow> (Inl (Ipc (''read length failed: '' @ e)), s)
      | (Inr len_buf, s) \<Rightarrow>
          (let len = from_be_bytes len_buf
           in if len = 0 then (Inl (Ipc ''empty frame (zero-length)''), s)
              else if MAX_FRAME_SIZE < len then (Inl (Ipc (too_big len)), s)
              else case so_read_exact ops (unat len) s of
                (Inl UnexpectedEof, s) \<Rightarrow>
                  (Inl (Ipc (''peer disconnected mid-frame (expected '' @ nat_str (unat len) @ '' bytes)'')), s)
              | (Inl (OtherIo e), s) \<Rightarrow> (Inl (Ipc (''read payload failed: '' @ e)), s)
              | (Inr buf, s) \<Rightarrow> (Inr buf, s)))"

text \<open>Sockets in the file system: \<open>remove_file\<close>, \<open>UnixListener::bind\<close>, \<open>accept\<close> and
  \<open>UnixStream::connect\<close> on the state \<open>'f\<close> of the system.\<close>

datatype io_error = IoNotFound | IoOther string

record ('f, 'l, 's) socket_ops =
  sk_remove_file :: "string \<Rightarrow> 'f \<Rightarrow> (io_error + unit) \<times> 'f"
  sk_bind :: "string \<Rightarrow> 'f \<Rightarrow> (string + 'l) \<times> 'f"
  sk_accept :: "'l \<Rightarrow> 'f \<Rightarrow> (string + 's) \<times> 'f"
  sk_connect :: "string \<Rightarrow> 'f \<Rightarrow> (string + 's) \<times> 'f"

definition bind_listener :: "('f, 'l, 's) socket_ops \<Rightarrow> string \<Rightarrow> 'f \<Rightarrow> 'l res \<times> 'f" where
  "bind_listener ops path f =
     (case sk_bind ops path f of
        (Inl e, f) \<Rightarrow> (Inl (Ipc (''failed to bind socket: '' @ e)), f)
      | (Inr listener, f) \<Rightarrow> (Inr listener, f))"

definition ipc_bind :: "('f, 'l, 's) socket_ops \<Rightarrow> string \<Rightarrow> 'f \<Rightarrow> 'l res \<times> 'f" where
  "ipc_bind ops path f =
     (case sk_remove_file ops path f of
        (Inr _, f) \<Rightarrow> bind_listener ops path f
      | (Inl IoNotFound, f) \<Rightarrow> bind_listener ops path f
      | (Inl (IoOther e), f) \<Rightarrow> (Inl (Ipc (''failed to remove stale socket: '' @ e)), f))"

definition ipc_accept :: "('f, 'l, 's) socket_ops \<Rightarrow> 'l \<Rightarrow> 'f \<Rightarrow> 's res \<times> 'f" where
  "ipc_accept ops listener f =
     (case sk_accept ops listener f of
        (Inl e, f) \<Rightarrow> (Inl (Ipc (''accept failed: '' @ e)), f)
      | (Inr stream, f) \<Rightarrow> (Inr stream, f))"

definition ipc_connect :: "('f, 'l, 's) socket_ops \<Rightarrow> string \<Rightarrow> 'f \<Rightarrow> 's res \<times> 'f" where
  "ipc_connect ops path f =
     (case sk_connect ops path f of
        (Inl e, f) \<Rightarrow> (Inl (Ipc (''connect failed: '' @ e)), f)
      | (Inr stream, f) \<Rightarrow> (Inr stream, f))"

text \<open>A listener is only bound after the path was cleared: removed, or not there.\<close>

lemma ipc_bind_Inr:
  assumes "ipc_bind ops path f = (Inr l, f'')"
  shows "\<exists>r f'. sk_remove_file ops path f = (r, f') \<and> (r = Inr () \<or> r = Inl IoNotFound) \<and>
    sk_bind ops path f' = (Inr l, f'')"
  using assms
  by (auto simp: ipc_bind_def bind_listener_def split: prod.splits sum.splits io_error.splits)

text \<open>\<open>send\<close> and \<open>recv\<close>, the same for the two ends of a connection.\<close>

definition ipc_send :: "'s stream_ops \<Rightarrow> (json \<Rightarrow> u8 list res) \<Rightarrow> json \<Rightarrow> 's \<Rightarrow> unit res \<times> 's" where
  "ipc_send ops to_vec payload s =
     (case to_vec payload of Inl e \<Rightarrow> (Inl e, s) | Inr data \<Rightarrow> write_frame ops data s)"

definition ipc_recv :: "'s stream_ops \<Rightarrow> (u8 list \<Rightarrow> json res) \<Rightarrow> 's \<Rightarrow> json res \<times> 's" where
  "ipc_recv ops from_slice s =
     (case read_frame ops s of
        (Inl e, s) \<Rightarrow> (Inl e, s)
      | (Inr data, s) \<Rightarrow> (from_slice data, s))"

section \<open>A reliable stream\<close>

text \<open>What the documentation of the socket promises when no I/O error happens: \<open>pending\<close>
  is the sequence of bytes written and not yet read; writing appends, reading takes from
  the front. (Reading more than is pending waits or fails; nothing is assumed of it.)\<close>

definition reliable :: "'s stream_ops \<Rightarrow> ('s \<Rightarrow> u8 list) \<Rightarrow> bool" where
  "reliable ops pending \<longleftrightarrow>
     (\<forall>bs s. \<exists>s'. so_write_all ops bs s = (Inr (), s') \<and> pending s' = pending s @ bs) \<and>
     (\<forall>s. \<exists>s'. so_flush ops s = (Inr (), s') \<and> pending s' = pending s) \<and>
     (\<forall>n s. n \<le> length (pending s) \<longrightarrow>
        (\<exists>s'. so_read_exact ops n s = (Inr (take n (pending s)), s') \<and> pending s' = drop n (pending s)))"

text \<open>A byte queue that is closed after the last byte, as an instance of it.\<close>

definition pipe_ops :: "u8 list stream_ops" where
  "pipe_ops =
     \<lparr> so_write_all = (\<lambda>bs s. (Inr (), s @ bs)), so_flush = (\<lambda>s. (Inr (), s)),
       so_read_exact = (\<lambda>n s. if n \<le> length s then (Inr (take n s), drop n s) else (Inl UnexpectedEof, [])) \<rparr>"

lemma pipe_reliable: "reliable pipe_ops (\<lambda>s. s)"
  by (simp add: reliable_def pipe_ops_def)

lemma reliable_write:
  "reliable ops pending \<Longrightarrow> \<exists>s'. so_write_all ops bs s = (Inr (), s') \<and> pending s' = pending s @ bs"
  by (simp add: reliable_def)

lemma reliable_flush:
  "reliable ops pending \<Longrightarrow> \<exists>s'. so_flush ops s = (Inr (), s') \<and> pending s' = pending s"
  by (simp add: reliable_def)

lemma reliable_read:
  assumes "reliable ops pending" and "pending s = bs @ rest"
  shows "\<exists>s'. so_read_exact ops (length bs) s = (Inr bs, s') \<and> pending s' = rest"
proof -
  have "length bs \<le> length (pending s)" using assms(2) by simp
  then have "\<exists>s'. so_read_exact ops (length bs) s = (Inr (take (length bs) (pending s)), s') \<and>
      pending s' = drop (length bs) (pending s)"
    using assms(1) unfolding reliable_def by blast
  then show ?thesis using assms(2) by simp
qed

lemma be_bytes_round_trip: "from_be_bytes (to_be_bytes w) = w"
  unfolding to_be_bytes_def from_be_bytes.simps
proof (rule bit_word_eqI)
  fix n
  assume "n < LENGTH(32)"
  then consider "n < 8" | "8 \<le> n" "n < 16" | "16 \<le> n" "n < 24" | "24 \<le> n" "n < 32"
    by fastforce
  then show "bit (push_bit 24 (ucast (ucast (drop_bit 24 w) :: u8)) OR
      push_bit 16 (ucast (ucast (drop_bit 16 w) :: u8)) OR
      push_bit 8 (ucast (ucast (drop_bit 8 w) :: u8)) OR ucast (ucast w :: u8) :: u32) n \<longleftrightarrow> bit w n"
    by cases (auto simp: bit_simps)
qed

lemma length_to_be_bytes [simp]: "length (to_be_bytes w) = 4"
  by (simp add: to_be_bytes_def)

definition frame_ok :: "u8 list \<Rightarrow> bool" where
  "frame_ok data \<longleftrightarrow> data \<noteq> [] \<and> length data \<le> 16 * 1024 * 1024"

lemma frame_length:
  assumes "length data \<le> 16 * 1024 * 1024"
  shows "unat (of_nat (length data) :: u32) = length data"
    and "\<not> MAX_FRAME_SIZE < (of_nat (length data) :: u32)"
proof -
  show len: "unat (of_nat (length data) :: u32) = length data"
    using assms by (simp add: unsigned_of_nat take_bit_nat_eq_self)
  show "\<not> MAX_FRAME_SIZE < (of_nat (length data) :: u32)"
    using assms by (simp add: word_less_nat_alt len MAX_FRAME_SIZE_def)
qed

lemma write_frame_reliable:
  assumes "reliable ops pending" and "length data \<le> 16 * 1024 * 1024"
  obtains s' where "write_frame ops data s = (Inr (), s')"
    and "pending s' = pending s @ to_be_bytes (of_nat (length data)) @ data"
proof -
  let ?len = "of_nat (length data) :: u32"
  obtain s1 where 1: "so_write_all ops (to_be_bytes ?len) s = (Inr (), s1)"
    "pending s1 = pending s @ to_be_bytes ?len"
    using reliable_write [OF assms(1)] by blast
  obtain s2 where 2: "so_write_all ops data s1 = (Inr (), s2)" "pending s2 = pending s1 @ data"
    using reliable_write [OF assms(1)] by blast
  obtain s3 where 3: "so_flush ops s2 = (Inr (), s3)" "pending s3 = pending s2"
    using reliable_flush [OF assms(1)] by blast
  show thesis
  proof (rule that)
    show "write_frame ops data s = (Inr (), s3)"
      using assms(2) frame_length(2) [OF assms(2)] by (simp add: write_frame_def 1 2 3)
    show "pending s3 = pending s @ to_be_bytes ?len @ data" by (simp add: 1 2 3)
  qed
qed

lemma read_frame_reliable:
  assumes "reliable ops pending" and "frame_ok data"
    and "pending s = to_be_bytes (of_nat (length data)) @ data @ rest"
  obtains s' where "read_frame ops s = (Inr data, s')" and "pending s' = rest"
proof -
  let ?len = "of_nat (length data) :: u32"
  have len: "unat ?len = length data" "\<not> MAX_FRAME_SIZE < ?len"
    using assms(2) frame_length by (auto simp: frame_ok_def)
  have nz: "?len \<noteq> 0" using len(1) assms(2) by (auto simp: frame_ok_def)
  obtain s1 where 1: "so_read_exact ops 4 s = (Inr (to_be_bytes ?len), s1)" "pending s1 = data @ rest"
    using reliable_read [OF assms(1,3)] by auto
  obtain s2 where 2: "so_read_exact ops (length data) s1 = (Inr data, s2)" "pending s2 = rest"
    using reliable_read [OF assms(1) 1(2)] by blast
  show thesis
  proof (rule that)
    show "read_frame ops s = (Inr data, s2)"
      using nz len by (simp add: read_frame_def 1 2 be_bytes_round_trip)
    show "pending s2 = rest" by (rule 2)
  qed
qed

text \<open>Writing a sequence of frames, and reading a number of frames.\<close>

primrec write_frames :: "'s stream_ops \<Rightarrow> u8 list list \<Rightarrow> 's \<Rightarrow> unit res \<times> 's" where
  "write_frames ops [] s = (Inr (), s)"
| "write_frames ops (d # ds) s =
     (case write_frame ops d s of
        (Inl e, s) \<Rightarrow> (Inl e, s)
      | (Inr _, s) \<Rightarrow> write_frames ops ds s)"

primrec read_frames :: "'s stream_ops \<Rightarrow> nat \<Rightarrow> 's \<Rightarrow> u8 list list res \<times> 's" where
  "read_frames ops 0 s = (Inr [], s)"
| "read_frames ops (Suc n) s =
     (case read_frame ops s of
        (Inl e, s) \<Rightarrow> (Inl e, s)
      | (Inr d, s) \<Rightarrow>
          (case read_frames ops n s of
             (Inl e, s) \<Rightarrow> (Inl e, s)
           | (Inr ds, s) \<Rightarrow> (Inr (d # ds), s)))"

definition framed :: "u8 list list \<Rightarrow> u8 list" where
  "framed ds = concat (map (\<lambda>d. to_be_bytes (of_nat (length d)) @ d) ds)"

lemma write_frames_reliable:
  assumes "reliable ops pending" and "\<forall>d \<in> set ds. length d \<le> 16 * 1024 * 1024"
  shows "\<exists>s'. write_frames ops ds s = (Inr (), s') \<and> pending s' = pending s @ framed ds"
  using assms(2)
proof (induction ds arbitrary: s)
  case Nil
  then show ?case by (simp add: framed_def)
next
  case (Cons d ds)
  then obtain s1 where 1: "write_frame ops d s = (Inr (), s1)"
    "pending s1 = pending s @ to_be_bytes (of_nat (length d)) @ d"
    using write_frame_reliable [OF assms(1)] by (metis list.set_intros(1))
  with Cons.IH [of s1] Cons.prems show ?case by (auto simp: framed_def)
qed

lemma read_frames_reliable:
  assumes "reliable ops pending" and "\<forall>d \<in> set ds. frame_ok d" and "pending s = framed ds @ rest"
  shows "\<exists>s'. read_frames ops (length ds) s = (Inr ds, s') \<and> pending s' = rest"
  using assms(2,3)
proof (induction ds arbitrary: s)
  case Nil
  then show ?case by (simp add: framed_def)
next
  case (Cons d ds)
  have "pending s = to_be_bytes (of_nat (length d)) @ d @ (framed ds @ rest)"
    using Cons.prems(2) by (simp add: framed_def)
  then obtain s1 where 1: "read_frame ops s = (Inr d, s1)" "pending s1 = framed ds @ rest"
    using read_frame_reliable [OF assms(1)] Cons.prems(1) by (metis list.set_intros(1))
  with Cons.IH [of s1] Cons.prems show ?case by auto
qed

section \<open>Properties\<close>

text \<open>C36. Frames survive the stream: whatever non-empty frames of at most 16 MiB one end
  writes to an idle reliable stream, the other end reads back the same frames in the same
  order, and nothing is left over.\<close>

theorem frames_round_trip:
  assumes "reliable ops pending" and "pending s = []" and "\<forall>d \<in> set ds. frame_ok d"
  shows "\<exists>s1 s2. write_frames ops ds s = (Inr (), s1) \<and>
    read_frames ops (length ds) s1 = (Inr ds, s2) \<and> pending s2 = []"
proof -
  have "\<forall>d \<in> set ds. length d \<le> 16 * 1024 * 1024" using assms(3) by (simp add: frame_ok_def)
  then obtain s1 where 1: "write_frames ops ds s = (Inr (), s1)" "pending s1 = framed ds"
    using write_frames_reliable [OF assms(1)] assms(2) by fastforce
  obtain s2 where 2: "read_frames ops (length ds) s1 = (Inr ds, s2)" "pending s2 = []"
    using read_frames_reliable [OF assms(1,3), of s1 "[]"] 1(2) by auto
  from 1 2 show ?thesis by blast
qed

theorem frames_round_trip_witness:
  "\<exists>s1 s2. write_frames pipe_ops [[1, 2], [255]] [] = (Inr (), s1) \<and>
     read_frames pipe_ops (length [[1, 2], [255 :: u8]]) s1 = (Inr [[1, 2], [255]], s2) \<and> s2 = []"
  by (rule frames_round_trip [OF pipe_reliable]) (simp_all add: frame_ok_def)

text \<open>A JSON value sent at one end is received at the other, when serde_json reads back
  what it writes and writes at least one and at most 16 MiB bytes.\<close>

theorem ipc_round_trip:
  assumes "reliable ops pending" and "pending s = []"
    and "to_vec v = Inr data" and "from_slice data = Inr v" and "frame_ok data"
  shows "\<exists>s1 s2. ipc_send ops to_vec v s = (Inr (), s1) \<and>
    ipc_recv ops from_slice s1 = (Inr v, s2) \<and> pending s2 = []"
proof -
  have len: "length data \<le> 16 * 1024 * 1024" using assms(5) by (simp add: frame_ok_def)
  obtain s1 where 1: "write_frame ops data s = (Inr (), s1)"
    "pending s1 = to_be_bytes (of_nat (length data)) @ data @ []"
    using write_frame_reliable [OF assms(1) len] assms(2) by (metis append_Nil append_Nil2)
  obtain s2 where 2: "read_frame ops s1 = (Inr data, s2)" "pending s2 = []"
    using read_frame_reliable [OF assms(1,5) 1(2)] .
  from 1 2 show ?thesis by (simp add: ipc_send_def ipc_recv_def assms)
qed

theorem ipc_round_trip_witness:
  "\<exists>s1 s2. ipc_send pipe_ops (\<lambda>_. Inr [110]) JNull [] = (Inr (), s1) \<and>
     ipc_recv pipe_ops (\<lambda>_. Inr JNull) s1 = (Inr JNull, s2) \<and> s2 = []"
  by (rule ipc_round_trip [OF pipe_reliable, where data = "[110]"]) (simp_all add: frame_ok_def)

end
