(* ===== verification/Retry.thy ===== *)
theory Retry
  imports Prelude
begin

text \<open>
  Retry with exponential backoff, \<open>llm/retry.rs\<close>. Durations are in nanoseconds up to
  \<open>Duration::MAX\<close>; adding two durations panics beyond it, which is \<open>None\<close>. The random draw
  (\<open>random_range(0..=n)\<close> of the rand crate) and the outcomes of the calls are arguments:
  \<open>call k\<close> is the outcome of the call number \<open>k\<close>.
\<close>

definition DURATION_MAX :: duration where
  "DURATION_MAX = (2 ^ 64 - 1) * 1000000000 + 999999999"

definition from_millis :: "nat \<Rightarrow> duration" where
  "from_millis n = n * 1000000"

definition from_secs :: "nat \<Rightarrow> duration" where
  "from_secs n = n * 1000000000"

definition duration_saturating_mul :: "duration \<Rightarrow> u32 \<Rightarrow> duration" where
  "duration_saturating_mul d k = min (d * unat k) DURATION_MAX"

definition duration_add :: "duration \<Rightarrow> duration \<Rightarrow> duration option" where
  "duration_add a b = (if a + b \<le> DURATION_MAX then Some (a + b) else None)"

record retry_config =
  rc_max_retries :: u32
  rc_base_delay :: duration
  rc_max_delay :: duration
  rc_jitter :: bool

definition retry_config_default :: retry_config where
  "retry_config_default =
     \<lparr> rc_max_retries = 3, rc_base_delay = from_millis 500, rc_max_delay = from_secs 30, rc_jitter = True \<rparr>"

definition retry_config_none :: retry_config where
  "retry_config_none = retry_config_default\<lparr>rc_max_retries := 0\<rparr>"

definition retry_config_aggressive :: retry_config where
  "retry_config_aggressive =
     \<lparr> rc_max_retries = 5, rc_base_delay = from_millis 250, rc_max_delay = from_secs 60, rc_jitter = True \<rparr>"

text \<open>\<open>1u32.checked_shl(attempt).unwrap_or(u32::MAX)\<close>.\<close>

definition backoff_factor :: "u32 \<Rightarrow> u32" where
  "backoff_factor attempt = (if unat attempt < 32 then push_bit (unat attempt) 1 else - 1)"

definition compute_delay :: "(u64 \<Rightarrow> u64) \<Rightarrow> retry_config \<Rightarrow> u32 \<Rightarrow> duration option" where
  "compute_delay random_upto config attempt =
     (let exp_delay = duration_saturating_mul (rc_base_delay config) (backoff_factor attempt);
          capped = min exp_delay (rc_max_delay config)
      in if rc_jitter config then
           (let jitter_range = (of_nat (capped div 1000000) :: u64) div 4
            in if 0 < jitter_range
               then duration_add capped (from_millis (unat (random_upto jitter_range)))
               else Some capped)
         else Some capped)"

definition is_retryable :: "string \<Rightarrow> bool" where
  "is_retryable msg =
     (let lower = to_ascii_lowercase msg
      in list_ex (str_contains lower)
           [''rate limit'', ''429'', ''503'', ''502'', ''timeout'', ''timed out'', ''connection reset'',
            ''connection refused'', ''temporarily unavailable'', ''service unavailable'',
            ''server error'', ''500'', ''overloaded'', ''capacity''])"

text \<open>The loop of \<open>with_retry\<close> from an attempt on, for the attempts that remain. The result
  is the value returned and the delays slept; \<open>None\<close> is a panic.\<close>

fun retry_loop :: "(u64 \<Rightarrow> u64) \<Rightarrow> retry_config \<Rightarrow> ('e \<Rightarrow> string) \<Rightarrow> (nat \<Rightarrow> 'e + 't)
    \<Rightarrow> nat \<Rightarrow> nat \<Rightarrow> (('e + 't) \<times> duration list) option" where
  "retry_loop rng config display call attempt 0 = None"
| "retry_loop rng config display call attempt (Suc remaining) =
     (case call attempt of
        Inr v \<Rightarrow> Some (Inr v, [])
      | Inl e \<Rightarrow>
          if unat (rc_max_retries config) \<le> attempt then Some (Inl e, [])
          else if \<not> is_retryable (display e) then Some (Inl e, [])
          else case compute_delay rng config (of_nat attempt) of
            None \<Rightarrow> None
          | Some delay \<Rightarrow>
              map_option (\<lambda>(r, ds). (r, delay # ds))
                (retry_loop rng config display call (Suc attempt) remaining))"

definition with_retry :: "(u64 \<Rightarrow> u64) \<Rightarrow> retry_config \<Rightarrow> ('e \<Rightarrow> string) \<Rightarrow> (nat \<Rightarrow> 'e + 't)
    \<Rightarrow> (('e + 't) \<times> duration list) option" where
  "with_retry rng config display call =
     retry_loop rng config display call 0 (Suc (unat (rc_max_retries config)))"

section \<open>Delays\<close>

definition capped_delay :: "retry_config \<Rightarrow> u32 \<Rightarrow> duration" where
  "capped_delay config attempt =
     min (duration_saturating_mul (rc_base_delay config) (backoff_factor attempt)) (rc_max_delay config)"

lemma unat_backoff: "unat (backoff_factor a) = (if unat a < 32 then 2 ^ unat a else 2 ^ 32 - 1)"
proof (cases "unat a < 32")
  case True
  then have "(2 :: nat) ^ unat a < 2 ^ 32" by (intro power_strict_increasing) auto
  with True have "unat (of_nat (2 ^ unat a) :: u32) = 2 ^ unat a"
    by (simp only: unsigned_of_nat of_nat_id) (simp add: take_bit_nat_eq_self)
  with True show ?thesis by (simp add: backoff_factor_def)
next
  case False
  then show ?thesis by (simp add: backoff_factor_def unsigned_minus_1_eq_mask mask_eq_exp_minus_1)
qed

lemma jitter_bound:
  assumes "\<forall>n. rng n \<le> n"
  shows "from_millis (unat (rng ((of_nat (c div 1000000) :: u64) div 4))) \<le> c div 4"
proof -
  have "unat (rng ((of_nat (c div 1000000) :: u64) div 4)) \<le> unat ((of_nat (c div 1000000) :: u64) div 4)"
    using assms by (simp add: word_le_nat_alt)
  also have "\<dots> = unat (of_nat (c div 1000000) :: u64) div 4" by (simp add: unat_div)
  also have "\<dots> \<le> (c div 1000000) div 4"
    by (intro div_le_mono) (simp add: unsigned_of_nat take_bit_nat_less_eq_self)
  finally show ?thesis by (simp add: from_millis_def div_mult2_eq [symmetric])
qed

lemma compute_delay_bounds:
  assumes "\<forall>n. rng n \<le> n" and "rc_max_delay config + rc_max_delay config div 4 \<le> DURATION_MAX"
  shows "\<exists>d. compute_delay rng config attempt = Some d \<and> capped_delay config attempt \<le> d \<and>
    d \<le> capped_delay config attempt + capped_delay config attempt div 4"
proof -
  let ?c = "capped_delay config attempt"
  have c: "?c \<le> rc_max_delay config" by (simp add: capped_delay_def)
  then have "?c div 4 \<le> rc_max_delay config div 4" by (rule div_le_mono)
  with c assms(2) have fits: "?c + ?c div 4 \<le> DURATION_MAX" by linarith
  then show ?thesis
    using jitter_bound [OF assms(1), of ?c]
    unfolding compute_delay_def Let_def capped_delay_def [symmetric] duration_add_def by auto
qed

section \<open>Where the loop stops\<close>

text \<open>The first call that succeeds, fails for good, or is the last one allowed.\<close>

definition stops :: "retry_config \<Rightarrow> ('e \<Rightarrow> string) \<Rightarrow> (nat \<Rightarrow> 'e + 't) \<Rightarrow> nat \<Rightarrow> bool" where
  "stops config display call k \<longleftrightarrow>
     unat (rc_max_retries config) \<le> k \<or>
     (case call k of Inr _ \<Rightarrow> True | Inl e \<Rightarrow> \<not> is_retryable (display e))"

definition stop_call :: "retry_config \<Rightarrow> ('e \<Rightarrow> string) \<Rightarrow> (nat \<Rightarrow> 'e + 't) \<Rightarrow> nat" where
  "stop_call config display call = (LEAST k. stops config display call k)"

lemma retry_loop_stops:
  assumes "stops config display call k" and "\<forall>j. a \<le> j \<and> j < k \<longrightarrow> \<not> stops config display call j"
    and "a \<le> k" and "k < a + n"
    and "\<And>att. \<exists>d. compute_delay rng config att = Some d"
  shows "retry_loop rng config display call a n =
    Some (call k, map (\<lambda>j. the (compute_delay rng config (of_nat j))) [a..<k])"
  using assms
proof (induction n arbitrary: a)
  case 0
  then show ?case by simp
next
  case (Suc n)
  show ?case
  proof (cases "a = k")
    case True
    with Suc.prems(1) show ?thesis by (auto simp: stops_def split: sum.splits)
  next
    case False
    then have "\<not> stops config display call a" and lt: "a < k" using Suc.prems by auto
    moreover obtain d where "compute_delay rng config (of_nat a) = Some d"
      using Suc.prems(5) by blast
    moreover have "retry_loop rng config display call (Suc a) n =
        Some (call k, map (\<lambda>j. the (compute_delay rng config (of_nat j))) [Suc a..<k])"
      using Suc.prems False by (intro Suc.IH) auto
    ultimately show ?thesis
      by (auto simp: stops_def upt_conv_Cons split: sum.splits)
  qed
qed

lemma stop_call_props:
  "stops config display call (stop_call config display call)"
  "j < stop_call config display call \<Longrightarrow> \<not> stops config display call j"
  "stop_call config display call \<le> unat (rc_max_retries config)"
proof -
  have m: "stops config display call (unat (rc_max_retries config))" by (simp add: stops_def)
  show "stops config display call (stop_call config display call)"
    unfolding stop_call_def using m by (rule LeastI)
  show "j < stop_call config display call \<Longrightarrow> \<not> stops config display call j"
    unfolding stop_call_def by (rule not_less_Least)
  show "stop_call config display call \<le> unat (rc_max_retries config)"
    unfolding stop_call_def using m by (rule Least_le)
qed

lemma with_retry_returns:
  assumes "\<forall>n. rng n \<le> n" and "rc_max_delay config + rc_max_delay config div 4 \<le> DURATION_MAX"
  shows "with_retry rng config display call =
    Some (call (stop_call config display call),
      map (\<lambda>j. the (compute_delay rng config (of_nat j))) [0..<stop_call config display call])"
  unfolding with_retry_def
  using stop_call_props [where config = config and display = display and call = call] compute_delay_bounds [OF assms]
  by (intro retry_loop_stops) (auto simp: less_Suc_eq_le)

lemma default_delay_fits:
  "rc_max_delay retry_config_default + rc_max_delay retry_config_default div 4 \<le> DURATION_MAX"
  by (simp add: retry_config_default_def from_secs_def DURATION_MAX_def)

text \<open>The result depends on the first \<open>max_retries + 1\<close> calls only.\<close>

lemma retry_loop_cong:
  "\<forall>k. a \<le> k \<and> k < a + n \<longrightarrow> call k = call' k \<Longrightarrow>
     retry_loop rng config display call a n = retry_loop rng config display call' a n"
proof (induction n arbitrary: a)
  case (Suc n)
  from Suc.prems have "call a = call' a" by simp
  moreover have "retry_loop rng config display call (Suc a) n = retry_loop rng config display call' (Suc a) n"
    using Suc.prems by (intro Suc.IH) auto
  ultimately show ?case by (simp only: retry_loop.simps)
qed simp

lemma with_retry_cong:
  "\<forall>k \<le> unat (rc_max_retries config). call k = call' k \<Longrightarrow>
     with_retry rng config display call = with_retry rng config display call'"
  unfolding with_retry_def by (rule retry_loop_cong) auto

section \<open>Properties\<close>

text \<open>The backoff is bounded: whatever the random draw, the delay of every attempt lies
  between \<open>min (base * 2^attempt) max_delay\<close> and 25 percent above it, so it never exceeds
  \<open>max_delay\<close> by more than a quarter, and computing it does not panic.\<close>

theorem retry_delay_bounded:
  assumes "\<forall>n. rng n \<le> n" and "rc_max_delay config + rc_max_delay config div 4 \<le> DURATION_MAX"
    and "unat attempt < 32"
  shows "\<exists>d. compute_delay rng config attempt = Some d \<and>
    min (rc_base_delay config * 2 ^ unat attempt) (rc_max_delay config) \<le> d \<and>
    d \<le> rc_max_delay config + rc_max_delay config div 4"
proof -
  have max: "rc_max_delay config \<le> DURATION_MAX" using assms(2) by simp
  have c: "capped_delay config attempt = min (rc_base_delay config * 2 ^ unat attempt) (rc_max_delay config)"
    using assms(3) max by (auto simp: capped_delay_def duration_saturating_mul_def unat_backoff min_def)
  have le: "capped_delay config attempt \<le> rc_max_delay config" by (simp add: capped_delay_def)
  then have "capped_delay config attempt div 4 \<le> rc_max_delay config div 4" by (rule div_le_mono)
  with le compute_delay_bounds [OF assms(1,2), of attempt] show ?thesis
    unfolding c by fastforce
qed

theorem retry_delay_bounded_witness:
  "\<exists>d. compute_delay (\<lambda>n. n) retry_config_default 3 = Some d \<and>
    min (rc_base_delay retry_config_default * 2 ^ unat (3 :: u32)) (rc_max_delay retry_config_default) \<le> d \<and>
    d \<le> rc_max_delay retry_config_default + rc_max_delay retry_config_default div 4"
  by (rule retry_delay_bounded)
    (simp_all add: retry_config_default_def from_secs_def DURATION_MAX_def)

text \<open>C35. \<open>with_retry\<close> always returns: it makes calls up to the first one that succeeds,
  fails with an error that is not retryable, or is call number \<open>max_retries\<close>, returns that
  call's outcome, and sleeps once between two calls; so it makes at most
  \<open>max_retries + 1\<close> calls. The random jitter is drawn within its range, and \<open>max_delay\<close> plus a
  quarter of it fits into a \<open>Duration\<close>.\<close>

theorem with_retry_outcome:
  assumes "\<forall>n. rng n \<le> n" and "rc_max_delay config + rc_max_delay config div 4 \<le> DURATION_MAX"
  shows "\<exists>k delays. with_retry rng config display call = Some (call k, delays) \<and>
    k \<le> unat (rc_max_retries config) \<and> length delays = k \<and>
    (\<forall>j < k. \<exists>e. call j = Inl e \<and> is_retryable (display e)) \<and>
    (case call k of Inr _ \<Rightarrow> True
     | Inl e \<Rightarrow> k = unat (rc_max_retries config) \<or> \<not> is_retryable (display e))"
proof -
  let ?k = "stop_call config display call"
  note k = stop_call_props [where config = config and display = display and call = call]
  note with_retry_returns [OF assms, of display call]
  moreover have "\<forall>j < ?k. \<exists>e. call j = Inl e \<and> is_retryable (display e)"
    using k(2) by (force simp: stops_def split: sum.splits)
  moreover have "case call ?k of Inr _ \<Rightarrow> True
      | Inl e \<Rightarrow> ?k = unat (rc_max_retries config) \<or> \<not> is_retryable (display e)"
    using k(1,3) by (auto simp: stops_def split: sum.splits)
  ultimately show ?thesis using k(3) by (intro exI) auto
qed

theorem with_retry_outcome_witness:
  "\<exists>k delays. with_retry (\<lambda>n. n) retry_config_default (\<lambda>e. e)
     (\<lambda>k. if k = 2 then Inr ''ok'' else Inl ''HTTP 503'') =
     Some ((if k = 2 then Inr ''ok'' else Inl ''HTTP 503''), delays) \<and> length delays = k"
proof -
  from with_retry_outcome [OF _ default_delay_fits, of "\<lambda>n. n" "\<lambda>e. e"
      "\<lambda>k. if k = 2 then Inr ''ok'' else Inl ''HTTP 503''"]
  show ?thesis by blast
qed

end
