(* ===== verification/Learning.thy ===== *)
theory Learning
  imports Retry
begin

text \<open>
  The learning components: capability confidence with trend detection
  (\<open>learning/capability.rs\<close>), performance records per agent (\<open>learning/profile.rs\<close>), the
  UCB1 bandit (\<open>learning/strategy.rs\<close>) and tabular Q-learning with interned keys
  (\<open>learning/optimizer.rs\<close>). Counters of 32 bits wrap, as in the release profile of the
  crate; the logarithm and the square root on \<open>f64\<close> are arguments.
\<close>

section \<open>Capability confidence\<close>

datatype trend = Improving | Stable | Declining

record capability_score =
  cs_confidence :: rat
  cs_successes :: u32
  cs_failures :: u32
  cs_trend :: trend
  cs_recent :: "bool list"

definition capability_score_new :: capability_score where
  "capability_score_new =
     \<lparr> cs_confidence = 1 / 2, cs_successes = 0, cs_failures = 0, cs_trend = Stable, cs_recent = [] \<rparr>"

definition update_confidence :: "capability_score \<Rightarrow> capability_score" where
  "update_confidence cs =
     (let total = cs_successes cs + cs_failures cs
      in if 0 < total then cs\<lparr>cs_confidence := as_f64 (cs_successes cs) / as_f64 total\<rparr> else cs)"

definition MAX_RECENT :: nat where
  "MAX_RECENT = 64"

definition update_trend :: "capability_score \<Rightarrow> capability_score" where
  "update_trend cs =
     (let cs = (if MAX_RECENT < length (cs_recent cs)
                then cs\<lparr>cs_recent := drop (length (cs_recent cs) - MAX_RECENT) (cs_recent cs)\<rparr> else cs);
          window = 5
      in if length (cs_recent cs) < window then cs\<lparr>cs_trend := Stable\<rparr>
         else
           (let last_n = drop (length (cs_recent cs) - window) (cs_recent cs);
                recent_rate = of_nat (length (filter (\<lambda>b. b) last_n)) / of_nat window;
                diff = recent_rate - cs_confidence cs
            in cs\<lparr>cs_trend := if 1 / 10 < diff then Improving
                              else if diff < - (1 / 10) then Declining else Stable\<rparr>))"

type_synonym capability_scorer = "(string, capability_score) hmap"

definition entry_score :: "string \<Rightarrow> capability_scorer \<Rightarrow> capability_score" where
  "entry_score c scorer = (case hm_get scorer c of None \<Rightarrow> capability_score_new | Some s \<Rightarrow> s)"

definition record_success :: "string \<Rightarrow> capability_scorer \<Rightarrow> capability_scorer" where
  "record_success c scorer =
     (let score = entry_score c scorer;
          score = score\<lparr>cs_successes := cs_successes score + 1, cs_recent := cs_recent score @ [True]\<rparr>
      in hm_insert c (update_trend (update_confidence score)) scorer)"

definition record_failure :: "string \<Rightarrow> capability_scorer \<Rightarrow> capability_scorer" where
  "record_failure c scorer =
     (let score = entry_score c scorer;
          score = score\<lparr>cs_failures := cs_failures score + 1, cs_recent := cs_recent score @ [False]\<rparr>
      in hm_insert c (update_trend (update_confidence score)) scorer)"

definition confidence :: "string \<Rightarrow> capability_scorer \<Rightarrow> rat" where
  "confidence c scorer = (case hm_get scorer c of None \<Rightarrow> 1 / 2 | Some s \<Rightarrow> cs_confidence s)"

definition trend_of :: "string \<Rightarrow> capability_scorer \<Rightarrow> trend" where
  "trend_of c scorer = (case hm_get scorer c of None \<Rightarrow> Stable | Some s \<Rightarrow> cs_trend s)"

definition all_scores :: "capability_scorer \<Rightarrow> (string \<times> capability_score) list" where
  "all_scores scorer = scorer"

section \<open>Performance profile\<close>

record action_record =
  ar_action_type :: string
  ar_duration :: duration
  ar_success :: bool
  ar_timestamp :: instant

definition MAX_RECORDS_PER_AGENT :: nat where
  "MAX_RECORDS_PER_AGENT = 10000"

type_synonym performance_profile = "(string, action_record list) hmap"

definition profile_record :: "instant \<Rightarrow> string \<Rightarrow> string \<Rightarrow> duration \<Rightarrow> bool \<Rightarrow> performance_profile
    \<Rightarrow> performance_profile" where
  "profile_record now agent_key action_type d success profile =
     (let records = (case hm_get profile agent_key of None \<Rightarrow> [] | Some rs \<Rightarrow> rs);
          records = (if MAX_RECORDS_PER_AGENT \<le> length records
                     then drop (length records - MAX_RECORDS_PER_AGENT + 1) records else records)
      in hm_insert agent_key
           (records @ [\<lparr> ar_action_type = action_type, ar_duration = d, ar_success = success, ar_timestamp = now \<rparr>])
           profile)"

definition success_rate :: "string \<Rightarrow> performance_profile \<Rightarrow> rat option" where
  "success_rate agent_key profile =
     (case hm_get profile agent_key of
        None \<Rightarrow> None
      | Some records \<Rightarrow>
          if records = [] then None
          else Some (of_nat (length (filter ar_success records)) / of_nat (length records)))"

definition success_rate_for_action :: "string \<Rightarrow> string \<Rightarrow> performance_profile \<Rightarrow> rat option" where
  "success_rate_for_action agent_key action_type profile =
     (case hm_get profile agent_key of
        None \<Rightarrow> None
      | Some records \<Rightarrow>
          (let total = length (filter (\<lambda>r. ar_action_type r = action_type) records)
           in if total = 0 then None
              else Some (of_nat (length (filter (\<lambda>r. ar_action_type r = action_type \<and> ar_success r) records))
                         / of_nat total)))"

text \<open>Summing durations panics beyond \<open>Duration::MAX\<close>; the outer \<open>None\<close> is that panic.\<close>

fun sum_durations :: "duration \<Rightarrow> duration list \<Rightarrow> duration option" where
  "sum_durations acc [] = Some acc"
| "sum_durations acc (d # ds) =
     (case duration_add acc d of None \<Rightarrow> None | Some t \<Rightarrow> sum_durations t ds)"

definition avg_duration :: "string \<Rightarrow> performance_profile \<Rightarrow> duration option option" where
  "avg_duration agent_key profile =
     (case hm_get profile agent_key of
        None \<Rightarrow> Some None
      | Some records \<Rightarrow>
          if records = [] then Some None
          else map_option (\<lambda>acc. Some (acc div min (length records) (2 ^ 32 - 1)))
                 (sum_durations 0 (map ar_duration records)))"

definition avg_duration_for_action :: "string \<Rightarrow> string \<Rightarrow> performance_profile \<Rightarrow> duration option option" where
  "avg_duration_for_action agent_key action_type profile =
     (case hm_get profile agent_key of
        None \<Rightarrow> Some None
      | Some records \<Rightarrow>
          (let rs = filter (\<lambda>r. ar_action_type r = action_type) records
           in case sum_durations 0 (map ar_duration rs) of
                None \<Rightarrow> None
              | Some acc \<Rightarrow> Some (if rs = [] then None else Some (acc div length rs))))"

definition total_actions :: "string \<Rightarrow> performance_profile \<Rightarrow> nat" where
  "total_actions agent_key profile = (case hm_get profile agent_key of None \<Rightarrow> 0 | Some rs \<Rightarrow> length rs)"

section \<open>The UCB1 bandit\<close>

record arm_stats =
  arm_name :: string
  arm_total_reward :: rat
  arm_count :: u32

definition mean_reward :: "arm_stats \<Rightarrow> rat" where
  "mean_reward a = (if arm_count a = 0 then 0 else arm_total_reward a / as_f64 (arm_count a))"

type_synonym ucb1 = "arm_stats list"

definition ucb1_new :: "string list \<Rightarrow> ucb1" where
  "ucb1_new names = map (\<lambda>n. \<lparr> arm_name = n, arm_total_reward = 0, arm_count = 0 \<rparr>) names"

definition ucb_value :: "(rat \<Rightarrow> rat) \<Rightarrow> rat \<Rightarrow> arm_stats \<Rightarrow> rat" where
  "ucb_value sqrt_f64 ln_n a = mean_reward a + sqrt_f64 (2 * ln_n / as_f64 (arm_count a))"

definition ucb_select :: "(rat \<Rightarrow> rat) \<Rightarrow> (rat \<Rightarrow> rat) \<Rightarrow> u32 \<Rightarrow> ucb1 \<Rightarrow> nat option" where
  "ucb_select ln_f64 sqrt_f64 total_rounds arms =
     (if arms = [] then None
      else case find (\<lambda>(_, a). arm_count a = 0) (enumerate 0 arms) of
        Some (i, _) \<Rightarrow> Some i
      | None \<Rightarrow>
          if total_rounds = 0 then Some 0
          else
            (let ln_n = ln_f64 (as_f64 total_rounds)
             in map_option fst (max_by_key snd
                  (map (\<lambda>(i, a). (i, ucb_value sqrt_f64 ln_n a)) (enumerate 0 arms)))))"

definition ucb_update :: "nat \<Rightarrow> rat \<Rightarrow> ucb1 \<Rightarrow> ucb1" where
  "ucb_update arm reward arms =
     (if arm < length arms
      then arms[arm := (arms ! arm)\<lparr>arm_total_reward := arm_total_reward (arms ! arm) + reward,
                                    arm_count := arm_count (arms ! arm) + 1\<rparr>]
      else arms)"

definition best_arm :: "ucb1 \<Rightarrow> nat option" where
  "best_arm arms = map_option fst (max_by_key (\<lambda>(_, a). mean_reward a) (enumerate 0 arms))"

section \<open>Q-learning\<close>

record string_interner =
  si_map :: "(string, u32) hmap"
  si_next :: u32

definition interner_new :: string_interner where
  "interner_new = \<lparr> si_map = hm_empty, si_next = 0 \<rparr>"

text \<open>\<open>None\<close> is the panic when the identifiers are exhausted.\<close>

definition intern :: "string \<Rightarrow> string_interner \<Rightarrow> (u32 \<times> string_interner) option" where
  "intern s si =
     (case hm_get (si_map si) s of
        Some i \<Rightarrow> Some (i, si)
      | None \<Rightarrow>
          if si_next si = - 1 then None
          else Some (si_next si, \<lparr> si_map = hm_insert s (si_next si) (si_map si), si_next = si_next si + 1 \<rparr>))"

record q_learner =
  ql_table :: "(u32 \<times> u32, rat) hmap"
  ql_interner :: string_interner
  ql_learning_rate :: rat
  ql_discount_factor :: rat

definition q_learner_new :: "rat \<Rightarrow> rat \<Rightarrow> q_learner" where
  "q_learner_new rate discount =
     \<lparr> ql_table = hm_empty, ql_interner = interner_new, ql_learning_rate = rate, ql_discount_factor = discount \<rparr>"

definition get_value :: "q_learner \<Rightarrow> string \<Rightarrow> string \<Rightarrow> rat" where
  "get_value q state action =
     (case (hm_get (si_map (ql_interner q)) state, hm_get (si_map (ql_interner q)) action) of
        (Some s, Some a) \<Rightarrow> (case hm_get (ql_table q) (s, a) of None \<Rightarrow> 0 | Some v \<Rightarrow> v)
      | _ \<Rightarrow> 0)"

definition updated_value :: "q_learner \<Rightarrow> string \<Rightarrow> string \<Rightarrow> rat \<Rightarrow> string \<Rightarrow> string list \<Rightarrow> rat" where
  "updated_value q state action reward next_state next_actions =
     (let current_q = get_value q state action;
          max_next_q = fold max (map (get_value q next_state) next_actions) 0;
          td_target = reward + ql_discount_factor q * max_next_q
      in current_q + ql_learning_rate q * (td_target - current_q))"

definition q_update :: "string \<Rightarrow> string \<Rightarrow> rat \<Rightarrow> string \<Rightarrow> string list \<Rightarrow> q_learner \<Rightarrow> q_learner option" where
  "q_update state action reward next_state next_actions q =
     (let new_q = updated_value q state action reward next_state next_actions
      in case intern state (ql_interner q) of
           None \<Rightarrow> None
         | Some (s_id, si) \<Rightarrow>
             (case intern action si of
                None \<Rightarrow> None
              | Some (a_id, si') \<Rightarrow>
                  Some (q\<lparr>ql_interner := si', ql_table := hm_insert (s_id, a_id) new_q (ql_table q)\<rparr>)))"

definition best_action :: "q_learner \<Rightarrow> string \<Rightarrow> string list \<Rightarrow> string option" where
  "best_action q state actions = max_by_key (get_value q state) actions"

section \<open>Capability scores follow the outcomes\<close>

definition record_outcome :: "string \<Rightarrow> bool \<Rightarrow> capability_scorer \<Rightarrow> capability_scorer" where
  "record_outcome c b = (if b then record_success c else record_failure c)"

text \<open>What a score is after the outcomes \<open>bs\<close>.\<close>

definition expected_trend :: "bool list \<Rightarrow> trend" where
  "expected_trend bs =
     (if length bs < 5 then Stable
      else
        (let diff = of_nat (length (filter (\<lambda>b. b) (drop (length bs - 5) bs))) / 5
                    - of_nat (length (filter (\<lambda>b. b) bs)) / of_nat (length bs) :: rat
         in if 1 / 10 < diff then Improving else if diff < - (1 / 10) then Declining else Stable))"

definition score_of :: "bool list \<Rightarrow> capability_score \<Rightarrow> bool" where
  "score_of bs cs \<longleftrightarrow>
     cs_successes cs = of_nat (length (filter (\<lambda>b. b) bs)) \<and> cs_failures cs = of_nat (length (filter Not bs)) \<and>
     cs_confidence cs = (if bs = [] then 1 / 2 else of_nat (length (filter (\<lambda>b. b) bs)) / of_nat (length bs)) \<and>
     cs_trend cs = expected_trend bs \<and> cs_recent cs = drop (length bs - 64) bs"

lemma as_f64_of_nat: "n < 2 ^ LENGTH('a::len) \<Longrightarrow> as_f64 (of_nat n :: 'a word) = of_nat n"
  by (simp add: as_f64_def unat_of_nat)

lemma filter_split: "length (filter (\<lambda>b. b) bs) + length (filter Not bs) = length bs"
  by (induction bs) auto

lemma update_confidence_exact:
  assumes "cs_successes cs = of_nat s" and "cs_failures cs = of_nat f" and "0 < s + f" and "s + f < 2 ^ 32"
  shows "update_confidence cs = cs\<lparr>cs_confidence := of_nat s / of_nat (s + f)\<rparr>"
proof -
  have tot: "cs_successes cs + cs_failures cs = of_nat (s + f)" by (simp only: assms(1,2) of_nat_add)
  have "(0 :: u32) < of_nat (s + f)" using assms(3,4) by (simp add: word_less_nat_alt unat_of_nat del: of_nat_add)
  moreover have "as_f64 (of_nat s :: u32) = of_nat s" "as_f64 (of_nat (s + f) :: u32) = of_nat (s + f)"
    using assms(4) by (simp_all add: as_f64_of_nat del: of_nat_add)
  ultimately show ?thesis unfolding update_confidence_def Let_def tot by (simp only: assms(1) if_True)
qed

text \<open>The trend of a window that holds at least the last five outcomes.\<close>

lemma update_trend_exact:
  assumes "cs_recent cs = drop (length bs - 65) bs"
    and "bs \<noteq> []" and "cs_confidence cs = of_nat (length (filter (\<lambda>b. b) bs)) / of_nat (length bs)"
  shows "update_trend cs = cs\<lparr>cs_trend := expected_trend bs, cs_recent := drop (length bs - 64) bs\<rparr>"
proof -
  have "64 < length bs \<Longrightarrow> Suc (length bs - 65) = length bs - 64" by simp
  then have r: "(if 64 < length (cs_recent cs) then cs\<lparr>cs_recent := drop (length (cs_recent cs) - 64) (cs_recent cs)\<rparr> else cs) =
      cs\<lparr>cs_recent := drop (length bs - 64) bs\<rparr>"
    using assms(1) by auto
  have "length bs - (length bs - 64 + 5) + (length bs - 64) = length bs - 5" by arith
  then have "drop (length (drop (length bs - 64) bs) - 5) (drop (length bs - 64) bs) = drop (length bs - 5) bs"
    by (simp add: add.commute)
  then show ?thesis using assms(3) unfolding update_trend_def MAX_RECENT_def Let_def r
    by (auto simp: expected_trend_def Let_def)
qed

lemma score_of_snoc:
  assumes "score_of bs cs" and "length bs + 1 < 2 ^ 32"
  shows "score_of (bs @ [b]) (update_trend (update_confidence
    (cs\<lparr>cs_successes := cs_successes cs + (if b then 1 else 0), cs_failures := cs_failures cs + (if b then 0 else 1),
       cs_recent := cs_recent cs @ [b]\<rparr>)))"
proof -
  let ?s = "length (filter (\<lambda>b. b) (bs @ [b]))" and ?f = "length (filter Not (bs @ [b]))"
  define cs1 where "cs1 = cs\<lparr>cs_successes := cs_successes cs + (if b then 1 else 0),
    cs_failures := cs_failures cs + (if b then 0 else 1), cs_recent := cs_recent cs @ [b]\<rparr>"
  have sf: "?s + ?f = length (bs @ [b])" by (rule filter_split)
  have c: "cs_successes cs1 = of_nat ?s" "cs_failures cs1 = of_nat ?f"
    using assms(1) by (simp_all add: cs1_def score_of_def)
  have u: "update_confidence cs1 = cs1\<lparr>cs_confidence := of_nat ?s / of_nat (length (bs @ [b]))\<rparr>"
    using update_confidence_exact [OF c] assms(2) unfolding sf by simp
  have "cs_recent cs1 = drop (length (bs @ [b]) - 65) (bs @ [b])"
    using assms(1) by (simp add: cs1_def score_of_def)
  then have "update_trend (update_confidence cs1) = cs1\<lparr>cs_confidence := of_nat ?s / of_nat (length (bs @ [b])),
      cs_trend := expected_trend (bs @ [b]), cs_recent := drop (length (bs @ [b]) - 64) (bs @ [b])\<rparr>"
    unfolding u by (subst update_trend_exact [of _ "bs @ [b]"]) simp_all
  then show ?thesis using c unfolding cs1_def [symmetric] score_of_def by simp
qed

lemma record_outcome_get:
  "hm_get (record_outcome c b scorer) c' =
     (if c' = c then Some (update_trend (update_confidence ((entry_score c scorer)
        \<lparr>cs_successes := cs_successes (entry_score c scorer) + (if b then 1 else 0),
         cs_failures := cs_failures (entry_score c scorer) + (if b then 0 else 1),
         cs_recent := cs_recent (entry_score c scorer) @ [b]\<rparr>)))
      else hm_get scorer c')"
  by (simp add: record_outcome_def record_success_def record_failure_def Let_def)

text \<open>The score of every capability is a function of its own outcomes, in order.\<close>

lemma entry_score_follows:
  "length outcomes < 2 ^ 32 \<Longrightarrow>
     score_of (map snd (filter (\<lambda>(c', _). c' = c) outcomes)) (entry_score c (fold (\<lambda>(c, b). record_outcome c b) outcomes hm_empty))"
proof (induction outcomes rule: rev_induct)
  case Nil
  then show ?case by (simp add: score_of_def entry_score_def capability_score_new_def expected_trend_def)
next
  case (snoc x outcomes)
  obtain c' b where x: "x = (c', b)" by (cases x)
  let ?bs = "map snd (filter (\<lambda>(c', _). c' = c) outcomes)"
  have "length (filter (\<lambda>(c', _). c' = c) outcomes) \<le> length outcomes" by (rule length_filter_le)
  then have "length ?bs + 1 < 2 ^ 32" using snoc.prems by (simp del: length_filter_le)
  with snoc score_of_snoc [of ?bs "entry_score c (fold (\<lambda>(c, b). record_outcome c b) outcomes hm_empty)" b]
  show ?case by (auto simp: x record_outcome_get entry_score_def [of c "record_outcome _ _ _"] split: if_splits)
      (auto simp: entry_score_def record_outcome_get)
qed

section \<open>Profiles keep the last records\<close>

lemma drop_last_records: "10000 \<le> length xs \<Longrightarrow> drop (Suc (length xs - 10000)) xs = drop (length xs - 9999) xs"
  by (rule arg_cong [of _ _ "\<lambda>n. drop n xs"]) simp

lemma profile_record_get:
  "hm_get (profile_record now a ty d ok profile) a' =
     (if a' = a then Some (drop (length (case hm_get profile a of None \<Rightarrow> [] | Some rs \<Rightarrow> rs) + 1 - 10000)
          ((case hm_get profile a of None \<Rightarrow> [] | Some rs \<Rightarrow> rs) @
           [\<lparr> ar_action_type = ty, ar_duration = d, ar_success = ok, ar_timestamp = now \<rparr>]))
      else hm_get profile a')"
  by (auto simp: profile_record_def Let_def MAX_RECORDS_PER_AGENT_def drop_last_records)

lemma profile_follows:
  "hm_get (fold (\<lambda>(a, r). profile_record (ar_timestamp r) a (ar_action_type r) (ar_duration r) (ar_success r)) xs hm_empty) a =
     (let rs = map snd (filter (\<lambda>(a', _). a' = a) xs)
      in if rs = [] then None else Some (drop (length rs - 10000) rs))"
proof (induction xs rule: rev_induct)
  case Nil
  then show ?case by simp
next
  case (snoc x xs)
  obtain a' r where x: "x = (a', r)" by (cases x)
  let ?rs = "map snd (filter (\<lambda>(a', _). a' = a) xs)"
  have "drop (length (drop (length ?rs - 10000) ?rs) + 1 - 10000) (drop (length ?rs - 10000) ?rs @ [r]) =
      drop (length (?rs @ [r]) - 10000) (?rs @ [r])"
    using drop_last_records [of ?rs] by (cases "length ?rs < 10000") simp_all
  then show ?case using snoc by (auto simp: x profile_record_get Let_def split: if_splits)
qed

section \<open>Q-learning refines a table of values\<close>

definition interner_ok :: "string_interner \<Rightarrow> bool" where
  "interner_ok si \<longleftrightarrow>
     (\<forall>s i. hm_get (si_map si) s = Some i \<longrightarrow> i < si_next si) \<and>
     (\<forall>s s' i. hm_get (si_map si) s = Some i \<longrightarrow> hm_get (si_map si) s' = Some i \<longrightarrow> s = s')"

definition q_inv :: "q_learner \<Rightarrow> bool" where
  "q_inv q \<longleftrightarrow> interner_ok (ql_interner q) \<and>
     (\<forall>s a v. hm_get (ql_table q) (s, a) = Some v \<longrightarrow> s < si_next (ql_interner q) \<and> a < si_next (ql_interner q))"

lemma intern_spec:
  assumes "intern s si = Some (i, si')" and "interner_ok si"
  shows "interner_ok si' \<and> hm_get (si_map si') s = Some i \<and> i < si_next si' \<and> si_next si \<le> si_next si' \<and>
    (\<forall>s'. s' \<noteq> s \<longrightarrow> hm_get (si_map si') s' = hm_get (si_map si) s') \<and>
    (hm_get (si_map si) s = Some i \<or> hm_get (si_map si) s = None \<and> i = si_next si)"
proof (cases "hm_get (si_map si) s")
  case None
  then have n: "si_next si \<noteq> - 1" and eq: "i = si_next si"
    "si' = \<lparr> si_map = hm_insert s (si_next si) (si_map si), si_next = si_next si + 1 \<rparr>"
    using assms(1) by (auto simp: intern_def split: if_splits)
  from n have lt: "si_next si < si_next si + 1"
    using measure_unat [of "si_next si + 1"] by (simp add: word_less_nat_alt eq_neg_iff_add_eq_0)
  with assms(2) None eq show ?thesis by (fastforce simp: interner_ok_def)
qed (use assms in \<open>auto simp: intern_def interner_ok_def\<close>)

text \<open>An identifier after interning is the old one, or it is new and above the old ones.\<close>

lemma intern_ids:
  "intern s si = Some (i, si') \<Longrightarrow> interner_ok si \<Longrightarrow> hm_get (si_map si') x = Some j \<Longrightarrow>
     hm_get (si_map si) x = Some j \<or> hm_get (si_map si) x = None \<and> si_next si \<le> j"
  using intern_spec [of s si i si'] by (cases "x = s") auto

lemma get_value_cases:
  "get_value q x y =
     (case hm_get (si_map (ql_interner q)) x of
        None \<Rightarrow> 0
      | Some i \<Rightarrow>
          (case hm_get (si_map (ql_interner q)) y of
             None \<Rightarrow> 0
           | Some j \<Rightarrow> (case hm_get (ql_table q) (i, j) of None \<Rightarrow> 0 | Some v \<Rightarrow> v)))"
  by (simp add: get_value_def split: option.split)

lemma q_update_obtain:
  assumes "q_inv q" and "q_update s a r s' acts q = Some q'"
  obtains i j where "interner_ok (ql_interner q')"
    and "hm_get (si_map (ql_interner q')) s = Some i" and "hm_get (si_map (ql_interner q')) a = Some j"
    and "i < si_next (ql_interner q')" and "j < si_next (ql_interner q')"
    and "si_next (ql_interner q) \<le> si_next (ql_interner q')"
    and "ql_table q' = hm_insert (i, j) (updated_value q s a r s' acts) (ql_table q)"
    and "\<forall>x k. hm_get (si_map (ql_interner q')) x = Some k \<longrightarrow>
      hm_get (si_map (ql_interner q)) x = Some k \<or>
      hm_get (si_map (ql_interner q)) x = None \<and> si_next (ql_interner q) \<le> k"
    and "\<forall>x k. hm_get (si_map (ql_interner q)) x = Some k \<longrightarrow> hm_get (si_map (ql_interner q')) x = Some k"
proof -
  obtain i si j si' where i: "intern s (ql_interner q) = Some (i, si)" and j: "intern a si = Some (j, si')"
    and q': "q' = q\<lparr>ql_interner := si', ql_table := hm_insert (i, j) (updated_value q s a r s' acts) (ql_table q)\<rparr>"
    using assms(2) by (auto simp: q_update_def Let_def split: option.splits)
  have ok: "interner_ok (ql_interner q)" using assms(1) by (simp add: q_inv_def)
  note f = intern_spec [OF i ok]
  note g = intern_spec [OF j conjunct1 [OF f]]
  have keep: "hm_get (si_map si') x = Some k" if "hm_get (si_map (ql_interner q)) x = Some k" for x k
    using f g that by (metis option.inject option.distinct(1))
  have "hm_get (si_map (ql_interner q)) x = Some k \<or>
      hm_get (si_map (ql_interner q)) x = None \<and> si_next (ql_interner q) \<le> k"
    if "hm_get (si_map si') x = Some k" for x k
  proof (cases "hm_get (si_map si) x")
    case None
    then have "hm_get (si_map (ql_interner q)) x = None" using f by (cases "x = s") auto
    moreover have "si_next si \<le> k" using intern_ids [OF j conjunct1 [OF f] that] None by simp
    ultimately show ?thesis using f by (auto intro: order_trans)
  next
    case (Some k')
    then show ?thesis using intern_ids [OF j conjunct1 [OF f] that] intern_ids [OF i ok Some] by auto
  qed
  moreover have "hm_get (si_map si') s = Some i" using f g by (metis option.inject option.distinct(1))
  ultimately show thesis using f g keep q' by (intro that [of i j]) auto
qed

lemma find_enumerate:
  "find (\<lambda>(_, x). P x) (enumerate 0 xs) = Some (i, a) \<Longrightarrow> i < length xs \<and> a = xs ! i \<and> P a \<and> (\<forall>j < i. \<not> P (xs ! j))"
  by (auto simp: find_Some_iff nth_enumerate_eq)

section \<open>Properties\<close>

text \<open>Q-learning with interned keys implements a table from states and actions to values: an
  update changes the value of its own state and action to the temporal-difference target
  and no other value, and keeps the identifiers unambiguous.\<close>

theorem q_update_refines:
  assumes "q_inv q" and "q_update state action reward next_state next_actions q = Some q'"
  shows "q_inv q' \<and>
    get_value q' = (get_value q)(state := (get_value q state)
      (action := updated_value q state action reward next_state next_actions))"
proof -
  let ?v = "updated_value q state action reward next_state next_actions"
  obtain i j where inv: "interner_ok (ql_interner q')"
    and ij: "hm_get (si_map (ql_interner q')) state = Some i" "hm_get (si_map (ql_interner q')) action = Some j"
      "i < si_next (ql_interner q')" "j < si_next (ql_interner q')"
    and mono: "si_next (ql_interner q) \<le> si_next (ql_interner q')"
    and tab: "ql_table q' = hm_insert (i, j) ?v (ql_table q)"
    and earlier: "\<forall>x k. hm_get (si_map (ql_interner q')) x = Some k \<longrightarrow>
      hm_get (si_map (ql_interner q)) x = Some k \<or>
      hm_get (si_map (ql_interner q)) x = None \<and> si_next (ql_interner q) \<le> k"
    and keep: "\<forall>x k. hm_get (si_map (ql_interner q)) x = Some k \<longrightarrow> hm_get (si_map (ql_interner q')) x = Some k"
    by (rule q_update_obtain [OF assms])
  have fresh: "hm_get (ql_table q) (k, l) = None" if "si_next (ql_interner q) \<le> k \<or> si_next (ql_interner q) \<le> l" for k l
    using assms(1) that unfolding q_inv_def by (metis leD option.exhaust)
  have inj: "x = y" if "hm_get (si_map (ql_interner q')) x = Some k" "hm_get (si_map (ql_interner q')) y = Some k" for x y k
    using inv that by (auto simp: interner_ok_def)
  have "get_value q' x y = (if x = state \<and> y = action then ?v else get_value q x y)" for x y
  proof (cases "hm_get (si_map (ql_interner q')) x"; cases "hm_get (si_map (ql_interner q')) y")
    fix k l assume k: "hm_get (si_map (ql_interner q')) x = Some k" and l: "hm_get (si_map (ql_interner q')) y = Some l"
    have "k = i \<longleftrightarrow> x = state" "l = j \<longleftrightarrow> y = action" using k l ij inj by auto
    with k l earlier [rule_format, OF k] earlier [rule_format, OF l] fresh show ?thesis by (auto simp: get_value_cases tab split: option.splits)
  qed (use ij keep in \<open>fastforce simp: get_value_cases split: option.splits\<close>)+
  moreover have "q_inv q'" using assms(1) inv ij mono tab by (fastforce simp: q_inv_def split: if_splits)
  ultimately show ?thesis by (auto simp: fun_eq_iff)
qed

definition sample_learner :: q_learner where
  "sample_learner = the (q_update ''s'' ''a'' 1 ''t'' [] (q_learner_new (1 / 2) (9 / 10)))"

lemma q_learner_new_inv: "q_inv (q_learner_new rate discount)"
  by (simp add: q_inv_def q_learner_new_def interner_new_def interner_ok_def)

theorem q_update_refines_witness:
  "q_inv sample_learner \<and> get_value sample_learner ''s'' ''a'' = 1 / 2 \<and> get_value sample_learner ''a'' ''s'' = 0"
proof -
  have "q_update ''s'' ''a'' 1 ''t'' [] (q_learner_new (1 / 2) (9 / 10)) = Some sample_learner" by code_simp
  from q_update_refines [OF q_learner_new_inv this] show ?thesis
    by (simp add: updated_value_def get_value_def q_learner_new_def interner_new_def)
qed

text \<open>The confidence and the trend of a capability are what its outcomes say: after fewer than
  two to the 32 outcomes, in any mix of capabilities, the confidence is the exact success
  rate of the capability and the trend compares its last five outcomes with it.\<close>

theorem capability_follows_outcomes:
  assumes "length outcomes < 2 ^ 32"
  shows "let scorer = fold (\<lambda>(c, b). record_outcome c b) outcomes hm_empty;
       bs = map snd (filter (\<lambda>(c', _). c' = c) outcomes)
     in confidence c scorer = (if bs = [] then 1 / 2 else of_nat (length (filter (\<lambda>b. b) bs)) / of_nat (length bs)) \<and>
        trend_of c scorer = expected_trend bs"
  using entry_score_follows [OF assms, of c]
  by (auto simp: Let_def score_of_def confidence_def trend_of_def entry_score_def capability_score_new_def
      split: option.splits)

theorem capability_follows_outcomes_witness:
  "confidence ''c'' (fold (\<lambda>(c, b). record_outcome c b) [(''c'', True), (''d'', False), (''c'', False)] hm_empty) = 1 / 2"
  using capability_follows_outcomes [of "[(''c'', True), (''d'', False), (''c'', False)]" "''c''"]
  by (simp add: Let_def)

text \<open>The success rate of an agent is that of its last 10000 recorded actions, whatever was
  recorded for other agents in between.\<close>

theorem success_rate_recent:
  "success_rate a (fold (\<lambda>(a, r). profile_record (ar_timestamp r) a (ar_action_type r) (ar_duration r) (ar_success r))
     (xs :: (string \<times> action_record) list) hm_empty) =
   (let rs = map snd (filter (\<lambda>(a', _). a' = a) xs); kept = drop (length rs - 10000) rs
    in if rs = [] then None
       else Some (of_nat (length (filter ar_success kept)) / of_nat (min (length rs) 10000)))"
proof -
  define rs where "rs = map snd (filter (\<lambda>(a', _). a' = a) xs)"
  let ?profile = "fold (\<lambda>(a, r). profile_record (ar_timestamp r) a (ar_action_type r) (ar_duration r) (ar_success r)) xs hm_empty"
  have "hm_get ?profile a = (if rs = [] then None else Some (drop (length rs - 10000) rs))"
    unfolding profile_follows rs_def by (simp only: Let_def)
  moreover have len: "length (drop (length rs - 10000) rs) = min (length rs) 10000" by (simp add: min_def)
  moreover have "drop (length rs - 10000) rs \<noteq> []" if "rs \<noteq> []"
    using that len by (metis length_0_conv min_0R min_def zero_neq_numeral)
  ultimately show ?thesis
    unfolding success_rate_def Let_def rs_def [symmetric] by (cases "rs = []") simp_all
qed

text \<open>The bandit explores before it exploits: with at least one arm \<open>select\<close> always answers,
  with the first arm that was never pulled if there is one, and otherwise, after the first
  round, with an arm of greatest upper confidence bound.\<close>

theorem ucb_select_explores:
  assumes "arms \<noteq> []" and "total_rounds \<noteq> 0"
  shows "\<exists>i < length arms. ucb_select ln_f64 sqrt_f64 total_rounds arms = Some i \<and>
    (if \<exists>a \<in> set arms. arm_count a = 0
     then arm_count (arms ! i) = 0 \<and> (\<forall>j < i. arm_count (arms ! j) \<noteq> 0)
     else \<forall>a \<in> set arms. ucb_value sqrt_f64 (ln_f64 (as_f64 total_rounds)) a \<le>
            ucb_value sqrt_f64 (ln_f64 (as_f64 total_rounds)) (arms ! i))"
proof (cases "find (\<lambda>(_, a). arm_count a = 0) (enumerate 0 arms)")
  case None
  let ?u = "ucb_value sqrt_f64 (ln_f64 (as_f64 total_rounds))"
  let ?ps = "map (\<lambda>(i, a). (i, ?u a)) (enumerate 0 arms)"
  have no: "\<not> (\<exists>a \<in> set arms. arm_count a = 0)"
    using None set_map [of snd "enumerate 0 arms"] by (fastforce simp: find_None_iff)
  obtain i v where m: "max_by_key snd ?ps = Some (i, v)"
    using assms(1) by (cases "max_by_key snd ?ps") (auto simp: enumerate_eq_zip)
  from max_by_key_Some [OF m] have "i < length arms" "v = ?u (arms ! i)" "\<forall>p \<in> set ?ps. snd p \<le> v"
    by (auto simp: in_set_enumerate_eq)
  moreover have "?u a \<le> v" if "a \<in> set arms" for a
  proof -
    from that obtain j where "(j, a) \<in> set (enumerate 0 arms)" using set_map [of snd "enumerate 0 arms"] by force
    then show ?thesis using \<open>\<forall>p \<in> set ?ps. snd p \<le> v\<close> by force
  qed
  ultimately show ?thesis using None m no assms by (auto simp: ucb_select_def Let_def)
next
  case (Some p)
  obtain i a where p: "p = (i, a)" by (cases p)
  from find_enumerate [OF Some [unfolded p]] Some p assms(1) show ?thesis by (auto simp: ucb_select_def)
qed

theorem ucb_select_explores_witness:
  "\<exists>i. ucb_select (\<lambda>x. x) (\<lambda>x. x) 1 (ucb_update 0 1 (ucb1_new [''a'', ''b''])) = Some i"
  using ucb_select_explores [of "ucb_update 0 1 (ucb1_new [''a'', ''b''])" 1 "\<lambda>x. x" "\<lambda>x. x"]
  by (auto simp: ucb_update_def ucb1_new_def)

end
