(* ===== verification/Replay.thy ===== *)
theory Replay
  imports Prelude
begin

text \<open>
  The prioritised replay buffer, \<open>learning/replay.rs\<close>: a buffer of fixed capacity that
  evicts the experience of least priority, and sampling without replacement, weighted by
  priority. References into the buffer are indices; the random draws are an argument.
\<close>

record experience =
  ex_state :: string
  ex_action :: string
  ex_reward :: rat
  ex_next_state :: string
  ex_priority :: rat

definition experience_new :: "string \<Rightarrow> string \<Rightarrow> rat \<Rightarrow> string \<Rightarrow> rat \<Rightarrow> experience" where
  "experience_new state action reward next_state priority =
     \<lparr> ex_state = state, ex_action = action, ex_reward = reward, ex_next_state = next_state,
       ex_priority = priority \<rparr>"

record replay_buffer =
  rb_experiences :: "experience list"
  rb_max_size :: nat

definition replay_buffer_new :: "nat \<Rightarrow> replay_buffer" where
  "replay_buffer_new max_size = \<lparr> rb_experiences = [], rb_max_size = max_size \<rparr>"

text \<open>\<open>Vec::swap_remove\<close> puts the last element in the place of the removed one.\<close>

definition swap_remove :: "nat \<Rightarrow> 'a list \<Rightarrow> 'a list" where
  "swap_remove i xs = butlast (xs[i := last xs])"

definition replay_push :: "experience \<Rightarrow> replay_buffer \<Rightarrow> replay_buffer" where
  "replay_push e rb =
     (if rb_max_size rb \<le> length (rb_experiences rb) then
        (case min_by_key (\<lambda>(_, x). ex_priority x) (enumerate 0 (rb_experiences rb)) of
           None \<Rightarrow> rb
         | Some (min_idx, min_exp) \<Rightarrow>
             if ex_priority min_exp < ex_priority e
             then rb\<lparr>rb_experiences := swap_remove min_idx (rb_experiences rb) @ [e]\<rparr>
             else rb)
      else rb\<lparr>rb_experiences := rb_experiences rb @ [e]\<rparr>)"

definition replay_len :: "replay_buffer \<Rightarrow> nat" where
  "replay_len rb = length (rb_experiences rb)"

definition replay_is_empty :: "replay_buffer \<Rightarrow> bool" where
  "replay_is_empty rb \<longleftrightarrow> rb_experiences rb = []"

definition update_priority :: "nat \<Rightarrow> rat \<Rightarrow> replay_buffer \<Rightarrow> replay_buffer" where
  "update_priority i p rb =
     (if i < length (rb_experiences rb)
      then rb\<lparr>rb_experiences := (rb_experiences rb)[i := (rb_experiences rb ! i)\<lparr>ex_priority := p\<rparr>]\<rparr>
      else rb)"

section \<open>Sampling\<close>

definition remaining_priority :: "experience list \<Rightarrow> bool list \<Rightarrow> rat" where
  "remaining_priority es selected =
     sum_list (map (\<lambda>(_, e). \<bar>ex_priority e\<bar>) (filter (\<lambda>(i, _). \<not> selected ! i) (enumerate 0 es)))"

text \<open>The walk that subtracts priorities from the drawn value until it is used up.\<close>

fun choose_index :: "(nat \<times> experience) list \<Rightarrow> bool list \<Rightarrow> rat \<Rightarrow> nat \<Rightarrow> nat" where
  "choose_index [] selected r chosen = chosen"
| "choose_index ((i, e) # ies) selected r chosen =
     (if selected ! i then choose_index ies selected r chosen
      else
        (let r = r - \<bar>ex_priority e\<bar>
         in if r \<le> 0 then i else choose_index ies selected r i))"

text \<open>The fall-back: unselected experiences in order.\<close>

fun fill_in_order :: "nat \<Rightarrow> nat list \<Rightarrow> bool list \<Rightarrow> nat list \<Rightarrow> nat list" where
  "fill_in_order n [] selected result = result"
| "fill_in_order n (i # idxs) selected result =
     (if n \<le> length result then result
      else if \<not> selected ! i then fill_in_order n idxs (selected[i := True]) (result @ [i])
      else fill_in_order n idxs selected result)"

fun sample_loop :: "(nat \<Rightarrow> rat) \<Rightarrow> experience list \<Rightarrow> nat \<Rightarrow> nat \<Rightarrow> bool list \<Rightarrow> nat list \<Rightarrow> nat list" where
  "sample_loop draw es n 0 selected result = result"
| "sample_loop draw es n (Suc k) selected result =
     (let remaining = remaining_priority es selected
      in if remaining \<le> 0 then fill_in_order n [0..<length es] selected result
         else
           (let chosen = choose_index (enumerate 0 es) selected (draw k * remaining) 0
            in sample_loop draw es n k (selected[chosen := True]) (result @ [chosen])))"

definition sample :: "(nat \<Rightarrow> rat) \<Rightarrow> nat \<Rightarrow> replay_buffer \<Rightarrow> nat list" where
  "sample draw batch_size rb =
     (let es = rb_experiences rb
      in if es = [] then []
         else
           (let n = min batch_size (length es)
            in sample_loop draw es n n (replicate (length es) False) []))"

section \<open>The buffer keeps the best\<close>

lemma swap_remove_mset:
  assumes "i < length xs"
  shows "mset (swap_remove i xs) = mset xs - {#xs ! i#}"
proof -
  have ne: "xs[i := last xs] \<noteq> []" using assms by auto
  have "last (xs[i := last xs]) = last xs" using assms by (subst last_list_update) auto
  with ne have "mset (swap_remove i xs) + {#last xs#} = mset (xs[i := last xs])"
    unfolding swap_remove_def by (metis append_butlast_last_id mset_append mset_single_iff_right mset.simps)
  also have "\<dots> = add_mset (last xs) (mset xs - {#xs ! i#})" using assms by (rule mset_update)
  finally show ?thesis by simp
qed

lemma min_of_enumerate:
  assumes "min_by_key (\<lambda>(_, x). ex_priority x) (enumerate 0 es) = Some (i, m)"
  shows "i < length es \<and> m = es ! i \<and> (\<forall>x \<in> set es. ex_priority m \<le> ex_priority x)"
proof -
  from min_by_key_Some [OF assms]
  have "(i, m) \<in> set (enumerate 0 es)" and min: "\<forall>(j, x) \<in> set (enumerate 0 es). ex_priority m \<le> ex_priority x" by auto
  then have "i < length es" "m = es ! i" by (auto simp: in_set_enumerate_eq)
  moreover have "ex_priority m \<le> ex_priority x" if "x \<in> set es" for x
  proof -
    from that obtain j where "j < length es" "x = es ! j" by (auto simp: in_set_conv_nth)
    then have "(j, x) \<in> set (enumerate 0 es)" by (simp add: in_set_enumerate_eq)
    with min show ?thesis by blast
  qed
  ultimately show ?thesis by blast
qed

text \<open>The kept experiences are the best of those that were pushed.\<close>

definition keeps_best :: "experience list \<Rightarrow> replay_buffer \<Rightarrow> bool" where
  "keeps_best pushed rb \<longleftrightarrow>
     mset (rb_experiences rb) \<subseteq># mset pushed \<and>
     length (rb_experiences rb) = min (rb_max_size rb) (length pushed) \<and>
     (\<forall>x \<in># mset pushed - mset (rb_experiences rb). \<forall>y \<in> set (rb_experiences rb). ex_priority x \<le> ex_priority y)"

lemma replay_push_cases:
  obtains "length (rb_experiences rb) < rb_max_size rb"
    and "replay_push e rb = rb\<lparr>rb_experiences := rb_experiences rb @ [e]\<rparr>"
  | "rb_max_size rb \<le> length (rb_experiences rb)" and "replay_push e rb = rb"
    and "\<forall>x \<in> set (rb_experiences rb). ex_priority e \<le> ex_priority x"
  | m where "rb_max_size rb \<le> length (rb_experiences rb)" and "m \<in> set (rb_experiences rb)"
    and "\<forall>x \<in> set (rb_experiences rb). ex_priority m \<le> ex_priority x" and "ex_priority m < ex_priority e"
    and "rb_max_size (replay_push e rb) = rb_max_size rb"
    and "mset (rb_experiences (replay_push e rb)) = add_mset e (mset (rb_experiences rb) - {#m#})"
proof (cases "rb_max_size rb \<le> length (rb_experiences rb)")
  case True
  let ?es = "rb_experiences rb"
  show thesis
  proof (cases "min_by_key (\<lambda>(_, x). ex_priority x) (enumerate 0 ?es)")
    case None
    then have "?es = []" by (simp add: enumerate_eq_zip)
    with True None that(2) show thesis by (simp add: replay_push_def)
  next
    case (Some im)
    obtain i m where im: "im = (i, m)" by (cases im)
    note mn = min_of_enumerate [OF Some [unfolded im]]
    show thesis
    proof (cases "ex_priority m < ex_priority e")
      case lt: True
      then show thesis using True Some im mn swap_remove_mset [of i ?es]
        by (intro that(3) [of m]) (auto simp: replay_push_def)
    next
      case False
      with mn have "\<forall>x \<in> set ?es. ex_priority e \<le> ex_priority x" by force
      with False True Some im that(2) show thesis by (simp add: replay_push_def)
    qed
  qed
qed (use that(1) in \<open>simp add: replay_push_def\<close>)

lemma keeps_best_push:
  assumes "keeps_best pushed rb"
  shows "keeps_best (pushed @ [e]) (replay_push e rb)"
proof (cases rule: replay_push_cases [of rb e])
  case 1
  then have "length (rb_experiences rb) = length pushed" using assms by (auto simp: keeps_best_def)
  with assms have "mset (rb_experiences rb) = mset pushed"
    by (metis keeps_best_def nat_less_le size_mset mset_subset_size subset_mset.le_neq_trans)
  with 1 assms show ?thesis by (auto simp: keeps_best_def)
next
  case 2
  obtain L where "mset pushed = mset (rb_experiences rb) + L"
    using assms by (metis keeps_best_def subset_mset.le_iff_add)
  with 2 assms show ?thesis by (auto simp: keeps_best_def)
next
  case (3 m)
  obtain L where L: "mset pushed = mset (rb_experiences rb) + L"
    using assms by (metis keeps_best_def subset_mset.le_iff_add)
  obtain K where K: "mset (rb_experiences rb) = add_mset m K"
    using 3(2) by (metis multi_member_split set_mset_mset)
  have "size (mset (rb_experiences (replay_push e rb))) = size (mset (rb_experiences rb))" by (simp only: 3(6) K) simp
  then have len: "length (rb_experiences (replay_push e rb)) = length (rb_experiences rb)" by simp
  have "set (rb_experiences rb) = insert m (set_mset K)" "set (rb_experiences (replay_push e rb)) = insert e (set_mset K)"
    unfolding set_mset_mset [symmetric] 3(6) K by simp_all
  with 3 K L assms len show ?thesis by (auto simp: keeps_best_def)
qed

section \<open>Sampling selects different experiences\<close>

text \<open>What the loop keeps: the flags mark exactly the chosen indices, which are different.\<close>

definition sampling :: "nat \<Rightarrow> bool list \<Rightarrow> nat list \<Rightarrow> bool" where
  "sampling len selected result \<longleftrightarrow>
     length selected = len \<and> distinct result \<and> (\<forall>i < len. selected ! i \<longleftrightarrow> i \<in> set result) \<and> set result \<subseteq> {..<len}"

lemma sampling_select:
  "sampling len selected result \<Longrightarrow> i < len \<Longrightarrow> \<not> selected ! i \<Longrightarrow> sampling len (selected[i := True]) (result @ [i])"
  by (auto simp: sampling_def nth_list_update)

lemma choose_unselected:
  assumes "\<exists>(i, e) \<in> set ies. \<not> selected ! i"
  shows "\<exists>e. (choose_index ies selected r c, e) \<in> set ies \<and> \<not> selected ! choose_index ies selected r c"
  using assms
proof (induction ies arbitrary: r c)
  case (Cons ie ies)
  obtain i e where ie: "ie = (i, e)" by (cases ie)
  have stop: "choose_index ies selected r' c' = c'" if "\<not> (\<exists>(i, e) \<in> set ies. \<not> selected ! i)" for r' c'
    using that by (induction ies) auto
  show ?case
  proof (cases "\<exists>(i, e) \<in> set ies. \<not> selected ! i")
    case True
    with Cons.IH ie show ?thesis by (auto simp: Let_def)
  next
    case False
    with Cons.prems ie stop [OF False] show ?thesis by (auto simp: Let_def)
  qed
qed simp

lemma fill_in_order_sampling:
  assumes "sampling len selected result" and "set idxs \<subseteq> {..<len}" and "distinct idxs"
  shows "\<exists>selected'. sampling len selected' (fill_in_order n idxs selected result)"
    and "length (fill_in_order n idxs selected result) =
      max (length result) (min n (length result + length (filter (\<lambda>i. \<not> selected ! i) idxs)))"
  using assms
proof (induction idxs arbitrary: selected result)
  case (Cons i idxs)
  {
    case 1
    then show ?case using Cons.IH(1) sampling_select [of len selected result i] by auto
  next
    case 2
    have "filter (\<lambda>j. \<not> selected[i := True] ! j) idxs = filter (\<lambda>j. \<not> selected ! j) idxs"
      using 2(3) by (intro filter_cong) (metis distinct.simps(2) nth_list_update_neq)+
    with 2 show ?case using Cons.IH(2) [of "selected[i := True]" "result @ [i]"] Cons.IH(2) [of selected result]
        sampling_select [of len selected result i] by auto
  }
qed auto

lemma unselected_count:
  assumes "sampling len selected result"
  shows "length (filter (\<lambda>i. \<not> selected ! i) [0..<len]) = len - length result"
proof -
  have "set (filter (\<lambda>i. \<not> selected ! i) [0..<len]) = {..<len} - set result"
    using assms by (auto simp: sampling_def)
  then have "length (filter (\<lambda>i. \<not> selected ! i) [0..<len]) = card ({..<len} - set result)"
    by (metis distinct_card distinct_filter distinct_upt)
  also have "\<dots> = len - length result"
    using assms by (simp add: sampling_def card_Diff_subset distinct_card)
  finally show ?thesis .
qed

lemma remaining_pos:
  "0 < remaining_priority es selected \<Longrightarrow> \<exists>(i, e) \<in> set (enumerate 0 es). \<not> selected ! i"
  by (rule ccontr) (auto simp: remaining_priority_def filter_empty_conv [THEN iffD2])

lemma sample_loop_sampling:
  assumes "sampling (length es) selected result" and "length result + k = n" and "n \<le> length es"
  shows "\<exists>selected'. sampling (length es) selected' (sample_loop draw es n k selected result) \<and>
    length (sample_loop draw es n k selected result) = n"
  using assms
proof (induction k arbitrary: selected result)
  case (Suc k)
  show ?case
  proof (cases "remaining_priority es selected \<le> 0")
    case True
    have "length (filter (\<lambda>i. \<not> selected ! i) [0..<length es]) = length es - length result"
      by (rule unselected_count [OF Suc.prems(1)])
    with True Suc.prems fill_in_order_sampling [OF Suc.prems(1), of "[0..<length es]" n] show ?thesis
      by (auto simp: lessThan_atLeast0)
  next
    case False
    let ?c = "choose_index (enumerate 0 es) selected (draw k * remaining_priority es selected) 0"
    obtain e where "(?c, e) \<in> set (enumerate 0 es)" "\<not> selected ! ?c"
      using choose_unselected [OF remaining_pos] False by (metis not_le)
    then have "sampling (length es) (selected[?c := True]) (result @ [?c])"
      by (intro sampling_select [OF Suc.prems(1)]) (simp_all add: in_set_enumerate_eq)
    from Suc.IH [OF this] Suc.prems False show ?thesis by (simp add: Let_def)
  qed
qed auto

section \<open>Properties\<close>

text \<open>After any sequence of pushes the replay buffer holds the best experiences: as many as
  fit, all of them pushed, and none of those left out has a greater priority than one kept.\<close>

theorem replay_keeps_best:
  "mset (rb_experiences (fold replay_push es (replay_buffer_new n))) \<subseteq># mset es \<and>
   replay_len (fold replay_push es (replay_buffer_new n)) = min n (length es) \<and>
   (\<forall>x y. x \<in># mset es - mset (rb_experiences (fold replay_push es (replay_buffer_new n))) \<longrightarrow>
      y \<in> set (rb_experiences (fold replay_push es (replay_buffer_new n))) \<longrightarrow> ex_priority x \<le> ex_priority y)"
proof -
  have size: "rb_max_size (fold replay_push xs rb) = rb_max_size rb" for xs rb
    by (induction xs arbitrary: rb) (auto simp: replay_push_def split: option.splits)
  have "keeps_best es (fold replay_push es (replay_buffer_new n))"
  proof (induction es rule: rev_induct)
    case Nil
    then show ?case by (simp add: keeps_best_def replay_buffer_new_def)
  qed (simp add: keeps_best_push)
  then show ?thesis by (auto simp: keeps_best_def size replay_len_def replay_buffer_new_def)
qed

definition sample_experience :: "rat \<Rightarrow> experience" where
  "sample_experience p = experience_new ''s'' ''a'' 0 ''t'' p"

theorem replay_keeps_best_witness:
  "replay_len (fold replay_push (map sample_experience [1, 3, 2]) (replay_buffer_new 2)) = 2 \<and>
   ex_priority (sample_experience 1) \<le> ex_priority (sample_experience 3)"
proof -
  have "rb_experiences (fold replay_push (map sample_experience [1, 3, 2]) (replay_buffer_new 2)) =
      [sample_experience 3, sample_experience 2]" by code_simp
  then show ?thesis using replay_keeps_best [of "map sample_experience [1, 3, 2]" 2] by auto
qed

text \<open>Sampling returns exactly as many experiences as asked for, or the whole buffer, all of
  them different, whatever the draws and the priorities are.\<close>

theorem sample_without_replacement:
  "distinct (sample draw batch_size rb) \<and> length (sample draw batch_size rb) = min batch_size (replay_len rb) \<and>
   set (sample draw batch_size rb) \<subseteq> {..<replay_len rb}"
proof -
  have "sampling (length (rb_experiences rb)) (replicate (length (rb_experiences rb)) False) []"
    by (simp add: sampling_def)
  from sample_loop_sampling [OF this, of "min batch_size (length (rb_experiences rb))" _ draw] show ?thesis
    by (auto simp: sample_def Let_def sampling_def replay_len_def)
qed

end
