(* ===== verification/Output_Validation.thy ===== *)
theory Output_Validation
  imports Core_Types
begin

text \<open>
  Validation of structured output, \<open>orchestrator/output_validation.rs\<close>. Parsing and
  printing JSON is the serde_json crate's: \<open>parse\<close> (\<open>from_str\<close>, with the error's text on
  the left) and \<open>show_json\<close> (\<open>Display\<close>) are arguments. Strings are lists of UTF-8 bytes.
\<close>

definition MAX_VALIDATION_RETRIES :: nat where
  "MAX_VALIDATION_RETRIES = 2"

datatype validation_result = Valid | Invalid string

fun json_type_name :: "json \<Rightarrow> string" where
  "json_type_name JNull = ''null''"
| "json_type_name (JBool _) = ''boolean''"
| "json_type_name (JNumber _) = ''number''"
| "json_type_name (JString _) = ''string''"
| "json_type_name (JArray _) = ''array''"
| "json_type_name (JObject _) = ''object''"

text \<open>\<open>[..].join(", ")\<close>.\<close>

fun join_str :: "string \<Rightarrow> string list \<Rightarrow> string" where
  "join_str sep [] = []"
| "join_str sep [s] = s"
| "join_str sep (s # t # ss) = s @ sep @ join_str sep (t # ss)"

text \<open>\<open>schema.get(k).and_then(f)\<close>.\<close>

definition json_field :: "string \<Rightarrow> (json \<Rightarrow> 'a option) \<Rightarrow> json \<Rightarrow> 'a option" where
  "json_field k f v = Option.bind (json_get k v) f"

definition validate_output :: "(string \<Rightarrow> string + json) \<Rightarrow> string \<Rightarrow> json \<Rightarrow> validation_result" where
  "validate_output parse output schema =
     (case parse output of
        Inl e \<Rightarrow> Invalid (''Response is not valid JSON: '' @ e)
      | Inr parsed \<Rightarrow>
          (let type_error =
             (case json_field ''type'' as_str schema of
                None \<Rightarrow> None
              | Some expected_type \<Rightarrow>
                  if json_type_name parsed \<noteq> expected_type then
                    Some (''Expected top-level type '' @ [CHR 0x22] @ expected_type @ [CHR 0x22] @
                      '', got '' @ [CHR 0x22] @ json_type_name parsed @ [CHR 0x22])
                  else None)
           in case type_error of
                Some e \<Rightarrow> Invalid e
              | None \<Rightarrow>
                  (case json_field ''required'' as_array schema of
                     None \<Rightarrow> Valid
                   | Some required \<Rightarrow>
                       (case as_object parsed of
                          Some obj \<Rightarrow>
                            (let missing = filter (\<lambda>key. map_of obj key = None)
                                             (List.map_filter as_str required)
                             in if missing \<noteq> []
                                then Invalid (''Missing required fields: '' @ join_str '', '' missing)
                                else Valid)
                        | None \<Rightarrow>
                            if required \<noteq> []
                            then Invalid ''Schema requires fields but response is not a JSON object''
                            else Valid))))"

definition build_retry_prompt :: "(json \<Rightarrow> string) \<Rightarrow> string \<Rightarrow> string \<Rightarrow> string \<Rightarrow> json \<Rightarrow> string" where
  "build_retry_prompt show_json original_prompt failed_output validation_error schema =
     original_prompt @ [CHR 0x0A, CHR 0x0A] @
     ''Your previous response failed validation.'' @ [CHR 0x0A] @
     ''Error: '' @ validation_error @ [CHR 0x0A] @
     ''Your previous response was:'' @ [CHR 0x0A] @ ''```'' @ [CHR 0x0A] @ failed_output @ [CHR 0x0A] @
     ''```'' @ [CHR 0x0A, CHR 0x0A] @
     ''Please respond with ONLY valid JSON matching this schema:'' @ [CHR 0x0A] @ ''```json'' @ [CHR 0x0A] @
     show_json schema @ [CHR 0x0A] @ ''```''"

text \<open>\<open>str::find\<close> and \<open>str::trim\<close>; the second drops the characters with the Unicode
  property White_Space, given by their UTF-8 encodings.\<close>

fun str_find :: "string \<Rightarrow> string \<Rightarrow> nat option" where
  "str_find [] p = (if p = [] then Some 0 else None)"
| "str_find (c # cs) p = (if starts_with (c # cs) p then Some 0 else map_option Suc (str_find cs p))"

definition WHITE_SPACE :: "string list" where
  "WHITE_SPACE =
     map (\<lambda>n. [char_of n]) [9, 10, 11, 12, 13, 32 :: nat] @
     [[CHR 0xC2, CHR 0x85], [CHR 0xC2, CHR 0xA0], [CHR 0xE1, CHR 0x9A, CHR 0x80]] @
     map (\<lambda>n. [CHR 0xE2, CHR 0x80, char_of n]) [128..<139 :: nat] @
     [[CHR 0xE2, CHR 0x80, CHR 0xA8], [CHR 0xE2, CHR 0x80, CHR 0xA9], [CHR 0xE2, CHR 0x80, CHR 0xAF],
      [CHR 0xE2, CHR 0x81, CHR 0x9F], [CHR 0xE3, CHR 0x80, CHR 0x80]]"

fun drop_prefixes :: "nat \<Rightarrow> string list \<Rightarrow> string \<Rightarrow> string" where
  "drop_prefixes 0 ps s = s"
| "drop_prefixes (Suc n) ps s =
     (case find (starts_with s) ps of
        None \<Rightarrow> s
      | Some p \<Rightarrow> drop_prefixes n ps (drop (length p) s))"

definition str_trim :: "string \<Rightarrow> string" where
  "str_trim s =
     (let t = drop_prefixes (length s) WHITE_SPACE s
      in rev (drop_prefixes (length t) (map rev WHITE_SPACE) (rev t)))"

definition FENCE_END :: string where
  "FENCE_END = CHR 0x0A # ''```''"

definition START_MARKERS :: "string list" where
  "START_MARKERS =
     [''```json'' @ [CHR 0x0A], ''```json'' @ [CHR 0x0D, CHR 0x0A],
      ''```'' @ [CHR 0x0A], ''```'' @ [CHR 0x0D, CHR 0x0A]]"

fun extract_with :: "string list \<Rightarrow> string \<Rightarrow> string option" where
  "extract_with [] text = None"
| "extract_with (marker # ms) text =
     (case str_find text marker of
        None \<Rightarrow> extract_with ms text
      | Some start \<Rightarrow>
          (let remainder = drop (start + length marker) text
           in case (case str_find remainder FENCE_END of
                      Some e \<Rightarrow> Some e
                    | None \<Rightarrow> str_find remainder (CHR 0x0D # FENCE_END)) of
                None \<Rightarrow> None
              | Some e \<Rightarrow>
                  (let block = str_trim (take e remainder)
                   in if block \<noteq> [] then Some block else extract_with ms text)))"

definition extract_json_block :: "string \<Rightarrow> string option" where
  "extract_json_block text = extract_with START_MARKERS text"

definition extract_and_validate ::
    "(string \<Rightarrow> string + json) \<Rightarrow> string \<Rightarrow> json \<Rightarrow> string \<times> validation_result" where
  "extract_and_validate parse output schema =
     (let result = validate_output parse output schema
      in if result = Valid then (output, result)
         else case extract_json_block output of
           Some json_str \<Rightarrow> (json_str, validate_output parse json_str schema)
         | None \<Rightarrow> (output, result))"

section \<open>What a valid output is\<close>

text \<open>The documented meaning: the text is JSON, its type is the one the schema names, and
  an object has every required key.\<close>

definition conforms :: "json \<Rightarrow> json \<Rightarrow> bool" where
  "conforms schema v \<longleftrightarrow>
     (case json_field ''type'' as_str schema of None \<Rightarrow> True | Some ty \<Rightarrow> json_type_name v = ty) \<and>
     (case json_field ''required'' as_array schema of
        None \<Rightarrow> True
      | Some req \<Rightarrow> req = [] \<or>
          (\<exists>obj. v = JObject obj \<and> (\<forall>k. JString k \<in> set req \<longrightarrow> k \<in> fst ` set obj)))"

lemma as_str_iff [simp]: "as_str v = Some s \<longleftrightarrow> v = JString s"
  by (cases v) auto

lemma as_object_iff: "as_object v = Some m \<longleftrightarrow> v = JObject m"
  by (cases v) auto

lemma map_filter_strings: "s \<in> set (List.map_filter as_str vs) \<longleftrightarrow> JString s \<in> set vs"
  by (auto simp: List.map_filter_def image_iff intro!: bexI [of _ "JString s"])

lemma missing_empty_iff:
  "filter (\<lambda>key. map_of obj key = None) (List.map_filter as_str req) = [] \<longleftrightarrow>
     (\<forall>k. JString k \<in> set req \<longrightarrow> k \<in> fst ` set obj)"
  by (auto simp: filter_empty_conv map_filter_strings map_of_eq_None_iff)

lemma validate_output_Valid:
  "validate_output parse output schema = Valid \<longleftrightarrow> (\<exists>v. parse output = Inr v \<and> conforms schema v)"
proof (cases "parse output")
  case (Inr v)
  then show ?thesis
    by (cases "as_object v")
      (auto simp: validate_output_def conforms_def Let_def missing_empty_iff as_object_iff
        split: option.splits if_splits)
qed (simp add: validate_output_def)

section \<open>Fenced blocks\<close>

lemma str_find_Some: "str_find s p = Some i \<Longrightarrow> s = take i s @ p @ drop (i + length p) s"
proof (induction s arbitrary: i)
  case Nil
  then show ?case by (auto split: if_splits)
next
  case (Cons c cs)
  show ?case
  proof (cases "starts_with (c # cs) p")
    case True
    with Cons.prems show ?thesis by (auto simp: starts_with_iff)
  next
    case False
    with Cons.prems obtain k where "i = Suc k" and "str_find cs p = Some k" by auto
    with Cons.IH [of k] show ?thesis by simp
  qed
qed

lemma str_find_None: "str_find s p = None \<longleftrightarrow> \<not> str_contains s p"
  by (induction s) auto

lemma drop_prefixes_suffix: "\<exists>a. s = a @ drop_prefixes n ps s"
proof (induction n arbitrary: s)
  case (Suc n)
  show ?case
  proof (cases "find (starts_with s) ps")
    case (Some p)
    then have "starts_with s p" by (auto dest: find_SomeD)
    then have "s = p @ drop (length p) s" by (auto simp: starts_with_iff)
    with Some Suc.IH [of "drop (length p) s"] show ?thesis by (metis append.assoc drop_prefixes.simps(2) option.simps(5))
  qed simp
qed simp

lemma str_trim_infix: "\<exists>a b. s = a @ str_trim s @ b"
proof -
  obtain a where a: "s = a @ drop_prefixes (length s) WHITE_SPACE s" using drop_prefixes_suffix by blast
  let ?t = "drop_prefixes (length s) WHITE_SPACE s"
  obtain b where "rev ?t = b @ drop_prefixes (length ?t) (map rev WHITE_SPACE) (rev ?t)"
    using drop_prefixes_suffix by blast
  then have "?t = str_trim s @ rev b" unfolding str_trim_def Let_def by (metis rev_append rev_rev_ident)
  with a show ?thesis by metis
qed

text \<open>A block that is found is a non-empty part of the text between an opening fence and a
  closing fence at the start of a line.\<close>

lemma extract_with_sound:
  "extract_with ms text = Some block \<Longrightarrow>
     block \<noteq> [] \<and> (\<exists>m \<in> set ms. \<exists>a b c d. text = a @ m @ b @ block @ c @ FENCE_END @ d)"
proof (induction ms)
  case (Cons m ms)
  show ?case
  proof (cases "str_find text m")
    case None
    with Cons show ?thesis by auto
  next
    case (Some start)
    let ?rem = "drop (start + length m) text"
    obtain e where e: "(case str_find ?rem FENCE_END of Some e \<Rightarrow> Some e
          | None \<Rightarrow> str_find ?rem (CHR 0x0D # FENCE_END)) = Some e"
      using Cons.prems Some by (auto simp: Let_def split: option.splits)
    then have "\<exists>c d. ?rem = take e ?rem @ c @ FENCE_END @ d"
      using str_find_Some [of ?rem FENCE_END] str_find_Some [of ?rem "CHR 0x0D # FENCE_END"]
      by (auto split: option.splits) (metis append.left_neutral append_Cons)+
    then obtain c d where rem: "?rem = take e ?rem @ c @ FENCE_END @ d" by blast
    note whole = str_find_Some [OF Some]
    show ?thesis
    proof (cases "str_trim (take e ?rem) = []")
      case True
      with Cons Some e show ?thesis by (auto simp: Let_def)
    next
      case False
      then have block: "block = str_trim (take e ?rem)" using Cons.prems Some e by (simp add: Let_def)
      obtain a b where "take e ?rem = a @ block @ b" using str_trim_infix block by metis
      note whole [unfolded rem [unfolded this]]
      then have "text = take start text @ m @ a @ block @ (b @ c) @ FENCE_END @ d"
        unfolding append.assoc .
      moreover have "block \<noteq> []" using False block by simp
      ultimately show ?thesis by (meson list.set_intros(1))
    qed
  qed
qed simp

section \<open>Properties\<close>

text \<open>Output validation is exact: the verdict is \<open>Valid\<close> exactly when the response, or else
  the fenced block in it, is JSON that conforms to the schema; the string returned with
  \<open>Valid\<close> is one that conforms; and the string is the response or a non-empty part of it
  between an opening and a closing fence.\<close>

theorem extract_and_validate_correct:
  assumes "extract_and_validate parse output schema = (s, r)"
  shows "(r = Valid \<longleftrightarrow> (\<exists>t v. (t = output \<or> extract_json_block output = Some t) \<and>
        parse t = Inr v \<and> conforms schema v)) \<and>
    (r = Valid \<longleftrightarrow> (\<exists>v. parse s = Inr v \<and> conforms schema v)) \<and>
    (s = output \<or> s \<noteq> [] \<and> (\<exists>m \<in> set START_MARKERS. \<exists>a b c d. output = a @ m @ b @ s @ c @ FENCE_END @ d))"
proof -
  have "s = output \<or> extract_json_block output = Some s"
    using assms by (auto simp: extract_and_validate_def Let_def split: if_splits option.splits)
  moreover have "r = Valid \<longleftrightarrow> validate_output parse s schema = Valid"
    "r = Valid \<longleftrightarrow> (\<exists>t. (t = output \<or> extract_json_block output = Some t) \<and> validate_output parse t schema = Valid)"
    using assms by (auto simp: extract_and_validate_def Let_def split: if_splits option.splits)
  ultimately show ?thesis
    using extract_with_sound [of START_MARKERS "output" s]
    unfolding validate_output_Valid extract_json_block_def by blast
qed

text \<open>A fenced object with the required key is accepted, and the fence is cut off.\<close>

definition sample_parse :: "string \<Rightarrow> string + json" where
  "sample_parse s = (if s = ''{k:1}'' then Inr (JObject [(''k'', JNumber 1)]) else Inl ''syntax'')"

definition sample_schema :: json where
  "sample_schema = JObject [(''type'', JString ''object''), (''required'', JArray [JString ''k''])]"

definition sample_response :: string where
  "sample_response = ''Here: ```json'' @ [CHR 0x0A] @ '' {k:1} '' @ [CHR 0x0A] @ ''```''"

lemma sample_validates:
  "extract_and_validate sample_parse sample_response sample_schema = (''{k:1}'', Valid)"
  by code_simp

theorem extract_and_validate_correct_witness:
  "\<exists>v. sample_parse ''{k:1}'' = Inr v \<and> conforms sample_schema v"
  using extract_and_validate_correct [OF sample_validates] by simp

end
