(* ===== verification/Output_Filter.thy ===== *)
theory Output_Filter
  imports Output_Validation Prompt_Guard
begin

text \<open>
  The filter for sensitive information in model output, \<open>server/output_filter.rs\<close>: the scan
  for leaked prompts, API keys and personal data, and the redaction. Strings are their UTF-8
  bytes; the Unicode lower-case mapping is an argument. The walks of the code over \<open>chars\<close>
  stop at ASCII characters only, so they are walks over bytes here. Logging is left out.
\<close>

record finding =
  fi_category :: string
  fi_pattern :: string
  fi_redacted :: bool

definition API_KEY_PATTERNS :: "(string \<times> string) list" where
  "API_KEY_PATTERNS =
     [(''AKIA'', ''AWS access key''), (''ASIA'', ''AWS temporary access key''),
      (''ghp_'', ''GitHub personal access token''), (''gho_'', ''GitHub OAuth token''),
      (''ghs_'', ''GitHub server token''), (''ghr_'', ''GitHub refresh token''),
      (''github_pat_'', ''GitHub fine-grained PAT''), (''sk-'', ''OpenAI / Stripe secret key''),
      (''Bearer '', ''Bearer token''), (''xox'', ''Slack token'')]"

section \<open>Scanning\<close>

text \<open>\<open>str::get(a..b)\<close>.\<close>

definition str_get :: "string \<Rightarrow> nat \<Rightarrow> nat \<Rightarrow> string option" where
  "str_get s a b =
     (if a \<le> b \<and> is_char_boundary s a \<and> is_char_boundary s b then Some (take (b - a) (drop a s)) else None)"

definition check_system_prompt_leakage :: "(string \<Rightarrow> string) \<Rightarrow> string \<Rightarrow> string \<Rightarrow> finding list" where
  "check_system_prompt_leakage to_lowercase response system_prompt =
     (if system_prompt = [] then []
      else
        (let threshold = min 50 (length system_prompt)
         in if threshold = 0 then []
            else
              (let response_lower = to_lowercase response;
                   prompt_lower = to_lowercase system_prompt
               in if list_ex (\<lambda>w. case str_get prompt_lower w (w + threshold) of
                                    None \<Rightarrow> False
                                  | Some window \<Rightarrow> str_contains response_lower window)
                       [0..<length prompt_lower - threshold]
                  then [\<lparr> fi_category = ''system_prompt'',
                          fi_pattern = ''system prompt text detected in response'', fi_redacted = False \<rparr>]
                  else [])))"

definition check_api_keys :: "string \<Rightarrow> finding list" where
  "check_api_keys response =
     map (\<lambda>(_, description). \<lparr> fi_category = ''api_key'', fi_pattern = description, fi_redacted = False \<rparr>)
       (filter (\<lambda>(p, _). str_contains response p) API_KEY_PATTERNS)"

definition is_digit :: "char \<Rightarrow> bool" where
  "is_digit c \<longleftrightarrow> 48 \<le> (of_char c :: nat) \<and> (of_char c :: nat) \<le> 57"

definition is_alnum :: "char \<Rightarrow> bool" where
  "is_alnum c \<longleftrightarrow> is_digit c \<or> (65 \<le> (of_char c :: nat) \<and> (of_char c :: nat) \<le> 90) \<or>
     (97 \<le> (of_char c :: nat) \<and> (of_char c :: nat) \<le> 122)"

text \<open>A shape is a list of tests, one per byte.\<close>

fun has_shape :: "(char \<Rightarrow> bool) list \<Rightarrow> string \<Rightarrow> bool" where
  "has_shape [] s = True"
| "has_shape (p # ps) [] = False"
| "has_shape (p # ps) (c # cs) = (p c \<and> has_shape ps cs)"

definition SSN_SHAPE :: "(char \<Rightarrow> bool) list" where
  "SSN_SHAPE =
     [is_digit, is_digit, is_digit, (=) CHR ''-'', is_digit, is_digit, (=) CHR ''-'',
      is_digit, is_digit, is_digit, is_digit]"

definition PHONE_SHAPE :: "(char \<Rightarrow> bool) list" where
  "PHONE_SHAPE =
     [is_digit, is_digit, is_digit, (=) CHR ''-'', is_digit, is_digit, is_digit, (=) CHR ''-'',
      is_digit, is_digit, is_digit, is_digit]"

definition PHONE_SHAPE_PARENS :: "(char \<Rightarrow> bool) list" where
  "PHONE_SHAPE_PARENS =
     [(=) CHR ''('', is_digit, is_digit, is_digit, (=) CHR '')'', (=) CHR '' '', is_digit, is_digit, is_digit,
      (=) CHR ''-'', is_digit, is_digit, is_digit, is_digit]"

definition shape_anywhere :: "(char \<Rightarrow> bool) list \<Rightarrow> string \<Rightarrow> bool" where
  "shape_anywhere ps s \<longleftrightarrow>
     length ps \<le> length s \<and> list_ex (\<lambda>i. has_shape ps (drop i s)) [0..<length s - length ps + 1]"

definition contains_ssn_pattern :: "string \<Rightarrow> bool" where
  "contains_ssn_pattern s = shape_anywhere SSN_SHAPE s"

definition contains_phone_pattern :: "string \<Rightarrow> bool" where
  "contains_phone_pattern s \<longleftrightarrow> shape_anywhere PHONE_SHAPE s \<or> shape_anywhere PHONE_SHAPE_PARENS s"

definition contains_email_pattern :: "string \<Rightarrow> bool" where
  "contains_email_pattern s =
     list_ex (\<lambda>i. s ! i = CHR ''@'' \<and> 0 < i \<and> is_alnum (s ! (i - 1)) \<and>
         (let post_at = drop (i + 1) s in CHR ''.'' \<in> set post_at \<and> post_at \<noteq> [] \<and> is_alnum (hd post_at)))
       [0..<length s]"

definition check_pii :: "string \<Rightarrow> finding list" where
  "check_pii response =
     (if contains_email_pattern response
      then [\<lparr> fi_category = ''pii'', fi_pattern = ''email address'', fi_redacted = False \<rparr>] else []) @
     (if contains_phone_pattern response
      then [\<lparr> fi_category = ''pii'', fi_pattern = ''phone number'', fi_redacted = False \<rparr>] else []) @
     (if contains_ssn_pattern response
      then [\<lparr> fi_category = ''pii'', fi_pattern = ''social security number'', fi_redacted = False \<rparr>] else [])"

definition scan :: "(string \<Rightarrow> string) \<Rightarrow> string \<Rightarrow> string \<Rightarrow> finding list" where
  "scan to_lowercase response system_prompt =
     check_system_prompt_leakage to_lowercase response system_prompt @ check_api_keys response @ check_pii response"

section \<open>Redaction\<close>

definition REDACTED :: string where
  "REDACTED = ''[REDACTED]''"

text \<open>The position of the first white-space character.\<close>

fun find_whitespace :: "string \<Rightarrow> nat option" where
  "find_whitespace [] = None"
| "find_whitespace (c # cs) =
     (if list_ex (starts_with (c # cs)) WHITE_SPACE then Some 0 else map_option Suc (find_whitespace cs))"

definition token_end :: "string \<Rightarrow> string \<Rightarrow> nat \<Rightarrow> nat" where
  "token_end prefix s pos =
     (let end_pos = min (pos + length prefix + 20) (length s);
          tok = (case find_whitespace (drop pos s) of None \<Rightarrow> end_pos | Some ws \<Rightarrow> pos + ws)
      in max tok (pos + length prefix))"

text \<open>The loop for one prefix. The outer \<open>None\<close> is a loop without end, the inner one the panic
  of replacing a range that ends inside a character.\<close>

partial_function (option) redact_prefix :: "string \<Rightarrow> string \<Rightarrow> string option option" where
  "redact_prefix prefix s =
     (case str_find s prefix of
        None \<Rightarrow> Some (Some s)
      | Some pos \<Rightarrow>
          if is_char_boundary s (token_end prefix s pos)
          then redact_prefix prefix (take pos s @ REDACTED @ drop (token_end prefix s pos) s)
          else Some None)"

declare redact_prefix.simps [code]

fun redact_keys :: "string list \<Rightarrow> string \<Rightarrow> string option option" where
  "redact_keys [] s = Some (Some s)"
| "redact_keys (p # ps) s =
     (case redact_prefix p s of
        None \<Rightarrow> None
      | Some None \<Rightarrow> Some None
      | Some (Some s') \<Rightarrow> redact_keys ps s')"

text \<open>\<open>result.push(byte as char)\<close>: a byte from 128 on becomes a character of two bytes.\<close>

definition push_byte :: "char \<Rightarrow> string" where
  "push_byte c =
     (let n = (of_char c :: nat)
      in if n < 128 then [c] else [char_of (192 + n div 64), char_of (128 + n mod 64)])"

function redact_ssn_loop :: "string \<Rightarrow> string" where
  "redact_ssn_loop s =
     (if s = [] then []
      else if has_shape SSN_SHAPE s then REDACTED @ redact_ssn_loop (drop 11 s)
      else push_byte (hd s) @ redact_ssn_loop (tl s))"
  by pat_completeness auto

termination redact_ssn_loop by (relation "measure length") auto

declare redact_ssn_loop.simps [simp del]

definition redact_ssn_patterns :: "string \<Rightarrow> string" where
  "redact_ssn_patterns s = (if length s < 11 then s else redact_ssn_loop s)"

definition local_char :: "char \<Rightarrow> bool" where
  "local_char c \<longleftrightarrow> is_alnum c \<or> c \<in> {CHR ''.'', CHR ''_'', CHR ''-'', CHR ''+''}"

definition domain_char :: "char \<Rightarrow> bool" where
  "domain_char c \<longleftrightarrow> is_alnum c \<or> c = CHR ''.'' \<or> c = CHR ''-''"

text \<open>\<open>String::pop\<close> removes the last character with its continuation bytes.\<close>

definition continuation :: "char \<Rightarrow> bool" where
  "continuation c \<longleftrightarrow> 128 \<le> (of_char c :: nat) \<and> (of_char c :: nat) < 192"

definition pop_char :: "string \<Rightarrow> string" where
  "pop_char s = rev (tl (dropWhile continuation (rev s)))"

function redact_email_loop :: "string \<Rightarrow> nat \<Rightarrow> string \<Rightarrow> string" where
  "redact_email_loop s i result =
     (if length s \<le> i then result
      else
        (let before = length (takeWhile local_char (rev (take i s)));
             domain = takeWhile domain_char (drop (i + 1) s)
         in if s ! i = CHR ''@'' \<and> 0 < i \<and> 0 < before \<and> CHR ''.'' \<in> set domain
            then redact_email_loop s (i + 1 + length domain) ((pop_char ^^ before) result @ REDACTED)
            else redact_email_loop s (i + 1) (result @ [s ! i])))"
  by pat_completeness auto

termination redact_email_loop by (relation "measure (\<lambda>(s, i, _). length s - i)") auto

declare redact_email_loop.simps [simp del]

definition redact_email_patterns :: "string \<Rightarrow> string" where
  "redact_email_patterns s = redact_email_loop s 0 []"

definition redact :: "string \<Rightarrow> string option option" where
  "redact response =
     map_option (map_option (\<lambda>s. redact_email_patterns (redact_ssn_patterns s)))
       (redact_keys (map fst API_KEY_PATTERNS) response)"

section \<open>Occurrences do not cross a separator\<close>

lemma contains_separator:
  assumes "c \<notin> set q" and "q \<noteq> []"
  shows "str_contains (u @ c # w) q \<longleftrightarrow> str_contains u q \<or> str_contains w q"
proof
  assume "str_contains (u @ c # w) q"
  then obtain a b where ab: "u @ c # w = a @ q @ b" by (auto simp: str_contains_iff)
  consider "length a + length q \<le> length u" | "length u < length a" | "length a \<le> length u" "length u < length a + length q"
    by linarith
  then show "str_contains u q \<or> str_contains w q"
  proof cases
    case 1
    have "take (length u) (u @ c # w) = take (length u) (a @ q @ b)" using ab by simp
    with 1 have "u = a @ q @ take (length u - length a - length q) b" by simp
    then show ?thesis by (auto simp: str_contains_iff)
  next
    case 2
    with ab have "drop (Suc (length u)) (u @ c # w) = drop (Suc (length u)) (a @ q @ b)" by simp
    with 2 have "w = drop (Suc (length u)) a @ q @ b" by simp
    then show ?thesis by (auto simp: str_contains_iff)
  next
    case 3
    have "(a @ q @ b) ! length u = c" using ab by (metis nth_append_length)
    moreover have "length u - length a < length q" using 3 by linarith
    ultimately have "q ! (length u - length a) = c" using 3 by (simp add: nth_append)
    with \<open>length u - length a < length q\<close> assms(1) show ?thesis by (metis nth_mem)
  qed
next
  assume "str_contains u q \<or> str_contains w q"
  then show "str_contains (u @ c # w) q"
    unfolding str_contains_iff by (metis append.assoc append_Cons)
qed

text \<open>A prefix that the marker neither contains nor touches.\<close>

definition plain :: "string \<Rightarrow> bool" where
  "plain q \<longleftrightarrow> q \<noteq> [] \<and> CHR ''['' \<notin> set q \<and> CHR '']'' \<notin> set q \<and> \<not> str_contains ''REDACTED'' q"

lemma API_KEY_plain: "\<forall>q \<in> set (map fst API_KEY_PATTERNS). plain q"
  by code_simp

lemma contains_redacted: "plain q \<Longrightarrow> str_contains (u @ REDACTED @ w) q \<longleftrightarrow> str_contains u q \<or> str_contains w q"
  using contains_separator [of "CHR ''[''" q u "''REDACTED'' @ CHR '']'' # w"]
    contains_separator [of "CHR '']''" q "''REDACTED''" w]
  by (simp add: plain_def REDACTED_def)

lemma contains_append: "str_contains u q \<Longrightarrow> str_contains (u @ w) q" "str_contains w q \<Longrightarrow> str_contains (u @ w) q"
  unfolding str_contains_iff by (metis append.assoc)+

lemma str_find_first:
  "str_find s p = Some pos \<Longrightarrow> p \<noteq> [] \<Longrightarrow> pos + length p \<le> length s \<and> (\<forall>i < pos. \<not> starts_with (drop i s) p)"
proof (induction s arbitrary: pos)
  case (Cons c cs)
  show ?case
  proof (cases "starts_with (c # cs) p")
    case True
    with Cons.prems show ?thesis by (auto simp: starts_with_iff dest: arg_cong [of _ _ length])
  next
    case False
    with Cons.prems obtain k where k: "pos = Suc k" "str_find cs p = Some k" by auto
    with Cons.IH [OF k(2) Cons.prems(2)] False show ?thesis by (auto simp: less_Suc_eq_0_disj)
  qed
qed (auto split: if_splits)

lemma before_first:
  assumes "str_find s p = Some pos" and "p \<noteq> []"
  shows "\<not> str_contains (take pos s) p"
proof
  assume "str_contains (take pos s) p"
  then obtain a b where ab: "take pos s = a @ p @ b" by (auto simp: str_contains_iff)
  have f: "pos + length p \<le> length s" "\<forall>i < pos. \<not> starts_with (drop i s) p"
    using str_find_first [OF assms] by auto
  from ab f(1) have "length a + length p + length b = pos"
    by (metis add.assoc add_leD1 length_append length_take min_absorb2)
  then have "length a < pos" using assms(2) by (cases p) auto
  moreover have "s = (a @ p @ b) @ drop pos s" using ab by (metis append_take_drop_id)
  then have "starts_with (drop (length a) s) p" unfolding starts_with_iff by (metis append.assoc append_eq_conv_conj)
  ultimately show False using f(2) by blast
qed

section \<open>The redaction of keys ends and removes them\<close>

lemma str_find_nth:
  assumes "str_find s p = Some pos" and "k < length p"
  shows "s ! (pos + k) = p ! k"
proof -
  have s: "s = take pos s @ p @ drop (pos + length p) s" by (rule str_find_Some [OF assms(1)])
  have "pos + length p \<le> length s" using str_find_first [OF assms(1)] assms(2) by (cases p) auto
  then have "length (take pos s) = pos" by simp
  with s assms(2) show ?thesis by (metis nth_append_length_plus nth_append)
qed

text \<open>When the part \<open>u\<close> has no occurrence and is empty or ends with a bracket, the first
  occurrence lies in the rest.\<close>

lemma find_in_rest:
  assumes "plain p" and "\<not> str_contains u p" and "u = [] \<or> last u = CHR '']''"
    and "str_find (u @ w) p = Some pos"
  shows "length u \<le> pos"
proof (rule ccontr)
  assume lt: "\<not> length u \<le> pos"
  have first: "pos + length p \<le> length (u @ w)" using str_find_first [OF assms(4)] assms(1) by (auto simp: plain_def)
  show False
  proof (cases "pos + length p \<le> length u")
    case True
    have "p = take (length p) (drop pos u)"
    proof (rule nth_equalityI)
      fix k assume "k < length p"
      then show "p ! k = take (length p) (drop pos u) ! k"
        using str_find_nth [OF assms(4), of k] True by (simp add: nth_append)
    qed (use True in simp)
    then have "u = take pos u @ p @ drop (length p) (drop pos u)" by (metis append_take_drop_id)
    then show False using assms(2) by (auto simp: str_contains_iff)
  next
    case False
    define k where "k = length u - 1 - pos"
    have "k < length p" "pos + k = length u - 1" using lt False by (auto simp: k_def)
    with str_find_nth [OF assms(4)] lt have "p ! k = (u @ w) ! (length u - 1)" by metis
    also have "\<dots> = last u" using lt by (cases "u = []") (simp_all add: nth_append last_conv_nth)
    finally have "CHR '']'' \<in> set p" using lt assms(3) \<open>k < length p\<close> by (metis nth_mem list.size(3) zero_le)
    with assms(1) show False by (simp add: plain_def)
  qed
qed

lemma redact_prefix_rest:
  assumes "plain p" and "\<not> str_contains u p" and "u = [] \<or> last u = CHR '']''"
  shows "\<exists>out. redact_prefix p (u @ w) = Some out \<and>
    (\<forall>s'. out = Some s' \<longrightarrow> \<not> str_contains s' p \<and> (\<forall>q. plain q \<longrightarrow> str_contains s' q \<longrightarrow> str_contains (u @ w) q))"
  using assms(2,3)
proof (induction "length w" arbitrary: u w rule: less_induct)
  case less
  have ne: "p \<noteq> []" using assms(1) by (simp add: plain_def)
  show ?case
  proof (cases "str_find (u @ w) p")
    case None
    then have "redact_prefix p (u @ w) = Some (Some (u @ w))" by (subst redact_prefix.simps) simp
    with None show ?thesis by (auto simp: str_find_None)
  next
    case (Some pos)
    let ?e = "token_end p (u @ w) pos"
    have pos: "length u \<le> pos" by (rule find_in_rest [OF assms(1) less.prems Some])
    have e: "pos + length p \<le> ?e" by (simp add: token_end_def Let_def)
    let ?u = "take pos (u @ w) @ REDACTED" and ?w = "drop ?e (u @ w)"
    have step: "redact_prefix p (u @ w) =
        (if is_char_boundary (u @ w) ?e then redact_prefix p (?u @ ?w) else Some None)"
      using Some by (subst redact_prefix.simps) simp
    have "length ?w < length w"
      using e pos ne str_find_first [OF Some ne] by (cases p) auto
    moreover have "last ?u = CHR '']''" by (simp add: REDACTED_def)
    moreover have "\<not> str_contains ?u p"
      using contains_redacted [OF assms(1), of "take pos (u @ w)" "[]"] before_first [OF Some ne] ne by simp
    ultimately obtain out where out: "redact_prefix p (?u @ ?w) = Some out"
      "\<forall>s'. out = Some s' \<longrightarrow> \<not> str_contains s' p \<and> (\<forall>q. plain q \<longrightarrow> str_contains s' q \<longrightarrow> str_contains (?u @ ?w) q)"
      using less.hyps [of ?w ?u] \<open>last ?u = CHR '']''\<close> by blast
    have "str_contains (u @ w) q" if "plain q" "str_contains (?u @ ?w) q" for q
      using that contains_redacted [of q "take pos (u @ w)" ?w] contains_append(1) [of "take pos (u @ w)" q "drop pos (u @ w)"]
        contains_append(2) [of ?w q "take ?e (u @ w)"] by (simp only: append_take_drop_id append.assoc) blast
    with step out show ?thesis by auto
  qed
qed

lemma redact_keys_spec:
  assumes "\<forall>p \<in> set ps. plain p" and "\<forall>q \<in> Q. plain q \<and> \<not> str_contains s q"
  shows "\<exists>out. redact_keys ps s = Some out \<and> (\<forall>s'. out = Some s' \<longrightarrow> (\<forall>q \<in> set ps \<union> Q. \<not> str_contains s' q))"
  using assms
proof (induction ps arbitrary: s Q)
  case (Cons p ps)
  have p: "plain p" using Cons.prems(1) by simp
  then obtain out where out: "redact_prefix p s = Some out"
    "\<forall>s'. out = Some s' \<longrightarrow> \<not> str_contains s' p \<and> (\<forall>q. plain q \<longrightarrow> str_contains s' q \<longrightarrow> str_contains s q)"
    using redact_prefix_rest [OF p, of "[]" s] by (auto simp: plain_def)
  show ?case
  proof (cases out)
    case (Some s')
    with out Cons.prems p have "\<forall>q \<in> insert p Q. plain q \<and> \<not> str_contains s' q" by blast
    from Cons.IH [OF _ this] Cons.prems(1) out Some show ?thesis by auto
  qed (use out in simp)
qed simp

section \<open>The redaction of social security numbers\<close>

lemma has_shape_length: "has_shape ps s \<Longrightarrow> length ps \<le> length s"
  by (induction ps s rule: has_shape.induct) auto

lemma shape_anywhere_iff: "shape_anywhere ps s \<longleftrightarrow> (\<exists>a b. s = a @ b \<and> has_shape ps b)"
proof
  assume "shape_anywhere ps s"
  then obtain i where "has_shape ps (drop i s)" by (auto simp: shape_anywhere_def list_ex_iff)
  then show "\<exists>a b. s = a @ b \<and> has_shape ps b" by (metis append_take_drop_id)
next
  assume "\<exists>a b. s = a @ b \<and> has_shape ps b"
  then obtain a b where "s = a @ b" "has_shape ps b" by blast
  then have "length a < length s - length ps + 1" "length ps \<le> length s" "has_shape ps (drop (length a) s)"
    using has_shape_length [of ps b] by auto
  then show "shape_anywhere ps s" unfolding shape_anywhere_def list_ex_iff set_upt by (metis atLeastLessThan_iff le0)
qed

text \<open>Tests that only digits and dashes pass.\<close>

definition digit_or_dash :: "(char \<Rightarrow> bool) \<Rightarrow> bool" where
  "digit_or_dash p \<longleftrightarrow> p = is_digit \<or> p = (=) CHR ''-''"

lemma SSN_tests: "\<forall>p \<in> set SSN_SHAPE. digit_or_dash p"
  by (simp add: SSN_SHAPE_def digit_or_dash_def)

lemma marker_fails: "digit_or_dash p \<Longrightarrow> c \<in> set REDACTED \<Longrightarrow> \<not> p c"
proof -
  assume p: "digit_or_dash p" and "c \<in> set REDACTED"
  moreover have "\<forall>c \<in> set REDACTED. \<not> is_digit c \<and> c \<noteq> CHR ''-''" by code_simp
  ultimately show ?thesis by (auto simp: digit_or_dash_def)
qed

lemma high_fails: "digit_or_dash p \<Longrightarrow> 128 \<le> (of_char d :: nat) \<Longrightarrow> \<not> p d"
proof -
  have "(of_char CHR ''-'' :: nat) = 45" by code_simp
  then show "digit_or_dash p \<Longrightarrow> 128 \<le> (of_char d :: nat) \<Longrightarrow> \<not> p d" by (auto simp: digit_or_dash_def is_digit_def)
qed

lemma push_byte_cases:
  obtains "push_byte c = [c]" | d e where "push_byte c = [d, e]" "\<forall>p. digit_or_dash p \<longrightarrow> \<not> p d \<and> \<not> p e"
proof (cases "(of_char c :: nat) < 128")
  case False
  let ?n = "of_char c :: nat"
  have n: "?n < 256" by (metis nat_of_char_less_256)
  have "(of_char (char_of (192 + ?n div 64)) :: nat) = 192 + ?n div 64" "(of_char (char_of (128 + ?n mod 64)) :: nat) = 128 + ?n mod 64"
    using n div_less_iff_less_mult [of 64 ?n 4] by (simp_all add: mod_less)
  then have "\<not> p (char_of (192 + ?n div 64)) \<and> \<not> p (char_of (128 + ?n mod 64))" if "digit_or_dash p" for p
    using high_fails [OF that] by simp
  then have "\<forall>p. digit_or_dash p \<longrightarrow> \<not> p (char_of (192 + ?n div 64)) \<and> \<not> p (char_of (128 + ?n mod 64))" by blast
  with False that(2) show thesis by (simp add: push_byte_def Let_def)
qed (use that(1) in \<open>simp add: push_byte_def\<close>)

lemma redact_ssn_loop_Nil [simp]: "redact_ssn_loop [] = []"
  by (subst redact_ssn_loop.simps) simp

lemma redact_ssn_loop_Cons:
  "redact_ssn_loop (c # cs) =
     (if has_shape SSN_SHAPE (c # cs) then REDACTED @ redact_ssn_loop (drop 11 (c # cs))
      else push_byte c @ redact_ssn_loop cs)"
  by (subst redact_ssn_loop.simps) simp

text \<open>Digits and dashes of the output were there in the input.\<close>

lemma shape_before:
  "\<forall>p \<in> set ps. digit_or_dash p \<Longrightarrow> has_shape ps (redact_ssn_loop s) \<Longrightarrow> has_shape ps s"
proof (induction ps arbitrary: s)
  case (Cons p ps)
  show ?case
  proof (cases s)
    case Nil
    with Cons.prems show ?thesis by simp
  next
    case (Cons c cs)
    note s = this
    show ?thesis
    proof (cases "has_shape SSN_SHAPE s")
      case True
      with Cons.prems marker_fails [of p "CHR ''[''"] show ?thesis by (simp add: s redact_ssn_loop_Cons REDACTED_def)
    next
      case False
      show ?thesis
      proof (cases rule: push_byte_cases [of c])
        case 1
        with False Cons.prems Cons.IH [of cs] show ?thesis by (simp add: s redact_ssn_loop_Cons)
      next
        case (2 d e)
        from 2(2) Cons.prems(1) have "\<not> p d" by auto
        with 2 False Cons.prems(2) show ?thesis by (simp add: s redact_ssn_loop_Cons)
      qed
    qed
  qed
qed simp

lemma no_ssn_suffix: "redact_ssn_loop s = a @ b \<Longrightarrow> \<not> has_shape SSN_SHAPE b"
proof (induction s arbitrary: a b rule: redact_ssn_loop.induct)
  case (1 s)
  have nil: "\<not> has_shape SSN_SHAPE []" by (simp add: SSN_SHAPE_def)
  have head: "\<not> has_shape SSN_SHAPE (c # x)" if "\<not> is_digit c" for c x
    using that by (simp add: SSN_SHAPE_def)
  have dig: "digit_or_dash is_digit" by (simp add: digit_or_dash_def)
  show ?case
  proof (cases s)
    case Nil
    with "1.prems" nil show ?thesis by simp
  next
    case (Cons c cs)
    show ?thesis
    proof (cases "has_shape SSN_SHAPE s")
      case True
      then have "REDACTED @ redact_ssn_loop (drop 11 s) = a @ b" using "1.prems" Cons by (simp add: redact_ssn_loop_Cons)
      then consider t where "b = t @ redact_ssn_loop (drop 11 s)" "REDACTED = a @ t" "t \<noteq> []"
        | a' where "redact_ssn_loop (drop 11 s) = a' @ b"
        by (metis append_eq_append_conv2 append_Nil)
      then show ?thesis
      proof cases
        case 1
        then obtain x t' where t: "t = x # t'" by (cases t) auto
        then have "x \<in> set (a @ t)" by simp
        then have "x \<in> set REDACTED" unfolding 1(2) .
        with 1 t head marker_fails [OF dig] show ?thesis by simp
      qed (use "1.IH"(1) True Cons in auto)
    next
      case False
      then have eq: "push_byte c @ redact_ssn_loop cs = a @ b" using "1.prems" Cons by (simp add: redact_ssn_loop_Cons)
      note IH = "1.IH"(2) [of _ b]
      show ?thesis
      proof (cases rule: push_byte_cases [of c])
        case 1
        have "\<not> has_shape SSN_SHAPE (c # redact_ssn_loop cs)"
          using False shape_before [of "tl SSN_SHAPE" cs] SSN_tests Cons by (auto simp: SSN_SHAPE_def digit_or_dash_def)
        with 1 eq IH False Cons show ?thesis by (auto simp: Cons_eq_append_conv)
      next
        case (2 d e)
        with eq IH False Cons head [of d] head [of e] dig show ?thesis by (auto simp: Cons_eq_append_conv)
      qed
    qed
  qed
qed

text \<open>A text without a byte that starts a white-space character has none.\<close>

lemma white_space_heads:
  "hd ` set WHITE_SPACE =
     {CHR 0x09, CHR 0x0A, CHR 0x0B, CHR 0x0C, CHR 0x0D, CHR '' '', CHR 0xC2, CHR 0xE1, CHR 0xE2, CHR 0xE3}"
  by code_simp

lemma no_white_space_start:
  assumes "c \<notin> hd ` set WHITE_SPACE"
  shows "\<not> list_ex (starts_with (c # cs)) WHITE_SPACE"
proof -
  have ne: "list_all (\<lambda>w. w \<noteq> []) WHITE_SPACE" by code_simp
  have "\<not> starts_with (c # cs) w" if "w \<in> set WHITE_SPACE" for w
  proof (cases w)
    case Nil
    with ne that show ?thesis by (auto simp: list_all_iff)
  next
    case (Cons d ds)
    then have "d \<in> hd ` set WHITE_SPACE" using that by force
    with Cons assms show ?thesis by (auto simp: starts_with_def)
  qed
  then show ?thesis by (auto simp: list_ex_iff)
qed

lemma find_whitespace_append:
  "set u \<inter> hd ` set WHITE_SPACE = {} \<Longrightarrow> find_whitespace (u @ v) = map_option (\<lambda>n. length u + n) (find_whitespace v)"
proof (induction u)
  case Nil
  show ?case by (cases "find_whitespace v") auto
next
  case (Cons a u)
  then show ?case by (cases "find_whitespace v") (auto simp: no_white_space_start)
qed

lemma find_whitespace_None:
  "set s \<inter> hd ` set WHITE_SPACE = {} \<Longrightarrow> find_whitespace s = None"
  using find_whitespace_append [of s "[]"] by simp

lemma find_whitespace_blank:
  "set u \<inter> hd ` set WHITE_SPACE = {} \<Longrightarrow> find_whitespace (u @ CHR '' '' # v) = Some (length u)"
proof -
  have "'' '' \<in> set WHITE_SPACE" by code_simp
  moreover have "starts_with (CHR '' '' # v) '' ''" by (simp add: starts_with_def)
  ultimately have "list_ex (starts_with (CHR '' '' # v)) WHITE_SPACE" by (auto simp: list_ex_iff)
  then show "set u \<inter> hd ` set WHITE_SPACE = {} \<Longrightarrow> find_whitespace (u @ CHR '' '' # v) = Some (length u)"
    by (simp add: find_whitespace_append)
qed

lemma char_boundary_at:
  "u \<noteq> [] \<Longrightarrow> is_char_boundary (u @ c # v) (length u) \<longleftrightarrow> (of_char c :: nat) < 128 \<or> 192 \<le> (of_char c :: nat)"
  by (auto simp: is_char_boundary_def)

lemma redact_prefix_at_start:
  assumes "starts_with (u @ v) p" and "v \<noteq> []" and "token_end p (u @ v) 0 = length u"
  shows "redact_prefix p (u @ v) =
    (if is_char_boundary (u @ v) (length u) then redact_prefix p (REDACTED @ v) else Some None)"
proof -
  from assms(1,2) have "str_find (u @ v) p = Some 0" by (cases "u @ v") auto
  with assms(3) show ?thesis by (subst redact_prefix.simps) simp
qed

lemma redact_prefix_absent: "str_find s p = None \<Longrightarrow> redact_prefix p s = Some (Some s)"
  by (subst redact_prefix.simps) simp

section \<open>Properties\<close>

text \<open>The redaction of API keys always ends, and unless it panics its result has none of the
  key prefixes left.\<close>

theorem redact_keys_clean:
  "\<exists>out. redact_keys (map fst API_KEY_PATTERNS) s = Some out \<and>
     (case out of None \<Rightarrow> True | Some s' \<Rightarrow> check_api_keys s' = [])"
proof -
  obtain out where out: "redact_keys (map fst API_KEY_PATTERNS) s = Some out"
    "\<forall>s'. out = Some s' \<longrightarrow> (\<forall>q \<in> set (map fst API_KEY_PATTERNS). \<not> str_contains s' q)"
    using redact_keys_spec [OF API_KEY_plain, of "{}" s] by auto
  then have "case out of None \<Rightarrow> True | Some s' \<Rightarrow> check_api_keys s' = []"
    by (force simp: check_api_keys_def filter_empty_conv split: option.splits)
  with out show ?thesis by blast
qed

text \<open>The redaction of social security numbers leaves none behind: the scan finds nothing in
  its result.\<close>

theorem redact_ssn_clean: "\<not> contains_ssn_pattern (redact_ssn_patterns s)"
proof (cases "length s < 11")
  case True
  then show ?thesis by (simp add: redact_ssn_patterns_def contains_ssn_pattern_def shape_anywhere_def SSN_SHAPE_def)
next
  case False
  then show ?thesis using no_ssn_suffix
    by (auto simp: redact_ssn_patterns_def contains_ssn_pattern_def shape_anywhere_iff)
qed

text \<open>A system prompt of at most fifty bytes is never reported as leaked, not even by a
  response that repeats it.\<close>

theorem short_prompt_never_reported:
  assumes "length p \<le> 50" and "length (to_lowercase p) = length p"
  shows "check_system_prompt_leakage to_lowercase response p = []"
  using assms by (simp add: check_system_prompt_leakage_def Let_def min_def)

theorem short_prompt_never_reported_witness:
  "check_system_prompt_leakage to_ascii_lowercase ''the code is 1234'' ''the code is 1234'' = []"
  by (rule short_prompt_never_reported) (simp_all add: to_ascii_lowercase_def)

text \<open>Where the redaction falls short: the token after \<open>Bearer\<close> stays, a long key at the end
  of a response is cut after twenty bytes, a cut inside a character panics, and the pass over
  social security numbers garbles every character beyond ASCII.\<close>

theorem redact_bearer_keeps_token:
  "redact_prefix ''Bearer '' ''Bearer abc123'' = Some (Some ''[REDACTED]abc123'')"
proof -
  have "find_whitespace ''Bearer abc123'' = Some 6"
    using find_whitespace_blank [of "''Bearer''" "''abc123''"] by (simp add: white_space_heads)
  then have "token_end ''Bearer '' ''Bearer abc123'' 0 = 7" by (simp add: token_end_def)
  then have "redact_prefix ''Bearer '' ''Bearer abc123'' = redact_prefix ''Bearer '' (REDACTED @ ''abc123'')"
    using redact_prefix_at_start [of "''Bearer ''" "''abc123''"]
    by (simp add: is_char_boundary_def starts_with_def)
  also have "\<dots> = Some (Some ''[REDACTED]abc123'')"
    using redact_prefix_absent [of "REDACTED @ ''abc123''" "''Bearer ''"] by (simp add: REDACTED_def starts_with_def)
  finally show ?thesis .
qed

theorem redact_long_key_tail:
  "redact_prefix ''ghp_'' (''ghp_'' @ replicate 20 CHR ''a'' @ ''aaaa'') = Some (Some ''[REDACTED]aaaa'')"
proof -
  let ?u = "''ghp_'' @ replicate 20 CHR ''a''"
  have "find_whitespace (?u @ ''aaaa'') = None" by (rule find_whitespace_None) (simp add: white_space_heads)
  then have "token_end ''ghp_'' (?u @ ''aaaa'') 0 = length ?u" by (simp add: token_end_def)
  then have "redact_prefix ''ghp_'' (?u @ ''aaaa'') = redact_prefix ''ghp_'' (REDACTED @ ''aaaa'')"
    using char_boundary_at [of ?u "CHR ''a''" "''aaa''"]
    by (subst redact_prefix_at_start) (simp_all add: starts_with_def)
  also have "\<dots> = Some (Some ''[REDACTED]aaaa'')"
    using redact_prefix_absent [of "REDACTED @ ''aaaa''" "''ghp_''"] by (simp add: REDACTED_def starts_with_def)
  finally show ?thesis by simp
qed

theorem redact_panics:
  "redact_prefix ''sk-'' (''sk-'' @ replicate 19 CHR ''a'' @ [CHR 0xC3, CHR 0xA9]) = Some None"
proof -
  let ?u = "''sk-'' @ replicate 19 CHR ''a'' @ [CHR 0xC3]"
  have "find_whitespace (?u @ [CHR 0xA9]) = None" by (rule find_whitespace_None) (simp add: white_space_heads)
  then have "token_end ''sk-'' (?u @ [CHR 0xA9]) 0 = length ?u" by (simp add: token_end_def)
  then have "redact_prefix ''sk-'' (?u @ [CHR 0xA9]) = Some None"
    using char_boundary_at [of ?u "CHR 0xA9" "[]"]
    by (subst redact_prefix_at_start) (simp_all add: starts_with_def)
  then show ?thesis by simp
qed

theorem redact_garbles:
  "redact (''caf'' @ [CHR 0xC3, CHR 0xA9] @ '' closed'') =
     Some (Some (''caf'' @ [CHR 0xC3, CHR 0x83, CHR 0xC2, CHR 0xA9] @ '' closed''))"
  by code_simp

end
