(* ===== verification/Llm_Router.thy ===== *)
theory Llm_Router
  imports Core_Types
begin

text \<open>
  Model routing, \<open>llm/router.rs\<close>: the routing matrix from task type and complexity to a
  model tier, and the default model of a tier. The quantization advice calls the
  ai-hwaccel crate and is not modelled.
\<close>

datatype model_tier = Fast | Capable | Premium

datatype task_type = Summarize | Classify | Code | Plan | Reason | Research | MultiStep

datatype complexity = Simple | Medium | Complex

record task_profile =
  tp_task_type :: task_type
  tp_complexity :: complexity

definition task_profile_new :: "task_type \<Rightarrow> complexity \<Rightarrow> task_profile" where
  "task_profile_new ty c = \<lparr> tp_task_type = ty, tp_complexity = c \<rparr>"

definition route :: "task_profile \<Rightarrow> model_tier" where
  "route profile =
     (let ty = tp_task_type profile; c = tp_complexity profile
      in if ty \<in> {Summarize, Classify} then (if c = Complex then Capable else Fast)
         else if ty \<in> {Code, Plan, Reason} then (if c = Complex then Premium else Capable)
         else (if c = Simple then Capable else Premium))"

fun default_model :: "model_tier \<Rightarrow> string" where
  "default_model Fast = ''llama3''"
| "default_model Capable = ''llama3:70b''"
| "default_model Premium = ''llama3:405b''"

definition parse_complexity :: "string \<Rightarrow> complexity" where
  "parse_complexity s =
     (if eq_ignore_ascii_case s ''low'' \<or> eq_ignore_ascii_case s ''simple'' then Simple
      else if eq_ignore_ascii_case s ''high'' \<or> eq_ignore_ascii_case s ''complex'' then Complex
      else Medium)"

section \<open>Harder tasks never get a weaker model\<close>

fun tier_rank :: "model_tier \<Rightarrow> nat" where
  "tier_rank Fast = 0"
| "tier_rank Capable = 1"
| "tier_rank Premium = 2"

fun complexity_rank :: "complexity \<Rightarrow> nat" where
  "complexity_rank Simple = 0"
| "complexity_rank Medium = 1"
| "complexity_rank Complex = 2"

lemma route_mono:
  "complexity_rank c \<le> complexity_rank c' \<Longrightarrow>
     tier_rank (route (task_profile_new ty c)) \<le> tier_rank (route (task_profile_new ty c'))"
  by (cases c; cases c'; cases ty) (simp_all add: route_def task_profile_new_def)

text \<open>Only summaries and classifications may run on the fast tier.\<close>

lemma route_fast_iff:
  "route (task_profile_new ty c) = Fast \<longleftrightarrow> ty \<in> {Summarize, Classify} \<and> c \<noteq> Complex"
  by (cases c; cases ty) (simp_all add: route_def task_profile_new_def)

end
