(* ===== verification/Event_Bus.thy ===== *)
theory Event_Bus
  imports Core_Types
begin

text \<open>
  The registry of per-crew event channels, \<open>server/sse.rs\<close>. The channels are tokio's
  broadcast channels, whose operations are an argument; a clone of a sender is the same
  channel. The SSE stream is a function of what successive calls of \<open>recv\<close> return.
\<close>

definition EVENT_CHANNEL_CAPACITY :: nat where
  "EVENT_CHANNEL_CAPACITY = 256"

definition MAX_EVENT_CHANNELS :: nat where
  "MAX_EVENT_CHANNELS = 10000"

record crew_event =
  ev_crew_id :: string
  ev_event_type :: string
  ev_data :: json

record ('tx, 'rx) channel_ops =
  ch_channel :: "nat \<Rightarrow> 'tx"
  ch_subscribe :: "'tx \<Rightarrow> 'tx \<times> 'rx"
  ch_receiver_count :: "'tx \<Rightarrow> nat"

record 'tx event_bus =
  eb_channels :: "(uuid, 'tx) hmap"

definition event_bus_new :: "'tx event_bus" where
  "event_bus_new = \<lparr> eb_channels = hm_empty \<rparr>"

definition cleanup_orphans :: "('tx, 'rx) channel_ops \<Rightarrow> 'tx event_bus \<Rightarrow> 'tx event_bus" where
  "cleanup_orphans ops eb =
     eb\<lparr>eb_channels := hm_filter (\<lambda>_ tx. 0 < ch_receiver_count ops tx) (eb_channels eb)\<rparr>"

definition sender :: "('tx, 'rx) channel_ops \<Rightarrow> uuid \<Rightarrow> 'tx event_bus \<Rightarrow> 'tx \<times> 'tx event_bus" where
  "sender ops cid eb =
     (case hm_get (eb_channels eb) cid of
        Some tx \<Rightarrow> (tx, eb)
      | None \<Rightarrow>
          (let eb = (if MAX_EVENT_CHANNELS \<le> hm_len (eb_channels eb) then cleanup_orphans ops eb else eb)
           in case hm_get (eb_channels eb) cid of
                Some tx \<Rightarrow> (tx, eb)
              | None \<Rightarrow>
                  (let tx = ch_channel ops EVENT_CHANNEL_CAPACITY
                   in (tx, eb\<lparr>eb_channels := hm_insert cid tx (eb_channels eb)\<rparr>))))"

definition bus_subscribe :: "('tx, 'rx) channel_ops \<Rightarrow> uuid \<Rightarrow> 'tx event_bus \<Rightarrow> 'rx \<times> 'tx event_bus" where
  "bus_subscribe ops cid eb =
     (let (tx, eb) = sender ops cid eb;
          (tx', rx) = ch_subscribe ops tx
      in (rx, eb\<lparr>eb_channels := hm_insert cid tx' (eb_channels eb)\<rparr>))"

definition bus_remove :: "uuid \<Rightarrow> 'tx event_bus \<Rightarrow> 'tx event_bus" where
  "bus_remove cid eb = eb\<lparr>eb_channels := hm_remove cid (eb_channels eb)\<rparr>"

definition bus_has :: "uuid \<Rightarrow> 'tx event_bus \<Rightarrow> bool" where
  "bus_has cid eb = hm_contains (eb_channels eb) cid"

definition bus_len :: "'tx event_bus \<Rightarrow> nat" where
  "bus_len eb = hm_len (eb_channels eb)"

definition bus_is_empty :: "'tx event_bus \<Rightarrow> bool" where
  "bus_is_empty eb \<longleftrightarrow> bus_len eb = 0"

text \<open>What \<open>Receiver::recv\<close> returns: an event, the number of events that this receiver missed
  because it was too slow, or the end of the channel.\<close>

datatype recv_result = RecvEvent crew_event | RecvLagged u64 | RecvClosed

record sse_frame =
  sse_type :: string
  sse_data :: string

text \<open>\<open>event_stream\<close>: the loop ends with the first \<open>Err\<close>, of either kind. \<open>to_string\<close> is serde_json's.\<close>

definition sse_of :: "(crew_event \<Rightarrow> string option) \<Rightarrow> crew_event \<Rightarrow> sse_frame" where
  "sse_of to_string event =
     \<lparr> sse_type = ev_event_type event,
       sse_data = (case to_string event of Some json \<Rightarrow> json
         | None \<Rightarrow> ''{\"error\":\"serialization failed\"}'') \<rparr>"

fun event_stream :: "(crew_event \<Rightarrow> string option) \<Rightarrow> recv_result list \<Rightarrow> sse_frame list" where
  "event_stream to_string (RecvEvent event # rs) = sse_of to_string event # event_stream to_string rs"
| "event_stream to_string _ = []"

text \<open>Without a lag every event up to the end of the channel is sent, in order.\<close>

lemma event_stream_complete:
  "event_stream to_string (map RecvEvent es @ RecvClosed # rs) = map (sse_of to_string) es"
  by (induction es) simp_all

text \<open>A receiver that lags ends the stream, although the channel is open and has events left.\<close>

lemma event_stream_lag:
  "event_stream to_string (map RecvEvent es @ RecvLagged n # map RecvEvent es' @ [RecvClosed]) = map (sse_of to_string) es"
  by (induction es) simp_all

section \<open>A crew keeps its channel while somebody listens\<close>

lemma sender_get: "hm_get (eb_channels (snd (sender ops c eb))) c = Some (fst (sender ops c eb))"
  by (auto simp: sender_def Let_def split: option.splits)

lemma sender_wf: "hm_wf (eb_channels eb) \<Longrightarrow> hm_wf (eb_channels (snd (sender ops c eb)))"
  by (auto simp: sender_def cleanup_orphans_def Let_def split: option.splits)

text \<open>Handing out a sender never takes a channel away from a crew that has a listener.\<close>

lemma sender_keeps_listened:
  assumes "hm_wf (eb_channels eb)" and "hm_get (eb_channels eb) k = Some tx" and "0 < ch_receiver_count ops tx"
  shows "hm_get (eb_channels (snd (sender ops c eb))) k = Some tx"
  using assms
  by (auto simp: sender_def cleanup_orphans_def Let_def hm_get_filter split: option.splits)

end
