(* ===== verification/Task_Execution.thy ===== *)
theory Task_Execution
  imports Scoring Retry Llm_Router Prompt_Guard Output_Validation Event_Bus
begin

text \<open>
  Execution of one task, the helpers of \<open>orchestrator/crew_runner.rs\<close>: the choice of the
  agent and the model, the prompts, the response cache, inference with retries and output
  validation, and the result with its metadata.

  What lies outside the sources is an argument. \<open>runner_ops\<close> holds the functions of the
  crates hoosh (response cache, cost tracker, error texts), bhava (personality) and
  serde_json (parsing and printing). \<open>task_env\<close> holds what happens while one task runs:
  the outcome of every inference call (by validation round and call number), the random
  draws for the backoff, and the time it took. The records of requests and responses have
  the fields the code sets or reads. \<open>None\<close> is a panic.
\<close>

section \<open>The surroundings\<close>

datatype provider_type = OpenAi | Anthropic | DeepSeek | Google | Grok | Mistral | Ollama

datatype role = RoleUser | RoleAssistant

record llm_message =
  lm_role :: role
  lm_content :: string

record inference_request =
  rq_model :: string
  rq_prompt :: string
  rq_system :: "string option"
  rq_messages :: "llm_message list"
  rq_max_tokens :: "nat option"
  rq_temperature :: "rat option"

record token_usage =
  tu_prompt_tokens :: nat
  tu_completion_tokens :: nat
  tu_total_tokens :: nat

record inference_response =
  rs_text :: string
  rs_model :: string
  rs_provider :: string
  rs_latency_ms :: u64
  rs_usage :: token_usage

record request_metric =
  mt_provider :: string
  mt_model :: string
  mt_outcome :: string
  mt_seconds :: rat
  mt_prompt_tokens :: nat
  mt_completion_tokens :: nat

record ('p, 'c, 't, 'e) runner_ops =
  ro_personality :: "'p personality_ops"
  ro_compose_prompt :: "'p \<Rightarrow> string"
  ro_to_string_pretty :: "(string, json) hmap \<Rightarrow> string"
  ro_parse :: "string \<Rightarrow> string + json"
  ro_show_json :: "json \<Rightarrow> string"
  ro_uuid_str :: "uuid \<Rightarrow> string"
  ro_provider_str :: "provider_type \<Rightarrow> string"
  ro_error_str :: "'e \<Rightarrow> string"
  ro_cache_key :: "string \<Rightarrow> llm_message list \<Rightarrow> string"
  ro_cache_get :: "'c \<Rightarrow> string \<Rightarrow> string option \<times> 'c"
  ro_cache_insert :: "string \<Rightarrow> string \<Rightarrow> 'c \<Rightarrow> 'c"
  ro_cost_record :: "provider_type \<Rightarrow> string \<Rightarrow> string \<Rightarrow> token_usage \<Rightarrow> 't \<Rightarrow> rat \<times> 't"

record 'e task_env =
  te_infer :: "nat \<Rightarrow> nat \<Rightarrow> inference_request \<Rightarrow> 'e + inference_response"
  te_random :: "nat \<Rightarrow> u64 \<Rightarrow> u64"
  te_elapsed_ms :: u64

text \<open>The state that all task executions share: cache, cost tracker and metrics.\<close>

record ('c, 't) shared =
  sh_cache :: 'c
  sh_cost :: 't
  sh_metrics :: "request_metric list"

section \<open>Agent, provider and model\<close>

definition pick_best_agent :: "'p personality_ops \<Rightarrow> 'p agent_definition list \<Rightarrow> task
    \<Rightarrow> 'p agent_definition option" where
  "pick_best_agent ops agents t =
     (if agents = [] then None
      else case sort_desc snd (map (\<lambda>a. (a, score_agent ops a t)) agents) of
        [] \<Rightarrow> None
      | (a, _) # _ \<Rightarrow> Some a)"

definition infer_provider :: "(string \<Rightarrow> string) \<Rightarrow> string \<Rightarrow> provider_type" where
  "infer_provider to_lowercase model =
     (let m = to_lowercase model
      in if starts_with m ''gpt-'' \<or> starts_with m ''o1'' \<or> starts_with m ''o3'' then OpenAi
         else if starts_with m ''claude'' then Anthropic
         else if starts_with m ''deepseek'' then DeepSeek
         else if starts_with m ''gemini'' then Google
         else if starts_with m ''grok'' then Grok
         else if starts_with m ''mistral'' \<or> starts_with m ''mixtral'' then Mistral
         else Ollama)"

definition strip_provider_prefix :: "string \<Rightarrow> string" where
  "strip_provider_prefix model =
     (case str_find model ''/'' of
        Some idx \<Rightarrow>
          if take idx model \<in> {''ollama'', ''openai'', ''anthropic'', ''groq'', ''deepseek'', ''mistral'',
               ''together'', ''fireworks'', ''anyscale'', ''perplexity'', ''bedrock'', ''azure''}
          then drop (idx + 1) model else model
      | None \<Rightarrow> model)"

definition select_model :: "'p agent_definition option \<Rightarrow> string" where
  "select_model agent =
     (case agent of
        Some a \<Rightarrow>
          (case agent_llm_model a of
             Some model \<Rightarrow> strip_provider_prefix model
           | None \<Rightarrow>
               default_model (route \<lparr> tp_task_type = Reason,
                 tp_complexity = parse_complexity (agent_complexity a) \<rparr>))
      | None \<Rightarrow> default_model Capable)"

definition mood_adjusted_temperature :: "'p personality_ops \<Rightarrow> 'p \<Rightarrow> rat \<Rightarrow> rat" where
  "mood_adjusted_temperature ops profile base =
     (let creativity = po_trait_normalized ops profile Creativity;
          curiosity = po_trait_normalized ops profile Curiosity;
          precision = po_trait_normalized ops profile Precision;
          risk = po_trait_normalized ops profile RiskTolerance;
          confidence = po_trait_normalized ops profile Confidence;
          delta = creativity * (15 / 100) + curiosity * (1 / 10) + risk * (1 / 10)
                  - precision * (15 / 100) - confidence * (5 / 100)
      in clamp (1 / 10) (15 / 10) (base + delta))"

section \<open>Prompts\<close>

definition build_system_prompt :: "('p \<Rightarrow> string) \<Rightarrow> 'p agent_definition option \<Rightarrow> string" where
  "build_system_prompt compose_prompt agent =
     (case agent of
        None \<Rightarrow> ''You are a helpful AI assistant executing tasks within a crew.''
      | Some a \<Rightarrow>
          (let nl2 = [CHR 0x0A, CHR 0x0A];
               prompt = ''You are '' @ agent_name a @ '', a '' @ agent_role a @ ''.'' @ nl2 @ ''Goal: '' @ agent_goal a;
               prompt = (case agent_backstory a of None \<Rightarrow> prompt
                         | Some backstory \<Rightarrow> prompt @ nl2 @ ''Backstory: '' @ backstory);
               prompt = (case agent_domain a of None \<Rightarrow> prompt
                         | Some domain \<Rightarrow> prompt @ nl2 @ ''Domain expertise: '' @ domain);
               prompt = (if agent_tools a \<noteq> []
                         then prompt @ nl2 @ ''Available tools: '' @ join_str '', '' (agent_tools a) else prompt)
           in case agent_personality a of
                None \<Rightarrow> prompt
              | Some profile \<Rightarrow>
                  if compose_prompt profile \<noteq> [] then prompt @ [CHR 0x0A] @ compose_prompt profile else prompt))"

definition context_messages :: "((string, json) hmap \<Rightarrow> string) \<Rightarrow> task \<Rightarrow> llm_message list option" where
  "context_messages to_string_pretty t =
     (if task_context t \<noteq> [] then
        map_option (\<lambda>sanitized.
            [\<lparr> lm_role = RoleUser, lm_content = sanitized \<rparr>,
             \<lparr> lm_role = RoleAssistant, lm_content = ''Understood, I have the context.'' \<rparr>])
          (sanitize (to_string_pretty (task_context t)) ''context'')
      else Some [])"

definition user_message :: "task \<Rightarrow> string option" where
  "user_message t =
     (case sanitize (task_description t) ''task_description'' of
        None \<Rightarrow> None
      | Some user_msg \<Rightarrow>
          (case task_expected_output t of
             None \<Rightarrow> Some user_msg
           | Some expected \<Rightarrow>
               map_option (\<lambda>s. user_msg @ [CHR 0x0A, CHR 0x0A] @ s) (sanitize expected ''expected_output'')))"

definition build_request :: "('p, 'c, 't, 'e) runner_ops \<Rightarrow> task \<Rightarrow> 'p agent_definition option
    \<Rightarrow> inference_request option" where
  "build_request ops t agent =
     (let system_prompt = wrap_system_prompt (build_system_prompt (ro_compose_prompt ops) agent);
          model = select_model agent
      in case context_messages (ro_to_string_pretty ops) t of
           None \<Rightarrow> None
         | Some messages \<Rightarrow>
             (case user_message t of
                None \<Rightarrow> None
              | Some user_msg \<Rightarrow>
                  (let temperature = 7 / 10;
                       temperature =
                         (case agent of None \<Rightarrow> temperature
                          | Some a \<Rightarrow>
                              (case agent_personality a of None \<Rightarrow> temperature
                               | Some profile \<Rightarrow>
                                   mood_adjusted_temperature (ro_personality ops) profile temperature))
                   in Some \<lparr> rq_model = model, rq_prompt = user_msg, rq_system = Some system_prompt,
                        rq_messages = messages, rq_max_tokens = Some 4096,
                        rq_temperature = Some temperature \<rparr>)))"

section \<open>Inference with validation\<close>

text \<open>One call of \<open>with_retry\<close>; the delays slept do not matter here.\<close>

definition infer_round :: "('p, 'c, 't, 'e) runner_ops \<Rightarrow> 'e task_env \<Rightarrow> nat \<Rightarrow> inference_request
    \<Rightarrow> ('e + inference_response) option" where
  "infer_round ops te rnd request =
     map_option fst (with_retry (te_random te rnd) retry_config_default (ro_error_str ops)
       (\<lambda>k. te_infer te rnd k request))"

text \<open>The loop \<open>for attempt in 1..=MAX_VALIDATION_RETRIES\<close>; its arguments are the attempts
  left, the current request and the last response.\<close>

fun validation_loop :: "('p, 'c, 't, 'e) runner_ops \<Rightarrow> 'e task_env \<Rightarrow> json \<Rightarrow> string \<Rightarrow> nat \<Rightarrow> nat
    \<Rightarrow> inference_request \<Rightarrow> 'e + inference_response
    \<Rightarrow> (('e + inference_response) \<times> inference_request) option" where
  "validation_loop ops te schema original_prompt rnd 0 request response = Some (response, request)"
| "validation_loop ops te schema original_prompt rnd (Suc attempts) request response =
     (case response of
        Inl e \<Rightarrow> Some (response, request)
      | Inr resp \<Rightarrow>
          (case extract_and_validate (ro_parse ops) (rs_text resp) schema of
             (extracted, Valid) \<Rightarrow> Some (response, request)
           | (extracted, Invalid err) \<Rightarrow>
               (case sanitize extracted ''failed_output'' of
                  None \<Rightarrow> None
                | Some sanitized_output \<Rightarrow>
                    (let request' = request\<lparr>
                           rq_prompt := build_retry_prompt (ro_show_json ops) original_prompt
                                          sanitized_output err schema,
                           rq_temperature := Some (1 / 10)\<rparr>
                     in case infer_round ops te (Suc rnd) request' of
                          None \<Rightarrow> None
                        | Some response' \<Rightarrow>
                            validation_loop ops te schema original_prompt (Suc rnd) attempts
                              request' response'))))"

definition infer_validated :: "('p, 'c, 't, 'e) runner_ops \<Rightarrow> 'e task_env \<Rightarrow> task \<Rightarrow> inference_request
    \<Rightarrow> (('e + inference_response) \<times> inference_request) option" where
  "infer_validated ops te t request =
     (case infer_round ops te 0 request of
        None \<Rightarrow> None
      | Some response \<Rightarrow>
          (case task_output_schema t of
             None \<Rightarrow> Some (response, request)
           | Some schema \<Rightarrow>
               validation_loop ops te schema (rq_prompt request) 0 MAX_VALIDATION_RETRIES request response))"

section \<open>One task\<close>

definition metadata_of :: "(string \<times> json) list \<Rightarrow> (string, json) hmap" where
  "metadata_of kvs = fold (\<lambda>(k, v). hm_insert k v) kvs hm_empty"

definition json_u64 :: "u64 \<Rightarrow> json" where
  "json_u64 n = JNumber (of_nat (unat n))"

text \<open>
  The execution of a task, in two parts, because other tasks run while the inference is
  awaited: up to the cache lookup, and from the response on. The first part ends with a
  result (no client, or a cached answer) or with the request to send.
\<close>

datatype started = Finished task_result | Calling inference_request string

definition start_task :: "('p, 'c, 't, 'e) runner_ops \<Rightarrow> bool \<Rightarrow> 'e task_env \<Rightarrow> task
    \<Rightarrow> 'p agent_definition option \<Rightarrow> ('c, 't) shared \<Rightarrow> (started \<times> ('c, 't) shared) option" where
  "start_task ops llm te t agent sh =
     (if \<not> llm then
        Some (Finished \<lparr> result_task_id = task_id t, result_output = task_description t,
                result_status = Completed,
                result_metadata = metadata_of [(''task_duration_ms'', json_u64 (te_elapsed_ms te))] \<rparr>, sh)
      else case build_request ops t agent of
        None \<Rightarrow> None
      | Some request \<Rightarrow>
          (let ck = ro_cache_key ops (rq_model request) (rq_messages request);
               (cached, cache) = ro_cache_get ops (sh_cache sh) ck;
               sh = sh\<lparr>sh_cache := cache\<rparr>
           in case cached of
                Some answer \<Rightarrow>
                  Some (Finished \<lparr> result_task_id = task_id t, result_output = answer,
                          result_status = Completed,
                          result_metadata = metadata_of
                            [(''model'', JString (rq_model request)), (''cached'', JBool True),
                             (''task_duration_ms'', json_u64 (te_elapsed_ms te))] \<rparr>, sh)
              | None \<Rightarrow> Some (Calling request ck, sh)))"

definition token_event :: "('p, 'c, 't, 'e) runner_ops \<Rightarrow> task \<Rightarrow> inference_response \<Rightarrow> crew_event" where
  "token_event ops t response =
     \<lparr> ev_crew_id = (case context_str ''crew_id'' t of None \<Rightarrow> ''unknown'' | Some s \<Rightarrow> s),
       ev_event_type = ''token'',
       ev_data = JObject [(''task_id'', JString (ro_uuid_str ops (task_id t))),
                          (''token'', JString (rs_text response)), (''complete'', JBool True)] \<rparr>"

definition finish_task :: "('p, 'c, 't, 'e) runner_ops \<Rightarrow> bool \<Rightarrow> 'e task_env \<Rightarrow> task
    \<Rightarrow> string \<Rightarrow> inference_request \<Rightarrow> 'e + inference_response \<Rightarrow> ('c, 't) shared
    \<Rightarrow> task_result \<times> ('c, 't) shared \<times> crew_event list" where
  "finish_task ops streaming te t ck request outcome sh =
     (case outcome of
        Inr response \<Rightarrow>
          (let cache = ro_cache_insert ops ck (rs_text response) (sh_cache sh);
               events = (if streaming then [token_event ops t response] else []);
               provider = infer_provider (po_to_lowercase (ro_personality ops)) (rs_model response);
               (cost_usd, cost) = ro_cost_record ops provider ''hoosh'' (rs_model response) (rs_usage response) (sh_cost sh);
               metric = \<lparr> mt_provider = ro_provider_str ops provider, mt_model = rs_model response,
                          mt_outcome = ''success'', mt_seconds = as_f64 (te_elapsed_ms te) / 1000,
                          mt_prompt_tokens = tu_prompt_tokens (rs_usage response),
                          mt_completion_tokens = tu_completion_tokens (rs_usage response) \<rparr>;
               metadata = metadata_of
                 [(''model'', JString (rs_model response)), (''provider'', JString (rs_provider response)),
                  (''latency_ms'', json_u64 (rs_latency_ms response)),
                  (''tokens'', JObject
                     [(''prompt'', JNumber (of_nat (tu_prompt_tokens (rs_usage response)))),
                      (''completion'', JNumber (of_nat (tu_completion_tokens (rs_usage response)))),
                      (''total'', JNumber (of_nat (tu_total_tokens (rs_usage response))))]),
                  (''cost_usd'', JNumber cost_usd),
                  (''task_duration_ms'', json_u64 (te_elapsed_ms te))]
           in (\<lparr> result_task_id = task_id t, result_output = rs_text response,
                 result_status = Completed, result_metadata = metadata \<rparr>,
               sh\<lparr>sh_cache := cache, sh_cost := cost, sh_metrics := sh_metrics sh @ [metric]\<rparr>,
               events))
      | Inl e \<Rightarrow>
          (let metric = \<lparr> mt_provider = ''hoosh'', mt_model = rq_model request, mt_outcome = ''error'',
                          mt_seconds = as_f64 (te_elapsed_ms te) / 1000,
                          mt_prompt_tokens = 0, mt_completion_tokens = 0 \<rparr>
           in (\<lparr> result_task_id = task_id t, result_output = ''LLM error: '' @ ro_error_str ops e,
                 result_status = Failed,
                 result_metadata = metadata_of
                   [(''error'', JString (ro_error_str ops e)),
                    (''task_duration_ms'', json_u64 (te_elapsed_ms te))] \<rparr>,
               sh\<lparr>sh_metrics := sh_metrics sh @ [metric]\<rparr>, [])))"

definition execute_task :: "('p, 'c, 't, 'e) runner_ops \<Rightarrow> bool \<Rightarrow> bool \<Rightarrow> 'e task_env \<Rightarrow> task
    \<Rightarrow> 'p agent_definition option \<Rightarrow> ('c, 't) shared
    \<Rightarrow> (task_result \<times> ('c, 't) shared \<times> crew_event list) option" where
  "execute_task ops llm streaming te t agent sh =
     (case start_task ops llm te t agent sh of
        None \<Rightarrow> None
      | Some (Finished result, sh) \<Rightarrow> Some (result, sh, [])
      | Some (Calling request ck, sh) \<Rightarrow>
          (case infer_validated ops te t request of
             None \<Rightarrow> None
           | Some (outcome, request') \<Rightarrow>
               Some (finish_task ops streaming te t ck request' outcome sh)))"

section \<open>Totality\<close>

lemma infer_round_returns:
  assumes "\<forall>r n. te_random te r n \<le> n"
  shows "\<exists>k. infer_round ops te rnd request = Some (te_infer te rnd k request)"
  using assms by (auto simp: infer_round_def with_retry_returns [OF _ default_delay_fits])

lemma extracted_length:
  "length (fst (extract_and_validate parse answer schema)) \<le> length answer"
proof (cases "extract_json_block answer")
  case (Some block)
  then obtain m a b c d where "answer = a @ m @ b @ block @ c @ FENCE_END @ d"
    using extract_with_sound [of START_MARKERS answer block] by (auto simp: extract_json_block_def)
  then have "length block \<le> length answer" by simp
  with Some show ?thesis by (simp add: extract_and_validate_def Let_def)
qed (simp add: extract_and_validate_def Let_def)

definition answers_short :: "'e task_env \<Rightarrow> bool" where
  "answers_short te \<longleftrightarrow>
     (\<forall>r k request resp. te_infer te r k request = Inr resp \<longrightarrow> length (rs_text resp) \<le> 50000)"

lemma validation_loop_returns:
  assumes "\<forall>r n. te_random te r n \<le> n" and "answers_short te"
    and "\<forall>resp. response = Inr resp \<longrightarrow> length (rs_text resp) \<le> 50000"
  shows "validation_loop ops te schema original rnd attempts request response \<noteq> None"
  using assms(3)
proof (induction attempts arbitrary: rnd request response)
  case (Suc attempts)
  show ?case
  proof (cases response)
    case (Inr resp)
    obtain extracted verdict where ev: "extract_and_validate (ro_parse ops) (rs_text resp) schema = (extracted, verdict)"
      by (cases "extract_and_validate (ro_parse ops) (rs_text resp) schema")
    have "length extracted \<le> 50000"
      using extracted_length [of "ro_parse ops" "rs_text resp" schema] Suc.prems Inr ev by fastforce
    then obtain sanitized where s: "sanitize extracted ''failed_output'' = Some sanitized"
      by (meson not_None_eq sanitize_short)
    show ?thesis
    proof (cases verdict)
      case (Invalid err)
      let ?request = "request\<lparr>rq_prompt := build_retry_prompt (ro_show_json ops) original sanitized err schema,
          rq_temperature := Some (1 / 10)\<rparr>"
      obtain k where "infer_round ops te (Suc rnd) ?request = Some (te_infer te (Suc rnd) k ?request)"
        using infer_round_returns [OF assms(1)] by blast
      moreover have "\<forall>resp. te_infer te (Suc rnd) k ?request = Inr resp \<longrightarrow> length (rs_text resp) \<le> 50000"
        using assms(2) by (auto simp: answers_short_def)
      ultimately show ?thesis using Inr ev s Invalid Suc.IH by (simp add: Let_def)
    qed (use Inr ev in simp)
  qed simp
qed simp

lemma infer_validated_returns:
  assumes "\<forall>r n. te_random te r n \<le> n" and "answers_short te"
  shows "infer_validated ops te t request \<noteq> None"
proof -
  obtain k where k: "infer_round ops te 0 request = Some (te_infer te 0 k request)"
    using infer_round_returns [OF assms(1)] by blast
  have "\<forall>resp. te_infer te 0 k request = Inr resp \<longrightarrow> length (rs_text resp) \<le> 50000"
    using assms(2) by (auto simp: answers_short_def)
  note validation_loop_returns [OF assms this, where ops = ops]
  with k show ?thesis by (simp add: infer_validated_def split: option.splits)
qed

text \<open>A request can be built when no text of the task is longer than the limit.\<close>

definition task_short :: "('p, 'c, 't, 'e) runner_ops \<Rightarrow> task \<Rightarrow> bool" where
  "task_short ops t \<longleftrightarrow>
     length (task_description t) \<le> 50000 \<and>
     (task_context t = [] \<or> length (ro_to_string_pretty ops (task_context t)) \<le> 50000) \<and>
     (case task_expected_output t of None \<Rightarrow> True | Some s \<Rightarrow> length s \<le> 50000)"

lemma build_request_returns:
  assumes "task_short ops t"
  shows "build_request ops t agent \<noteq> None"
proof -
  have "context_messages (ro_to_string_pretty ops) t \<noteq> None" "user_message t \<noteq> None"
    using assms
    by (auto simp: context_messages_def user_message_def task_short_def not_None_eq [symmetric]
          simp del: not_None_eq split: option.splits)
  then show ?thesis by (auto simp: build_request_def Let_def)
qed

lemma start_task_returns: "task_short ops t \<Longrightarrow> start_task ops llm te t agent sh \<noteq> None"
  using build_request_returns [of ops t agent]
  by (auto simp: start_task_def Let_def split: option.splits prod.splits)

text \<open>With a client, the first part looks the request up in the cache.\<close>

lemma start_task_lookup:
  assumes "build_request ops t agent = Some request"
  defines "ck \<equiv> ro_cache_key ops (rq_model request) (rq_messages request)"
  shows "start_task ops True te t agent sh =
    (case fst (ro_cache_get ops (sh_cache sh) ck) of
       Some answer \<Rightarrow>
         Some (Finished \<lparr> result_task_id = task_id t, result_output = answer, result_status = Completed,
                 result_metadata = metadata_of
                   [(''model'', JString (rq_model request)), (''cached'', JBool True),
                    (''task_duration_ms'', json_u64 (te_elapsed_ms te))] \<rparr>,
               sh\<lparr>sh_cache := snd (ro_cache_get ops (sh_cache sh) ck)\<rparr>)
     | None \<Rightarrow> Some (Calling request ck, sh\<lparr>sh_cache := snd (ro_cache_get ops (sh_cache sh) ck)\<rparr>))"
  unfolding ck_def by (auto simp: start_task_def assms(1) Let_def case_prod_unfold split: option.split)

text \<open>The cache key depends on the context and the model only.\<close>

lemma build_request_key:
  "build_request ops t agent = Some request \<Longrightarrow>
     rq_model request = select_model agent \<and>
     context_messages (ro_to_string_pretty ops) t = Some (rq_messages request)"
  by (auto simp: build_request_def Let_def split: option.splits)

lemma context_messages_cong:
  "task_context t' = task_context t \<Longrightarrow> context_messages pp t' = context_messages pp t"
  by (simp add: context_messages_def)

lemma infer_round_first:
  "te_infer te rnd 0 request = Inr resp \<Longrightarrow> infer_round ops te rnd request = Some (Inr resp)"
  by (simp add: infer_round_def with_retry_def)

section \<open>What a result says\<close>

lemma start_task_Finished:
  "start_task ops llm te t agent sh = Some (Finished r, sh') \<Longrightarrow>
     result_task_id r = task_id t \<and> result_status r = Completed"
  by (auto simp: start_task_def Let_def split: if_splits option.splits prod.splits)

lemma finish_task_status:
  "finish_task ops streaming te t ck request outcome sh = (r, sh', evs) \<Longrightarrow>
     result_task_id r = task_id t \<and>
     result_status r = (case outcome of Inl e \<Rightarrow> Failed | Inr resp \<Rightarrow> Completed) \<and>
     result_output r = (case outcome of Inl e \<Rightarrow> ''LLM error: '' @ ro_error_str ops e | Inr resp \<Rightarrow> rs_text resp)"
  by (auto simp: finish_task_def Let_def split: sum.splits prod.splits)

lemma execute_task_result:
  assumes "execute_task ops llm streaming te t agent sh = Some (r, sh', evs)"
  shows "result_task_id r = task_id t" and "result_status r \<in> {Completed, Failed}"
  using assms finish_task_status [of ops streaming te t]
  by (auto simp: execute_task_def dest!: start_task_Finished split: option.splits started.splits prod.splits sum.splits)

text \<open>No result of a task names the agent that ran it.\<close>

lemma metadata_no_agent:
  "''agent'' \<notin> fst ` set kvs \<Longrightarrow> hm_get (metadata_of kvs) ''agent'' = None"
proof -
  have "''agent'' \<notin> fst ` set kvs \<Longrightarrow> hm_get m ''agent'' = None \<Longrightarrow>
      hm_get (fold (\<lambda>(k, v). hm_insert k v) kvs m) ''agent'' = None" for m :: "(string, json) hmap"
    by (induction kvs arbitrary: m) auto
  then show "''agent'' \<notin> fst ` set kvs \<Longrightarrow> ?thesis" by (simp add: metadata_of_def)
qed

lemma start_task_no_agent:
  "start_task ops llm te t agent sh = Some (Finished r, sh') \<Longrightarrow> hm_get (result_metadata r) ''agent'' = None"
  by (auto simp: start_task_def Let_def metadata_no_agent split: if_splits option.splits prod.splits)

lemma finish_task_no_agent:
  "finish_task ops streaming te t ck request outcome sh = (r, sh', evs) \<Longrightarrow>
     hm_get (result_metadata r) ''agent'' = None"
  by (auto simp: finish_task_def Let_def metadata_no_agent split: sum.splits prod.splits)

section \<open>How many calls are made\<close>

lemma infer_round_cong:
  assumes "te_random te = te_random te'" and "\<forall>k \<le> 3. te_infer te rnd k = te_infer te' rnd k"
  shows "infer_round ops te rnd request = infer_round ops te' rnd request"
proof -
  have "\<forall>k \<le> unat (rc_max_retries retry_config_default). te_infer te rnd k request = te_infer te' rnd k request"
    using assms(2) by (simp add: retry_config_default_def)
  from with_retry_cong [OF this] show ?thesis by (simp add: infer_round_def assms(1))
qed

lemma validation_loop_cong:
  assumes "te_random te = te_random te'"
    and "\<forall>r k. rnd < r \<and> r \<le> rnd + attempts \<and> k \<le> 3 \<longrightarrow> te_infer te r k = te_infer te' r k"
  shows "validation_loop ops te schema original rnd attempts request response =
    validation_loop ops te' schema original rnd attempts request response"
  using assms(2)
proof (induction attempts arbitrary: rnd request response)
  case (Suc attempts)
  have "infer_round ops te (Suc rnd) request' = infer_round ops te' (Suc rnd) request'" for request'
    using Suc.prems by (intro infer_round_cong [OF assms(1)]) auto
  moreover have "validation_loop ops te schema original (Suc rnd) attempts request' response' =
      validation_loop ops te' schema original (Suc rnd) attempts request' response'" for request' response'
    using Suc.prems by (intro Suc.IH) auto
  ultimately show ?case
    by (auto simp: Let_def split: sum.split prod.split validation_result.split option.split)
qed simp

lemma infer_validated_cong:
  assumes "te_random te = te_random te'" and "\<forall>r \<le> 2. \<forall>k \<le> 3. te_infer te r k = te_infer te' r k"
  shows "infer_validated ops te t request = infer_validated ops te' t request"
proof -
  have "infer_round ops te 0 request = infer_round ops te' 0 request"
    using assms(2) by (intro infer_round_cong [OF assms(1)]) simp
  moreover have "validation_loop ops te schema original 0 MAX_VALIDATION_RETRIES request response =
      validation_loop ops te' schema original 0 MAX_VALIDATION_RETRIES request response" for schema original response
    using assms(2) by (intro validation_loop_cong [OF assms(1)]) (simp add: MAX_VALIDATION_RETRIES_def)
  ultimately show ?thesis by (auto simp: infer_validated_def split: option.split)
qed

section \<open>What the schema guarantees\<close>

text \<open>The response at the end of the loop passed the validation, or it is the answer to the
  last attempt, which is not validated any more.\<close>

lemma validation_loop_response:
  assumes "validation_loop ops te schema original rnd attempts request response = Some (Inr resp, request')"
  shows "snd (extract_and_validate (ro_parse ops) (rs_text resp) schema) = Valid \<or>
    (0 < attempts \<and> (\<exists>q. infer_round ops te (rnd + attempts) q = Some (Inr resp))) \<or>
    (attempts = 0 \<and> response = Inr resp)"
  using assms
proof (induction attempts arbitrary: rnd request response)
  case (Suc attempts)
  obtain resp0 where r0: "response = Inr resp0" using Suc.prems by (cases response) auto
  show ?case
  proof (cases "snd (extract_and_validate (ro_parse ops) (rs_text resp0) schema)")
    case Valid
    with Suc.prems r0 show ?thesis by (auto split: prod.splits)
  next
    case (Invalid err)
    then obtain q response' where q: "infer_round ops te (Suc rnd) q = Some response'"
      "validation_loop ops te schema original (Suc rnd) attempts q response' = Some (Inr resp, request')"
      using Suc.prems r0 by (auto simp: Let_def split: prod.splits option.splits)
    from Suc.IH [OF q(2)] q(1) show ?thesis by auto
  qed
qed simp

section \<open>Samples\<close>

text \<open>A cache that never forgets, a cost tracker that counts calls, and a client that
  answers every request with the given text.\<close>

definition sample_runner_ops :: "(unit, (string, string) hmap, rat, string) runner_ops" where
  "sample_runner_ops =
     \<lparr> ro_personality = sample_ops, ro_compose_prompt = (\<lambda>_. []), ro_to_string_pretty = (\<lambda>_. ''{}''),
       ro_parse = sample_parse, ro_show_json = (\<lambda>_. ''schema''), ro_uuid_str = (\<lambda>_. ''id''),
       ro_provider_str = (\<lambda>_. ''provider''), ro_error_str = (\<lambda>e. e),
       ro_cache_key = (\<lambda>model messages. concat (model # map lm_content messages)),
       ro_cache_get = (\<lambda>c k. (hm_get c k, c)), ro_cache_insert = hm_insert,
       ro_cost_record = (\<lambda>_ _ _ _ n. (1, n + 1)) \<rparr>"

lemma sample_runner_sel:
  "ro_parse sample_runner_ops = sample_parse" "ro_cache_get sample_runner_ops = (\<lambda>c k. (hm_get c k, c))"
  by (simp_all add: sample_runner_ops_def)

definition sample_env :: "string \<Rightarrow> string task_env" where
  "sample_env answer =
     \<lparr> te_infer = (\<lambda>_ _ request. Inr \<lparr> rs_text = answer, rs_model = rq_model request, rs_provider = ''local'',
         rs_latency_ms = 1,
         rs_usage = \<lparr> tu_prompt_tokens = 1, tu_completion_tokens = 1, tu_total_tokens = 2 \<rparr> \<rparr>),
       te_random = (\<lambda>_ n. n), te_elapsed_ms = 5 \<rparr>"

definition sample_shared :: "((string, string) hmap, rat) shared" where
  "sample_shared = \<lparr> sh_cache = hm_empty, sh_cost = 0, sh_metrics = [] \<rparr>"

section \<open>Properties\<close>

text \<open>Executing a task always returns a result for that task, \<open>Completed\<close> or \<open>Failed\<close>, when
  its texts and the answers are at most 50000 bytes long; a task fails only because the
  last inference call of its last round returned an error.\<close>

theorem execute_task_total:
  assumes "\<forall>r n. te_random te r n \<le> n" and "answers_short te" and "task_short ops t"
  shows "\<exists>r sh' evs. execute_task ops llm streaming te t agent sh = Some (r, sh', evs) \<and>
    result_task_id r = task_id t \<and>
    (result_status r = Completed \<or>
     result_status r = Failed \<and> llm \<and> (\<exists>request request' e. build_request ops t agent = Some request \<and>
        infer_validated ops te t request = Some (Inl e, request') \<and>
        result_output r = ''LLM error: '' @ ro_error_str ops e))"
proof -
  obtain st sh1 where st: "start_task ops llm te t agent sh = Some (st, sh1)"
    using start_task_returns [OF assms(3)] by fastforce
  show ?thesis
  proof (cases st)
    case (Finished r)
    with st start_task_Finished [of ops llm te t agent sh r sh1] show ?thesis by (simp add: execute_task_def)
  next
    case (Calling request ck)
    then have llm: "llm" "build_request ops t agent = Some request"
      using st by (auto simp: start_task_def Let_def split: if_splits option.splits prod.splits)
    obtain outcome request' where o: "infer_validated ops te t request = Some (outcome, request')"
      using infer_validated_returns [OF assms(1,2), of ops t request] by fastforce
    obtain r sh' evs where f: "finish_task ops streaming te t ck request' outcome sh1 = (r, sh', evs)"
      by (rule prod_cases3)
    then have "execute_task ops llm streaming te t agent sh = Some (r, sh', evs)"
      using st Calling o by (simp add: execute_task_def)
    with finish_task_status [OF f] llm o show ?thesis by (cases outcome) auto
  qed
qed

theorem execute_task_total_witness:
  "\<exists>r sh' evs. execute_task sample_runner_ops True False (sample_env ''yes'') (task_new 1 ''t'') None sample_shared =
     Some (r, sh', evs) \<and> result_task_id r = 1"
proof -
  have "\<forall>r n. te_random (sample_env ''yes'') r n \<le> n" "answers_short (sample_env ''yes'')"
    "task_short sample_runner_ops (task_new 1 ''t'')"
    by (auto simp: sample_env_def answers_short_def task_short_def sample_runner_ops_def task_new_def)
  from execute_task_total [OF this, of True False None sample_shared] show ?thesis by (auto simp: task_new_def)
qed

text \<open>A task makes at most three rounds of at most four inference calls: what happens in any
  later round or call cannot change the result, the cache, the cost or the metrics.\<close>

theorem execute_task_call_bound:
  assumes "\<forall>r \<le> 2. \<forall>k \<le> 3. te_infer te r k = te_infer te' r k"
    and "te_random te = te_random te'" and "te_elapsed_ms te = te_elapsed_ms te'"
  shows "execute_task ops llm streaming te t agent sh = execute_task ops llm streaming te' t agent sh"
proof -
  have "start_task ops llm te t agent sh = start_task ops llm te' t agent sh"
    unfolding start_task_def assms(3) ..
  moreover have "infer_validated ops te t request = infer_validated ops te' t request" for request
    by (rule infer_validated_cong [OF assms(2,1)])
  moreover have "finish_task ops streaming te t = finish_task ops streaming te' t"
    unfolding finish_task_def assms(3) ..
  ultimately show ?thesis by (auto simp: execute_task_def split: option.split started.split)
qed

theorem execute_task_call_bound_witness:
  "execute_task sample_runner_ops True False (sample_env ''yes'') (task_new 1 ''t'') None sample_shared =
   execute_task sample_runner_ops True False
     ((sample_env ''yes'')\<lparr>te_infer := (\<lambda>r k q. if r \<le> 2 \<and> k \<le> 3 then te_infer (sample_env ''yes'') r k q else Inl ''no'')\<rparr>)
     (task_new 1 ''t'') None sample_shared"
  by (rule execute_task_call_bound) (simp_all add: sample_env_def)

text \<open>C19. When a task with an output schema is executed by a runner that has a client for the model, is
  not answered from the cache and is reported as completed, then the raw text of its output or
  its fenced block conforms to the schema, unless its output is the model's answer of the
  third round, which is accepted as it is. (A failed task has an error text as its output; a
  runner without a client completes every task with a placeholder.)\<close>

theorem schema_enforced:
  assumes "execute_task ops True streaming te t agent sh = Some (r, sh', evs)"
    and "result_status r = Completed" and "task_output_schema t = Some schema"
    and "build_request ops t agent = Some request"
    and "fst (ro_cache_get ops (sh_cache sh) (ro_cache_key ops (rq_model request) (rq_messages request))) = None"
  shows "(\<exists>s v. (s = result_output r \<or> extract_json_block (result_output r) = Some s) \<and>
      ro_parse ops s = Inr v \<and> conforms schema v) \<or>
    (\<exists>q resp. infer_round ops te 2 q = Some (Inr resp) \<and> result_output r = rs_text resp)"
proof -
  obtain ck sh1 where st: "start_task ops True te t agent sh = Some (Calling request ck, sh1)"
    by (simp add: start_task_lookup [OF assms(4)] assms(5))
  then obtain outcome request' where o: "infer_validated ops te t request = Some (outcome, request')"
    and f: "finish_task ops streaming te t ck request' outcome sh1 = (r, sh', evs)"
    using assms(1) by (auto simp: execute_task_def split: option.splits)
  obtain resp where resp: "outcome = Inr resp" "result_output r = rs_text resp"
    using finish_task_status [OF f] assms(2) by (cases outcome) auto
  obtain response where "validation_loop ops te schema (rq_prompt request) 0 2 request response = Some (Inr resp, request')"
    using o assms(3) resp by (auto simp: infer_validated_def MAX_VALIDATION_RETRIES_def split: option.splits)
  from validation_loop_response [OF this] resp show ?thesis
    unfolding extract_and_validate_def Let_def
    by (auto simp: validate_output_Valid numeral_2_eq_2 split: if_splits option.splits)
qed

definition sample_schema_task :: task where
  "sample_schema_task = with_output_schema sample_schema (task_new 1 ''t'')"

text \<open>A client that answers the first call completes the task with that answer.\<close>

lemma sample_calls:
  assumes "task_short sample_runner_ops t" and "task_output_schema t = None \<or>
      (\<exists>schema s. task_output_schema t = Some schema \<and>
         extract_and_validate sample_parse answer schema = (s, Valid))"
  shows "\<exists>r sh' evs. execute_task sample_runner_ops True False (sample_env answer) t None sample_shared =
      Some (r, sh', evs) \<and> result_status r = Completed \<and> result_output r = answer"
proof -
  obtain request where q: "build_request sample_runner_ops t None = Some request"
    using build_request_returns [OF assms(1)] by blast
  let ?resp = "\<lparr> rs_text = answer, rs_model = rq_model request, rs_provider = ''local'', rs_latency_ms = 1,
      rs_usage = \<lparr> tu_prompt_tokens = 1, tu_completion_tokens = 1, tu_total_tokens = 2 \<rparr> \<rparr>"
  have "infer_round sample_runner_ops (sample_env answer) 0 request = Some (Inr ?resp)"
    by (rule infer_round_first) (simp add: sample_env_def)
  then have "infer_validated sample_runner_ops (sample_env answer) t request = Some (Inr ?resp, request)"
    using assms(2)
    by (auto simp: infer_validated_def MAX_VALIDATION_RETRIES_def numeral_2_eq_2 sample_runner_sel)
  moreover obtain r sh' evs where
    f: "finish_task sample_runner_ops False (sample_env answer) t
      (ro_cache_key sample_runner_ops (rq_model request) (rq_messages request)) request (Inr ?resp) sample_shared = (r, sh', evs)"
    by (rule prod_cases3)
  ultimately have "execute_task sample_runner_ops True False (sample_env answer) t None sample_shared = Some (r, sh', evs)"
    using q by (simp add: execute_task_def start_task_lookup [OF q] sample_runner_sel sample_shared_def)
  with finish_task_status [OF f] show ?thesis by simp
qed

theorem schema_enforced_witness:
  "(\<exists>s v. (s = sample_response \<or> extract_json_block sample_response = Some s) \<and>
      ro_parse sample_runner_ops s = Inr v \<and> conforms sample_schema v) \<or>
   (\<exists>q resp. infer_round sample_runner_ops (sample_env sample_response) 2 q = Some (Inr resp) \<and>
      sample_response = rs_text resp)"
proof -
  have short: "task_short sample_runner_ops sample_schema_task"
    by (simp add: task_short_def sample_runner_ops_def sample_schema_task_def task_new_def with_output_schema_def)
  then obtain r sh' evs where run: "execute_task sample_runner_ops True False (sample_env sample_response)
      sample_schema_task None sample_shared = Some (r, sh', evs)"
    and r: "result_status r = Completed" "result_output r = sample_response"
    using sample_calls [of sample_schema_task sample_response] sample_validates
    by (auto simp: sample_schema_task_def with_output_schema_def)
  obtain request where "build_request sample_runner_ops sample_schema_task None = Some request"
    using build_request_returns [OF short] by blast
  from schema_enforced [OF run r(1) _ this, of sample_schema] r(2) show ?thesis
    by (simp add: sample_schema_task_def with_output_schema_def sample_runner_ops_def sample_shared_def)
qed

text \<open>The response cache ignores what is asked: after a task was answered by the model, every
  task with the same context and the same model is answered with that task's output,
  whatever its description, expected output and schema are.\<close>

theorem cached_answer_reused:
  assumes "execute_task ops True streaming te t agent sh = Some (r, sh', evs)"
    and "result_status r = Completed"
    and "\<forall>c k v. fst (ro_cache_get ops (ro_cache_insert ops k v c) k) = Some v"
    and "\<forall>c k. fst (ro_cache_get ops (snd (ro_cache_get ops c k)) k) = fst (ro_cache_get ops c k)"
    and "task_context t' = task_context t" and "select_model agent' = select_model agent"
    and "build_request ops t' agent' = Some request'"
  shows "\<exists>r' sh'' evs'. execute_task ops True streaming' te' t' agent' sh' = Some (r', sh'', evs') \<and>
    result_output r' = result_output r \<and> result_status r' = Completed"
proof -
  obtain request where q: "build_request ops t agent = Some request"
    using assms(1) by (cases "build_request ops t agent") (auto simp: execute_task_def start_task_def)
  let ?ck = "ro_cache_key ops (rq_model request) (rq_messages request)"
  have ck: "ro_cache_key ops (rq_model request') (rq_messages request') = ?ck"
    using build_request_key [OF q] build_request_key [OF assms(7)] assms(6)
      context_messages_cong [OF assms(5), of "ro_to_string_pretty ops"] by simp
  have "fst (ro_cache_get ops (sh_cache sh') ?ck) = Some (result_output r)"
  proof (cases "fst (ro_cache_get ops (sh_cache sh) ?ck)")
    case (Some answer)
    then show ?thesis using assms(1,4) by (auto simp: execute_task_def start_task_lookup [OF q])
  next
    case None
    then obtain outcome request0 sh1 where
      f: "finish_task ops streaming te t ?ck request0 outcome sh1 = (r, sh', evs)"
      using assms(1) by (auto simp: execute_task_def start_task_lookup [OF q] split: option.splits)
    then show ?thesis using assms(2,3)
      by (cases outcome) (auto simp: finish_task_def Let_def split: prod.splits)
  qed
  with ck show ?thesis by (simp add: execute_task_def start_task_lookup [OF assms(7)])
qed

theorem cached_answer_reused_witness:
  "\<exists>r' sh'' evs' sh'.
     execute_task sample_runner_ops True False (sample_env ''Rome'') (task_new 2 ''capital of Italy?'') None sh' =
       Some (r', sh'', evs') \<and> result_output r' = ''Paris''"
proof -
  have short: "task_short sample_runner_ops (task_new i ''capital of France?'')"
    "task_short sample_runner_ops (task_new i ''capital of Italy?'')" for i
    by (simp_all add: task_short_def sample_runner_ops_def task_new_def)
  obtain r sh' evs where run: "execute_task sample_runner_ops True False (sample_env ''Paris'')
      (task_new 1 ''capital of France?'') None sample_shared = Some (r, sh', evs)"
    and r: "result_status r = Completed" "result_output r = ''Paris''"
    using sample_calls [OF short(1) [of 1], of "''Paris''"] by (auto simp: task_new_def)
  obtain request where "build_request sample_runner_ops (task_new 2 ''capital of Italy?'') None = Some request"
    using build_request_returns [OF short(2)] by blast
  from cached_answer_reused [OF run r(1) _ _ _ refl this, of False "sample_env ''Rome''"] r(2) show ?thesis
    by (auto simp: sample_runner_ops_def task_new_def)
qed

end
