(* ===== verification/Join_Set.thy ===== *)
theory Join_Set
  imports Prelude
begin

text \<open>
  Concurrent tasks that are spawned together and joined, the use that
  \<open>orchestrator/crew_runner.rs\<close> makes of tokio's \<open>JoinSet\<close>. Each task is in a phase; a
  step of the executor takes one task that can move from its phase to the next one, or
  to its result. Which task moves is left to a function \<open>pick\<close>, so that a statement for
  every \<open>pick\<close> is a statement for every interleaving. Tasks are joined in the order in
  which they finish. The steps a task takes without awaiting are atomic; they touch the
  shared state through locked or atomic operations only.
\<close>

text \<open>A configuration: the tasks that are not joined yet with their phases, the shared
  state, and the results in the order of joining.\<close>

type_synonym ('i, 'ph, 's, 'r) join_config = "('i \<times> 'ph) list \<times> 's \<times> ('i \<times> 'r) list"

definition movable :: "('ph \<Rightarrow> 's \<Rightarrow> bool) \<Rightarrow> ('i \<times> 'ph) list \<Rightarrow> 's \<Rightarrow> nat list" where
  "movable enabled active s = filter (\<lambda>k. enabled (snd (active ! k)) s) [0..<length active]"

definition join_step :: "('ph \<Rightarrow> 's \<Rightarrow> bool) \<Rightarrow> ('i \<Rightarrow> 'ph \<Rightarrow> 's \<Rightarrow> ('ph + 'r) \<times> 's) \<Rightarrow> nat
    \<Rightarrow> ('i, 'ph, 's, 'r) join_config \<Rightarrow> ('i, 'ph, 's, 'r) join_config option" where
  "join_step enabled advance choice = (\<lambda>(active, s, joined).
     (let ks = movable enabled active s
      in if ks = [] then None
         else
           (let k = ks ! (choice mod length ks); (i, ph) = active ! k
            in case advance i ph s of
                 (Inl ph', s') \<Rightarrow> Some (active[k := (i, ph')], s', joined)
               | (Inr r, s') \<Rightarrow> Some (take k active @ drop (Suc k) active, s', joined @ [(i, r)]))))"

fun join_run :: "('ph \<Rightarrow> 's \<Rightarrow> bool) \<Rightarrow> ('i \<Rightarrow> 'ph \<Rightarrow> 's \<Rightarrow> ('ph + 'r) \<times> 's) \<Rightarrow> (nat \<Rightarrow> nat) \<Rightarrow> nat
    \<Rightarrow> ('i, 'ph, 's, 'r) join_config \<Rightarrow> ('i, 'ph, 's, 'r) join_config" where
  "join_run enabled advance pick 0 c = c"
| "join_run enabled advance pick (Suc n) c =
     (case join_step enabled advance (pick n) c of
        None \<Rightarrow> c
      | Some c' \<Rightarrow> join_run enabled advance pick n c')"

text \<open>All results after at most \<open>n\<close> steps; \<open>None\<close> when a task can never move again.\<close>

definition join_all :: "('ph \<Rightarrow> 's \<Rightarrow> bool) \<Rightarrow> ('i \<Rightarrow> 'ph \<Rightarrow> 's \<Rightarrow> ('ph + 'r) \<times> 's) \<Rightarrow> (nat \<Rightarrow> nat) \<Rightarrow> nat
    \<Rightarrow> ('i \<times> 'ph) list \<Rightarrow> 's \<Rightarrow> (('i \<times> 'r) list \<times> 's) option" where
  "join_all enabled advance pick n active s =
     (case join_run enabled advance pick n (active, s, []) of
        ([], s', joined) \<Rightarrow> Some (joined, s')
      | _ \<Rightarrow> None)"

section \<open>The contract of a set of joined tasks\<close>

text \<open>
  What a family of tasks promises: \<open>good active s\<close> is an invariant of the unfinished tasks
  and the shared state; while there are unfinished tasks one of them can move; every move
  lowers the rank of the phase or ends in a result that satisfies \<open>ok\<close>.
\<close>

locale joined_tasks =
  fixes enabled :: "'ph \<Rightarrow> 's \<Rightarrow> bool"
    and advance :: "'i \<Rightarrow> 'ph \<Rightarrow> 's \<Rightarrow> ('ph + 'r) \<times> 's"
    and rank :: "'ph \<Rightarrow> nat"
    and good :: "('i \<times> 'ph) list \<Rightarrow> 's \<Rightarrow> bool"
    and ok :: "'i \<Rightarrow> 'r \<Rightarrow> bool"
  assumes rank_pos: "0 < rank ph"
    and progress: "good active s \<Longrightarrow> active \<noteq> [] \<Longrightarrow> \<exists>k < length active. enabled (snd (active ! k)) s"
    and move: "good (xs @ (i, ph) # ys) s \<Longrightarrow> enabled ph s \<Longrightarrow> advance i ph s = (Inl ph', s') \<Longrightarrow>
      rank ph' < rank ph \<and> good (xs @ (i, ph') # ys) s'"
    and join: "good (xs @ (i, ph) # ys) s \<Longrightarrow> enabled ph s \<Longrightarrow> advance i ph s = (Inr r, s') \<Longrightarrow>
      ok i r \<and> good (xs @ ys) s'"
begin

definition effort :: "('i \<times> 'ph) list \<Rightarrow> nat" where
  "effort active = sum_list (map (\<lambda>(i, ph). rank ph) active)"

text \<open>The invariant of a configuration that started with the tasks \<open>all\<close>.\<close>

definition sound :: "'i multiset \<Rightarrow> ('i, 'ph, 's, 'r) join_config \<Rightarrow> bool" where
  "sound all = (\<lambda>(active, s, joined).
     good active s \<and> mset (map fst active) + mset (map fst joined) = all \<and>
     (\<forall>(i, r) \<in> set joined. ok i r))"

lemma step_sound:
  assumes "sound all (active, s, joined)" and "active \<noteq> []"
  shows "\<exists>active' s' joined'. join_step enabled advance choice (active, s, joined) = Some (active', s', joined') \<and>
    sound all (active', s', joined') \<and> effort active' < effort active"
proof -
  let ?ks = "movable enabled active s"
  have "?ks \<noteq> []"
    using progress [of active s] assms by (auto simp: sound_def movable_def filter_empty_conv)
  then have "?ks ! (choice mod length ?ks) \<in> set ?ks" by simp
  then obtain k where k: "k = ?ks ! (choice mod length ?ks)" "k < length active" "enabled (snd (active ! k)) s"
    by (auto simp: movable_def)
  obtain i ph where ip: "active ! k = (i, ph)" by (cases "active ! k")
  define xs ys where "xs = take k active" and "ys = drop (Suc k) active"
  have act: "active = xs @ (i, ph) # ys" "length xs = k"
    using k(2) ip by (simp_all add: xs_def ys_def id_take_nth_drop [symmetric])
      (metis id_take_nth_drop)
  have g: "good (xs @ (i, ph) # ys) s" "enabled ph s"
    using assms(1) k(3) ip act by (auto simp: sound_def)
  show ?thesis
  proof (cases "advance i ph s")
    case (Pair out s')
    show ?thesis
    proof (cases out)
      case (Inl ph')
      have "join_step enabled advance choice (active, s, joined) = Some (xs @ (i, ph') # ys, s', joined)"
        using \<open>?ks \<noteq> []\<close> k ip Pair Inl act by (simp add: join_step_def Let_def list_update_append)
      moreover have "sound all (xs @ (i, ph') # ys, s', joined)" "effort (xs @ (i, ph') # ys) < effort active"
        using move [OF g] Pair Inl assms(1) act by (auto simp: sound_def effort_def)
      ultimately show ?thesis by blast
    next
      case (Inr r)
      have "join_step enabled advance choice (active, s, joined) = Some (xs @ ys, s', joined @ [(i, r)])"
        using \<open>?ks \<noteq> []\<close> k ip Pair Inr by (simp add: join_step_def Let_def xs_def ys_def)
      moreover have "sound all (xs @ ys, s', joined @ [(i, r)])"
        using join [OF g] Pair Inr assms(1) act by (auto simp: sound_def)
      moreover have "effort (xs @ ys) < effort active" using act rank_pos by (simp add: effort_def)
      ultimately show ?thesis by blast
    qed
  qed
qed

lemma run_sound: "sound all c \<Longrightarrow> sound all (join_run enabled advance pick n c)"
proof (induction n arbitrary: c)
  case (Suc n)
  obtain active s joined where c: "c = (active, s, joined)" by (rule prod_cases3)
  show ?case
  proof (cases "active = []")
    case True
    with Suc.prems c show ?thesis by (simp add: join_step_def movable_def)
  next
    case False
    from step_sound [OF _ this] Suc c show ?thesis by (metis join_run.simps(2) option.simps(5))
  qed
qed simp

text \<open>The invariant holds after every number of steps.\<close>

lemma run_keeps_good:
  assumes "good active s" and "join_run enabled advance pick n (active, s, []) = (active', s', joined)"
  shows "good active' s'"
proof -
  have "sound (mset (map fst active)) (active, s, [])" using assms(1) by (simp add: sound_def)
  from run_sound [OF this, of pick n] assms(2) show ?thesis by (simp add: sound_def)
qed

lemma run_done:
  assumes "sound all (active, s, joined)" and "effort active \<le> n"
  shows "\<exists>s' joined'. join_run enabled advance pick n (active, s, joined) = ([], s', joined')"
  using assms
proof (induction n arbitrary: active s joined)
  case 0
  then have "active = []" using rank_pos [of "snd (hd active)"] by (cases active) (auto simp: effort_def)
  then show ?case by simp
next
  case (Suc n)
  show ?case
  proof (cases "active = []")
    case True
    then show ?thesis by (simp add: join_step_def movable_def)
  next
    case False
    obtain active' s' joined' where
      st: "join_step enabled advance (pick n) (active, s, joined) = Some (active', s', joined')"
      and "sound all (active', s', joined')" "effort active' < effort active"
      using step_sound [OF Suc.prems(1) False] by blast
    with Suc.IH [of active' s' joined'] Suc.prems(2) show ?thesis by simp
  qed
qed

text \<open>Every task is joined exactly once, with a result that is in order.\<close>

lemma all_joined:
  assumes "good active s" and "effort active \<le> n"
  shows "\<exists>joined s'. join_all enabled advance pick n active s = Some (joined, s') \<and> good [] s' \<and>
    mset (map fst joined) = mset (map fst active) \<and> (\<forall>(i, r) \<in> set joined. ok i r)"
proof -
  have s: "sound (mset (map fst active)) (active, s, [])" using assms(1) by (simp add: sound_def)
  obtain s' joined where "join_run enabled advance pick n (active, s, []) = ([], s', joined)"
    using run_done [OF s assms(2)] by blast
  with run_sound [OF s, of pick n] show ?thesis by (auto simp: join_all_def sound_def)
qed

end

end
