(* ===== verification/Crew_Runner.thy ===== *)
theory Crew_Runner
  imports Task_Execution Scheduler Join_Set
begin

text \<open>
  The crew life cycle, \<open>CrewRunner\<close> in \<open>orchestrator/crew_runner.rs\<close>: the sequential, the
  parallel and the DAG mode, and the aggregation of the results.

  The surroundings of a run are the record \<open>run_env\<close>: what happens while each task runs
  (by the position of the task), what the checks of the cancellation flag read, which of
  the concurrent tasks moves at each step, and the time the run took. A channel of crew
  events and an audit chain are the lists of what was sent to them. \<open>None\<close> means that the
  run does not return: it panics, or it waits forever.
\<close>

record 'e run_env =
  re_task :: "nat \<Rightarrow> 'e task_env"
  re_cancel_loop :: "nat \<Rightarrow> bool"
  re_cancel_spawned :: "nat \<Rightarrow> nat \<Rightarrow> bool"
  re_cancel_end :: bool
  re_pick :: "nat \<Rightarrow> nat \<Rightarrow> nat"
  re_join_error :: "nat \<Rightarrow> string"
  re_max_permits :: nat
  re_wall_ms :: u64

record audit_record =
  au_event :: string
  au_level :: string
  au_message :: string
  au_metadata :: json

record ('p, 'c, 't) crew_runner =
  cr_spec :: "'p crew_spec"
  cr_events :: "crew_event list option"
  cr_llm :: bool
  cr_shared :: "('c, 't) shared"
  cr_audit :: "audit_record list option"

section \<open>Construction, events and audit\<close>

definition crew_runner_new :: "('c, 't) shared \<Rightarrow> 'p crew_spec \<Rightarrow> ('p, 'c, 't) crew_runner" where
  "crew_runner_new fresh spec =
     \<lparr> cr_spec = spec, cr_events = None, cr_llm = False, cr_shared = fresh, cr_audit = None \<rparr>"

definition with_cache :: "'c \<Rightarrow> ('p, 'c, 't) crew_runner \<Rightarrow> ('p, 'c, 't) crew_runner" where
  "with_cache cache cr = cr\<lparr>cr_shared := (cr_shared cr)\<lparr>sh_cache := cache\<rparr>\<rparr>"

definition with_cost_tracker :: "'t \<Rightarrow> ('p, 'c, 't) crew_runner \<Rightarrow> ('p, 'c, 't) crew_runner" where
  "with_cost_tracker tracker cr = cr\<lparr>cr_shared := (cr_shared cr)\<lparr>sh_cost := tracker\<rparr>\<rparr>"

definition with_llm :: "('p, 'c, 't) crew_runner \<Rightarrow> ('p, 'c, 't) crew_runner" where
  "with_llm cr = cr\<lparr>cr_llm := True\<rparr>"

definition with_audit :: "audit_record list \<Rightarrow> ('p, 'c, 't) crew_runner \<Rightarrow> ('p, 'c, 't) crew_runner" where
  "with_audit chain cr = cr\<lparr>cr_audit := Some chain\<rparr>"

definition with_events :: "crew_event list \<Rightarrow> ('p, 'c, 't) crew_runner \<Rightarrow> ('p, 'c, 't) crew_runner" where
  "with_events tx cr = cr\<lparr>cr_events := Some tx\<rparr>"

definition send_event :: "crew_event \<Rightarrow> ('p, 'c, 't) crew_runner \<Rightarrow> ('p, 'c, 't) crew_runner" where
  "send_event ev cr = cr\<lparr>cr_events := map_option (\<lambda>evs. evs @ [ev]) (cr_events cr)\<rparr>"

definition emit :: "('p, 'c, 't, 'e) runner_ops \<Rightarrow> string \<Rightarrow> json \<Rightarrow> ('p, 'c, 't) crew_runner
    \<Rightarrow> ('p, 'c, 't) crew_runner" where
  "emit ops ty data cr =
     send_event \<lparr> ev_crew_id = ro_uuid_str ops (crew_id (cr_spec cr)), ev_event_type = ty, ev_data = data \<rparr> cr"

definition audit_record_event :: "string \<Rightarrow> string \<Rightarrow> string \<Rightarrow> json \<Rightarrow> ('p, 'c, 't) crew_runner
    \<Rightarrow> ('p, 'c, 't) crew_runner" where
  "audit_record_event event level message metadata cr =
     cr\<lparr>cr_audit := map_option (\<lambda>log. log @
          [\<lparr> au_event = event, au_level = level, au_message = message, au_metadata = metadata \<rparr>]) (cr_audit cr)\<rparr>"

text \<open>\<open>format!("{:?}", status)\<close>.\<close>

fun task_status_debug :: "task_status \<Rightarrow> string" where
  "task_status_debug Pending = ''Pending''"
| "task_status_debug Queued = ''Queued''"
| "task_status_debug Running = ''Running''"
| "task_status_debug Completed = ''Completed''"
| "task_status_debug Failed = ''Failed''"
| "task_status_debug Cancelled = ''Cancelled''"

fun crew_status_debug :: "crew_status \<Rightarrow> string" where
  "crew_status_debug CrPending = ''Pending''"
| "crew_status_debug CrRunning = ''Running''"
| "crew_status_debug CrCompleted = ''Completed''"
| "crew_status_debug CrFailed = ''Failed''"
| "crew_status_debug CrCancelled = ''Cancelled''"

definition agent_json :: "'p agent_definition option \<Rightarrow> json" where
  "agent_json agent = (case agent of None \<Rightarrow> JNull | Some a \<Rightarrow> JString (agent_key a))"

definition emit_started :: "('p, 'c, 't, 'e) runner_ops \<Rightarrow> task \<Rightarrow> 'p agent_definition option
    \<Rightarrow> ('p, 'c, 't) crew_runner \<Rightarrow> ('p, 'c, 't) crew_runner" where
  "emit_started ops t agent =
     emit ops ''task_started''
       (JObject [(''task_id'', JString (ro_uuid_str ops (task_id t))),
                 (''description'', JString (task_description t)), (''agent'', agent_json agent)])"

definition emit_completed :: "('p, 'c, 't, 'e) runner_ops \<Rightarrow> task_result
    \<Rightarrow> ('p, 'c, 't) crew_runner \<Rightarrow> ('p, 'c, 't) crew_runner" where
  "emit_completed ops r =
     emit ops ''task_completed''
       (JObject [(''task_id'', JString (ro_uuid_str ops (result_task_id r))),
                 (''status'', JString (task_status_debug (result_status r)))])"

definition set_status :: "nat \<Rightarrow> task_status \<Rightarrow> ('p, 'c, 't) crew_runner \<Rightarrow> ('p, 'c, 't) crew_runner" where
  "set_status i st cr =
     cr\<lparr>cr_spec := (cr_spec cr)\<lparr>crew_tasks := (crew_tasks (cr_spec cr))[i :=
          (crew_tasks (cr_spec cr) ! i)\<lparr>task_status := st\<rparr>]\<rparr>\<rparr>"

section \<open>Sequential mode\<close>

definition sequential_step :: "('p, 'c, 't, 'e) runner_ops \<Rightarrow> 'e run_env \<Rightarrow> nat \<Rightarrow> ('p, 'c, 't) crew_runner
    \<Rightarrow> (task_result \<times> ('p, 'c, 't) crew_runner) option" where
  "sequential_step ops env i cr =
     (let agent = pick_best_agent (ro_personality ops) (crew_agents (cr_spec cr)) (crew_tasks (cr_spec cr) ! i);
          cr = set_status i Queued cr;
          cr = emit_started ops (crew_tasks (cr_spec cr) ! i) agent cr;
          cr = set_status i Running cr
      in case execute_task ops (cr_llm cr) (cr_events cr \<noteq> None) (re_task env i)
                (crew_tasks (cr_spec cr) ! i) agent (cr_shared cr) of
           None \<Rightarrow> None
         | Some (result, sh, evs) \<Rightarrow>
             (let cr = fold send_event evs (cr\<lparr>cr_shared := sh\<rparr>);
                  cr = set_status i (result_status result) cr;
                  cr = emit_completed ops result cr;
                  cr = audit_record_event ''task_completed''
                    (if result_status result = Completed then ''info'' else ''error'')
                    (task_description (crew_tasks (cr_spec cr) ! i))
                    (JObject [(''crew_id'', JString (ro_uuid_str ops (crew_id (cr_spec cr)))),
                              (''task_id'', JString (ro_uuid_str ops (result_task_id result))),
                              (''status'', JString (task_status_debug (result_status result))),
                              (''agent'', agent_json agent)]) cr
              in Some (result, cr)))"

fun sequential_loop :: "('p, 'c, 't, 'e) runner_ops \<Rightarrow> 'e run_env \<Rightarrow> nat list \<Rightarrow> task_result list
    \<Rightarrow> ('p, 'c, 't) crew_runner \<Rightarrow> (task_result list \<times> ('p, 'c, 't) crew_runner) option" where
  "sequential_loop ops env [] results cr = Some (results, cr)"
| "sequential_loop ops env (i # is) results cr =
     (if re_cancel_loop env i then Some (results, cr)
      else case sequential_step ops env i cr of
        None \<Rightarrow> None
      | Some (result, cr') \<Rightarrow> sequential_loop ops env is (results @ [result]) cr')"

definition run_sequential :: "('p, 'c, 't, 'e) runner_ops \<Rightarrow> 'e run_env \<Rightarrow> ('p, 'c, 't) crew_runner
    \<Rightarrow> (task_result list \<times> ('p, 'c, 't) crew_runner) option" where
  "run_sequential ops env cr = sequential_loop ops env [0..<length (crew_tasks (cr_spec cr))] [] cr"

section \<open>Parallel mode\<close>

text \<open>
  A spawned task checks the cancellation flag, waits for a permit, checks the flag again,
  and executes the task; it holds the permit while the inference is awaited. The semaphore
  is never closed, so acquiring a permit does not fail.
\<close>

datatype par_phase = Spawned | Waiting | InFlight inference_request string

definition cancelled_result :: "task \<Rightarrow> task_result" where
  "cancelled_result t =
     \<lparr> result_task_id = task_id t, result_output = ''crew cancelled'', result_status = Failed,
       result_metadata = hm_empty \<rparr>"

fun par_enabled :: "par_phase \<Rightarrow> nat \<times> ('c, 't) shared \<Rightarrow> bool" where
  "par_enabled Waiting (permits, _) = (0 < permits)"
| "par_enabled _ _ = True"

fun par_advance :: "('p, 'c, 't, 'e) runner_ops \<Rightarrow> bool \<Rightarrow> 'e run_env \<Rightarrow> (task \<times> 'p agent_definition option) list
    \<Rightarrow> nat \<Rightarrow> par_phase \<Rightarrow> nat \<times> ('c, 't) shared
    \<Rightarrow> (par_phase + task_result option) \<times> nat \<times> ('c, 't) shared" where
  "par_advance ops llm env snapshots i Spawned (permits, sh) =
     (if re_cancel_spawned env i 0
      then (Inr (Some (cancelled_result (fst (snapshots ! i)))), permits, sh)
      else (Inl Waiting, permits, sh))"
| "par_advance ops llm env snapshots i Waiting (permits, sh) =
     (if re_cancel_spawned env i 1
      then (Inr (Some (cancelled_result (fst (snapshots ! i)))), permits, sh)
      else case start_task ops llm (re_task env i) (fst (snapshots ! i)) (snd (snapshots ! i)) sh of
        None \<Rightarrow> (Inr None, permits, sh)
      | Some (Finished r, sh') \<Rightarrow> (Inr (Some r), permits, sh')
      | Some (Calling request ck, sh') \<Rightarrow> (Inl (InFlight request ck), permits - 1, sh'))"
| "par_advance ops llm env snapshots i (InFlight request ck) (permits, sh) =
     (case infer_validated ops (re_task env i) (fst (snapshots ! i)) request of
        None \<Rightarrow> (Inr None, permits + 1, sh)
      | Some (outcome, request') \<Rightarrow>
          (case finish_task ops False (re_task env i) (fst (snapshots ! i)) ck request' outcome sh of
             (r, sh', _) \<Rightarrow> (Inr (Some r), permits + 1, sh')))"

definition par_on_join :: "('p, 'c, 't, 'e) runner_ops \<Rightarrow> 'e run_env \<Rightarrow> nat \<times> task_result option
    \<Rightarrow> task_result list \<times> ('p, 'c, 't) crew_runner \<Rightarrow> task_result list \<times> ('p, 'c, 't) crew_runner" where
  "par_on_join ops env = (\<lambda>(i, res) (results, cr).
     (case res of
        Some r \<Rightarrow> (results @ [r], emit_completed ops r cr)
      | None \<Rightarrow>
          (results @ [\<lparr> result_task_id = 0, result_output = ''task panicked: '' @ re_join_error env i,
             result_status = Failed, result_metadata = hm_empty \<rparr>], cr)))"

definition apply_statuses :: "task_result list \<Rightarrow> task list \<Rightarrow> task list" where
  "apply_statuses results ts =
     (let status_map = fold (\<lambda>r. hm_insert (result_task_id r) (result_status r)) results hm_empty
      in map (\<lambda>t. case hm_get status_map (task_id t) of None \<Rightarrow> t | Some s \<Rightarrow> t\<lparr>task_status := s\<rparr>) ts)"

definition map_tasks :: "(task list \<Rightarrow> task list) \<Rightarrow> ('p, 'c, 't) crew_runner \<Rightarrow> ('p, 'c, 't) crew_runner" where
  "map_tasks f cr = cr\<lparr>cr_spec := (cr_spec cr)\<lparr>crew_tasks := f (crew_tasks (cr_spec cr))\<rparr>\<rparr>"

definition task_snapshots :: "('p, 'c, 't, 'e) runner_ops \<Rightarrow> ('p, 'c, 't) crew_runner
    \<Rightarrow> (task \<times> 'p agent_definition option) list" where
  "task_snapshots ops cr =
     map (\<lambda>t. (t, pick_best_agent (ro_personality ops) (crew_agents (cr_spec cr)) t)) (crew_tasks (cr_spec cr))"

definition run_parallel :: "('p, 'c, 't, 'e) runner_ops \<Rightarrow> 'e run_env \<Rightarrow> nat \<Rightarrow> ('p, 'c, 't) crew_runner
    \<Rightarrow> (task_result list \<times> ('p, 'c, 't) crew_runner) option" where
  "run_parallel ops env max_concurrency cr =
     (if re_max_permits env < max_concurrency then None
      else
        (let cr = map_tasks (map (task_status_update (\<lambda>_. Queued))) cr;
             snapshots = task_snapshots ops cr;
             cr = fold (\<lambda>(t, agent). emit_started ops t agent) snapshots cr;
             n = length snapshots
         in case join_all par_enabled (par_advance ops (cr_llm cr) env snapshots) (re_pick env 0) (3 * n)
                   (map (\<lambda>i. (i, Spawned)) [0..<n]) (max_concurrency, cr_shared cr) of
              None \<Rightarrow> None
            | Some (joined, _, sh) \<Rightarrow>
                (let (results, cr) = fold (par_on_join ops env) joined ([], cr\<lparr>cr_shared := sh\<rparr>)
                 in Some (results, map_tasks (apply_statuses results) cr))))"

section \<open>DAG mode\<close>

text \<open>A task of a wave executes at once; the wave has no semaphore.\<close>

datatype dag_phase = Ready | Asked inference_request string

fun dag_advance :: "('p, 'c, 't, 'e) runner_ops \<Rightarrow> bool \<Rightarrow> 'e run_env \<Rightarrow> (nat, task \<times> 'p agent_definition option) hmap
    \<Rightarrow> nat \<Rightarrow> dag_phase \<Rightarrow> ('c, 't) shared \<Rightarrow> (dag_phase + task_result option) \<times> ('c, 't) shared" where
  "dag_advance ops llm env wave i Ready sh =
     (case hm_get wave i of
        None \<Rightarrow> (Inr None, sh)
      | Some (t, agent) \<Rightarrow>
          (case start_task ops llm (re_task env i) t agent sh of
             None \<Rightarrow> (Inr None, sh)
           | Some (Finished r, sh') \<Rightarrow> (Inr (Some r), sh')
           | Some (Calling request ck, sh') \<Rightarrow> (Inl (Asked request ck), sh')))"
| "dag_advance ops llm env wave i (Asked request ck) sh =
     (case hm_get wave i of
        None \<Rightarrow> (Inr None, sh)
      | Some (t, agent) \<Rightarrow>
          (case infer_validated ops (re_task env i) t request of
             None \<Rightarrow> (Inr None, sh)
           | Some (outcome, request') \<Rightarrow>
               (case finish_task ops False (re_task env i) t ck request' outcome sh of
                  (r, sh', _) \<Rightarrow> (Inr (Some r), sh'))))"

text \<open>\<open>for id in &ready\<close>: mark the task queued, pick its agent, emit the event and take the
  snapshot that is spawned. The result maps positions to snapshots.\<close>

definition dag_spawn :: "('p, 'c, 't, 'e) runner_ops \<Rightarrow> nat
    \<Rightarrow> (nat, task \<times> 'p agent_definition option) hmap \<times> ('p, 'c, 't) crew_runner
    \<Rightarrow> (nat, task \<times> 'p agent_definition option) hmap \<times> ('p, 'c, 't) crew_runner" where
  "dag_spawn ops idx = (\<lambda>(wave, cr).
     (let cr = set_status idx Queued cr;
          t = crew_tasks (cr_spec cr) ! idx;
          agent = pick_best_agent (ro_personality ops) (crew_agents (cr_spec cr)) t
      in (wave @ [(idx, t, agent)], emit_started ops t agent cr)))"

record ('p, 'c, 't) dag_state =
  ds_completed :: "task_id list"
  ds_results :: "task_result list"
  ds_wave_failed :: bool
  ds_runner :: "('p, 'c, 't) crew_runner"

definition dag_on_join :: "('p, 'c, 't, 'e) runner_ops \<Rightarrow> (task_id, nat) hmap \<Rightarrow> nat \<times> task_result option
    \<Rightarrow> ('p, 'c, 't) dag_state \<Rightarrow> ('p, 'c, 't) dag_state" where
  "dag_on_join ops task_map = (\<lambda>(i, res) st.
     (case res of
        Some tr \<Rightarrow>
          (let cr = (case hm_get task_map (result_task_id tr) of
                       None \<Rightarrow> ds_runner st
                     | Some idx \<Rightarrow> set_status idx (result_status tr) (ds_runner st));
               cr = emit_completed ops tr cr;
               st = st\<lparr>ds_runner := cr\<rparr>;
               st = (if result_status tr = Failed then st\<lparr>ds_wave_failed := True\<rparr>
                     else st\<lparr>ds_completed := List.insert (result_task_id tr) (ds_completed st)\<rparr>)
           in st\<lparr>ds_results := ds_results st @ [tr]\<rparr>)
      | None \<Rightarrow> st\<lparr>ds_wave_failed := True\<rparr>))"

text \<open>\<open>dep_sets.get(id).is_none_or(|deps| deps.is_subset(&completed))\<close>.\<close>

definition deps_done :: "(task_id, task_id list) hmap \<Rightarrow> task_id list \<Rightarrow> task_id \<Rightarrow> bool" where
  "deps_done dep_sets completed i =
     (case hm_get dep_sets i of
        None \<Rightarrow> True
      | Some deps \<Rightarrow> list_all (\<lambda>d. d \<in> set completed) deps)"

text \<open>One wave: spawn the ready tasks, join them, and record the results. \<open>task_map[id]\<close> and
  the indexing of the task list panic for an unknown id.\<close>

definition dag_wave :: "('p, 'c, 't, 'e) runner_ops \<Rightarrow> 'e run_env \<Rightarrow> (task_id, nat) hmap \<Rightarrow> nat \<Rightarrow> task_id list
    \<Rightarrow> ('p, 'c, 't) dag_state \<Rightarrow> ('p, 'c, 't) dag_state option" where
  "dag_wave ops env task_map w ready st =
     (if list_all (\<lambda>i. hm_get task_map i \<noteq> None) ready then
        (let idxs = map (\<lambda>i. the (hm_get task_map i)) ready;
             (wave, cr) = fold (dag_spawn ops) idxs ([], ds_runner st)
         in case join_all (\<lambda>_ _. True) (dag_advance ops (cr_llm cr) env wave) (re_pick env w) (2 * length idxs)
                   (map (\<lambda>i. (i, Ready)) idxs) (cr_shared cr) of
              None \<Rightarrow> None
            | Some (joined, sh) \<Rightarrow>
                Some (fold (dag_on_join ops task_map) joined
                  (st\<lparr>ds_wave_failed := False, ds_runner := cr\<lparr>cr_shared := sh\<rparr>\<rparr>)))
      else None)"

function dag_loop :: "('p, 'c, 't, 'e) runner_ops \<Rightarrow> 'e run_env \<Rightarrow> (task_id, task_id list) hmap
    \<Rightarrow> (task_id, nat) hmap \<Rightarrow> nat \<Rightarrow> task_id list \<Rightarrow> ('p, 'c, 't) dag_state
    \<Rightarrow> (task_result list res \<times> ('p, 'c, 't) crew_runner) option" where
  "dag_loop ops env dep_sets task_map w remaining st =
     (if remaining = [] \<or> re_cancel_loop env w then Some (Inr (ds_results st), ds_runner st)
      else
        (let ready = filter (deps_done dep_sets (ds_completed st)) remaining;
             not_ready = filter (\<lambda>i. \<not> deps_done dep_sets (ds_completed st) i) remaining
         in if ready = [] then
              Some (Inl (Scheduling ''DAG deadlock: no ready tasks but remaining exist''), ds_runner st)
            else case dag_wave ops env task_map w ready st of
              None \<Rightarrow> None
            | Some st' \<Rightarrow>
                if ds_wave_failed st' \<and> not_ready \<noteq> [] \<and>
                   \<not> list_ex (deps_done dep_sets (ds_completed st')) not_ready
                then Some (Inr (ds_results st'), ds_runner st')
                else dag_loop ops env dep_sets task_map (Suc w) not_ready st'))"
  by pat_completeness auto

termination dag_loop
proof (relation "measure (\<lambda>(_, _, _, _, _, remaining, _). length remaining)", goal_cases)
  case 1
  then show ?case by simp
next
  case (2 ops env dep_sets task_map w remaining st ready not_ready st')
  then have "\<exists>i \<in> set remaining. deps_done dep_sets (ds_completed st) i" by (auto simp: filter_empty_conv)
  then have "length not_ready < length remaining"
    unfolding 2(3) by (auto intro: length_filter_less)
  then show ?case by simp
qed

declare dag_loop.simps [simp del]

definition run_dag :: "('p, 'c, 't, 'e) runner_ops \<Rightarrow> 'e run_env \<Rightarrow> ('p, 'c, 't) crew_runner
    \<Rightarrow> (task_result list res \<times> ('p, 'c, 't) crew_runner) option" where
  "run_dag ops env cr =
     (let ts = crew_tasks (cr_spec cr)
      in case topological_sort_tasks ts of
           None \<Rightarrow> None
         | Some (Inl e) \<Rightarrow> Some (Inl e, cr)
         | Some (Inr order) \<Rightarrow>
             (let dep_sets = fold (\<lambda>t. hm_insert (task_id t) (remdups (task_dependencies t))) ts hm_empty;
                  task_map = fold (\<lambda>(i, t). hm_insert (task_id t) i) (enumerate 0 ts) hm_empty
              in dag_loop ops env dep_sets task_map 0 order
                   \<lparr> ds_completed = [], ds_results = [], ds_wave_failed = False, ds_runner = cr \<rparr>))"

section \<open>The whole run\<close>

text \<open>\<open>Value::as_u64\<close> and \<open>as_f64\<close> on the numbers that the metadata holds.\<close>

fun json_as_u64 :: "json \<Rightarrow> u64 option" where
  "json_as_u64 (JNumber q) =
     (if snd (quotient_of q) = 1 \<and> 0 \<le> q \<and> q < 2 ^ 64 then Some (of_nat (nat (fst (quotient_of q)))) else None)"
| "json_as_u64 _ = None"

fun json_as_f64 :: "json \<Rightarrow> rat option" where
  "json_as_f64 (JNumber q) = Some q"
| "json_as_f64 _ = None"

definition result_cost :: "task_result \<Rightarrow> rat option" where
  "result_cost r =
     (case Option.bind (hm_get (result_metadata r) ''cost_usd'') json_as_f64 of
        Some c \<Rightarrow> if 0 < c then Some c else None
      | None \<Rightarrow> None)"

definition task_durations :: "task_result list \<Rightarrow> (task_id, u64) hmap" where
  "task_durations results =
     fold (\<lambda>r m. case Option.bind (hm_get (result_metadata r) ''task_duration_ms'') json_as_u64 of
                   None \<Rightarrow> m | Some ms \<Rightarrow> hm_insert (result_task_id r) ms m) results hm_empty"

definition task_costs :: "task_result list \<Rightarrow> (task_id, rat) hmap" where
  "task_costs results =
     fold (\<lambda>r m. case result_cost r of None \<Rightarrow> m | Some c \<Rightarrow> hm_insert (result_task_id r) c m) results hm_empty"

definition agent_costs :: "task_result list \<Rightarrow> (string, rat) hmap" where
  "agent_costs results =
     fold (\<lambda>r m. case (result_cost r, Option.bind (hm_get (result_metadata r) ''agent'') as_str) of
                   (Some c, Some key) \<Rightarrow>
                     hm_insert key ((case hm_get m key of None \<Rightarrow> 0 | Some x \<Rightarrow> x) + c) m
                 | _ \<Rightarrow> m) results hm_empty"

definition crew_outcome :: "bool \<Rightarrow> task_result list \<Rightarrow> crew_status" where
  "crew_outcome cancelled results =
     (if cancelled then CrCancelled
      else if list_all (\<lambda>r. result_status r = Completed) results then CrCompleted
      else CrFailed)"

definition run_mode :: "('p, 'c, 't, 'e) runner_ops \<Rightarrow> 'e run_env \<Rightarrow> ('p, 'c, 't) crew_runner
    \<Rightarrow> (task_result list res \<times> ('p, 'c, 't) crew_runner) option" where
  "run_mode ops env cr =
     (case crew_process (cr_spec cr) of
        Sequential \<Rightarrow> map_option (\<lambda>(rs, cr). (Inr rs, cr)) (run_sequential ops env cr)
      | Parallel max_concurrency \<Rightarrow>
          map_option (\<lambda>(rs, cr). (Inr rs, cr)) (run_parallel ops env max_concurrency cr)
      | Dag \<Rightarrow> run_dag ops env cr
      | Hierarchical _ \<Rightarrow> map_option (\<lambda>(rs, cr). (Inr rs, cr)) (run_sequential ops env cr))"

text \<open>The sandbox strength, which comes from the kavach crate when that feature is on, is an
  argument.\<close>

definition crew_run :: "('p, 'c, 't, 'e) runner_ops \<Rightarrow> u8 option \<Rightarrow> 'e run_env \<Rightarrow> ('p, 'c, 't) crew_runner
    \<Rightarrow> (crew_state res \<times> ('p, 'c, 't) crew_runner) option" where
  "crew_run ops strength env cr =
     (let cr = emit ops ''crew_started''
            (JObject [(''name'', JString (crew_name (cr_spec cr))),
                      (''task_count'', JNumber (of_nat (length (crew_tasks (cr_spec cr)))))]) cr
      in case run_mode ops env cr of
           None \<Rightarrow> None
         | Some (Inl e, cr) \<Rightarrow> Some (Inl e, cr)
         | Some (Inr results, cr) \<Rightarrow>
             (let status = crew_outcome (re_cancel_end env) results;
                  task_cost_usd = task_costs results;
                  profile = \<lparr> prof_wall_ms = re_wall_ms env, prof_task_ms = task_durations results,
                              prof_task_count = length results,
                              prof_cost_usd = sum_list (hm_values task_cost_usd),
                              prof_agent_cost_usd = agent_costs results,
                              prof_task_cost_usd = task_cost_usd,
                              prof_sandbox_strength = strength \<rparr>;
                  cr = emit ops ''crew_completed''
                    (JObject [(''status'', JString (crew_status_debug status)),
                              (''task_count'', JNumber (of_nat (length results))),
                              (''wall_ms'', json_u64 (re_wall_ms env))]) cr
              in Some (Inr \<lparr> state_crew_id = crew_id (cr_spec cr), state_status = status,
                            state_results = results, state_profile = Some profile \<rparr>, cr)))"

end
