(* ===== verification/Crew_Modes.thy ===== *)
theory Crew_Modes
  imports Crew_Runner
begin

text \<open>
  What the sequential and the parallel mode of \<open>CrewRunner\<close> guarantee: which tasks get a
  result, in which order, the bound on the tasks in flight, and that the run returns.
\<close>

section \<open>Events, audit and statuses do not touch the rest\<close>

lemma send_event_simps [simp]:
  "cr_spec (send_event ev cr) = cr_spec cr" "cr_shared (send_event ev cr) = cr_shared cr"
  "cr_llm (send_event ev cr) = cr_llm cr" "(cr_events (send_event ev cr) = None) = (cr_events cr = None)"
  by (simp_all add: send_event_def)

lemma fold_send_simps [simp]:
  "cr_spec (fold send_event evs cr) = cr_spec cr" "cr_llm (fold send_event evs cr) = cr_llm cr"
  "cr_shared (fold send_event evs cr) = cr_shared cr"
  by (induction evs arbitrary: cr) simp_all

lemma emit_simps [simp]:
  "cr_spec (emit ops ty d cr) = cr_spec cr" "cr_shared (emit ops ty d cr) = cr_shared cr"
  "cr_llm (emit ops ty d cr) = cr_llm cr"
  by (simp_all add: emit_def)

lemma emit_started_simps [simp]:
  "cr_spec (emit_started ops t a cr) = cr_spec cr" "cr_shared (emit_started ops t a cr) = cr_shared cr"
  "cr_llm (emit_started ops t a cr) = cr_llm cr"
  by (simp_all add: emit_started_def)

lemma emit_completed_simps [simp]:
  "cr_spec (emit_completed ops r cr) = cr_spec cr" "cr_shared (emit_completed ops r cr) = cr_shared cr"
  "cr_llm (emit_completed ops r cr) = cr_llm cr"
  by (simp_all add: emit_completed_def)

lemma audit_simps [simp]:
  "cr_spec (audit_record_event e l m d cr) = cr_spec cr"
  "cr_llm (audit_record_event e l m d cr) = cr_llm cr"
  by (simp_all add: audit_record_event_def)

abbreviation tasks_of :: "('p, 'c, 't) crew_runner \<Rightarrow> task list" where
  "tasks_of cr \<equiv> crew_tasks (cr_spec cr)"

lemma set_status_simps [simp]:
  "tasks_of (set_status i st cr) = (tasks_of cr)[i := (tasks_of cr ! i)\<lparr>task_status := st\<rparr>]"
  "crew_id (cr_spec (set_status i st cr)) = crew_id (cr_spec cr)"
  "crew_agents (cr_spec (set_status i st cr)) = crew_agents (cr_spec cr)"
  "cr_llm (set_status i st cr) = cr_llm cr" "cr_shared (set_status i st cr) = cr_shared cr"
  by (simp_all add: set_status_def)

text \<open>Executing a task does not depend on its status.\<close>

definition same_task :: "task \<Rightarrow> task \<Rightarrow> bool" where
  "same_task t t' \<longleftrightarrow> t'\<lparr>task_status := task_status t\<rparr> = t"

lemma same_taskD:
  assumes "same_task t t'"
  shows "task_id t' = task_id t" "task_description t' = task_description t" "task_context t' = task_context t"
    "task_expected_output t' = task_expected_output t" "task_output_schema t' = task_output_schema t"
    "task_dependencies t' = task_dependencies t"
  using assms by (auto simp: same_task_def) (metis task.surjective task.update_convs(6) task.ext_inject)+

lemma same_task_refl [simp]: "same_task t t" "same_task t (t\<lparr>task_status := st\<rparr>)"
  by (simp_all add: same_task_def)

lemma task_short_same: "same_task t t' \<Longrightarrow> task_short ops t' = task_short ops t"
  by (simp add: task_short_def same_taskD)

lemma infer_validated_same: "same_task t t' \<Longrightarrow> infer_validated ops te t' = infer_validated ops te t"
  by (rule ext) (simp only: infer_validated_def same_taskD(5))

section \<open>Results in order\<close>

text \<open>A result of a task: it carries the task's id, says \<open>Completed\<close> or \<open>Failed\<close>, and names
  no agent.\<close>

definition result_of :: "task \<Rightarrow> task_result \<Rightarrow> bool" where
  "result_of t r \<longleftrightarrow> result_task_id r = task_id t \<and> result_status r \<in> {Completed, Failed} \<and>
     hm_get (result_metadata r) ''agent'' = None"

lemma start_task_result_of:
  "start_task ops llm te t agent sh = Some (Finished r, sh') \<Longrightarrow> result_of t r"
  by (auto simp: result_of_def start_task_no_agent dest: start_task_Finished)

lemma finish_task_result_of:
  "finish_task ops streaming te t ck q outcome sh = (r, sh', evs) \<Longrightarrow> result_of t r"
  by (auto simp: result_of_def finish_task_no_agent dest!: finish_task_status split: sum.splits)

lemma execute_task_result_of:
  "execute_task ops llm streaming te t agent sh = Some (r, sh', evs) \<Longrightarrow> result_of t r"
  by (auto simp: execute_task_def dest: start_task_result_of finish_task_result_of
      split: option.splits started.splits prod.splits)

text \<open>When nothing panics: the random draws are in range, the answers and the texts of the
  tasks are within the length limit.\<close>

definition calm :: "('p, 'c, 't, 'e) runner_ops \<Rightarrow> 'e run_env \<Rightarrow> task list \<Rightarrow> bool" where
  "calm ops env ts \<longleftrightarrow>
     (\<forall>i r n. te_random (re_task env i) r n \<le> n) \<and> (\<forall>i. answers_short (re_task env i)) \<and>
     (\<forall>t \<in> set ts. task_short ops t)"

lemma calm_start: "calm ops env ts \<Longrightarrow> t \<in> set ts \<Longrightarrow> same_task t t' \<Longrightarrow> start_task ops llm te t' agent sh \<noteq> None"
  by (intro start_task_returns) (simp add: calm_def task_short_same)

lemma calm_infer: "calm ops env ts \<Longrightarrow> infer_validated ops (re_task env i) t q \<noteq> None"
  by (intro infer_validated_returns) (simp_all add: calm_def)

lemma calm_execute:
  assumes "calm ops env ts" and "t \<in> set ts" and "same_task t t'"
  shows "\<exists>r sh' evs. execute_task ops llm streaming (re_task env i) t' agent sh = Some (r, sh', evs)"
proof -
  obtain st sh1 where st: "start_task ops llm (re_task env i) t' agent sh = Some (st, sh1)"
    using calm_start [OF assms] by fastforce
  show ?thesis
  proof (cases st)
    case (Calling q ck)
    obtain outcome q' where "infer_validated ops (re_task env i) t' q = Some (outcome, q')"
      using calm_infer [OF assms(1)] by fastforce
    with st Calling show ?thesis by (simp add: execute_task_def) (metis prod_cases3)
  qed (use st in \<open>simp add: execute_task_def\<close>)
qed

section \<open>Sequential mode\<close>

lemma sequential_step_result:
  assumes "sequential_step ops env i cr = Some (r, cr')" and "i < length (tasks_of cr)"
  shows "result_of (tasks_of cr ! i) r \<and>
    tasks_of cr' = (tasks_of cr)[i := (tasks_of cr ! i)\<lparr>task_status := result_status r\<rparr>]"
proof -
  obtain sh evs agent streaming sh0 where
    "execute_task ops (cr_llm cr) streaming (re_task env i) ((tasks_of cr ! i)\<lparr>task_status := Running\<rparr>) agent sh0 =
       Some (r, sh, evs)"
    using assms by (auto simp: sequential_step_def Let_def split: option.splits prod.splits)
  note execute_task_result_of [OF this]
  then show ?thesis
    using assms by (auto simp: sequential_step_def Let_def result_of_def split: option.splits prod.splits)
qed

lemma sequential_step_calm:
  assumes "calm ops env ts" and "i < length ts" and "\<forall>j < length ts. same_task (ts ! j) (tasks_of cr ! j)"
    and "length (tasks_of cr) = length ts"
  shows "sequential_step ops env i cr \<noteq> None"
proof -
  have "same_task (ts ! i) ((tasks_of cr ! i)\<lparr>task_status := Running\<rparr>)"
    using assms(2,3) by (simp add: same_task_def)
  then have "execute_task ops llm streaming (re_task env i) ((tasks_of cr ! i)\<lparr>task_status := Running\<rparr>) agent sh
      \<noteq> None" for llm streaming agent sh
    using calm_execute [OF assms(1) nth_mem [OF assms(2)]] by fastforce
  then show ?thesis
    using assms(2,4) by (auto simp: sequential_step_def Let_def split: option.split)
qed

text \<open>The positions that run before the first check that reads the flag as set.\<close>

definition uncancelled :: "'e run_env \<Rightarrow> nat list \<Rightarrow> nat list" where
  "uncancelled env is = takeWhile (\<lambda>i. \<not> re_cancel_loop env i) is"

lemma sequential_loop_prefix:
  assumes "calm ops env ts" and "set is \<subseteq> {..<length ts}" and "length (tasks_of cr) = length ts"
    and "\<forall>j < length ts. same_task (ts ! j) (tasks_of cr ! j)"
  shows "\<exists>rs cr'. sequential_loop ops env is results cr = Some (results @ rs, cr') \<and>
    list_all2 (\<lambda>i r. result_of (ts ! i) r) (uncancelled env is) rs"
  using assms(2-)
proof (induction "is" arbitrary: results cr)
  case Nil
  then show ?case by (simp add: uncancelled_def)
next
  case (Cons i "is")
  show ?case
  proof (cases "re_cancel_loop env i")
    case True
    then show ?thesis by (simp add: uncancelled_def)
  next
    case False
    obtain r cr1 where st: "sequential_step ops env i cr = Some (r, cr1)"
      using sequential_step_calm [OF assms(1) _ Cons.prems(3,2), of i] Cons.prems(1) by auto
    have i: "i < length (tasks_of cr)" using Cons.prems by simp
    note step = sequential_step_result [OF st i]
    have "\<forall>j < length ts. same_task (ts ! j) (tasks_of cr1 ! j)"
      using step Cons.prems(1,2,3) by (auto simp: nth_list_update same_task_def)
    then obtain rs cr' where
      "sequential_loop ops env is (results @ [r]) cr1 = Some ((results @ [r]) @ rs, cr')"
      "list_all2 (\<lambda>i r. result_of (ts ! i) r) (uncancelled env is) rs"
      using Cons.IH [of cr1 "results @ [r]"] Cons.prems(1,2) step by auto
    moreover have "result_of (ts ! i) r"
      using step Cons.prems(1,3) by (auto simp: result_of_def dest: same_taskD(1))
    ultimately show ?thesis using False st by (auto simp: uncancelled_def)
  qed
qed

section \<open>Parallel mode\<close>

fun in_flight :: "par_phase \<Rightarrow> bool" where
  "in_flight (InFlight _ _) = True"
| "in_flight _ = False"

fun par_rank :: "par_phase \<Rightarrow> nat" where
  "par_rank Spawned = 3"
| "par_rank Waiting = 2"
| "par_rank (InFlight _ _) = 1"

text \<open>Every permit is free or held by a task in flight.\<close>

definition par_good :: "nat \<Rightarrow> (nat \<times> par_phase) list \<Rightarrow> nat \<times> ('c, 't) shared \<Rightarrow> bool" where
  "par_good max_c active s \<longleftrightarrow>
     0 < max_c \<and> fst s + length (filter (\<lambda>(i, ph). in_flight ph) active) = max_c"

definition par_ok :: "(task \<times> 'p agent_definition option) list \<Rightarrow> nat \<Rightarrow> task_result option \<Rightarrow> bool" where
  "par_ok snapshots i res \<longleftrightarrow> (case res of None \<Rightarrow> True | Some r \<Rightarrow> result_of (fst (snapshots ! i)) r)"

lemma cancelled_result_of [simp]: "result_of t (cancelled_result t)"
  by (simp add: result_of_def cancelled_result_def)

interpretation par: joined_tasks par_enabled "par_advance ops llm env snapshots" par_rank "par_good max_c"
    "par_ok snapshots"
  for ops :: "('p, 'c, 't, 'e) runner_ops" and llm env snapshots max_c
proof unfold_locales
  show "0 < par_rank ph" for ph by (cases ph) simp_all
next
  fix active :: "(nat \<times> par_phase) list" and s :: "nat \<times> ('c, 't) shared"
  assume g: "par_good max_c active s" and ne: "active \<noteq> []"
  show "\<exists>k < length active. par_enabled (snd (active ! k)) s"
  proof (cases "0 < fst s")
    case True
    then have "par_enabled ph s" for ph by (cases ph; cases s) simp_all
    with ne show ?thesis by auto
  next
    case False
    then have "filter (\<lambda>(i, ph). in_flight ph) active \<noteq> []" using g by (auto simp: par_good_def)
    then obtain i ph where "(i, ph) \<in> set active" "in_flight ph" by (auto simp: filter_empty_conv)
    then show ?thesis by (cases ph; cases s) (auto simp: in_set_conv_nth)
  qed
next
  fix xs ys :: "(nat \<times> par_phase) list" and i ph ph' and s s' :: "nat \<times> ('c, 't) shared"
  assume "par_good max_c (xs @ (i, ph) # ys) s" "par_enabled ph s"
    "par_advance ops llm env snapshots i ph s = (Inl ph', s')"
  then show "par_rank ph' < par_rank ph \<and> par_good max_c (xs @ (i, ph') # ys) s'"
    by (cases ph; cases s) (auto simp: par_good_def split: if_splits option.splits started.splits prod.splits)
next
  fix xs ys :: "(nat \<times> par_phase) list" and i ph r and s s' :: "nat \<times> ('c, 't) shared"
  assume "par_good max_c (xs @ (i, ph) # ys) s" "par_enabled ph s"
    "par_advance ops llm env snapshots i ph s = (Inr r, s')"
  then show "par_ok snapshots i r \<and> par_good max_c (xs @ ys) s'"
    by (cases ph; cases s) (auto simp: par_good_def par_ok_def dest: start_task_result_of finish_task_result_of
        split: if_splits option.splits started.splits prod.splits)
qed

text \<open>The result that is recorded for a joined task.\<close>

definition join_result :: "'e run_env \<Rightarrow> nat \<times> task_result option \<Rightarrow> task_result" where
  "join_result env = (\<lambda>(i, res). case res of
     Some r \<Rightarrow> r
   | None \<Rightarrow> \<lparr> result_task_id = 0, result_output = ''task panicked: '' @ re_join_error env i,
       result_status = Failed, result_metadata = hm_empty \<rparr>)"

lemma fold_par_on_join:
  "\<exists>cr'. fold (par_on_join ops env) joined (results, cr) = (results @ map (join_result env) joined, cr') \<and>
     cr_spec cr' = cr_spec cr"
proof (induction joined arbitrary: results cr)
  case (Cons x joined)
  obtain i res where x: "x = (i, res)" by (cases x)
  obtain cr1 where cr1: "par_on_join ops env x (results, cr) = (results @ [join_result env x], cr1)"
    "cr_spec cr1 = cr_spec cr"
    by (cases res) (auto simp: par_on_join_def join_result_def x)
  from Cons [of "results @ [join_result env x]" cr1] cr1 show ?case by auto
qed simp

lemma fold_emit_started [simp]:
  "cr_spec (fold (\<lambda>(t, agent). emit_started ops t agent) snaps cr) = cr_spec cr"
  "cr_shared (fold (\<lambda>(t, agent). emit_started ops t agent) snaps cr) = cr_shared cr"
  "cr_llm (fold (\<lambda>(t, agent). emit_started ops t agent) snaps cr) = cr_llm cr"
  by (induction snaps arbitrary: cr) auto

lemma map_tasks_simps [simp]:
  "tasks_of (map_tasks f cr) = f (tasks_of cr)" "cr_shared (map_tasks f cr) = cr_shared cr"
  "cr_llm (map_tasks f cr) = cr_llm cr" "crew_agents (cr_spec (map_tasks f cr)) = crew_agents (cr_spec cr)"
  by (simp_all add: map_tasks_def)

lemma snapshot_task:
  "i < length (tasks_of cr) \<Longrightarrow>
     fst (task_snapshots ops (map_tasks (map (task_status_update (\<lambda>_. st))) cr) ! i) =
       (tasks_of cr ! i)\<lparr>task_status := st\<rparr>"
  by (simp add: task_snapshots_def)

lemma par_start_effort: "par.effort (map (\<lambda>i. (i, Spawned)) is) \<le> 3 * length is"
  by (induction "is") (simp_all add: par.effort_def)

lemma par_start_good: "0 < max_c \<Longrightarrow> par_good max_c (map (\<lambda>i. (i, Spawned)) is) (max_c, sh)"
  by (simp add: par_good_def filter_map comp_def)

lemma result_of_status: "result_of (t\<lparr>task_status := st\<rparr>) r = result_of t r"
  by (simp add: result_of_def)

lemma run_parallel_joins:
  assumes "0 < max_c" and "max_c \<le> re_max_permits env"
  shows "\<exists>joined cr'. run_parallel ops env max_c cr = Some (map (join_result env) joined, cr') \<and>
    mset (map fst joined) = mset [0..<length (tasks_of cr)] \<and>
    (\<forall>(i, res) \<in> set joined. \<forall>r. res = Some r \<longrightarrow> result_of (tasks_of cr ! i) r) \<and>
    tasks_of cr' = apply_statuses (map (join_result env) joined)
      (map (task_status_update (\<lambda>_. Queued)) (tasks_of cr))"
proof -
  define cr1 where "cr1 = map_tasks (map (task_status_update (\<lambda>_. Queued))) cr"
  define snaps where "snaps = task_snapshots ops cr1"
  define cr2 where "cr2 = fold (\<lambda>(t, agent). emit_started ops t agent) snaps cr1"
  have n: "length snaps = length (tasks_of cr)" by (simp add: snaps_def task_snapshots_def cr1_def)
  obtain joined s' where j: "join_all par_enabled (par_advance ops (cr_llm cr2) env snaps) (re_pick env 0)
      (3 * length snaps) (map (\<lambda>i. (i, Spawned)) [0..<length snaps]) (max_c, cr_shared cr2) = Some (joined, s')"
    and m: "mset (map fst joined) = mset [0..<length snaps]"
    and ok: "\<forall>(i, res) \<in> set joined. par_ok snaps i res"
    using par.all_joined [OF par_start_good [OF assms(1), of "[0..<length snaps]" "cr_shared cr2"],
        where n = "3 * length snaps"
        and ops = ops and llm = "cr_llm cr2" and env = env and snapshots = snaps and pick = "re_pick env 0"]
      par_start_effort [of "[0..<length snaps]"] by (auto simp: comp_def)
  obtain cr3 where f: "fold (par_on_join ops env) joined ([], cr2\<lparr>cr_shared := snd s'\<rparr>) =
      (map (join_result env) joined, cr3)" and "cr_spec cr3 = cr_spec cr2"
    using fold_par_on_join [of ops env joined "[]" "cr2\<lparr>cr_shared := snd s'\<rparr>"] by auto
  then have "run_parallel ops env max_c cr =
      Some (map (join_result env) joined, map_tasks (apply_statuses (map (join_result env) joined)) cr3)"
    unfolding run_parallel_def Let_def cr1_def [symmetric] snaps_def [symmetric] cr2_def [symmetric]
    using assms(2) j by (simp add: not_less case_prod_unfold)
  moreover have "result_of (tasks_of cr ! i) r" if "(i, Some r) \<in> set joined" for i r
  proof -
    from that have "i \<in># mset (map fst joined)" by (force simp: image_iff)
    then have i: "i < length (tasks_of cr)" unfolding m n by simp
    from that ok have "result_of (fst (snaps ! i)) r" by (auto simp: par_ok_def)
    with i show ?thesis
      by (simp add: snaps_def cr1_def snapshot_task result_of_status)
  qed
  moreover have "tasks_of cr3 = map (task_status_update (\<lambda>_. Queued)) (tasks_of cr)"
    using \<open>cr_spec cr3 = cr_spec cr2\<close> by (simp add: cr2_def cr1_def)
  ultimately show ?thesis using m n by fastforce
qed

section \<open>No permits, no progress\<close>

text \<open>With no permit and an unset flag, no task leaves the first two phases.\<close>

definition par_stuck :: "(nat \<times> par_phase) list \<Rightarrow> nat \<times> ('c, 't) shared \<Rightarrow> bool" where
  "par_stuck active s \<longleftrightarrow> active \<noteq> [] \<and> fst s = 0 \<and> (\<forall>(i, ph) \<in> set active. ph = Spawned \<or> ph = Waiting)"

lemma par_stuck_step:
  assumes "par_stuck active s" and "\<forall>i k. \<not> re_cancel_spawned env i k"
    and "join_step par_enabled (par_advance ops llm env snaps) choice (active, s, joined) = Some (active', s', joined')"
  shows "par_stuck active' s'"
proof -
  let ?ks = "movable par_enabled active s"
  have "?ks \<noteq> []" using assms(3) by (auto simp: join_step_def Let_def)
  then have "?ks ! (choice mod length ?ks) \<in> set ?ks" by simp
  then obtain k where k: "k = ?ks ! (choice mod length ?ks)" "k < length active" "par_enabled (snd (active ! k)) s"
    by (auto simp: movable_def)
  obtain i ph where ip: "active ! k = (i, ph)" by (cases "active ! k")
  obtain sh where s: "s = (0, sh)" using assms(1) by (cases s) (simp add: par_stuck_def)
  have "ph = Spawned \<or> ph = Waiting" using assms(1) ip nth_mem [OF k(2)] by (auto simp: par_stuck_def)
  with k(3) ip s have "ph = Spawned" by auto
  then have "active' = active[k := (i, Waiting)]" "s' = s"
    using assms(2,3) \<open>?ks \<noteq> []\<close> k(1) [symmetric] ip s by (simp_all add: join_step_def Let_def)
  moreover have "set (active[k := (i, Waiting)]) \<subseteq> insert (i, Waiting) (set active)"
    by (rule set_update_subset_insert)
  ultimately show ?thesis using assms(1) by (auto simp: par_stuck_def)
qed

lemma par_stuck_run:
  assumes "par_stuck active s" and "\<forall>i k. \<not> re_cancel_spawned env i k"
  shows "fst (join_run par_enabled (par_advance ops llm env snaps) pick n (active, s, joined)) \<noteq> []"
  using assms(1)
proof (induction n arbitrary: active s joined)
  case 0
  then show ?case by (simp add: par_stuck_def)
next
  case (Suc n)
  show ?case
  proof (cases "join_step par_enabled (par_advance ops llm env snaps) (pick n) (active, s, joined)")
    case None
    with Suc.prems show ?thesis by (simp add: par_stuck_def)
  next
    case (Some c)
    obtain active' s' joined' where "c = (active', s', joined')" by (rule prod_cases3)
    with par_stuck_step [OF Suc.prems assms(2), of ops llm snaps "pick n" joined active' s' joined'] Some
      Suc.IH [of active' s' joined'] show ?thesis by simp
  qed
qed

section \<open>Properties\<close>

text \<open>C18. The sequential mode runs the tasks in the order of the crew, one result each, and stops
  before the first task whose check finds the crew cancelled; when nothing panics it always
  returns.\<close>

theorem run_sequential_in_order:
  assumes "calm ops env (tasks_of cr)"
  shows "\<exists>rs cr'. run_sequential ops env cr = Some (rs, cr') \<and>
    map result_task_id rs =
      take (length (takeWhile (\<lambda>i. \<not> re_cancel_loop env i) [0..<length (tasks_of cr)])) (map task_id (tasks_of cr)) \<and>
    (\<forall>r \<in> set rs. result_status r = Completed \<or> result_status r = Failed)"
proof -
  let ?is = "uncancelled env [0..<length (tasks_of cr)]"
  obtain rs cr' where run: "run_sequential ops env cr = Some (rs, cr')"
    and l: "list_all2 (\<lambda>i r. result_of (tasks_of cr ! i) r) ?is rs"
    using sequential_loop_prefix [OF assms, of "[0..<length (tasks_of cr)]" cr "[]"]
    by (auto simp: run_sequential_def lessThan_atLeast0)
  have le: "length ?is \<le> length (tasks_of cr)"
    unfolding uncancelled_def by (metis diff_zero length_takeWhile_le length_upt)
  then have is_nth: "?is ! j = j" if "j < length ?is" for j
    using that by (simp add: uncancelled_def takeWhile_nth)
  with l le have "map result_task_id rs = take (length ?is) (map task_id (tasks_of cr))"
    by (intro nth_equalityI) (auto simp: list_all2_conv_all_nth result_of_def)
  moreover have "\<forall>r \<in> set rs. result_status r = Completed \<or> result_status r = Failed"
    using l by (auto simp: list_all2_conv_all_nth in_set_conv_nth result_of_def)
  ultimately show ?thesis using run by (auto simp: uncancelled_def)
qed

text \<open>C16. The parallel mode runs every task: for every interleaving and every pattern of
  cancellation, with \<open>max_concurrency\<close> at least one and at most \<open>Semaphore::MAX_PERMITS\<close> (above which
  creating the semaphore panics), it returns exactly one result per task; the result
  of a task that did not panic carries its id.\<close>

theorem run_parallel_every_task:
  assumes "0 < max_c" and "max_c \<le> re_max_permits env"
  shows "\<exists>joined cr'. run_parallel ops env max_c cr = Some (map (join_result env) joined, cr') \<and>
    mset (map fst joined) = mset [0..<length (tasks_of cr)] \<and>
    (\<forall>(i, res) \<in> set joined. \<forall>r. res = Some r \<longrightarrow>
       result_task_id r = task_id (tasks_of cr ! i) \<and> (result_status r = Completed \<or> result_status r = Failed))"
  using run_parallel_joins [OF assms, of ops cr] by (fastforce simp: result_of_def)

text \<open>C17. At no moment of a parallel run are more than \<open>max_concurrency\<close> tasks waiting for the
  model: the free permits and the tasks in flight always add up to it.\<close>

theorem parallel_concurrency_bounded:
  assumes "0 < max_c" and "join_run par_enabled (par_advance ops llm env snapshots) pick n
      (map (\<lambda>i. (i, Spawned)) idxs, (max_c, sh), []) = (active, (permits, sh'), joined)"
  shows "permits + length (filter (\<lambda>(i, ph). in_flight ph) active) = max_c"
  using par.run_keeps_good [OF par_start_good [OF assms(1)] assms(2)] by (simp add: par_good_def)

text \<open>A parallel crew with \<open>max_concurrency\<close> zero never finishes: unless it is cancelled, no
  number of steps joins all its tasks.\<close>

theorem parallel_zero_never_finishes:
  assumes "idxs \<noteq> []" and "\<forall>i k. \<not> re_cancel_spawned env i k"
  shows "fst (join_run par_enabled (par_advance ops llm env snapshots) pick n
    (map (\<lambda>i. (i, Spawned)) idxs, (0, sh), [])) \<noteq> []"
  using assms(1) by (intro par_stuck_run [OF _ assms(2)]) (auto simp: par_stuck_def)

section \<open>Sample crews\<close>

definition sample_run_env :: "string run_env" where
  "sample_run_env =
     \<lparr> re_task = (\<lambda>_. sample_env ''yes''), re_cancel_loop = (\<lambda>i. i = 1), re_cancel_spawned = (\<lambda>_ _. False),
       re_cancel_end = True, re_pick = (\<lambda>_ n. n), re_join_error = (\<lambda>_. ''panic''), re_max_permits = 1000,
       re_wall_ms = 9 \<rparr>"

definition sample_runner :: "process_mode \<Rightarrow> task list \<Rightarrow> (unit, (string, string) hmap, rat) crew_runner" where
  "sample_runner mode ts =
     with_events [] (with_audit [] (with_llm (crew_runner_new sample_shared
       (with_process mode (with_tasks ts (crew_spec_new 7 ''crew''))))))"

lemma sample_runner_spec [simp]:
  "tasks_of (sample_runner mode ts) = ts" "crew_process (cr_spec (sample_runner mode ts)) = mode"
  "crew_agents (cr_spec (sample_runner mode ts)) = []" "cr_llm (sample_runner mode ts)"
  by (simp_all add: sample_runner_def with_events_def with_audit_def with_llm_def crew_runner_new_def
      with_process_def with_tasks_def crew_spec_new_def)

lemma sample_calm: "calm sample_runner_ops sample_run_env [task_new 1 ''a'', task_new 2 ''b'']"
  by (auto simp: calm_def sample_run_env_def sample_env_def answers_short_def task_short_def
      sample_runner_ops_def task_new_def)

theorem run_sequential_in_order_witness:
  "\<exists>rs cr'. run_sequential sample_runner_ops sample_run_env
     (sample_runner Sequential [task_new 1 ''a'', task_new 2 ''b'']) = Some (rs, cr') \<and> map result_task_id rs = [1]"
proof -
  have "calm sample_runner_ops sample_run_env (tasks_of (sample_runner Sequential [task_new 1 ''a'', task_new 2 ''b'']))"
    using sample_calm by simp
  from run_sequential_in_order [OF this] show ?thesis
    by (auto simp: sample_run_env_def task_new_def upt_rec)
qed

theorem run_parallel_every_task_witness:
  "\<exists>joined cr'. run_parallel sample_runner_ops sample_run_env 1
     (sample_runner (Parallel 1) [task_new 1 ''a'', task_new 2 ''b'']) =
       Some (map (join_result sample_run_env) joined, cr') \<and> mset (map fst joined) = mset [0, 1]"
proof -
  have "(0 :: nat) < 1" "1 \<le> re_max_permits sample_run_env" by (simp_all add: sample_run_env_def)
  from run_parallel_every_task [OF this, of sample_runner_ops "sample_runner (Parallel 1) [task_new 1 ''a'', task_new 2 ''b'']"]
  show ?thesis by (auto simp: upt_rec)
qed

text \<open>With one permit and two tasks, after three steps the first task is in flight.\<close>

theorem parallel_concurrency_bounded_witness:
  "\<exists>active sh' joined. join_run par_enabled (par_advance sample_runner_ops True sample_run_env
      [(task_new 1 ''a'', None), (task_new 2 ''b'', None)]) (\<lambda>n. n) 3
      (map (\<lambda>i. (i, Spawned)) [0, 1], (1, sample_shared), []) = (active, (0, sh'), joined) \<and>
    length (filter (\<lambda>(i, ph). in_flight ph) active) = 1"
proof -
  let ?run = "join_run par_enabled (par_advance sample_runner_ops True sample_run_env
      [(task_new 1 ''a'', None), (task_new 2 ''b'', None)]) (\<lambda>n. n) 3
      (map (\<lambda>i. (i, Spawned)) [0, 1], (1, sample_shared), [])"
  have "fst (fst (snd ?run)) = 0" by code_simp
  then obtain active sh' joined where run: "?run = (active, (0, sh'), joined)" by (metis prod.collapse)
  from parallel_concurrency_bounded [OF zero_less_one this] run show ?thesis by simp
qed

theorem parallel_zero_never_finishes_witness:
  "fst (join_run par_enabled (par_advance sample_runner_ops True sample_run_env [(task_new 1 ''a'', None)]) (\<lambda>n. n) 100
     ([(0, Spawned)], (0, sample_shared), [])) \<noteq> []"
  using parallel_zero_never_finishes [of "[0]" sample_run_env sample_runner_ops True "[(task_new 1 ''a'', None)]"
      "\<lambda>n. n" 100 sample_shared]
  by (simp add: sample_run_env_def)

end
