(* ===== verification/Crew_Dag.thy ===== *)
theory Crew_Dag
  imports Crew_Modes
begin

text \<open>
  What the DAG mode of \<open>CrewRunner\<close> guarantees: no task starts before its dependencies
  are completed, no task runs twice, the run returns for every interleaving, and a crew
  in which no task fails runs all its tasks.
\<close>

section \<open>The tasks of a wave\<close>

fun dag_rank :: "dag_phase \<Rightarrow> nat" where
  "dag_rank Ready = 2"
| "dag_rank (Asked _ _) = 1"

text \<open>A task that cannot panic, and one that cannot fail either.\<close>

definition steady :: "('p, 'c, 't, 'e) runner_ops \<Rightarrow> bool \<Rightarrow> 'e run_env \<Rightarrow> nat \<Rightarrow> task \<Rightarrow> bool" where
  "steady ops llm env i t \<longleftrightarrow> llm \<longrightarrow>
     task_short ops t \<and> (\<forall>q. infer_validated ops (re_task env i) t q \<noteq> None)"

definition lucky :: "('p, 'c, 't, 'e) runner_ops \<Rightarrow> bool \<Rightarrow> 'e run_env \<Rightarrow> nat \<Rightarrow> task \<Rightarrow> bool" where
  "lucky ops llm env i t \<longleftrightarrow> llm \<longrightarrow>
     task_short ops t \<and> (\<forall>q. \<exists>resp q'. infer_validated ops (re_task env i) t q = Some (Inr resp, q'))"

text \<open>A task without a schema is lucky when its first call of the model succeeds.\<close>

lemma lucky_calls:
  assumes "task_short ops t" and "task_output_schema t = None"
    and "\<And>q. \<exists>resp. te_infer (re_task env k) 0 0 q = Inr resp"
  shows "lucky ops llm env k t"
proof -
  have "\<exists>resp. infer_round ops (re_task env k) 0 q = Some (Inr resp)" for q
    using assms(3) [of q] infer_round_first by blast
  then have "\<exists>resp q'. infer_validated ops (re_task env k) t q = Some (Inr resp, q')" for q
    using assms(2) unfolding infer_validated_def by (metis option.simps(4,5))
  with assms(1) show ?thesis by (simp add: lucky_def)
qed

lemma lucky_steady: "lucky ops llm env i t \<Longrightarrow> steady ops llm env i t"
  by (fastforce simp: lucky_def steady_def)

lemma steady_same: "same_task t t' \<Longrightarrow> steady ops llm env i t' = steady ops llm env i t"
  by (simp add: steady_def task_short_same infer_validated_same)

lemma lucky_same: "same_task t t' \<Longrightarrow> lucky ops llm env i t' = lucky ops llm env i t"
  by (simp add: lucky_def task_short_same infer_validated_same)

lemma calm_steady: "calm ops env ts \<Longrightarrow> t \<in> set ts \<Longrightarrow> steady ops llm env i t"
  using calm_infer [of ops env ts] by (auto simp: steady_def calm_def)

definition dag_ok :: "('p, 'c, 't, 'e) runner_ops \<Rightarrow> bool \<Rightarrow> 'e run_env
    \<Rightarrow> (nat, task \<times> 'p agent_definition option) hmap \<Rightarrow> nat \<Rightarrow> task_result option \<Rightarrow> bool" where
  "dag_ok ops llm env wave i res \<longleftrightarrow>
     (\<forall>t agent. hm_get wave i = Some (t, agent) \<longrightarrow>
        (case res of
           None \<Rightarrow> \<not> steady ops llm env i t
         | Some r \<Rightarrow> result_of t r \<and> (lucky ops llm env i t \<longrightarrow> result_status r = Completed)))"

lemma steady_start: "steady ops llm env i t \<Longrightarrow> start_task ops llm te t agent sh \<noteq> None"
  by (cases llm) (simp_all add: steady_def start_task_returns, simp add: start_task_def)

lemma start_task_calls: "start_task ops llm te t agent sh = Some (Calling q ck, sh') \<Longrightarrow> llm"
  by (auto simp: start_task_def Let_def split: if_splits option.splits prod.splits)

lemma dag_ok_start:
  assumes "dag_advance ops llm env wave i Ready sh = (Inr res, sh')"
  shows "dag_ok ops llm env wave i res"
  unfolding dag_ok_def
proof (intro allI impI)
  fix t agent assume w: "hm_get wave i = Some (t, agent)"
  show "case res of None \<Rightarrow> \<not> steady ops llm env i t
      | Some r \<Rightarrow> result_of t r \<and> (lucky ops llm env i t \<longrightarrow> result_status r = Completed)"
  proof (cases "start_task ops llm (re_task env i) t agent sh")
    case None
    with assms w steady_start [of ops llm env i t "re_task env i" agent sh] show ?thesis by auto
  next
    case (Some st)
    then obtain r where "start_task ops llm (re_task env i) t agent sh = Some (Finished r, sh')" "res = Some r"
      using assms w by (cases st; cases "fst st") auto
    with start_task_result_of start_task_Finished show ?thesis by fastforce
  qed
qed

lemma dag_ok_asked:
  assumes "dag_advance ops True env wave i (Asked q ck) sh = (Inr res, sh')"
  shows "dag_ok ops True env wave i res"
  unfolding dag_ok_def
proof (intro allI impI)
  fix t agent assume w: "hm_get wave i = Some (t, agent)"
  show "case res of None \<Rightarrow> \<not> steady ops True env i t
      | Some r \<Rightarrow> result_of t r \<and> (lucky ops True env i t \<longrightarrow> result_status r = Completed)"
  proof (cases "infer_validated ops (re_task env i) t q")
    case None
    then have "\<not> steady ops True env i t" unfolding steady_def by blast
    with None assms w show ?thesis by simp
  next
    case (Some o')
    then obtain outcome q' where o: "infer_validated ops (re_task env i) t q = Some (outcome, q')" by (cases o') auto
    obtain r sh2 evs where f: "finish_task ops False (re_task env i) t ck q' outcome sh = (r, sh2, evs)"
      by (rule prod_cases3)
    have "lucky ops True env i t \<longrightarrow> (\<exists>resp. outcome = Inr resp)"
      using o unfolding lucky_def by (metis Pair_inject option.inject)
    with finish_task_status [OF f] have "lucky ops True env i t \<longrightarrow> result_status r = Completed" by auto
    with assms w o f finish_task_result_of [OF f] show ?thesis by auto
  qed
qed

text \<open>Requests are only pending when a client is configured.\<close>

definition dag_good :: "bool \<Rightarrow> (nat \<times> dag_phase) list \<Rightarrow> ('c, 't) shared \<Rightarrow> bool" where
  "dag_good llm active s \<longleftrightarrow> (\<forall>(i, ph) \<in> set active. ph = Ready \<or> llm)"

interpretation dw: joined_tasks "\<lambda>_ _. True" "dag_advance ops llm env wave" dag_rank "dag_good llm"
    "dag_ok ops llm env wave"
  for ops :: "('p, 'c, 't, 'e) runner_ops" and llm env wave
proof unfold_locales
  show "0 < dag_rank ph" for ph by (cases ph) simp_all
next
  fix active :: "(nat \<times> dag_phase) list"
  assume "active \<noteq> []"
  then show "\<exists>k < length active. True" by auto
next
  fix xs ys :: "(nat \<times> dag_phase) list" and i ph ph' and s s' :: "('c, 't) shared"
  assume "dag_good llm (xs @ (i, ph) # ys) s" "dag_advance ops llm env wave i ph s = (Inl ph', s')"
  then show "dag_rank ph' < dag_rank ph \<and> dag_good llm (xs @ (i, ph') # ys) s'"
    by (cases ph) (auto simp: dag_good_def dest: start_task_calls split: option.splits started.splits prod.splits)
next
  fix xs ys :: "(nat \<times> dag_phase) list" and i ph r and s s' :: "('c, 't) shared"
  assume g: "dag_good llm (xs @ (i, ph) # ys) s" and a: "dag_advance ops llm env wave i ph s = (Inr r, s')"
  have "dag_ok ops llm env wave i r"
    using g a dag_ok_start dag_ok_asked by (cases ph) (fastforce simp: dag_good_def)+
  with g show "dag_ok ops llm env wave i r \<and> dag_good llm (xs @ ys) s'" by (simp add: dag_good_def)
qed

lemma dag_start_effort: "dw.effort (map (\<lambda>i. (i, Ready)) idxs) \<le> 2 * length idxs"
  by (induction idxs) (simp_all add: dw.effort_def)

lemma dag_joins:
  "\<exists>joined sh'. join_all (\<lambda>_ _. True) (dag_advance ops llm env wave) pick (2 * length idxs)
     (map (\<lambda>i. (i, Ready)) idxs) sh = Some (joined, sh') \<and>
   mset (map fst joined) = mset idxs \<and> (\<forall>(i, res) \<in> set joined. dag_ok ops llm env wave i res)"
proof -
  have "dag_good llm (map (\<lambda>i. (i, Ready)) idxs) sh" by (auto simp: dag_good_def)
  from dw.all_joined [OF this dag_start_effort, of ops env wave pick] show ?thesis by (auto simp: comp_def)
qed

section \<open>Spawning and recording\<close>

text \<open>The tasks of a runner are those of the crew up to their status.\<close>

definition tracks :: "task list \<Rightarrow> ('p, 'c, 't) crew_runner \<Rightarrow> bool" where
  "tracks ts cr \<longleftrightarrow> length (tasks_of cr) = length ts \<and> (\<forall>j < length ts. same_task (ts ! j) (tasks_of cr ! j))"

lemma tracks_emit [simp]:
  "tracks ts (emit_started ops t a cr) = tracks ts cr" "tracks ts (emit_completed ops r cr) = tracks ts cr"
  "tracks ts (cr\<lparr>cr_shared := sh\<rparr>) = tracks ts cr"
  by (simp_all add: tracks_def)

lemma tracks_set_status [simp]: "tracks ts cr \<Longrightarrow> tracks ts (set_status i st cr)"
  by (cases "i < length (tasks_of cr)") (auto simp: tracks_def nth_list_update same_task_def)

lemma fold_dag_spawn:
  assumes "tracks ts cr" and "\<forall>i \<in> set idxs. i < length ts" and "\<forall>(i, t, a) \<in> set wave. same_task (ts ! i) t"
    and "fold (dag_spawn ops) idxs (wave, cr) = (wave', cr')"
  shows "map fst wave' = map fst wave @ idxs \<and> (\<forall>(i, t, a) \<in> set wave'. same_task (ts ! i) t) \<and>
    tracks ts cr' \<and> cr_llm cr' = cr_llm cr"
  using assms
proof (induction idxs arbitrary: wave cr)
  case (Cons i idxs)
  let ?t = "(tasks_of cr ! i)\<lparr>task_status := Queued\<rparr>"
  obtain a cr1 where sp: "dag_spawn ops i (wave, cr) = (wave @ [(i, ?t, a)], cr1)"
    and cr1: "tracks ts cr1" "cr_llm cr1 = cr_llm cr"
    using Cons.prems(1,2) tracks_set_status [OF Cons.prems(1), of i Queued]
    by (simp add: dag_spawn_def Let_def tracks_def)
  have "same_task (ts ! i) ?t" using Cons.prems(1,2) by (simp add: tracks_def same_task_def)
  with Cons.prems Cons.IH [of cr1 "wave @ [(i, ?t, a)]"] sp cr1 show ?case by auto
qed auto

text \<open>The results of a wave: those of the tasks that did not panic.\<close>

definition wave_results :: "(nat \<times> task_result option) list \<Rightarrow> task_result list" where
  "wave_results joined = List.map_filter snd joined"

lemma wave_results_simps [simp]:
  "wave_results [] = []" "wave_results ((i, None) # js) = wave_results js"
  "wave_results ((i, Some r) # js) = r # wave_results js"
  by (simp_all add: wave_results_def List.map_filter_def)

lemma wave_results_Cons: "wave_results (x # js) = wave_results [x] @ wave_results js"
  by (simp add: wave_results_def List.map_filter_def)

lemma dag_on_join_fields:
  "ds_results (dag_on_join ops task_map x st) = ds_results st @ wave_results [x]"
  "set (ds_completed (dag_on_join ops task_map x st)) = set (ds_completed st) \<union>
     {result_task_id r | r. r \<in> set (wave_results [x]) \<and> result_status r \<noteq> Failed}"
  "ds_wave_failed (dag_on_join ops task_map x st) \<longleftrightarrow> ds_wave_failed st \<or> snd x = None \<or>
     (\<exists>r \<in> set (wave_results [x]). result_status r = Failed)"
  "tracks ts (ds_runner st) \<Longrightarrow> tracks ts (ds_runner (dag_on_join ops task_map x st))"
  "cr_llm (ds_runner (dag_on_join ops task_map x st)) = cr_llm (ds_runner st)"
  by (cases x; cases "snd x"; auto simp: dag_on_join_def Let_def split: option.split)+

lemma fold_dag_on_join:
  "ds_results (fold (dag_on_join ops task_map) joined st) = ds_results st @ wave_results joined"
  "set (ds_completed (fold (dag_on_join ops task_map) joined st)) = set (ds_completed st) \<union>
     {result_task_id r | r. r \<in> set (wave_results joined) \<and> result_status r \<noteq> Failed}"
  "ds_wave_failed (fold (dag_on_join ops task_map) joined st) \<longleftrightarrow> ds_wave_failed st \<or>
     (\<exists>i. (i, None) \<in> set joined) \<or> (\<exists>r \<in> set (wave_results joined). result_status r = Failed)"
  "tracks ts (ds_runner st) \<Longrightarrow> tracks ts (ds_runner (fold (dag_on_join ops task_map) joined st))"
  "cr_llm (ds_runner (fold (dag_on_join ops task_map) joined st)) = cr_llm (ds_runner st)"
proof (induction joined arbitrary: st)
  case (Cons x joined)
  note wave_results_Cons [of x joined, simp]
  { case 1 show ?case using Cons.IH(1) by (simp add: dag_on_join_fields) }
  { case 2 show ?case using Cons.IH(2) by (auto simp: dag_on_join_fields) }
  { case 3 show ?case using Cons.IH(3) by (cases x; cases "snd x") (auto simp: dag_on_join_fields) }
  { case 4 then show ?case using Cons.IH(4) by (simp add: dag_on_join_fields) }
  { case 5 show ?case using Cons.IH(5) by (simp add: dag_on_join_fields) }
qed auto

lemma wave_results_mem: "r \<in> set (wave_results joined) \<longleftrightarrow> (\<exists>i. (i, Some r) \<in> set joined)"
  by (auto simp: wave_results_def List.map_filter_def image_iff) force

lemma wave_results_ids:
  "\<forall>i r. (i, Some r) \<in> set joined \<longrightarrow> result_task_id r = f i \<Longrightarrow>
     map result_task_id (wave_results joined) = map f (map fst (filter (\<lambda>x. snd x \<noteq> None) joined))"
proof (induction joined)
  case (Cons x joined)
  then show ?case by (cases x; cases "snd x") auto
qed simp

definition result_ids :: "task_result list \<Rightarrow> task_id set" where
  "result_ids rs = result_task_id ` set rs"

lemma wave_results_facts:
  assumes "mset (map fst joined) = mset idxs" and "distinct (map f idxs)"
    and "\<forall>i r. (i, Some r) \<in> set joined \<longrightarrow> result_task_id r = f i"
  shows "distinct (map result_task_id (wave_results joined))" and "result_ids (wave_results joined) \<subseteq> set (map f idxs)"
    and "result_ids (wave_results joined) = set (map f idxs) \<longleftrightarrow> (\<forall>i. (i, None) \<notin> set joined)"
proof -
  have fj: "fst ` set joined = set idxs" using assms(1) by (metis list.set_map mset_eq_setD)
  have "distinct idxs" "inj_on f (set idxs)" using assms(2) by (simp_all add: distinct_map)
  then have "distinct (map fst joined)" using assms(1) by (metis mset_eq_imp_distinct_iff)
  then have d: "distinct (map fst (filter (\<lambda>x. snd x \<noteq> None) joined))" by (rule distinct_map_filter)
  have sub: "set (map fst (filter (\<lambda>x. snd x \<noteq> None) joined)) \<subseteq> set idxs" using fj by auto
  note ids = wave_results_ids [OF assms(3)]
  show "distinct (map result_task_id (wave_results joined))"
    unfolding ids using d sub \<open>inj_on f (set idxs)\<close> by (subst distinct_map) (blast intro: inj_on_subset)
  have res: "result_ids (wave_results joined) = f ` fst ` set (filter (\<lambda>x. snd x \<noteq> None) joined)"
    unfolding result_ids_def using arg_cong [OF ids, of set] by (simp add: image_image)
  then show "result_ids (wave_results joined) \<subseteq> set (map f idxs)"
    using image_mono [OF sub, of f] by simp
  show "result_ids (wave_results joined) = set (map f idxs) \<longleftrightarrow> (\<forall>i. (i, None) \<notin> set joined)"
  proof
    assume eq: "result_ids (wave_results joined) = set (map f idxs)"
    show "\<forall>i. (i, None) \<notin> set joined"
    proof (intro allI notI)
      fix i assume n: "(i, None) \<in> set joined"
      then have i: "i \<in> set idxs" using fj by force
      then have "f i \<in> f ` fst ` set (filter (\<lambda>x. snd x \<noteq> None) joined)" using eq res by simp
      then obtain j r where j: "(j, Some r) \<in> set joined" "f i = f j" by auto
      then have "j \<in> set idxs" using fj by force
      with j i have r: "(i, Some r) \<in> set joined" using \<open>inj_on f (set idxs)\<close> by (auto dest: inj_onD)
      with n \<open>distinct (map fst joined)\<close> show False by (auto dest: eq_key_imp_eq_value)
    qed
  next
    assume "\<forall>i. (i, None) \<notin> set joined"
    then have "filter (\<lambda>x. snd x \<noteq> None) joined = joined" by (intro filter_True) (metis surjective_pairing)
    then show "result_ids (wave_results joined) = set (map f idxs)" using res fj by simp
  qed
qed

section \<open>One wave\<close>

text \<open>The two maps that \<open>run_dag\<close> builds from the tasks.\<close>

definition dag_setup :: "task list \<Rightarrow> (task_id, task_id list) hmap \<Rightarrow> (task_id, nat) hmap \<Rightarrow> bool" where
  "dag_setup ts dep_sets task_map \<longleftrightarrow>
     distinct (map task_id ts) \<and>
     (\<forall>i k. hm_get task_map i = Some k \<longleftrightarrow> k < length ts \<and> task_id (ts ! k) = i) \<and>
     (\<forall>t \<in> set ts. \<exists>deps. hm_get dep_sets (task_id t) = Some deps \<and> set deps = set (task_dependencies t))"

lemma dag_setup_inj:
  "dag_setup ts dep_sets task_map \<Longrightarrow> j < length ts \<Longrightarrow> k < length ts \<Longrightarrow> task_id (ts ! j) = task_id (ts ! k) \<Longrightarrow> j = k"
  unfolding dag_setup_def by (metis length_map nth_eq_iff_index_eq nth_map)

lemma dag_setup_pos:
  assumes "dag_setup ts dep_sets task_map" and "i \<in> task_id ` set ts"
  shows "\<exists>k < length ts. hm_get task_map i = Some k \<and> task_id (ts ! k) = i"
proof -
  obtain k where "k < length ts" "task_id (ts ! k) = i" using assms(2) by (auto simp: in_set_conv_nth)
  with assms(1) show ?thesis by (auto simp: dag_setup_def)
qed

definition sound_result :: "task_result \<Rightarrow> bool" where
  "sound_result r \<longleftrightarrow> result_status r \<in> {Completed, Failed} \<and> hm_get (result_metadata r) ''agent'' = None"

definition completed_ids :: "task_result list \<Rightarrow> task_id set" where
  "completed_ids rs = {result_task_id r | r. r \<in> set rs \<and> result_status r = Completed}"

lemma completed_ids_append [simp]: "completed_ids (xs @ ys) = completed_ids xs \<union> completed_ids ys"
  by (auto simp: completed_ids_def)

text \<open>A wave joins every ready task once; a task that panics was not steady.\<close>

lemma dag_wave_joins:
  assumes "dag_setup ts dep_sets task_map" and "tracks ts (ds_runner st)"
    and "distinct ready" and "set ready \<subseteq> task_id ` set ts"
  obtains st1 joined idxs where
    "dag_wave ops env task_map w ready st = Some (fold (dag_on_join ops task_map) joined st1)"
    and "ds_results st1 = ds_results st" "ds_completed st1 = ds_completed st" "\<not> ds_wave_failed st1"
    and "tracks ts (ds_runner st1)" "cr_llm (ds_runner st1) = cr_llm (ds_runner st)"
    and "mset (map fst joined) = mset idxs" "map (\<lambda>k. task_id (ts ! k)) idxs = ready" "\<forall>k \<in> set idxs. k < length ts"
    and "\<And>i r. (i, Some r) \<in> set joined \<Longrightarrow> result_of (ts ! i) r \<and>
      (lucky ops (cr_llm (ds_runner st)) env i (ts ! i) \<longrightarrow> result_status r = Completed)"
    and "\<And>i. (i, None) \<in> set joined \<Longrightarrow> \<not> steady ops (cr_llm (ds_runner st)) env i (ts ! i)"
proof -
  define idxs where "idxs = map (\<lambda>i. the (hm_get task_map i)) ready"
  have pos: "\<exists>k < length ts. hm_get task_map i = Some k \<and> task_id (ts ! k) = i" if "i \<in> set ready" for i
    using dag_setup_pos [OF assms(1)] assms(4) that by blast
  then have all: "list_all (\<lambda>i. hm_get task_map i \<noteq> None) ready" by (auto simp: list_all_iff)
  have idx: "\<forall>i \<in> set idxs. i < length ts" using pos by (fastforce simp: idxs_def)
  have ids: "map (\<lambda>k. task_id (ts ! k)) idxs = ready"
    unfolding idxs_def map_map by (rule map_idI) (use pos in fastforce)
  obtain wave cr where sp: "fold (dag_spawn ops) idxs ([], ds_runner st) = (wave, cr)" by fastforce
  note spawn = fold_dag_spawn [OF assms(2) idx _ sp, simplified]
  obtain joined sh where j: "join_all (\<lambda>_ _. True) (dag_advance ops (cr_llm cr) env wave) (re_pick env w)
      (2 * length idxs) (map (\<lambda>i. (i, Ready)) idxs) (cr_shared cr) = Some (joined, sh)"
    and m: "mset (map fst joined) = mset idxs" and ok: "\<forall>(i, res) \<in> set joined. dag_ok ops (cr_llm cr) env wave i res"
    using dag_joins [of ops "cr_llm cr" env wave "re_pick env w" idxs "cr_shared cr"] by auto
  have snap: "\<exists>t a. hm_get wave i = Some (t, a) \<and> same_task (ts ! i) t" if "(i, res) \<in> set joined" for i res
  proof -
    have "i \<in> fst ` set wave" using that m spawn by (metis fst_conv image_eqI image_set mset_eq_setD)
    then obtain t a where "map_of wave i = Some (t, a)" by (metis map_of_eq_None_iff not_None_eq surj_pair)
    with spawn map_of_SomeD [OF this] show ?thesis by (auto simp: hm_get_def)
  qed
  show ?thesis
  proof (rule that [of joined "st\<lparr>ds_wave_failed := False, ds_runner := cr\<lparr>cr_shared := sh\<rparr>\<rparr>" idxs])
    show "dag_wave ops env task_map w ready st = Some (fold (dag_on_join ops task_map) joined
        (st\<lparr>ds_wave_failed := False, ds_runner := cr\<lparr>cr_shared := sh\<rparr>\<rparr>))"
      using all sp j by (simp add: dag_wave_def Let_def idxs_def [symmetric])
    show "result_of (ts ! i) r \<and> (lucky ops (cr_llm (ds_runner st)) env i (ts ! i) \<longrightarrow> result_status r = Completed)"
      if "(i, Some r) \<in> set joined" for i r
      using snap [OF that] ok that spawn by (fastforce simp: dag_ok_def result_of_def lucky_same same_taskD)
    show "\<not> steady ops (cr_llm (ds_runner st)) env i (ts ! i)" if "(i, None) \<in> set joined" for i
      using snap [OF that] ok that spawn by (fastforce simp: dag_ok_def steady_same)
  qed (use spawn m ids idx in simp_all)
qed

lemma dag_wave_effect:
  assumes "dag_setup ts dep_sets task_map" and "tracks ts (ds_runner st)"
    and "distinct ready" and "set ready \<subseteq> task_id ` set ts"
  obtains st' rs where "dag_wave ops env task_map w ready st = Some st'"
    and "tracks ts (ds_runner st')" "cr_llm (ds_runner st') = cr_llm (ds_runner st)"
    and "ds_results st' = ds_results st @ rs" "distinct (map result_task_id rs)" "result_ids rs \<subseteq> set ready"
    and "\<forall>r \<in> set rs. sound_result r"
    and "set (ds_completed st') = set (ds_completed st) \<union> completed_ids rs"
    and "ds_wave_failed st' \<longleftrightarrow> result_ids rs \<noteq> set ready \<or> (\<exists>r \<in> set rs. result_status r = Failed)"
    and "(\<forall>k < length ts. steady ops (cr_llm (ds_runner st)) env k (ts ! k)) \<longrightarrow> result_ids rs = set ready"
    and "(\<forall>k < length ts. lucky ops (cr_llm (ds_runner st)) env k (ts ! k)) \<longrightarrow> (\<forall>r \<in> set rs. result_status r = Completed)"
proof -
  obtain st1 joined idxs where run:
    "dag_wave ops env task_map w ready st = Some (fold (dag_on_join ops task_map) joined st1)"
    and st1: "ds_results st1 = ds_results st" "ds_completed st1 = ds_completed st" "\<not> ds_wave_failed st1"
      "tracks ts (ds_runner st1)" "cr_llm (ds_runner st1) = cr_llm (ds_runner st)"
    and m: "mset (map fst joined) = mset idxs" and ids: "map (\<lambda>k. task_id (ts ! k)) idxs = ready"
    and idx: "\<forall>k \<in> set idxs. k < length ts"
    and res: "\<And>i r. (i, Some r) \<in> set joined \<Longrightarrow> result_of (ts ! i) r \<and>
      (lucky ops (cr_llm (ds_runner st)) env i (ts ! i) \<longrightarrow> result_status r = Completed)"
    and none: "\<And>i. (i, None) \<in> set joined \<Longrightarrow> \<not> steady ops (cr_llm (ds_runner st)) env i (ts ! i)"
    using dag_wave_joins [OF assms, of ops env w] by metis
  let ?st' = "fold (dag_on_join ops task_map) joined st1" and ?rs = "wave_results joined"
  have jidx: "i < length ts" if "(i, res) \<in> set joined" for i res
    using that m idx by (metis fst_conv image_eqI image_set mset_eq_setD)
  have "\<forall>i r. (i, Some r) \<in> set joined \<longrightarrow> result_task_id r = task_id (ts ! i)" using res by (simp add: result_of_def)
  note facts = wave_results_facts [OF m _ this, unfolded ids, OF assms(3)]
  have sr: "\<forall>r \<in> set ?rs. sound_result r"
    using res unfolding Ball_def wave_results_mem result_of_def sound_result_def by blast
  show ?thesis
  proof (rule that [of ?st' ?rs, OF run])
    show "set (ds_completed ?st') = set (ds_completed st) \<union> completed_ids ?rs"
      using sr by (fastforce simp: fold_dag_on_join st1 completed_ids_def sound_result_def)
    show "ds_wave_failed ?st' \<longleftrightarrow> result_ids ?rs \<noteq> set ready \<or> (\<exists>r \<in> set ?rs. result_status r = Failed)"
      by (auto simp: fold_dag_on_join st1 facts(3))
    show "(\<forall>k < length ts. steady ops (cr_llm (ds_runner st)) env k (ts ! k)) \<longrightarrow> result_ids ?rs = set ready"
      using none jidx facts(3) by blast
    show "(\<forall>k < length ts. lucky ops (cr_llm (ds_runner st)) env k (ts ! k)) \<longrightarrow>
        (\<forall>r \<in> set ?rs. result_status r = Completed)"
      using res jidx unfolding Ball_def wave_results_mem by blast
  qed (use st1 sr facts in \<open>simp_all add: fold_dag_on_join\<close>)
qed

section \<open>The loop over the waves\<close>

text \<open>Every task of the results comes after its dependencies, all of which completed.\<close>

definition deps_respected :: "task list \<Rightarrow> task_result list \<Rightarrow> bool" where
  "deps_respected ts rs \<longleftrightarrow>
     (\<forall>xs r ys t d. rs = xs @ r # ys \<longrightarrow> t \<in> set ts \<longrightarrow> task_id t = result_task_id r \<longrightarrow>
        d \<in> set (task_dependencies t) \<longrightarrow> d \<in> completed_ids xs)"

definition dag_inv :: "task list \<Rightarrow> task_id list \<Rightarrow> ('p, 'c, 't) dag_state \<Rightarrow> bool" where
  "dag_inv ts remaining st \<longleftrightarrow>
     distinct (map result_task_id (ds_results st) @ remaining) \<and>
     set (map result_task_id (ds_results st) @ remaining) \<subseteq> task_id ` set ts \<and>
     (\<forall>r \<in> set (ds_results st). sound_result r) \<and>
     set (ds_completed st) = completed_ids (ds_results st) \<and>
     deps_respected ts (ds_results st) \<and> tracks ts (ds_runner st)"

lemma completed_ids_mono: "completed_ids xs \<subseteq> completed_ids (xs @ ys)"
  by simp

lemma deps_respected_append:
  assumes "deps_respected ts rs"
    and "\<forall>r \<in> set rs'. \<forall>t \<in> set ts. task_id t = result_task_id r \<longrightarrow> set (task_dependencies t) \<subseteq> completed_ids rs"
  shows "deps_respected ts (rs @ rs')"
  unfolding deps_respected_def
proof (intro allI impI)
  fix xs r ys t d
  assume split: "rs @ rs' = xs @ r # ys" and t: "t \<in> set ts" "task_id t = result_task_id r" "d \<in> set (task_dependencies t)"
  show "d \<in> completed_ids xs"
  proof (cases "length xs < length rs")
    case True
    then obtain ys' where "rs = xs @ r # ys'" using split
      by (auto simp: append_eq_append_conv2 Cons_eq_append_conv append_eq_Cons_conv)
    with assms(1) t show ?thesis by (auto simp: deps_respected_def)
  next
    case False
    then obtain zs where "xs = rs @ zs" "rs' = zs @ r # ys" using split
      by (auto simp: append_eq_append_conv2 Cons_eq_append_conv)
    with assms(2) t show ?thesis by auto
  qed
qed

lemma deps_done_iff:
  assumes "dag_setup ts dep_sets task_map" and "t \<in> set ts"
  shows "deps_done dep_sets completed (task_id t) \<longleftrightarrow> set (task_dependencies t) \<subseteq> set completed"
  using assms by (fastforce simp: dag_setup_def deps_done_def list_all_iff)

text \<open>A wave keeps the invariant.\<close>

lemma dag_inv_wave:
  assumes "dag_setup ts dep_sets task_map" and "dag_inv ts remaining st"
    and "ready = filter (deps_done dep_sets (ds_completed st)) remaining"
    and "not_ready = filter (\<lambda>i. \<not> deps_done dep_sets (ds_completed st) i) remaining"
    and "ds_results st' = ds_results st @ rs" "distinct (map result_task_id rs)" "result_ids rs \<subseteq> set ready"
    and "\<forall>r \<in> set rs. sound_result r" "set (ds_completed st') = set (ds_completed st) \<union> completed_ids rs"
    and "tracks ts (ds_runner st')"
  shows "dag_inv ts not_ready st'"
proof -
  note inv = assms(2) [unfolded dag_inv_def]
  have "\<forall>r \<in> set rs. \<forall>t \<in> set ts. task_id t = result_task_id r \<longrightarrow>
      set (task_dependencies t) \<subseteq> completed_ids (ds_results st)"
  proof (intro ballI impI)
    fix r t assume "r \<in> set rs" and t: "t \<in> set ts" "task_id t = result_task_id r"
    then have "deps_done dep_sets (ds_completed st) (task_id t)"
      using assms(3,7) by (auto simp: result_ids_def)
    with deps_done_iff [OF assms(1) t(1)] inv show "set (task_dependencies t) \<subseteq> completed_ids (ds_results st)" by simp
  qed
  then have "deps_respected ts (ds_results st')" using inv assms(5) by (simp add: deps_respected_append)
  moreover have "distinct (map result_task_id (ds_results st') @ not_ready)"
    using inv assms(3-7) by (auto simp: result_ids_def)
  moreover have "set (map result_task_id (ds_results st') @ not_ready) \<subseteq> task_id ` set ts"
  proof -
    have "result_task_id ` set rs \<subseteq> set remaining" "set not_ready \<subseteq> set remaining"
      using assms(3,4,7) by (auto simp: result_ids_def)
    with inv assms(5) show ?thesis by auto
  qed
  ultimately show ?thesis using inv assms(5,8,9,10) by (auto simp: dag_inv_def)
qed

text \<open>One round of the loop, with what it does to the state.\<close>

lemma dag_loop_round:
  assumes "dag_setup ts dep_sets task_map" and "dag_inv ts remaining st"
    and "remaining \<noteq> []" and "\<not> re_cancel_loop env w"
    and "ready = filter (deps_done dep_sets (ds_completed st)) remaining" and "ready \<noteq> []"
  obtains not_ready st' rs where
    "not_ready = filter (\<lambda>i. \<not> deps_done dep_sets (ds_completed st) i) remaining"
    and "length not_ready < length remaining" "dag_inv ts not_ready st'"
    and "cr_llm (ds_runner st') = cr_llm (ds_runner st)"
    and "ds_results st' = ds_results st @ rs" "result_ids rs \<subseteq> set ready"
    and "ds_wave_failed st' \<longleftrightarrow> result_ids rs \<noteq> set ready \<or> (\<exists>r \<in> set rs. result_status r = Failed)"
    and "(\<forall>k < length ts. steady ops (cr_llm (ds_runner st)) env k (ts ! k)) \<longrightarrow> result_ids rs = set ready"
    and "(\<forall>k < length ts. lucky ops (cr_llm (ds_runner st)) env k (ts ! k)) \<longrightarrow> (\<forall>r \<in> set rs. result_status r = Completed)"
    and "dag_loop ops env dep_sets task_map w remaining st =
      (if ds_wave_failed st' \<and> not_ready \<noteq> [] \<and> \<not> list_ex (deps_done dep_sets (ds_completed st')) not_ready
       then Some (Inr (ds_results st'), ds_runner st')
       else dag_loop ops env dep_sets task_map (Suc w) not_ready st')"
proof -
  let ?not_ready = "filter (\<lambda>i. \<not> deps_done dep_sets (ds_completed st) i) remaining"
  have "\<exists>i \<in> set remaining. deps_done dep_sets (ds_completed st) i" using assms(5,6) by (auto simp: filter_empty_conv)
  then have len: "length ?not_ready < length remaining" by (auto intro: length_filter_less)
  have "tracks ts (ds_runner st)" "distinct ready" "set ready \<subseteq> task_id ` set ts"
    using assms(2,5) by (auto simp: dag_inv_def)
  then obtain st' rs where
    wave: "dag_wave ops env task_map w ready st = Some st'"
    and tr: "tracks ts (ds_runner st')" and llm: "cr_llm (ds_runner st') = cr_llm (ds_runner st)"
    and res: "ds_results st' = ds_results st @ rs" "distinct (map result_task_id rs)" "result_ids rs \<subseteq> set ready"
      "\<forall>r \<in> set rs. sound_result r" "set (ds_completed st') = set (ds_completed st) \<union> completed_ids rs"
    and fl: "ds_wave_failed st' \<longleftrightarrow> result_ids rs \<noteq> set ready \<or> (\<exists>r \<in> set rs. result_status r = Failed)"
    and sl: "(\<forall>k < length ts. steady ops (cr_llm (ds_runner st)) env k (ts ! k)) \<longrightarrow> result_ids rs = set ready"
      "(\<forall>k < length ts. lucky ops (cr_llm (ds_runner st)) env k (ts ! k)) \<longrightarrow> (\<forall>r \<in> set rs. result_status r = Completed)"
    by (rule dag_wave_effect [OF assms(1), of st ready ops env w])
  have "dag_inv ts ?not_ready st'"
    by (rule dag_inv_wave [OF assms(1,2,5) refl res tr])
  moreover have "dag_loop ops env dep_sets task_map w remaining st =
      (if ds_wave_failed st' \<and> ?not_ready \<noteq> [] \<and> \<not> list_ex (deps_done dep_sets (ds_completed st')) ?not_ready
       then Some (Inr (ds_results st'), ds_runner st')
       else dag_loop ops env dep_sets task_map (Suc w) ?not_ready st')"
    using assms(3-6) wave by (subst dag_loop.simps) (simp add: Let_def)
  ultimately show ?thesis using that [OF refl len _ llm res(1,3) fl sl] by blast
qed

text \<open>The safety part of the invariant, for the results that are returned.\<close>

definition dag_results_ok :: "task list \<Rightarrow> task_result list \<Rightarrow> bool" where
  "dag_results_ok ts rs \<longleftrightarrow>
     distinct (map result_task_id rs) \<and> result_ids rs \<subseteq> task_id ` set ts \<and>
     (\<forall>r \<in> set rs. sound_result r) \<and> deps_respected ts rs"

lemma dag_inv_results: "dag_inv ts remaining st \<Longrightarrow> dag_results_ok ts (ds_results st)"
  by (auto simp: dag_inv_def dag_results_ok_def result_ids_def)

lemma dag_loop_returns:
  assumes "dag_setup ts dep_sets task_map" and "dag_inv ts remaining st"
  shows "\<exists>out cr'. dag_loop ops env dep_sets task_map w remaining st = Some (out, cr') \<and>
    (case out of
       Inl e \<Rightarrow> e = Scheduling ''DAG deadlock: no ready tasks but remaining exist''
     | Inr rs \<Rightarrow> dag_results_ok ts rs)"
  using assms(2)
proof (induction "length remaining" arbitrary: w remaining st rule: less_induct)
  case less
  let ?ready = "filter (deps_done dep_sets (ds_completed st)) remaining"
  consider "remaining = [] \<or> re_cancel_loop env w" | "remaining \<noteq> []" "\<not> re_cancel_loop env w" "?ready = []"
    | "remaining \<noteq> []" "\<not> re_cancel_loop env w" "?ready \<noteq> []" by blast
  then show ?case
  proof cases
    case 1
    then show ?thesis using dag_inv_results [OF less.prems] by (subst dag_loop.simps) simp
  next
    case 2
    then show ?thesis by (subst dag_loop.simps) simp
  next
    case 3
    show ?thesis
    proof (rule dag_loop_round [OF assms(1) less.prems 3(1,2) refl 3(3), of ops], goal_cases)
      case (1 not_ready st' rs)
      then show ?case
        using less.hyps [of not_ready st' "Suc w"] dag_inv_results [of ts not_ready st'] by auto
    qed
  qed
qed

lemma dag_loop_exhausts:
  assumes "dag_setup ts dep_sets task_map" and "dag_inv ts remaining st"
    and "\<forall>k < length ts. steady ops (cr_llm (ds_runner st)) env k (ts ! k)" and "\<forall>k. \<not> re_cancel_loop env k"
    and "dag_loop ops env dep_sets task_map w remaining st = Some (Inr rs, cr')"
    and "\<forall>r \<in> set rs. result_status r = Completed"
  shows "result_ids (ds_results st) \<union> set remaining \<subseteq> result_ids rs"
  using assms(2,3,5)
proof (induction "length remaining" arbitrary: w remaining st rule: less_induct)
  case less
  let ?ready = "filter (deps_done dep_sets (ds_completed st)) remaining"
  consider "remaining = []" | "remaining \<noteq> []" "?ready = []" | "remaining \<noteq> []" "?ready \<noteq> []" by blast
  then show ?case
  proof cases
    case 1
    then show ?thesis using less.prems(3) by (subst (asm) dag_loop.simps) simp
  next
    case 2
    then show ?thesis using less.prems(3) assms(4) by (subst (asm) dag_loop.simps) simp
  next
    case 3
    show ?thesis
    proof (rule dag_loop_round [OF assms(1) less.prems(1) 3(1) assms(4) [rule_format, of w] refl 3(2), of ops], goal_cases)
      case (1 not_ready st' rs1)
      have ready: "result_ids rs1 = set ?ready" using 1(8) less.prems(2) by blast
      have "result_ids (ds_results st') \<union> set not_ready = result_ids (ds_results st) \<union> set remaining"
        using 1(1,5) ready by (auto simp: result_ids_def)
      moreover have "result_ids (ds_results st') \<union> set not_ready \<subseteq> result_ids rs"
      proof (cases "ds_wave_failed st' \<and> not_ready \<noteq> [] \<and> \<not> list_ex (deps_done dep_sets (ds_completed st')) not_ready")
        case True
        then have "\<exists>r \<in> set rs1. result_status r = Failed" using 1(7) ready by blast
        with True 1(5,10) less.prems(3) assms(6) show ?thesis by auto
      next
        case False
        then have "dag_loop ops env dep_sets task_map (Suc w) not_ready st' = Some (Inr rs, cr')"
          using 1(10) less.prems(3) by argo
        with less.hyps [OF 1(2,3)] less.prems(2) 1(4) show ?thesis by simp
      qed
      ultimately show ?case by blast
    qed
  qed
qed

text \<open>While tasks remain and all others are completed, some task is ready: the first one in a
  topological order.\<close>

lemma dag_ready:
  assumes "dag_setup ts dep_sets task_map" and "topological_sort_tasks ts = Some (Inr order)"
    and "\<forall>t \<in> set ts. set (task_dependencies t) \<subseteq> task_id ` set ts"
    and "task_id ` set ts \<subseteq> set completed \<union> set remaining" and "set remaining \<subseteq> task_id ` set ts" and "remaining \<noteq> []"
  shows "filter (deps_done dep_sets completed) remaining \<noteq> []"
proof -
  have order: "set order = task_id ` set ts"
    using topological_sort_tasks_Inr(2) [OF assms(2)] by (simp add: task_nodes_def)
  then have "\<exists>i \<in> set order. i \<in> set remaining" using assms(5,6) by (cases remaining) auto
  then obtain xs i ys where split: "order = xs @ i # ys" "i \<in> set remaining" "\<forall>j \<in> set xs. j \<notin> set remaining"
    using split_list_first_prop [of order "\<lambda>i. i \<in> set remaining"] by blast
  obtain t where t: "t \<in> set ts" "i = task_id t" using order split(1) by auto
  have "set (task_dependencies t) \<subseteq> set completed"
  proof
    fix d assume d: "d \<in> set (task_dependencies t)"
    then have "d \<in> task_id ` set ts" using assms(3) t by blast
    moreover have "d \<notin> set remaining"
      using topological_sort_tasks_order [OF assms(2) _ t(1) d \<open>d \<in> task_id ` set ts\<close>] split t(2) by blast
    ultimately show "d \<in> set completed" using assms(4) by auto
  qed
  then have "deps_done dep_sets completed i" using deps_done_iff [OF assms(1) t(1)] t(2) by simp
  with split(2) show ?thesis by (auto simp: filter_empty_conv)
qed

lemma dag_loop_lucky:
  assumes "dag_setup ts dep_sets task_map" and "topological_sort_tasks ts = Some (Inr order)"
    and "\<forall>t \<in> set ts. set (task_dependencies t) \<subseteq> task_id ` set ts" and "\<forall>k. \<not> re_cancel_loop env k"
    and "dag_inv ts remaining st" and "\<forall>k < length ts. lucky ops (cr_llm (ds_runner st)) env k (ts ! k)"
    and "\<forall>r \<in> set (ds_results st). result_status r = Completed"
    and "task_id ` set ts = result_ids (ds_results st) \<union> set remaining"
  shows "\<exists>rs cr'. dag_loop ops env dep_sets task_map w remaining st = Some (Inr rs, cr') \<and>
    (\<forall>r \<in> set rs. result_status r = Completed) \<and> result_ids rs = task_id ` set ts"
  using assms(5-)
proof (induction "length remaining" arbitrary: w remaining st rule: less_induct)
  case less
  show ?case
  proof (cases "remaining = []")
    case True
    then show ?thesis using less.prems by (subst dag_loop.simps) simp
  next
    case False
    have "set (ds_completed st) = result_ids (ds_results st)"
      using less.prems(1,3) by (auto simp: dag_inv_def completed_ids_def result_ids_def)
    with less.prems(4) have ready: "filter (deps_done dep_sets (ds_completed st)) remaining \<noteq> []"
      by (intro dag_ready [OF assms(1-3) _ _ False]) auto
    show ?thesis
    proof (rule dag_loop_round [OF assms(1) less.prems(1) False assms(4) [rule_format, of w] refl ready, of ops], goal_cases)
      case (1 not_ready st' rs)
      have st: "\<forall>k < length ts. steady ops (cr_llm (ds_runner st)) env k (ts ! k)"
        using less.prems(2) lucky_steady by blast
      have rs: "\<forall>r \<in> set rs. result_status r = Completed" using 1(9) less.prems(2) by blast
      have "result_ids rs = set (filter (deps_done dep_sets (ds_completed st)) remaining)" using 1(8) st by blast
      then have ids: "task_id ` set ts = result_ids (ds_results st') \<union> set not_ready"
        using 1(1,5) less.prems(4) by (auto simp: result_ids_def)
      have "\<not> ds_wave_failed st'" using 1(7,8) st rs by auto
      then have "dag_loop ops env dep_sets task_map w remaining st = dag_loop ops env dep_sets task_map (Suc w) not_ready st'"
        using 1(10) by simp
      moreover have "\<exists>rs cr'. dag_loop ops env dep_sets task_map (Suc w) not_ready st' = Some (Inr rs, cr') \<and>
          (\<forall>r \<in> set rs. result_status r = Completed) \<and> result_ids rs = task_id ` set ts"
        using less.prems(2,3) 1(4,5) rs ids by (intro less.hyps 1(2,3)) auto
      ultimately show ?case by simp
    qed
  qed
qed

section \<open>The whole DAG mode\<close>

lemma dag_setup_built:
  assumes "distinct (map task_id ts)"
  shows "dag_setup ts (fold (\<lambda>t. hm_insert (task_id t) (remdups (task_dependencies t))) ts hm_empty)
    (fold (\<lambda>(i, t). hm_insert (task_id t) i) (enumerate 0 ts) hm_empty)"
proof -
  let ?m = "fold (\<lambda>(i, t). hm_insert (task_id t) i) (enumerate 0 ts) hm_empty"
  have m: "?m = fold (\<lambda>x. hm_insert ((task_id \<circ> snd) x) (fst x)) (enumerate 0 ts) hm_empty"
    by (simp add: case_prod_unfold comp_def)
  have d: "distinct (map (task_id \<circ> snd) (enumerate 0 ts))" using assms by (simp add: map_map [symmetric] del: map_map)
  have mem: "(k, t) \<in> set (enumerate 0 ts) \<longleftrightarrow> k < length ts \<and> t = ts ! k" for k t
    by (auto simp: in_set_enumerate_eq)
  have get: "hm_get ?m (task_id (ts ! k)) = Some k" if "k < length ts" for k
    using fold_insert_distinct [OF d, of "(k, ts ! k)" fst hm_empty] mem that unfolding m by simp
  have none: "hm_get ?m i = None" if "i \<notin> task_id ` set ts" for i
    unfolding m using that by (subst fold_insert_other) (auto simp: mem image_iff)
  have "hm_get ?m i = Some k \<longleftrightarrow> k < length ts \<and> task_id (ts ! k) = i" for i k
  proof
    assume k: "hm_get ?m i = Some k"
    with none have "i \<in> task_id ` set ts" by force
    then obtain j where "j < length ts" "i = task_id (ts ! j)" by (auto simp: in_set_conv_nth)
    with k get [of j] show "k < length ts \<and> task_id (ts ! k) = i" by simp
  qed (use get in blast)
  moreover have "hm_get (fold (\<lambda>t. hm_insert (task_id t) (remdups (task_dependencies t))) ts hm_empty) (task_id t) =
      Some (remdups (task_dependencies t))" if "t \<in> set ts" for t
    using fold_insert_distinct [OF assms that] .
  ultimately show ?thesis using assms by (auto simp: dag_setup_def)
qed

lemma dag_inv_start:
  assumes "topological_sort_tasks (tasks_of cr) = Some (Inr order)"
  shows "dag_inv (tasks_of cr) order
    \<lparr> ds_completed = [], ds_results = [], ds_wave_failed = False, ds_runner = cr \<rparr>"
  using topological_sort_tasks_Inr(1,2) [OF assms]
  by (auto simp: dag_inv_def tracks_def deps_respected_def completed_ids_def task_nodes_def)

lemma run_dag_cases:
  obtains "run_dag ops env cr = Some (Inl CyclicDAG, cr)" and "\<nexists>order. topological_sort_tasks (tasks_of cr) = Some (Inr order)"
  | order dep_sets task_map where "topological_sort_tasks (tasks_of cr) = Some (Inr order)"
    and "dag_setup (tasks_of cr) dep_sets task_map"
    and "run_dag ops env cr = dag_loop ops env dep_sets task_map 0 order
      \<lparr> ds_completed = [], ds_results = [], ds_wave_failed = False, ds_runner = cr \<rparr>"
proof (cases "\<exists>order. topological_sort_tasks (tasks_of cr) = Some (Inr order)")
  case True
  then obtain order where o: "topological_sort_tasks (tasks_of cr) = Some (Inr order)" by blast
  from that(2) [OF o dag_setup_built [OF topological_sort_tasks_Inr(3) [OF o]]] o show ?thesis
    by (simp add: run_dag_def Let_def)
next
  case False
  then have "topological_sort_tasks (tasks_of cr) = Some (Inl CyclicDAG)"
    using topological_sort_tasks_run [of "tasks_of cr"] by (auto split: if_splits)
  with that(1) False show ?thesis by (simp add: run_dag_def)
qed

lemma run_dag_lucky:
  assumes "topological_sort_tasks (tasks_of cr) = Some (Inr order)"
    and "\<forall>t \<in> set (tasks_of cr). set (task_dependencies t) \<subseteq> task_id ` set (tasks_of cr)"
    and "\<forall>k < length (tasks_of cr). lucky ops (cr_llm cr) env k (tasks_of cr ! k)"
    and "\<forall>k. \<not> re_cancel_loop env k"
  shows "\<exists>rs cr'. run_dag ops env cr = Some (Inr rs, cr') \<and>
    mset (map result_task_id rs) = mset (map task_id (tasks_of cr)) \<and>
    (\<forall>r \<in> set rs. result_status r = Completed) \<and> deps_respected (tasks_of cr) rs"
proof (rule run_dag_cases [of ops env cr], goal_cases)
  case 1
  then show ?case using assms(1) by blast
next
  case (2 order' dep_sets task_map)
  let ?st = "\<lparr> ds_completed = [], ds_results = [], ds_wave_failed = False, ds_runner = cr \<rparr>"
  have "task_id ` set (tasks_of cr) = set order'"
    using topological_sort_tasks_Inr(2) [OF 2(1)] by (simp add: task_nodes_def)
  then obtain rs cr' where run: "run_dag ops env cr = Some (Inr rs, cr')"
    "\<forall>r \<in> set rs. result_status r = Completed" "result_ids rs = task_id ` set (tasks_of cr)"
    using dag_loop_lucky [OF 2(2,1) assms(2,4) dag_inv_start [OF 2(1)], of ops 0] assms(3) 2(3)
    by (auto simp: result_ids_def)
  have ok: "dag_results_ok (tasks_of cr) rs"
    using dag_loop_returns [OF 2(2) dag_inv_start [OF 2(1)], of ops env 0] 2(3) run(1) by auto
  have "mset (map result_task_id rs) = mset (map task_id (tasks_of cr))"
    using run(3) ok topological_sort_tasks_Inr(3) [OF 2(1)]
    by (intro set_eq_iff_mset_eq_distinct [THEN iffD1]) (auto simp: dag_results_ok_def result_ids_def)
  with run ok show ?case by (auto simp: dag_results_ok_def)
qed

section \<open>Properties\<close>

text \<open>C1. The DAG mode is safe and always returns: for every interleaving, every pattern of
  failures, panics and cancellation, the run returns; no task runs twice, only tasks of the
  crew run, and a task runs only after every one of its dependencies has completed.\<close>

theorem run_dag_safe:
  "\<exists>out cr'. run_dag ops env cr = Some (out, cr') \<and>
    (case out of
       Inl e \<Rightarrow> e = CyclicDAG \<or> e = Scheduling ''DAG deadlock: no ready tasks but remaining exist''
     | Inr rs \<Rightarrow> distinct (map result_task_id rs) \<and> result_task_id ` set rs \<subseteq> task_id ` set (tasks_of cr) \<and>
         deps_respected (tasks_of cr) rs)"
proof (rule run_dag_cases [of ops env cr], goal_cases)
  case 1
  then show ?case by simp
next
  case (2 order dep_sets task_map)
  obtain out cr' where run: "run_dag ops env cr = Some (out, cr')"
    and out: "case out of Inl e \<Rightarrow> e = Scheduling ''DAG deadlock: no ready tasks but remaining exist''
      | Inr rs \<Rightarrow> dag_results_ok (tasks_of cr) rs"
    using dag_loop_returns [OF 2(2) dag_inv_start [OF 2(1)], of ops env 0] 2(3) by auto
  have "case out of Inl e \<Rightarrow> e = CyclicDAG \<or> e = Scheduling ''DAG deadlock: no ready tasks but remaining exist''
      | Inr rs \<Rightarrow> distinct (map result_task_id rs) \<and> result_task_id ` set rs \<subseteq> task_id ` set (tasks_of cr) \<and>
          deps_respected (tasks_of cr) rs"
    using out by (cases out) (simp_all add: dag_results_ok_def result_ids_def)
  with run show ?case by blast
qed

text \<open>C7. The DAG mode is complete: when the dependencies are tasks of the crew and have no cycle,
  no task fails and the crew is not cancelled, every task completes, each after its
  dependencies, for every interleaving.\<close>

theorem run_dag_complete:
  assumes "topological_sort_tasks (tasks_of cr) = Some (Inr order)"
    and "\<forall>t \<in> set (tasks_of cr). set (task_dependencies t) \<subseteq> task_id ` set (tasks_of cr)"
    and "\<forall>k < length (tasks_of cr). lucky ops (cr_llm cr) env k (tasks_of cr ! k)"
    and "\<forall>k. \<not> re_cancel_loop env k"
  shows "\<exists>rs cr'. run_dag ops env cr = Some (Inr rs, cr') \<and>
    mset (map result_task_id rs) = mset (map task_id (tasks_of cr)) \<and>
    (\<forall>r \<in> set rs. result_status r = Completed) \<and> deps_respected (tasks_of cr) rs"
  using assms by (rule run_dag_lucky)

definition crew_dag_sample :: "task list" where
  "crew_dag_sample = [(task_new 1 ''a'')\<lparr>task_dependencies := [2]\<rparr>, task_new 2 ''b'']"

definition calm_env :: "string run_env" where
  "calm_env = sample_run_env\<lparr>re_cancel_loop := (\<lambda>_. False), re_cancel_end := False\<rparr>"

lemma calm_env_lucky:
  assumes "task_short sample_runner_ops t" and "task_output_schema t = None"
  shows "lucky sample_runner_ops llm calm_env k t"
  using assms by (rule lucky_calls) (simp add: calm_env_def sample_run_env_def sample_env_def)

lemma sample_lucky: "t \<in> set crew_dag_sample \<Longrightarrow> lucky sample_runner_ops llm calm_env k t"
  by (rule calm_env_lucky) (auto simp: crew_dag_sample_def task_short_def sample_runner_ops_def task_new_def)

theorem run_dag_complete_witness:
  "\<exists>rs cr'. run_dag sample_runner_ops calm_env (sample_runner Dag crew_dag_sample) = Some (Inr rs, cr') \<and>
     mset (map result_task_id rs) = mset [1, 2] \<and> deps_respected crew_dag_sample rs"
proof -
  have "topological_sort_tasks (tasks_of (sample_runner Dag crew_dag_sample)) = Some (Inr [2, 1])"
    unfolding sample_runner_spec by code_simp
  moreover have "\<forall>k < length crew_dag_sample. lucky sample_runner_ops True calm_env k (crew_dag_sample ! k)"
    by (simp add: sample_lucky)
  ultimately show ?thesis
    using run_dag_complete [of "sample_runner Dag crew_dag_sample" "[2, 1]" sample_runner_ops calm_env]
    by (auto simp: calm_env_def crew_dag_sample_def task_new_def)
qed

end
