(* ===== verification/Crew_Life.thy ===== *)
theory Crew_Life
  imports Crew_Dag
begin

text \<open>
  The whole run of a crew, \<open>CrewRunner::run\<close>: it returns, a crew reported as completed has
  a completed result for every one of its tasks, in every mode, and its profile adds up.
\<close>

section \<open>The identity of the crew is kept\<close>

abbreviation crew_of :: "('p, 'c, 't) crew_runner \<Rightarrow> crew_id" where
  "crew_of cr \<equiv> crew_id (cr_spec cr)"

lemma map_tasks_crew [simp]: "crew_of (map_tasks f cr) = crew_of cr"
  by (simp add: map_tasks_def)

lemma sequential_step_crew: "sequential_step ops env i cr = Some (r, cr') \<Longrightarrow> crew_of cr' = crew_of cr"
  by (auto simp: sequential_step_def Let_def split: option.splits prod.splits)

lemma sequential_loop_crew:
  "sequential_loop ops env is results cr = Some (rs, cr') \<Longrightarrow> crew_of cr' = crew_of cr"
  by (induction "is" arbitrary: results cr)
    (auto dest: sequential_step_crew split: if_splits option.splits)

lemma fold_par_on_join_crew: "crew_of (snd (fold (par_on_join ops env) js (rs, cr))) = crew_of cr"
  by (induction js arbitrary: rs cr) (auto simp: par_on_join_def split: option.splits)

lemma run_parallel_crew: "run_parallel ops env max_c cr = Some (rs, cr') \<Longrightarrow> crew_of cr' = crew_of cr"
  by (auto simp: run_parallel_def Let_def case_prod_unfold fold_par_on_join_crew
      fold_emit_started [unfolded case_prod_unfold] split: if_splits option.splits)

lemma fold_dag_spawn_crew: "crew_of (snd (fold (dag_spawn ops) idxs (wave, cr))) = crew_of cr"
  by (induction idxs arbitrary: wave cr) (simp_all add: dag_spawn_def Let_def)

lemma fold_dag_on_join_crew: "crew_of (ds_runner (fold (dag_on_join ops task_map) js st)) = crew_of (ds_runner st)"
  by (induction js arbitrary: st) (auto simp: dag_on_join_def Let_def split: option.splits)

lemma dag_wave_crew:
  assumes "dag_wave ops env task_map w ready st = Some st'"
  shows "crew_of (ds_runner st') = crew_of (ds_runner st)"
proof -
  let ?idxs = "map (\<lambda>i. the (hm_get task_map i)) ready"
  obtain wave cr where f: "fold (dag_spawn ops) ?idxs ([], ds_runner st) = (wave, cr)" by (cases "fold (dag_spawn ops) ?idxs ([], ds_runner st)")
  with fold_dag_spawn_crew [of ops ?idxs "[]" "ds_runner st"] have "crew_of cr = crew_of (ds_runner st)" by simp
  with assms f show ?thesis
    by (auto simp: dag_wave_def Let_def fold_dag_on_join_crew split: if_splits option.splits)
qed

lemma dag_loop_crew:
  "dag_loop ops env dep_sets task_map w remaining st = Some (out, cr') \<Longrightarrow> crew_of cr' = crew_of (ds_runner st)"
proof (induction "length remaining" arbitrary: w remaining st rule: less_induct)
  case less
  let ?ready = "filter (deps_done dep_sets (ds_completed st)) remaining"
  let ?rest = "filter (\<lambda>i. \<not> deps_done dep_sets (ds_completed st) i) remaining"
  show ?case
  proof (cases "remaining = [] \<or> re_cancel_loop env w \<or> ?ready = []")
    case True
    with less.prems show ?thesis by (subst (asm) dag_loop.simps) (auto simp: Let_def split: if_splits)
  next
    case False
    then have "length ?rest < length remaining" by (auto simp: filter_empty_conv intro: length_filter_less)
    from False less.prems obtain st' where st': "dag_wave ops env task_map w ?ready st = Some st'"
      and "cr' = ds_runner st' \<or> dag_loop ops env dep_sets task_map (Suc w) ?rest st' = Some (out, cr')"
      by (subst (asm) dag_loop.simps) (auto simp: Let_def split: if_splits option.splits)
    with less.hyps [OF \<open>length ?rest < length remaining\<close>, of "Suc w" st'] dag_wave_crew [OF st']
    show ?thesis by auto
  qed
qed

lemma run_mode_crew: "run_mode ops env cr = Some (out, cr') \<Longrightarrow> crew_of cr' = crew_of cr"
  by (auto simp: run_mode_def run_sequential_def run_dag_def Let_def
      dest: sequential_loop_crew run_parallel_crew dag_loop_crew
      split: process_mode.splits option.splits sum.splits)

text \<open>The runner after the first event.\<close>

abbreviation begun :: "('p, 'c, 't, 'e) runner_ops \<Rightarrow> ('p, 'c, 't) crew_runner \<Rightarrow> ('p, 'c, 't) crew_runner" where
  "begun ops cr \<equiv> emit ops ''crew_started''
     (JObject [(''name'', JString (crew_name (cr_spec cr))),
        (''task_count'', JNumber (of_nat (length (tasks_of cr))))]) cr"

lemma crew_run_Inr:
  assumes "crew_run ops strength env cr = Some (Inr st, cr')"
  obtains cr1 p where "run_mode ops env (begun ops cr) = Some (Inr (state_results st), cr1)"
    and "state_status st = crew_outcome (re_cancel_end env) (state_results st)"
    and "state_profile st = Some p" and "prof_task_count p = length (state_results st)"
    and "prof_cost_usd p = sum_list (hm_values (task_costs (state_results st)))"
    and "prof_agent_cost_usd p = agent_costs (state_results st)"
  using assms by (auto simp: crew_run_def Let_def split: option.splits sum.splits)

section \<open>What the modes return\<close>

text \<open>A parallel mode has at least one permit and not more than a semaphore can hold.\<close>

definition mode_ok :: "'e run_env \<Rightarrow> process_mode \<Rightarrow> bool" where
  "mode_ok env mode = (case mode of Parallel m \<Rightarrow> 0 < m \<and> m \<le> re_max_permits env | _ \<Rightarrow> True)"

lemma run_sequential_results:
  assumes "calm ops env (tasks_of cr)"
  obtains rs cr' where "run_sequential ops env cr = Some (rs, cr')"
    and "list_all2 (\<lambda>i r. result_of (tasks_of cr ! i) r) (uncancelled env [0..<length (tasks_of cr)]) rs"
  using sequential_loop_prefix [OF assms, of "[0..<length (tasks_of cr)]" cr "[]"]
  by (auto simp: run_sequential_def lessThan_atLeast0)

lemma run_dag_returns:
  obtains out cr' where "run_dag ops env cr = Some (out, cr')"
    and "case out of
       Inl e \<Rightarrow> e = CyclicDAG \<or> e = Scheduling ''DAG deadlock: no ready tasks but remaining exist''
     | Inr rs \<Rightarrow> dag_results_ok (tasks_of cr) rs"
proof (rule run_dag_cases [of ops env cr])
  assume "run_dag ops env cr = Some (Inl CyclicDAG, cr)"
  with that show thesis by fastforce
next
  fix order dep_sets task_map
  assume o: "topological_sort_tasks (tasks_of cr) = Some (Inr order)" and d: "dag_setup (tasks_of cr) dep_sets task_map"
    and "run_dag ops env cr = dag_loop ops env dep_sets task_map 0 order
      \<lparr> ds_completed = [], ds_results = [], ds_wave_failed = False, ds_runner = cr \<rparr>"
  with dag_loop_returns [OF d dag_inv_start [OF o], of ops env 0]
  obtain out cr' where "run_dag ops env cr = Some (out, cr')"
    "case out of Inl e \<Rightarrow> e = Scheduling ''DAG deadlock: no ready tasks but remaining exist''
     | Inr rs \<Rightarrow> dag_results_ok (tasks_of cr) rs" by auto
  with that [of out cr'] show thesis by (cases out) auto
qed

definition outcome_ok :: "process_mode \<Rightarrow> task_result list res \<Rightarrow> bool" where
  "outcome_ok mode out =
     (case out of
        Inl e \<Rightarrow> mode = Dag \<and>
          (e = CyclicDAG \<or> e = Scheduling ''DAG deadlock: no ready tasks but remaining exist'')
      | Inr rs \<Rightarrow> \<forall>r \<in> set rs. sound_result r)"

text \<open>Every mode returns; only the DAG mode has errors, and every result is sound.\<close>

lemma run_mode_returns:
  assumes "calm ops env (tasks_of cr)" and "mode_ok env (crew_process (cr_spec cr))"
  obtains out cr' where "run_mode ops env cr = Some (out, cr')"
    and "outcome_ok (crew_process (cr_spec cr)) out"
proof -
  obtain rs1 cr1 where s: "run_sequential ops env cr = Some (rs1, cr1)" "\<forall>r \<in> set rs1. sound_result r"
    using run_sequential_results [OF assms(1)]
    by (metis (no_types, lifting) in_set_conv_nth list_all2_conv_all_nth result_of_def sound_result_def)
  show thesis
  proof (cases "crew_process (cr_spec cr)")
    case (Parallel m)
    with assms(2) have "0 < m" "m \<le> re_max_permits env" by (simp_all add: mode_ok_def)
    from run_parallel_joins [OF this, of ops cr] obtain joined cr2 where
      p: "run_parallel ops env m cr = Some (map (join_result env) joined, cr2)"
      and ok: "\<forall>(i, res) \<in> set joined. \<forall>r. res = Some r \<longrightarrow> result_of (tasks_of cr ! i) r" by blast
    have "\<forall>x \<in> set joined. sound_result (join_result env x)"
      using ok by (fastforce simp: join_result_def sound_result_def result_of_def split: option.splits)
    with that [of "Inr (map (join_result env) joined)" cr2] p Parallel show thesis
      by (auto simp: run_mode_def outcome_ok_def)
  next
    case Dag
    obtain out cr2 where d: "run_dag ops env cr = Some (out, cr2)" "case out of
       Inl e \<Rightarrow> e = CyclicDAG \<or> e = Scheduling ''DAG deadlock: no ready tasks but remaining exist''
     | Inr rs \<Rightarrow> dag_results_ok (tasks_of cr) rs" by (rule run_dag_returns)
    with that [of out cr2] Dag show thesis by (cases out) (auto simp: run_mode_def outcome_ok_def dag_results_ok_def)
  qed (use that [of "Inr rs1" cr1] s in \<open>auto simp: run_mode_def outcome_ok_def\<close>)
qed

lemma run_sequential_completed:
  assumes "calm ops env (tasks_of cr)" and "\<forall>k. \<not> re_cancel_loop env k"
    and "run_sequential ops env cr = Some (rs, cr')"
  shows "map result_task_id rs = map task_id (tasks_of cr)"
proof -
  have "uncancelled env [0..<length (tasks_of cr)] = [0..<length (tasks_of cr)]"
    using assms(2) by (simp add: uncancelled_def)
  with assms(3) have "list_all2 (\<lambda>i r. result_of (tasks_of cr ! i) r) [0..<length (tasks_of cr)] rs"
    using run_sequential_results [OF assms(1)] by force
  then show ?thesis by (intro nth_equalityI) (auto simp: list_all2_conv_all_nth result_of_def)
qed

lemma run_parallel_completed:
  assumes "0 < m" and "m \<le> re_max_permits env" and "run_parallel ops env m cr = Some (rs, cr')"
    and "\<forall>r \<in> set rs. result_status r = Completed"
  shows "mset (map result_task_id rs) = mset (map task_id (tasks_of cr))"
proof -
  let ?n = "length (tasks_of cr)"
  from run_parallel_joins [OF assms(1,2), of ops cr] assms(3) obtain joined where
    rs: "rs = map (join_result env) joined" and m: "mset (map fst joined) = mset [0..<?n]"
    and ok: "\<forall>(i, res) \<in> set joined. \<forall>r. res = Some r \<longrightarrow> result_of (tasks_of cr ! i) r" by auto
  have "result_task_id (join_result env x) = task_id (tasks_of cr ! fst x)" if "x \<in> set joined" for x
  proof -
    obtain i res where x: "x = (i, res)" by (cases x)
    have "join_result env x \<in> set rs" using that rs by simp
    with assms(4) have "result_status (join_result env x) = Completed" by blast
    with x obtain r where "res = Some r" by (cases res) (simp_all add: join_result_def)
    with x that ok show ?thesis by (auto simp: join_result_def result_of_def)
  qed
  then have "map result_task_id rs = map (\<lambda>i. task_id (tasks_of cr ! i)) (map fst joined)" unfolding rs by simp
  then have "mset (map result_task_id rs) = image_mset (\<lambda>i. task_id (tasks_of cr ! i)) (mset (map fst joined))"
    by (simp only: mset_map)
  also have "\<dots> = mset (map (\<lambda>i. task_id (tasks_of cr ! i)) [0..<?n])" unfolding m by simp
  also have "map (\<lambda>i. task_id (tasks_of cr ! i)) [0..<?n] = map task_id (tasks_of cr)"
    by (auto intro: nth_equalityI)
  finally show ?thesis .
qed

lemma run_dag_completed:
  assumes "calm ops env (tasks_of cr)" and "\<forall>k. \<not> re_cancel_loop env k"
    and run: "run_dag ops env cr = Some (Inr rs, cr')" and "\<forall>r \<in> set rs. result_status r = Completed"
  shows "mset (map result_task_id rs) = mset (map task_id (tasks_of cr))"
proof -
  from run obtain order dep_sets task_map where o: "topological_sort_tasks (tasks_of cr) = Some (Inr order)"
    and d: "dag_setup (tasks_of cr) dep_sets task_map"
    and l: "dag_loop ops env dep_sets task_map 0 order
      \<lparr> ds_completed = [], ds_results = [], ds_wave_failed = False, ds_runner = cr \<rparr> = Some (Inr rs, cr')"
    by (cases rule: run_dag_cases [of ops env cr]) auto
  have "\<forall>k < length (tasks_of cr). steady ops (cr_llm cr) env k (tasks_of cr ! k)"
    using assms(1) by (auto intro: calm_steady)
  with dag_loop_exhausts [OF d dag_inv_start [OF o] _ assms(2) l assms(4)]
  have "set order \<subseteq> result_ids rs" by simp
  moreover have "set order = task_id ` set (tasks_of cr)"
    using topological_sort_tasks_Inr(2) [OF o] by (simp add: task_nodes_def)
  moreover have "dag_results_ok (tasks_of cr) rs" using run_dag_returns [of ops env cr] run by fastforce
  ultimately show ?thesis using topological_sort_tasks_Inr(3) [OF o]
    by (intro set_eq_iff_mset_eq_distinct [THEN iffD1]) (auto simp: dag_results_ok_def result_ids_def)
qed

lemma run_mode_completed:
  assumes "calm ops env (tasks_of cr)" and "mode_ok env (crew_process (cr_spec cr))"
    and "\<forall>k. \<not> re_cancel_loop env k" and "run_mode ops env cr = Some (Inr rs, cr')"
    and "\<forall>r \<in> set rs. result_status r = Completed"
  shows "mset (map result_task_id rs) = mset (map task_id (tasks_of cr))"
proof -
  consider "run_sequential ops env cr = Some (rs, cr')"
    | m where "run_parallel ops env m cr = Some (rs, cr')" "0 < m" "m \<le> re_max_permits env"
    | "run_dag ops env cr = Some (Inr rs, cr')"
    using assms(2,4) by (auto simp: run_mode_def mode_ok_def split: process_mode.splits)
  then show ?thesis
  proof cases
    case 1
    then show ?thesis using run_sequential_completed [OF assms(1,3)] by simp
  qed (use run_parallel_completed assms run_dag_completed in blast)+
qed

section \<open>The profile\<close>

lemma fold_costs_sum:
  assumes "distinct (map result_task_id rs)" and "hm_wf m"
    and "\<forall>r \<in> set rs. hm_get m (result_task_id r) = None"
  shows "sum_list (hm_values (fold (\<lambda>r m. case result_cost r of None \<Rightarrow> m | Some c \<Rightarrow> hm_insert (result_task_id r) c m) rs m)) =
    sum_list (hm_values m) + sum_list (map (\<lambda>r. case result_cost r of None \<Rightarrow> 0 | Some c \<Rightarrow> c) rs)"
  using assms
proof (induction rs arbitrary: m)
  case (Cons r rs)
  let ?m = "case result_cost r of None \<Rightarrow> m | Some c \<Rightarrow> hm_insert (result_task_id r) c m"
  have "hm_wf ?m" "\<forall>q \<in> set rs. hm_get ?m (result_task_id q) = None"
    using Cons.prems by (auto simp: image_iff split: option.splits)
  moreover have "sum_list (hm_values ?m) = sum_list (hm_values m) + (case result_cost r of None \<Rightarrow> 0 | Some c \<Rightarrow> c)"
    using Cons.prems(3) by (auto simp: hm_values_insert_new split: option.splits)
  ultimately show ?case using Cons.IH [of ?m] Cons.prems(1) by simp
qed simp

lemma agent_costs_none:
  "\<forall>r \<in> set rs. hm_get (result_metadata r) ''agent'' = None \<Longrightarrow> agent_costs rs = hm_empty"
proof -
  assume "\<forall>r \<in> set rs. hm_get (result_metadata r) ''agent'' = None"
  then have "fold (\<lambda>r m. case (result_cost r, Option.bind (hm_get (result_metadata r) ''agent'') as_str) of
       (Some c, Some key) \<Rightarrow> hm_insert key ((case hm_get m key of None \<Rightarrow> 0 | Some x \<Rightarrow> x) + c) m
     | _ \<Rightarrow> m) rs m = m" for m
    by (induction rs) (auto split: option.splits)
  then show ?thesis by (simp add: agent_costs_def)
qed

lemma crew_run_total:
  assumes "calm ops env (tasks_of cr)" and "mode_ok env (crew_process (cr_spec cr))"
  shows "\<exists>out cr'. crew_run ops strength env cr = Some (out, cr') \<and>
    (case out of
       Inl e \<Rightarrow> crew_process (cr_spec cr) = Dag \<and>
         (e = CyclicDAG \<or> e = Scheduling ''DAG deadlock: no ready tasks but remaining exist'')
     | Inr st \<Rightarrow> state_crew_id st = crew_id (cr_spec cr) \<and>
         state_status st \<in> {CrCompleted, CrFailed, CrCancelled} \<and>
         result_status ` set (state_results st) \<subseteq> {Completed, Failed} \<and> state_profile st \<noteq> None)"
proof -
  obtain out cr' where run: "run_mode ops env (begun ops cr) = Some (out, cr')"
    and out: "outcome_ok (crew_process (cr_spec cr)) out"
    by (rule run_mode_returns [of ops env "begun ops cr"]) (use assms in simp_all)
  show ?thesis
  proof (cases out)
    case (Inl e)
    with run out show ?thesis by (simp add: crew_run_def outcome_ok_def)
  next
    case (Inr rs)
    with run out run_mode_crew [OF run] show ?thesis
      by (auto simp: crew_run_def Let_def crew_outcome_def outcome_ok_def sound_result_def)
  qed
qed

section \<open>Properties\<close>

text \<open>C8. A crew run always returns, for every interleaving of its tasks and every pattern of failed
  model calls and of cancellation, and it returns one of two things. Either a state with the
  crew's id, one of the three final statuses, results that are completed or failed, and a
  profile; or, in DAG mode only, an error, which is \<open>CyclicDAG\<close> or the deadlock error (a
  dependency failed or is not a task of the crew). The conditions are that no text of a task
  and no answer of the model is longer than 50000 bytes (so that the prompt guard does not
  panic), that the random delays of the retries are drawn within their range, and that a parallel
  crew has at least one permit and at most \<open>Semaphore::MAX_PERMITS\<close>.\<close>

theorem crew_run_returns:
  assumes "calm ops env (tasks_of cr)" and "mode_ok env (crew_process (cr_spec cr))"
  shows "\<exists>out cr'. crew_run ops strength env cr = Some (out, cr') \<and>
    (case out of
       Inl e \<Rightarrow> crew_process (cr_spec cr) = Dag \<and>
         (e = CyclicDAG \<or> e = Scheduling ''DAG deadlock: no ready tasks but remaining exist'')
     | Inr st \<Rightarrow> state_crew_id st = crew_id (cr_spec cr) \<and>
         state_status st \<in> {CrCompleted, CrFailed, CrCancelled} \<and>
         result_status ` set (state_results st) \<subseteq> {Completed, Failed} \<and> state_profile st \<noteq> None)"
  using assms by (rule crew_run_total)

text \<open>C9. A crew that is reported as completed did all its work: in every mode, when nothing
  panics and the cancellation flag stays set once it is set, the results of a completed
  crew are one completed result per task.\<close>

theorem crew_completed_all_done:
  assumes "calm ops env (tasks_of cr)" and "mode_ok env (crew_process (cr_spec cr))"
    and "\<forall>k. re_cancel_loop env k \<longrightarrow> re_cancel_end env"
    and "crew_run ops strength env cr = Some (Inr st, cr')" and "state_status st = CrCompleted"
  shows "mset (map result_task_id (state_results st)) = mset (map task_id (tasks_of cr)) \<and>
    (\<forall>r \<in> set (state_results st). result_status r = Completed)"
proof -
  obtain cr1 where run: "run_mode ops env (begun ops cr) = Some (Inr (state_results st), cr1)"
    and "state_status st = crew_outcome (re_cancel_end env) (state_results st)"
    by (rule crew_run_Inr [OF assms(4)])
  with assms(5) have "\<not> re_cancel_end env" "\<forall>r \<in> set (state_results st). result_status r = Completed"
    by (auto simp: crew_outcome_def list_all_iff split: if_splits)
  moreover from this run_mode_completed [OF _ _ _ run] assms(1-3)
  have "mset (map result_task_id (state_results st)) = mset (map task_id (tasks_of cr))" by auto
  ultimately show ?thesis by blast
qed

text \<open>The profile adds up: it counts the results, and when their ids differ its total cost is
  the sum of the positive costs of the results. Its breakdown by agent is always empty, since
  no result names an agent.\<close>

theorem crew_profile_adds_up:
  assumes "calm ops env (tasks_of cr)" and "mode_ok env (crew_process (cr_spec cr))"
    and "crew_run ops strength env cr = Some (Inr st, cr')"
  shows "\<exists>p. state_profile st = Some p \<and> prof_task_count p = length (state_results st) \<and>
    (distinct (map result_task_id (state_results st)) \<longrightarrow>
       prof_cost_usd p = sum_list (map (\<lambda>r. case result_cost r of None \<Rightarrow> 0 | Some c \<Rightarrow> c) (state_results st))) \<and>
    prof_agent_cost_usd p = hm_empty"
proof -
  obtain p cr1 where run: "run_mode ops env (begun ops cr) = Some (Inr (state_results st), cr1)"
    and p: "state_profile st = Some p" "prof_task_count p = length (state_results st)"
      "prof_cost_usd p = sum_list (hm_values (task_costs (state_results st)))"
      "prof_agent_cost_usd p = agent_costs (state_results st)"
    by (rule crew_run_Inr [OF assms(3)])
  have "\<forall>r \<in> set (state_results st). sound_result r"
    by (rule run_mode_returns [of ops env "begun ops cr"]) (use assms(1,2) run in \<open>simp_all add: outcome_ok_def\<close>)
  then have "agent_costs (state_results st) = hm_empty" by (auto simp: sound_result_def intro: agent_costs_none)
  moreover have "prof_cost_usd p = sum_list (map (\<lambda>r. case result_cost r of None \<Rightarrow> 0 | Some c \<Rightarrow> c) (state_results st))"
    if "distinct (map result_task_id (state_results st))"
    using fold_costs_sum [OF that, of hm_empty] p(3) by (simp add: task_costs_def) (simp add: hm_values_def hm_empty_def)
  ultimately show ?thesis using p by auto
qed

section \<open>Samples\<close>

definition offline_runner :: "process_mode \<Rightarrow> task list \<Rightarrow> (unit, (string, string) hmap, rat) crew_runner" where
  "offline_runner mode ts =
     with_events [] (crew_runner_new sample_shared (with_process mode (with_tasks ts (crew_spec_new 7 ''crew''))))"

lemma offline_runner_spec [simp]:
  "tasks_of (offline_runner mode ts) = ts" "crew_process (cr_spec (offline_runner mode ts)) = mode"
  by (simp_all add: offline_runner_def with_events_def crew_runner_new_def with_process_def with_tasks_def crew_spec_new_def)

lemma sample_dag_calm: "calm sample_runner_ops calm_env crew_dag_sample"
  by (auto simp: calm_def calm_env_def sample_run_env_def sample_env_def answers_short_def task_short_def
      sample_runner_ops_def task_new_def crew_dag_sample_def)

theorem crew_run_returns_witness:
  "\<exists>out cr'. crew_run sample_runner_ops None calm_env (sample_runner (Parallel 2) crew_dag_sample) = Some (out, cr')"
  using crew_run_returns [of sample_runner_ops calm_env "sample_runner (Parallel 2) crew_dag_sample" None] sample_dag_calm
  by (auto simp: mode_ok_def calm_env_def sample_run_env_def)

lemma sample_dag_run:
  "case crew_run sample_runner_ops None calm_env (offline_runner Dag crew_dag_sample) of
     Some (Inr st, _) \<Rightarrow> state_status st = CrCompleted | _ \<Rightarrow> False"
  by code_simp

theorem crew_completed_all_done_witness:
  "\<exists>st cr'. crew_run sample_runner_ops None calm_env (offline_runner Dag crew_dag_sample) = Some (Inr st, cr') \<and>
     mset (map result_task_id (state_results st)) = mset [1, 2]"
proof -
  obtain st cr' where "crew_run sample_runner_ops None calm_env (offline_runner Dag crew_dag_sample) = Some (Inr st, cr')"
    "state_status st = CrCompleted"
    using sample_dag_run by (auto split: option.splits sum.splits)
  with crew_completed_all_done [OF _ _ _ this] sample_dag_calm show ?thesis
    by (auto simp: mode_ok_def calm_env_def crew_dag_sample_def task_new_def)
qed

theorem crew_profile_adds_up_witness:
  "\<exists>st p cr'. crew_run sample_runner_ops None calm_env (offline_runner Dag crew_dag_sample) = Some (Inr st, cr') \<and>
     state_profile st = Some p \<and> prof_agent_cost_usd p = hm_empty"
proof -
  obtain st cr' where "crew_run sample_runner_ops None calm_env (offline_runner Dag crew_dag_sample) = Some (Inr st, cr')"
    using sample_dag_run by (auto split: option.splits sum.splits)
  with crew_profile_adds_up [OF _ _ this] sample_dag_calm show ?thesis by (auto simp: mode_ok_def)
qed

section \<open>Deadlocks and panics\<close>

text \<open>A dependency on a task outside the crew passes the topological sort, which ignores it,
  and then stops the DAG mode with the deadlock error.\<close>

theorem dag_foreign_dependency_deadlocks:
  "topological_sort_tasks [(task_new 1 ''a'')\<lparr>task_dependencies := [9]\<rparr>] = Some (Inr [1]) \<and>
   map_option fst (run_dag sample_runner_ops calm_env
     (offline_runner Dag [(task_new 1 ''a'')\<lparr>task_dependencies := [9]\<rparr>])) =
   Some (Inl (Scheduling ''DAG deadlock: no ready tasks but remaining exist''))"
  by code_simp

lemma single_task_order:
  assumes "task_dependencies t = []"
  shows "topological_sort_tasks [t] = Some (Inr [task_id t])"
proof -
  have "\<exists>order. topological_sort_tasks [t] = Some (Inr order)"
    using topological_sort_tasks_complete [of "[t]"] assms by (simp add: task_edges_def acyclic_def)
  then obtain order where o: "topological_sort_tasks [t] = Some (Inr order)" ..
  have "distinct order" "set order = {task_id t}"
    using topological_sort_tasks_Inr(1,2) [OF o] by (simp_all add: task_nodes_def)
  moreover from this have "length order = 1" using distinct_card [of order] by simp
  ultimately have "order = [task_id t]" by (cases order) auto
  with o show ?thesis by simp
qed

lemma run_dag_panic:
  assumes "tasks_of cr = [t]" and "task_dependencies t = []" and "\<not> re_cancel_loop env 0" and "cr_llm cr"
    and none: "\<And>te s agent sh. start_task ops True te (t\<lparr>task_status := s\<rparr>) agent sh = None"
  shows "\<exists>cr'. run_dag ops env cr = Some (Inr [], cr')"
proof -
  let ?deps = "hm_insert (task_id t) [] hm_empty" and ?map = "hm_insert (task_id t) 0 hm_empty"
  let ?st = "\<lparr> ds_completed = [], ds_results = [], ds_wave_failed = False, ds_runner = cr \<rparr>"
  have one: "hm_get [(k, v)] k = Some v" for k v by (simp add: hm_get_def)
  have "\<exists>st. dag_wave ops env ?map 0 [task_id t] ?st = Some st \<and> ds_results st = []"
    using assms(1,4) none
    by (simp add: dag_wave_def dag_spawn_def Let_def join_all_def join_step_def movable_def numeral_2_eq_2
        one dag_on_join_def)
  then obtain st where st: "dag_wave ops env ?map 0 [task_id t] ?st = Some st" "ds_results st = []" by blast
  have "dag_loop ops env ?deps ?map 1 [] st = Some (Inr [], ds_runner st)"
    using st(2) by (subst dag_loop.simps) simp
  then have "dag_loop ops env ?deps ?map 0 [task_id t] ?st = Some (Inr [], ds_runner st)"
    using st(1) assms(3) by (subst dag_loop.simps) (simp add: deps_done_def)
  with assms(1,2) show ?thesis by (simp add: run_dag_def single_task_order)
qed

text \<open>A task of a DAG crew that panics leaves no result: a crew whose only task has a text
  that cannot be sanitised is reported as completed, without results.\<close>

theorem dag_panic_reported_completed:
  assumes "crew_process (cr_spec cr) = Dag" and "tasks_of cr = [t]" and "task_dependencies t = []"
    and "cr_llm cr" and "task_context t = []" and "sanitize (task_description t) ''task_description'' = None"
    and "\<not> re_cancel_loop env 0" and "\<not> re_cancel_end env"
  shows "\<exists>st cr'. crew_run ops strength env cr = Some (Inr st, cr') \<and>
    state_status st = CrCompleted \<and> state_results st = []"
proof -
  have none: "start_task ops True te (t\<lparr>task_status := s\<rparr>) agent sh = None" for te s agent sh
    using assms(5,6) by (simp add: start_task_def build_request_def context_messages_def user_message_def)
  obtain cr1 where "run_dag ops env (begun ops cr) = Some (Inr [], cr1)"
    using run_dag_panic [of "begun ops cr" t env ops] none assms(2,3,4,7) by auto
  with assms(1,8) show ?thesis by (simp add: crew_run_def run_mode_def crew_outcome_def Let_def)
qed

text \<open>49999 letters and an e with an acute accent, whose second byte has index 50000.\<close>

definition long_text :: string where
  "long_text = replicate 49999 CHR ''a'' @ [CHR 0xC3, CHR 0xA9]"

lemma long_text_panics: "sanitize long_text field = None"
proof -
  have "length long_text = 50001" "long_text ! 50000 = CHR 0xA9"
    by (simp_all add: long_text_def nth_append)
  moreover have "(of_char (CHR 0xA9) :: nat) = 169" by code_simp
  ultimately show ?thesis by (simp add: sanitize_panics_iff is_char_boundary_def)
qed

theorem dag_panic_reported_completed_witness:
  "\<exists>st cr'. crew_run sample_runner_ops None calm_env (sample_runner Dag [task_new 1 long_text]) = Some (Inr st, cr') \<and>
     state_status st = CrCompleted \<and> state_results st = []"
  by (rule dag_panic_reported_completed [where t = "task_new 1 long_text"])
    (simp_all add: task_new_def calm_env_def long_text_panics hm_empty_def)

end
