(* ===== verification/Orchestrator.thy ===== *)
theory Orchestrator
  imports Crew_Life
begin

text \<open>
  The orchestrator, \<open>orchestrator/orchestrator.rs\<close>: admission of crews under a semaphore,
  the registry of crew states with eviction, the cancellation tokens, the timeout, and the
  audit records, with any number of submissions and cancellations interleaved.

  A cancellation token is an address into the list of allocated flags, since the runner and
  the registry of tokens share it. The audit chain is the list of what was recorded in it.
  The response cache and the cost tracker are the state of other crates that all runs share:
  a run starts from any such state. Logging and the unused scheduler field are left out.
\<close>

definition MAX_RETAINED_CREWS :: nat where
  "MAX_RETAINED_CREWS = 1000"

record ('h, 'tx) orchestrator =
  or_active :: "(crew_id, crew_state) hmap"
  or_permits :: nat
  or_budget :: resource_budget
  or_events :: "'tx event_bus option"
  or_llm :: "'h option"
  or_llm_url :: "string option"
  or_tokens :: "(crew_id, nat) hmap"
  or_flags :: "bool list"
  or_audit :: "audit_record list"

definition max_concurrent :: "resource_budget \<Rightarrow> nat" where
  "max_concurrent budget = (case budget_max_concurrent_tasks budget of None \<Rightarrow> 10 | Some n \<Rightarrow> n)"

text \<open>Creating a semaphore with more than \<open>max_permits\<close> permits panics.\<close>

definition orchestrator_new :: "nat \<Rightarrow> resource_budget \<Rightarrow> ('h, 'tx) orchestrator option" where
  "orchestrator_new max_permits budget =
     (if max_permits < max_concurrent budget then None
      else Some \<lparr> or_active = hm_empty, or_permits = max_concurrent budget, or_budget = budget,
             or_events = None, or_llm = None, or_llm_url = None, or_tokens = hm_empty, or_flags = [],
             or_audit = [] \<rparr>)"

definition orch_with_events :: "'tx event_bus \<Rightarrow> ('h, 'tx) orchestrator \<Rightarrow> ('h, 'tx) orchestrator" where
  "orch_with_events events orc = orc\<lparr>or_events := Some events\<rparr>"

definition orch_with_audit :: "audit_record list \<Rightarrow> ('h, 'tx) orchestrator \<Rightarrow> ('h, 'tx) orchestrator" where
  "orch_with_audit audit orc = orc\<lparr>or_audit := audit\<rparr>"

definition with_llm_url :: "string \<Rightarrow> ('h, 'tx) orchestrator \<Rightarrow> ('h, 'tx) orchestrator" where
  "with_llm_url url orc = orc\<lparr>or_llm_url := Some url\<rparr>"

text \<open>\<open>OnceLock::set\<close> does nothing when the cell is filled.\<close>

definition orch_with_llm :: "'h \<Rightarrow> ('h, 'tx) orchestrator \<Rightarrow> ('h, 'tx) orchestrator" where
  "orch_with_llm client orc = (if or_llm orc = None then orc\<lparr>or_llm := Some client\<rparr> else orc)"

definition llm_client :: "(string \<Rightarrow> 'h) \<Rightarrow> ('h, 'tx) orchestrator \<Rightarrow> 'h option \<times> ('h, 'tx) orchestrator" where
  "llm_client new_client orc =
     (case or_llm orc of
        Some client \<Rightarrow> (Some client, orc)
      | None \<Rightarrow>
          (case or_llm_url orc of
             None \<Rightarrow> (None, orc)
           | Some url \<Rightarrow> (Some (new_client url), orc\<lparr>or_llm := Some (new_client url)\<rparr>)))"

definition orch_audit :: "string \<Rightarrow> string \<Rightarrow> string \<Rightarrow> json \<Rightarrow> ('h, 'tx) orchestrator \<Rightarrow> ('h, 'tx) orchestrator" where
  "orch_audit event level message metadata orc =
     orc\<lparr>or_audit := or_audit orc @
        [\<lparr> au_event = event, au_level = level, au_message = message, au_metadata = metadata \<rparr>]\<rparr>"

section \<open>Running a crew\<close>

text \<open>\<open>run_crew\<close> in the parts between its awaits. First the permit and the audit record of the
  admission; without a permit it waits.\<close>

definition admit_crew :: "(uuid \<Rightarrow> string) \<Rightarrow> 'p crew_spec \<Rightarrow> ('h, 'tx) orchestrator \<Rightarrow> ('h, 'tx) orchestrator option" where
  "admit_crew uuid_str spec orc =
     (if or_permits orc = 0 then None
      else Some (orch_audit ''crew_accepted'' ''info'' (crew_name spec)
             (JObject [(''crew_id'', JString (uuid_str (crew_id spec))),
                       (''task_count'', JNumber (of_nat (length (crew_tasks spec))))])
             (orc\<lparr>or_permits := or_permits orc - 1\<rparr>)))"

fun crew_terminal :: "crew_status \<Rightarrow> bool" where
  "crew_terminal CrCompleted = True"
| "crew_terminal CrFailed = True"
| "crew_terminal CrCancelled = True"
| "crew_terminal CrPending = False"
| "crew_terminal CrRunning = False"

definition empty_state :: "crew_id \<Rightarrow> crew_status \<Rightarrow> crew_state" where
  "empty_state cid status =
     \<lparr> state_crew_id = cid, state_status = status, state_results = [], state_profile = None \<rparr>"

definition register_pending :: "crew_id \<Rightarrow> (crew_id, crew_state) hmap \<Rightarrow> (crew_id, crew_state) hmap" where
  "register_pending cid active =
     hm_insert cid (empty_state cid CrPending)
       (if MAX_RETAINED_CREWS \<le> hm_len active
        then hm_filter (\<lambda>_ c. \<not> crew_terminal (state_status c)) active else active)"

text \<open>Then, until the runner is awaited: the registration under the write lock, the token and the
  runner. In the code these are consecutive statements without a common lock; here they are one
  step, and a cancellation comes before or after all of them. The audit records of the runner
  are collected apart.\<close>

definition register_crew :: "(string \<Rightarrow> 'h) \<Rightarrow> ('tx, 'rx) channel_ops \<Rightarrow> ('c, 't) shared \<Rightarrow> 'p crew_spec
    \<Rightarrow> ('h, 'tx) orchestrator \<Rightarrow> ('p, 'c, 't) crew_runner \<times> nat \<times> ('h, 'tx) orchestrator" where
  "register_crew new_client chans sh spec orc =
     (let orc = orc\<lparr>or_active := register_pending (crew_id spec) (or_active orc)\<rparr>;
          token = length (or_flags orc);
          orc = orc\<lparr>or_flags := or_flags orc @ [False], or_tokens := hm_insert (crew_id spec) token (or_tokens orc)\<rparr>;
          runner = with_audit [] (with_cost_tracker (sh_cost sh) (with_cache (sh_cache sh) (crew_runner_new sh spec)));
          (llm, orc) = llm_client new_client orc;
          runner = (if llm \<noteq> None then with_llm runner else runner)
      in case or_events orc of
           None \<Rightarrow> (runner, token, orc)
         | Some bus \<Rightarrow>
             (let (_, bus') = sender chans (crew_id spec) bus
              in (with_events [] runner, token, orc\<lparr>or_events := Some bus'\<rparr>)))"

definition run_timeout_secs :: "resource_budget \<Rightarrow> u64" where
  "run_timeout_secs budget = (case budget_max_duration_secs budget of None \<Rightarrow> 3600 | Some s \<Rightarrow> s)"

fun finished_level :: "crew_status \<Rightarrow> string" where
  "finished_level CrFailed = ''error''"
| "finished_level CrCancelled = ''warn''"
| "finished_level _ = ''info''"

text \<open>When the runner has returned a state or has timed out: the audit record of the end.\<close>

definition report_finished :: "(uuid \<Rightarrow> string) \<Rightarrow> 'p crew_spec \<Rightarrow> crew_state \<Rightarrow> ('h, 'tx) orchestrator
    \<Rightarrow> ('h, 'tx) orchestrator" where
  "report_finished uuid_str spec st =
     (let cost_usd = (case state_profile st of None \<Rightarrow> 0 | Some p \<Rightarrow> prof_cost_usd p);
          wall_ms = (case state_profile st of None \<Rightarrow> 0 | Some p \<Rightarrow> prof_wall_ms p)
      in orch_audit ''crew_finished'' (finished_level (state_status st)) (crew_name spec)
           (JObject [(''crew_id'', JString (uuid_str (crew_id spec))),
                     (''status'', JString (crew_status_debug (state_status st))),
                     (''task_count'', JNumber (of_nat (length (state_results st)))),
                     (''wall_ms'', json_u64 wall_ms), (''cost_usd'', JNumber cost_usd)]))"

text \<open>Last, the state is stored under the write lock, the token and the event channel are removed,
  and the permit is given back when the submission returns: consecutive statements of the code that
  are one step here.\<close>

definition store_crew :: "crew_id \<Rightarrow> crew_state \<Rightarrow> ('h, 'tx) orchestrator \<Rightarrow> ('h, 'tx) orchestrator" where
  "store_crew cid st orc =
     orc\<lparr>or_active := hm_insert cid st (or_active orc), or_tokens := hm_remove cid (or_tokens orc),
        or_events := map_option (bus_remove cid) (or_events orc), or_permits := or_permits orc + 1\<rparr>"

text \<open>\<open>result?\<close>: an error of the runner returns at once; only the permit is given back. The
  same happens when the runner panics or the future is dropped.\<close>

definition abandon_crew :: "('h, 'tx) orchestrator \<Rightarrow> ('h, 'tx) orchestrator" where
  "abandon_crew orc = orc\<lparr>or_permits := or_permits orc + 1\<rparr>"

definition run_audit :: "('p, 'c, 't) crew_runner \<Rightarrow> audit_record list" where
  "run_audit runner = (case cr_audit runner of None \<Rightarrow> [] | Some entries \<Rightarrow> entries)"

definition append_audit :: "audit_record list \<Rightarrow> ('h, 'tx) orchestrator \<Rightarrow> ('h, 'tx) orchestrator" where
  "append_audit entries orc = orc\<lparr>or_audit := or_audit orc @ entries\<rparr>"

text \<open>The whole of \<open>run_crew\<close> when nothing else happens. \<open>timed_out\<close> says whether the
  given timeout strikes first, and what the runner had recorded by then; \<open>None\<close> is a wait
  or a run without end.\<close>

definition run_crew :: "('p, 'c, 't, 'e) runner_ops \<Rightarrow> (string \<Rightarrow> 'h) \<Rightarrow> ('tx, 'rx) channel_ops \<Rightarrow> u8 option
    \<Rightarrow> (u64 \<Rightarrow> audit_record list option) \<Rightarrow> 'e run_env \<Rightarrow> ('c, 't) shared \<Rightarrow> 'p crew_spec \<Rightarrow> ('h, 'tx) orchestrator
    \<Rightarrow> (crew_state res \<times> ('h, 'tx) orchestrator) option" where
  "run_crew ops new_client chans strength timed_out env sh spec orc =
     (case admit_crew (ro_uuid_str ops) spec orc of
        None \<Rightarrow> None
      | Some orc \<Rightarrow>
          (let (runner, token, orc) = register_crew new_client chans sh spec orc
           in case timed_out (run_timeout_secs (or_budget orc)) of
                Some entries \<Rightarrow>
                  (let st = empty_state (crew_id spec) CrFailed
                   in Some (Inr st, store_crew (crew_id spec) st
                        (report_finished (ro_uuid_str ops) spec st (append_audit entries orc))))
              | None \<Rightarrow>
                  (case crew_run ops strength env runner of
                     None \<Rightarrow> None
                   | Some (Inl e, runner') \<Rightarrow> Some (Inl e, abandon_crew (append_audit (run_audit runner') orc))
                   | Some (Inr st, runner') \<Rightarrow>
                       Some (Inr st, store_crew (crew_id spec) st
                         (report_finished (ro_uuid_str ops) spec st (append_audit (run_audit runner') orc))))))"

section \<open>Cancelling a crew\<close>

definition signal_cancel :: "crew_id \<Rightarrow> ('h, 'tx) orchestrator \<Rightarrow> ('h, 'tx) orchestrator" where
  "signal_cancel cid orc =
     (case hm_get (or_tokens orc) cid of
        None \<Rightarrow> orc
      | Some token \<Rightarrow> orc\<lparr>or_flags := (or_flags orc)[token := True]\<rparr>)"

definition mark_cancelled :: "(uuid \<Rightarrow> string) \<Rightarrow> crew_id \<Rightarrow> ('h, 'tx) orchestrator \<Rightarrow> unit res \<times> ('h, 'tx) orchestrator" where
  "mark_cancelled uuid_str cid orc =
     (case hm_get (or_active orc) cid of
        None \<Rightarrow> (Inl (CrewNotFound (uuid_str cid)), orc)
      | Some crew \<Rightarrow>
          (Inr (), orch_audit ''crew_cancelled'' ''warn'' ''crew cancelled by caller''
             (JObject [(''crew_id'', JString (uuid_str cid))])
             (orc\<lparr>or_active := hm_insert cid (crew\<lparr>state_status := CrCancelled\<rparr>) (or_active orc)\<rparr>)))"

definition cancel_crew :: "(uuid \<Rightarrow> string) \<Rightarrow> crew_id \<Rightarrow> ('h, 'tx) orchestrator \<Rightarrow> unit res \<times> ('h, 'tx) orchestrator" where
  "cancel_crew uuid_str cid orc = mark_cancelled uuid_str cid (signal_cancel cid orc)"

section \<open>Many submissions and cancellations\<close>

text \<open>
  A submission in progress: the crew, what it awaits, and the address of its token once it
  has one. A system is the orchestrator, the submissions in progress and the cancellations
  between their signal and their mark.
\<close>

datatype ('p, 'c, 't) run_phase = Admitted | Executing "('p, 'c, 't) crew_runner" | Storing crew_state

record ('p, 'c, 't) submission =
  sb_spec :: "'p crew_spec"
  sb_phase :: "('p, 'c, 't) run_phase"
  sb_token :: "nat option"

record ('h, 'tx, 'p, 'c, 't) system =
  sy_orch :: "('h, 'tx) orchestrator"
  sy_runs :: "('p, 'c, 't) submission list"
  sy_cancels :: "crew_id list"

datatype orch_event = Admit crew_id | Register crew_id | Return crew_id | TimeOut crew_id | Store crew_id
  | Lose crew_id | Signal crew_id | Mark crew_id

text \<open>
  The steps. A run that returns was a run of its crew in some surroundings \<open>env\<close> in which the
  last look at the flag saw its present value, and an earlier look saw it set only if it is
  still set. \<open>Lose\<close> is a submission that ends without storing a state: an error of the
  runner, a panic, or a dropped future.
\<close>

inductive orch_step :: "('p, 'c, 't, 'e) runner_ops \<Rightarrow> (string \<Rightarrow> 'h) \<Rightarrow> ('tx, 'rx) channel_ops \<Rightarrow> u8 option
    \<Rightarrow> orch_event \<Rightarrow> ('h, 'tx, 'p, 'c, 't) system \<Rightarrow> ('h, 'tx, 'p, 'c, 't) system \<Rightarrow> bool"
  for ops new_client chans strength where
  step_admit: "admit_crew (ro_uuid_str ops) spec (sy_orch s) = Some orc \<Longrightarrow>
    orch_step ops new_client chans strength (Admit (crew_id spec)) s
      (s\<lparr>sy_orch := orc, sy_runs := sy_runs s @ [\<lparr> sb_spec = spec, sb_phase = Admitted, sb_token = None \<rparr>]\<rparr>)"
| step_register: "sy_runs s = xs @ b # ys \<Longrightarrow> sb_phase b = Admitted \<Longrightarrow>
    register_crew new_client chans sh (sb_spec b) (sy_orch s) = (runner, token, orc) \<Longrightarrow>
    orch_step ops new_client chans strength (Register (crew_id (sb_spec b))) s
      (s\<lparr>sy_orch := orc, sy_runs := xs @ b\<lparr>sb_phase := Executing runner, sb_token := Some token\<rparr> # ys\<rparr>)"
| step_return: "sy_runs s = xs @ b # ys \<Longrightarrow> sb_phase b = Executing runner \<Longrightarrow> sb_token b = Some token \<Longrightarrow>
    re_cancel_end env = or_flags (sy_orch s) ! token \<Longrightarrow> (\<forall>k. re_cancel_loop env k \<longrightarrow> re_cancel_end env) \<Longrightarrow>
    crew_run ops strength env (runner\<lparr>cr_shared := sh\<rparr>) = Some (Inr st, runner') \<Longrightarrow>
    orch_step ops new_client chans strength (Return (crew_id (sb_spec b))) s
      (s\<lparr>sy_orch := report_finished (ro_uuid_str ops) (sb_spec b) st (append_audit (run_audit runner') (sy_orch s)),
         sy_runs := xs @ b\<lparr>sb_phase := Storing st\<rparr> # ys\<rparr>)"
| step_timeout: "sy_runs s = xs @ b # ys \<Longrightarrow> sb_phase b = Executing runner \<Longrightarrow>
    st = empty_state (crew_id (sb_spec b)) CrFailed \<Longrightarrow>
    orch_step ops new_client chans strength (TimeOut (crew_id (sb_spec b))) s
      (s\<lparr>sy_orch := report_finished (ro_uuid_str ops) (sb_spec b) st (append_audit entries (sy_orch s)),
         sy_runs := xs @ b\<lparr>sb_phase := Storing st\<rparr> # ys\<rparr>)"
| step_store: "sy_runs s = xs @ b # ys \<Longrightarrow> sb_phase b = Storing st \<Longrightarrow>
    orch_step ops new_client chans strength (Store (crew_id (sb_spec b))) s
      (s\<lparr>sy_orch := store_crew (crew_id (sb_spec b)) st (sy_orch s), sy_runs := xs @ ys\<rparr>)"
| step_lose: "sy_runs s = xs @ b # ys \<Longrightarrow>
    orch_step ops new_client chans strength (Lose (crew_id (sb_spec b))) s
      (s\<lparr>sy_orch := abandon_crew (append_audit entries (sy_orch s)), sy_runs := xs @ ys\<rparr>)"
| step_signal: "orch_step ops new_client chans strength (Signal cid) s
      (s\<lparr>sy_orch := signal_cancel cid (sy_orch s), sy_cancels := sy_cancels s @ [cid]\<rparr>)"
| step_mark: "sy_cancels s = xs @ cid # ys \<Longrightarrow> mark_cancelled (ro_uuid_str ops) cid (sy_orch s) = (res, orc) \<Longrightarrow>
    orch_step ops new_client chans strength (Mark cid) s (s\<lparr>sy_orch := orc, sy_cancels := xs @ ys\<rparr>)"

inductive orch_run :: "('p, 'c, 't, 'e) runner_ops \<Rightarrow> (string \<Rightarrow> 'h) \<Rightarrow> ('tx, 'rx) channel_ops \<Rightarrow> u8 option
    \<Rightarrow> ('h, 'tx, 'p, 'c, 't) system \<Rightarrow> orch_event list \<Rightarrow> ('h, 'tx, 'p, 'c, 't) system \<Rightarrow> bool"
  for ops new_client chans strength where
  run_refl: "orch_run ops new_client chans strength s [] s"
| run_step: "orch_run ops new_client chans strength s evs s' \<Longrightarrow> orch_step ops new_client chans strength ev s' s'' \<Longrightarrow>
    orch_run ops new_client chans strength s (evs @ [ev]) s''"

fun lost :: "orch_event list \<Rightarrow> crew_id set" where
  "lost [] = {}"
| "lost (Lose cid # evs) = insert cid (lost evs)"
| "lost (_ # evs) = lost evs"

section \<open>What the parts change\<close>

lemma orch_audit_simps [simp]:
  "or_active (orch_audit e l m d orc) = or_active orc" "or_permits (orch_audit e l m d orc) = or_permits orc"
  "or_tokens (orch_audit e l m d orc) = or_tokens orc" "or_flags (orch_audit e l m d orc) = or_flags orc"
  by (simp_all add: orch_audit_def)

lemma report_simps [simp]:
  "or_active (report_finished u spec st orc) = or_active orc" "or_permits (report_finished u spec st orc) = or_permits orc"
  "or_tokens (report_finished u spec st orc) = or_tokens orc" "or_flags (report_finished u spec st orc) = or_flags orc"
  by (simp_all add: report_finished_def Let_def)

lemma append_audit_simps [simp]:
  "or_active (append_audit es orc) = or_active orc" "or_permits (append_audit es orc) = or_permits orc"
  "or_tokens (append_audit es orc) = or_tokens orc" "or_flags (append_audit es orc) = or_flags orc"
  by (simp_all add: append_audit_def)

lemma abandon_simps [simp]:
  "or_active (abandon_crew orc) = or_active orc" "or_permits (abandon_crew orc) = Suc (or_permits orc)"
  "or_tokens (abandon_crew orc) = or_tokens orc" "or_flags (abandon_crew orc) = or_flags orc"
  by (simp_all add: abandon_crew_def)

lemma store_simps [simp]:
  "or_active (store_crew cid st orc) = hm_insert cid st (or_active orc)"
  "or_permits (store_crew cid st orc) = Suc (or_permits orc)"
  "or_tokens (store_crew cid st orc) = hm_remove cid (or_tokens orc)" "or_flags (store_crew cid st orc) = or_flags orc"
  by (simp_all add: store_crew_def)

lemma signal_simps [simp]:
  "or_active (signal_cancel cid orc) = or_active orc" "or_permits (signal_cancel cid orc) = or_permits orc"
  "or_tokens (signal_cancel cid orc) = or_tokens orc" "length (or_flags (signal_cancel cid orc)) = length (or_flags orc)"
  by (simp_all add: signal_cancel_def split: option.splits)

lemma mark_fields:
  "mark_cancelled u cid orc = (res, orc') \<Longrightarrow>
     or_permits orc' = or_permits orc \<and> or_tokens orc' = or_tokens orc \<and> or_flags orc' = or_flags orc \<and>
     dom (hm_get (or_active orc')) = dom (hm_get (or_active orc)) \<and>
     (hm_wf (or_active orc) \<longrightarrow> hm_wf (or_active orc')) \<and>
     (\<forall>k st. hm_get (or_active orc') k = Some st \<longrightarrow>
        k = cid \<and> state_status st = CrCancelled \<or> hm_get (or_active orc) k = Some st)"
  by (auto simp: mark_cancelled_def insert_absorb split: option.splits if_splits)

lemma admit_fields:
  "admit_crew u spec orc = Some orc' \<Longrightarrow>
     or_permits orc = Suc (or_permits orc') \<and> or_tokens orc' = or_tokens orc \<and> or_flags orc' = or_flags orc \<and>
     or_active orc' = or_active orc"
  by (auto simp: admit_crew_def split: if_splits)

lemma llm_client_simps [simp]:
  "or_active (snd (llm_client new orc)) = or_active orc" "or_permits (snd (llm_client new orc)) = or_permits orc"
  "or_tokens (snd (llm_client new orc)) = or_tokens orc" "or_flags (snd (llm_client new orc)) = or_flags orc"
  by (simp_all add: llm_client_def split: option.splits)

lemma register_fields:
  "register_crew new chans sh spec orc = (runner, token, orc') \<Longrightarrow>
     or_permits orc' = or_permits orc \<and> or_active orc' = register_pending (crew_id spec) (or_active orc) \<and>
     token = length (or_flags orc) \<and> or_flags orc' = or_flags orc @ [False] \<and>
     or_tokens orc' = hm_insert (crew_id spec) token (or_tokens orc) \<and> cr_spec runner = spec"
  by (auto simp: register_crew_def Let_def case_prod_unfold with_audit_def with_cost_tracker_def with_cache_def
      crew_runner_new_def with_llm_def with_events_def split: option.splits if_splits)

lemma register_pending_get:
  "hm_wf active \<Longrightarrow> hm_get (register_pending cid active) k =
     (if k = cid then Some (empty_state cid CrPending)
      else case hm_get active k of
        None \<Rightarrow> None
      | Some st \<Rightarrow> if hm_len active < 1000 \<or> \<not> crew_terminal (state_status st) then Some st else None)"
  by (auto simp: register_pending_def MAX_RETAINED_CREWS_def hm_get_filter split: option.splits)

lemma register_pending_wf [simp]: "hm_wf active \<Longrightarrow> hm_wf (register_pending cid active)"
  by (simp add: register_pending_def)

lemma lost_append [simp]: "lost (evs @ evs') = lost evs \<union> lost evs'"
  by (induction evs rule: lost.induct) auto

lemma lost_finite [simp]: "finite (lost evs)"
  by (induction evs rule: lost.induct) auto

section \<open>Invariants\<close>

text \<open>The registered submissions, the crews whose state is not final, and the crews that the
  orchestrator holds or will hold a state of.\<close>

definition run_ids :: "('h, 'tx, 'p, 'c, 't) system \<Rightarrow> crew_id set" where
  "run_ids s = set (map (\<lambda>b. crew_id (sb_spec b)) (filter (\<lambda>b. sb_phase b \<noteq> Admitted) (sy_runs s)))"

definition pending_ids :: "('h, 'tx, 'p, 'c, 't) system \<Rightarrow> crew_id set" where
  "pending_ids s = {cid. \<exists>st. hm_get (or_active (sy_orch s)) cid = Some st \<and> \<not> crew_terminal (state_status st)}"

definition tracked_ids :: "('h, 'tx, 'p, 'c, 't) system \<Rightarrow> crew_id set" where
  "tracked_ids s = dom (hm_get (or_active (sy_orch s))) \<union> run_ids s"

fun submission_ok :: "('p, 'c, 't) submission \<Rightarrow> bool" where
  "submission_ok b =
     (case sb_phase b of
        Admitted \<Rightarrow> True
      | Executing runner \<Rightarrow> cr_spec runner = sb_spec b
      | Storing st \<Rightarrow> crew_terminal (state_status st) \<and> state_crew_id st = crew_id (sb_spec b))"

definition orch_inv :: "nat \<Rightarrow> crew_id set \<Rightarrow> ('h, 'tx, 'p, 'c, 't) system \<Rightarrow> bool" where
  "orch_inv m gone s \<longleftrightarrow>
     or_permits (sy_orch s) + length (sy_runs s) = m \<and> (\<forall>b \<in> set (sy_runs s). submission_ok b) \<and>
     hm_wf (or_active (sy_orch s)) \<and> pending_ids s \<subseteq> run_ids s \<union> gone \<and>
     dom (hm_get (or_tokens (sy_orch s))) \<subseteq> run_ids s \<union> gone \<and>
     card (tracked_ids s) \<le> 1000 + m + card gone"

lemma run_ids_finite [simp]: "finite (run_ids s)"
  by (simp add: run_ids_def)

lemma run_ids_le: "card (run_ids s) \<le> length (sy_runs s)"
  unfolding run_ids_def by (rule order_trans [OF card_length]) simp

lemma tracked_finite [simp]: "finite (tracked_ids s)"
  by (simp add: tracked_ids_def hm_dom)

lemma crew_run_state:
  assumes "crew_run ops strength env cr = Some (Inr st, cr')"
  shows "crew_terminal (state_status st) \<and> state_crew_id st = crew_of cr \<and>
    (re_cancel_end env \<longrightarrow> state_status st = CrCancelled)"
  using assms run_mode_crew
  by (fastforce simp: crew_run_def Let_def crew_outcome_def split: option.splits sum.splits)

text \<open>Registering keeps the number of tracked crews within the bound.\<close>

lemma register_tracked:
  assumes "hm_wf active" and "finite R" and "finite gone" and "cid \<in> R"
    and "{k. \<exists>st. hm_get active k = Some st \<and> \<not> crew_terminal (state_status st)} \<subseteq> R \<union> gone"
  shows "card (dom (hm_get (register_pending cid active)) \<union> R) \<le> 1000 + card R + card gone"
proof (cases "hm_len active < 1000")
  case True
  have "dom (hm_get (register_pending cid active)) \<union> R \<subseteq> dom (hm_get active) \<union> R"
    using assms(1,4) by (auto simp: register_pending_get split: if_splits option.splits)
  then have "card (dom (hm_get (register_pending cid active)) \<union> R) \<le> card (dom (hm_get active) \<union> R)"
    using assms(2) by (intro card_mono) (simp_all add: hm_dom)
  also have "\<dots> \<le> card (dom (hm_get active)) + card R" by (rule card_Un_le)
  finally show ?thesis using True assms(1) by (simp add: hm_len_card)
next
  case False
  then have "dom (hm_get (register_pending cid active)) \<union> R \<subseteq> R \<union> gone"
    using assms(1,4,5) by (fastforce simp: register_pending_get split: if_splits option.splits)
  then have "card (dom (hm_get (register_pending cid active)) \<union> R) \<le> card (R \<union> gone)"
    using assms(2,3) by (intro card_mono) simp_all
  with card_Un_le [of R gone] show ?thesis by linarith
qed

lemmas system_ids = run_ids_def pending_ids_def tracked_ids_def

lemma inv_admit:
  assumes "orch_inv m gone s" and "admit_crew u spec (sy_orch s) = Some orc"
  shows "orch_inv m gone
    (s\<lparr>sy_orch := orc, sy_runs := sy_runs s @ [\<lparr> sb_spec = spec, sb_phase = Admitted, sb_token = None \<rparr>]\<rparr>)"
proof -
  let ?s = "s\<lparr>sy_orch := orc, sy_runs := sy_runs s @ [\<lparr> sb_spec = spec, sb_phase = Admitted, sb_token = None \<rparr>]\<rparr>"
  have "run_ids ?s = run_ids s" by (auto simp: run_ids_def)
  with assms(1) admit_fields [OF assms(2)] show ?thesis
    by (auto simp: orch_inv_def pending_ids_def tracked_ids_def)
qed

lemma inv_register:
  assumes "orch_inv m gone s" and "finite gone" and b: "sy_runs s = xs @ b # ys" "sb_phase b = Admitted"
    and reg: "register_crew new chans sh (sb_spec b) (sy_orch s) = (runner, token, orc)"
  shows "orch_inv m gone
    (s\<lparr>sy_orch := orc, sy_runs := xs @ b\<lparr>sb_phase := Executing runner, sb_token := Some token\<rparr> # ys\<rparr>)"
proof -
  let ?s = "s\<lparr>sy_orch := orc, sy_runs := xs @ b\<lparr>sb_phase := Executing runner, sb_token := Some token\<rparr> # ys\<rparr>"
  have R: "run_ids ?s = insert (crew_id (sb_spec b)) (run_ids s)" using b by (auto simp: run_ids_def)
  note f = register_fields [OF reg]
  have pend: "pending_ids s \<subseteq> run_ids ?s \<union> gone" and wf: "hm_wf (or_active (sy_orch s))"
    using assms(1) R by (auto simp: orch_inv_def)
  have "card (tracked_ids ?s) \<le> 1000 + card (run_ids ?s) + card gone"
    using register_tracked [OF wf, of "run_ids ?s" gone "crew_id (sb_spec b)"] R assms(2) f pend
    by (simp add: tracked_ids_def pending_ids_def)
  moreover have "card (run_ids ?s) \<le> m" using run_ids_le [of ?s] assms(1) b by (simp add: orch_inv_def)
  moreover have "pending_ids ?s \<subseteq> run_ids ?s \<union> gone"
    using pend wf f R by (auto simp: pending_ids_def register_pending_get split: if_splits option.splits)
  ultimately show ?thesis using assms(1) b f R by (auto simp: orch_inv_def)
qed

lemma inv_storing:
  assumes "orch_inv m gone s" and b: "sy_runs s = xs @ b # ys" "sb_phase b = Executing runner"
    and "crew_terminal (state_status st)" and "state_crew_id st = crew_id (sb_spec b)"
  shows "orch_inv m gone
    (s\<lparr>sy_orch := report_finished u (sb_spec b) st (append_audit es (sy_orch s)),
       sy_runs := xs @ b\<lparr>sb_phase := Storing st\<rparr> # ys\<rparr>)"
proof -
  let ?s = "s\<lparr>sy_orch := report_finished u (sb_spec b) st (append_audit es (sy_orch s)),
       sy_runs := xs @ b\<lparr>sb_phase := Storing st\<rparr> # ys\<rparr>"
  have "run_ids ?s = run_ids s" using b by (auto simp: run_ids_def)
  with assms show ?thesis by (auto simp: orch_inv_def pending_ids_def tracked_ids_def)
qed

lemma inv_store:
  assumes "orch_inv m gone s" and b: "sy_runs s = xs @ b # ys" "sb_phase b = Storing st"
  shows "orch_inv m gone (s\<lparr>sy_orch := store_crew (crew_id (sb_spec b)) st (sy_orch s), sy_runs := xs @ ys\<rparr>)"
proof -
  let ?c = "crew_id (sb_spec b)" and ?s = "s\<lparr>sy_orch := store_crew (crew_id (sb_spec b)) st (sy_orch s), sy_runs := xs @ ys\<rparr>"
  have R: "run_ids s = insert ?c (run_ids ?s)" using b by (auto simp: run_ids_def)
  have "crew_terminal (state_status st)" using assms by (simp add: orch_inv_def)
  moreover have "tracked_ids ?s = tracked_ids s" using R by (auto simp: tracked_ids_def)
  ultimately show ?thesis using assms(1) b R by (auto simp: orch_inv_def pending_ids_def split: if_splits)
qed

lemma inv_lose:
  assumes "orch_inv m gone s" and "finite gone" and b: "sy_runs s = xs @ b # ys"
  shows "orch_inv m (insert (crew_id (sb_spec b)) gone)
    (s\<lparr>sy_orch := abandon_crew (append_audit es (sy_orch s)), sy_runs := xs @ ys\<rparr>)"
proof -
  let ?s = "s\<lparr>sy_orch := abandon_crew (append_audit es (sy_orch s)), sy_runs := xs @ ys\<rparr>"
  have R: "run_ids ?s \<subseteq> run_ids s" "run_ids s \<subseteq> insert (crew_id (sb_spec b)) (run_ids ?s)"
    using b by (auto simp: run_ids_def)
  then have "tracked_ids ?s \<subseteq> tracked_ids s" by (auto simp: tracked_ids_def)
  then have "card (tracked_ids ?s) \<le> card (tracked_ids s)" by (intro card_mono) simp_all
  moreover have "card gone \<le> card (insert (crew_id (sb_spec b)) gone)" using assms(2) by (simp add: card_insert_le)
  ultimately show ?thesis using assms(1) b R by (auto simp: orch_inv_def pending_ids_def)
qed

lemma inv_mark:
  assumes "orch_inv m gone s" and "mark_cancelled u cid (sy_orch s) = (res, orc)"
  shows "orch_inv m gone (s\<lparr>sy_orch := orc, sy_cancels := cs\<rparr>)"
proof -
  have "run_ids (s\<lparr>sy_orch := orc, sy_cancels := cs\<rparr>) = run_ids s" by (simp add: run_ids_def)
  moreover have "pending_ids (s\<lparr>sy_orch := orc, sy_cancels := cs\<rparr>) \<subseteq> pending_ids s"
    using mark_fields [OF assms(2)] by (fastforce simp: pending_ids_def)
  ultimately show ?thesis using assms(1) mark_fields [OF assms(2)] by (auto simp: orch_inv_def tracked_ids_def)
qed

lemma inv_step:
  assumes "orch_step ops new_client chans strength ev s s'" and "orch_inv m gone s" and "finite gone"
  shows "orch_inv m (gone \<union> lost [ev]) s'"
  using assms(1)
proof cases
  case (step_return xs b ys runner token env sh st runner')
  moreover have "cr_spec runner = sb_spec b" using assms(2) step_return by (auto simp: orch_inv_def)
  ultimately show ?thesis using inv_storing [OF assms(2)] crew_run_state by fastforce
next
  case (step_timeout xs b ys runner st entries)
  then show ?thesis using inv_storing [OF assms(2), of xs b ys runner st] by (simp add: empty_state_def)
next
  case (step_signal cid)
  then show ?thesis using assms(2) by (simp add: orch_inv_def system_ids)
qed (use assms inv_admit inv_register inv_store inv_lose inv_mark in \<open>fastforce\<close>)+

text \<open>An orchestrator that has not been used, whatever its event bus, client and audit chain.\<close>

definition unused :: "resource_budget \<Rightarrow> ('h, 'tx) orchestrator \<Rightarrow> bool" where
  "unused budget orc \<longleftrightarrow>
     or_active orc = hm_empty \<and> or_permits orc = max_concurrent budget \<and> or_tokens orc = hm_empty \<and> or_flags orc = []"

lemma orchestrator_new_unused: "orchestrator_new max_permits budget = Some orc \<Longrightarrow> unused budget orc"
  by (auto simp: orchestrator_new_def unused_def split: if_splits)

definition start_system :: "('h, 'tx) orchestrator \<Rightarrow> ('h, 'tx, 'p, 'c, 't) system" where
  "start_system orc = \<lparr> sy_orch = orc, sy_runs = [], sy_cancels = [] \<rparr>"

lemma inv_start: "unused budget orc \<Longrightarrow> orch_inv (max_concurrent budget) {} (start_system orc)"
  by (simp add: unused_def start_system_def orch_inv_def system_ids)

lemma inv_steps:
  "orch_run ops new_client chans strength s evs s' \<Longrightarrow> orch_inv m gone s \<Longrightarrow> finite gone \<Longrightarrow>
     orch_inv m (gone \<union> lost evs) s'"
proof (induction rule: orch_run.induct)
  case (run_step s evs s' ev s'')
  then show ?case using inv_step [OF run_step.hyps(2), of m "gone \<union> lost evs"] by (simp add: Un_assoc)
qed simp

lemma inv_run:
  "orch_run ops new_client chans strength (start_system orc) evs s \<Longrightarrow> unused budget orc \<Longrightarrow>
     orch_inv (max_concurrent budget) (lost evs) s"
  using inv_steps [OF _ inv_start] by fastforce

section \<open>Tokens\<close>

definition held_tokens :: "('p, 'c, 't) submission list \<Rightarrow> nat list" where
  "held_tokens runs = concat (map (\<lambda>b. case sb_token b of None \<Rightarrow> [] | Some t \<Rightarrow> [t]) runs)"

lemma held_tokens_simps [simp]:
  "held_tokens [] = []" "held_tokens (xs @ ys) = held_tokens xs @ held_tokens ys"
  "held_tokens (b # bs) = (case sb_token b of None \<Rightarrow> [] | Some t \<Rightarrow> [t]) @ held_tokens bs"
  by (simp_all add: held_tokens_def)






definition timeouts :: "orch_event list \<Rightarrow> crew_id set" where
  "timeouts evs = {cid. TimeOut cid \<in> set evs}"

lemma timeouts_simps [simp]:
  "timeouts [] = {}" "timeouts (evs @ evs') = timeouts evs \<union> timeouts evs'"
  "timeouts [TimeOut cid] = {cid}"
  by (auto simp: timeouts_def)







section \<open>Properties\<close>

text \<open>C10. The orchestrator, started unused, stays within its limits, for every interleaving of
  submissions, ends and cancellations: the free permits and the crews in progress always add up
  to the concurrency limit of the budget, and the retained states never exceed 1000 plus that
  limit plus the number of lost submissions (those that ended without storing a state).\<close>

theorem orchestrator_bounds:
  assumes "unused budget orc" and "orch_run ops new_client chans strength (start_system orc) evs s"
  shows "or_permits (sy_orch s) + length (sy_runs s) = max_concurrent budget \<and>
    hm_len (or_active (sy_orch s)) \<le> 1000 + max_concurrent budget + card (lost evs)"
proof -
  have inv: "orch_inv (max_concurrent budget) (lost evs) s" by (rule inv_run [OF assms(2,1)])
  then have "hm_len (or_active (sy_orch s)) = card (dom (hm_get (or_active (sy_orch s))))"
    by (simp add: orch_inv_def hm_len_card)
  also have "\<dots> \<le> card (tracked_ids s)" by (intro card_mono) (auto simp: tracked_ids_def hm_dom)
  finally show ?thesis using inv by (simp add: orch_inv_def)
qed

text \<open>C11. No orphans: a crew whose stored state is not final, and a crew that has a cancellation
  token, is registered and in progress, unless its submission was lost.\<close>

theorem orchestrator_no_orphans:
  assumes "unused budget orc" and "orch_run ops new_client chans strength (start_system orc) evs s"
    and "hm_get (or_active (sy_orch s)) cid = Some st \<and> \<not> crew_terminal (state_status st) \<or>
      hm_get (or_tokens (sy_orch s)) cid \<noteq> None"
  shows "(\<exists>b \<in> set (sy_runs s). crew_id (sb_spec b) = cid \<and> sb_phase b \<noteq> Admitted) \<or> cid \<in> lost evs"
proof -
  have "orch_inv (max_concurrent budget) (lost evs) s" by (rule inv_run [OF assms(2,1)])
  with assms(3) have "cid \<in> run_ids s \<union> lost evs" by (auto simp: orch_inv_def pending_ids_def)
  then show ?thesis by (auto simp: run_ids_def)
qed


text \<open>C13. What a submission that runs alone and returns leaves behind. Its permit is given back in
  every case. One that returns a state has stored that state, which is final, and has removed the
  crew's token; one that returns an error of the runner leaves the crew registered as pending, with
  no results, and its token in place.\<close>

theorem run_crew_outcome:
  assumes "run_crew ops new_client chans strength timed_out env sh spec orc = Some (out, orc')"
    and "hm_wf (or_active orc)"
  shows "or_permits orc' = or_permits orc \<and>
    (case out of
       Inr st \<Rightarrow> hm_get (or_active orc') (crew_id spec) = Some st \<and> crew_terminal (state_status st) \<and>
         hm_get (or_tokens orc') (crew_id spec) = None
     | Inl e \<Rightarrow> hm_get (or_active orc') (crew_id spec) = Some (empty_state (crew_id spec) CrPending) \<and>
         hm_get (or_tokens orc') (crew_id spec) \<noteq> None)"
proof -
  obtain orc1 where a: "admit_crew (ro_uuid_str ops) spec orc = Some orc1"
    using assms(1) by (auto simp: run_crew_def split: option.splits)
  obtain runner token orc2 where r: "register_crew new_client chans sh spec orc1 = (runner, token, orc2)"
    by (rule prod_cases3)
  note f = admit_fields [OF a] register_fields [OF r]
  consider (stored) st es where "out = Inr st" "crew_terminal (state_status st)"
      "orc' = store_crew (crew_id spec) st (report_finished (ro_uuid_str ops) spec st (append_audit es orc2))"
    | (failed) e es where "out = Inl e" "orc' = abandon_crew (append_audit es orc2)"
  proof (cases "timed_out (run_timeout_secs (or_budget orc2))")
    case None
    then obtain runner' where run: "crew_run ops strength env runner = Some (out, runner')"
      using assms(1) a r by (auto simp: run_crew_def split: option.splits sum.splits)
    show thesis
    proof (cases out)
      case (Inr st)
      with run None assms(1) a r crew_run_state that(1) [of st "run_audit runner'"] show thesis
        by (fastforce simp: run_crew_def)
    qed (use run None assms(1) a r that(2) in \<open>auto simp: run_crew_def\<close>)
  next
    case (Some es)
    with assms(1) a r that(1) [of "empty_state (crew_id spec) CrFailed" es] show thesis
      by (simp add: run_crew_def empty_state_def Let_def)
  qed
  then show ?thesis using f assms(2) by cases (auto simp: register_pending_get)
qed

section \<open>A sample run\<close>

definition sample_chans :: "(unit, unit) channel_ops" where
  "sample_chans = \<lparr> ch_channel = (\<lambda>_. ()), ch_subscribe = (\<lambda>tx. (tx, ())), ch_receiver_count = (\<lambda>_. 0) \<rparr>"

definition sample_orch :: "(unit, unit) orchestrator" where
  "sample_orch =
     \<lparr> or_active = hm_empty, or_permits = 10, or_budget = resource_budget_default, or_events = Some event_bus_new,
       or_llm = None, or_llm_url = None, or_tokens = hm_empty, or_flags = [], or_audit = [] \<rparr>"

definition sample_spec :: "unit crew_spec" where
  "sample_spec = with_process Sequential (with_tasks [task_new 1 ''a'', task_new 2 ''b''] (crew_spec_new 7 ''crew''))"

definition admitted_orch :: "(unit, unit) orchestrator" where
  "admitted_orch = the (admit_crew (ro_uuid_str sample_runner_ops) sample_spec sample_orch)"

definition registered :: "(unit, (string, string) hmap, rat) crew_runner \<times> nat \<times> (unit, unit) orchestrator" where
  "registered = register_crew (\<lambda>_. ()) sample_chans sample_shared sample_spec admitted_orch"

abbreviation sample_submission :: "(unit, (string, string) hmap, rat) run_phase \<Rightarrow> nat option
    \<Rightarrow> (unit, (string, string) hmap, rat) submission" where
  "sample_submission ph token \<equiv> \<lparr> sb_spec = sample_spec, sb_phase = ph, sb_token = token \<rparr>"

definition sample_system :: "(unit, unit, unit, (string, string) hmap, rat) system" where
  "sample_system =
     \<lparr> sy_orch = snd (snd registered), sy_runs = [sample_submission (Executing (fst registered)) (Some 0)],
       sy_cancels = [] \<rparr>"

lemma sample_unused: "unused resource_budget_default sample_orch"
  by code_simp

lemma sample_registered:
  "admit_crew (ro_uuid_str sample_runner_ops) sample_spec sample_orch = Some admitted_orch"
  "registered = (fst registered, 0, snd (snd registered))" "crew_id sample_spec = 7"
  "hm_get (or_tokens (snd (snd registered))) 7 = Some 0" "or_flags (snd (snd registered)) = [False]"
  by code_simp+

lemma sample_reached:
  "orch_run sample_runner_ops (\<lambda>_. ()) sample_chans None (start_system sample_orch) [Admit 7, Register 7] sample_system"
proof -
  let ?s1 = "\<lparr> sy_orch = admitted_orch, sy_runs = [sample_submission Admitted None], sy_cancels = [] \<rparr>"
  have "orch_step sample_runner_ops (\<lambda>_. ()) sample_chans None (Admit 7) (start_system sample_orch) ?s1"
    using step_admit [of sample_runner_ops sample_spec "start_system sample_orch" admitted_orch] sample_registered(1,3)
    by (simp add: start_system_def)
  from run_step [OF run_refl this]
  have "orch_run sample_runner_ops (\<lambda>_. ()) sample_chans None (start_system sample_orch) [Admit 7] ?s1" by simp
  moreover have "orch_step sample_runner_ops (\<lambda>_. ()) sample_chans None (Register 7) ?s1 sample_system"
    using step_register [of ?s1 "[]" "sample_submission Admitted None" "[]" "\<lambda>_. ()" sample_chans sample_shared
        "fst registered" 0 "snd (snd registered)"] sample_registered(2,3)
    by (simp add: sample_system_def registered_def)
  ultimately show ?thesis using run_step by fastforce
qed

theorem orchestrator_bounds_witness:
  "or_permits (sy_orch sample_system) + length (sy_runs sample_system) = 10 \<and>
   hm_len (or_active (sy_orch sample_system)) \<le> 1010"
  using orchestrator_bounds [OF sample_unused sample_reached]
  by (simp add: max_concurrent_def resource_budget_default_def resource_budget_new_def)

theorem orchestrator_no_orphans_witness:
  "(\<exists>b. b \<in> set (sy_runs sample_system) \<and> crew_id (sb_spec b) = 7 \<and> sb_phase b \<noteq> Admitted) \<or>
   7 \<in> lost [Admit 7, Register 7]"
  using orchestrator_no_orphans [OF sample_unused sample_reached, of 7] sample_registered(4)
  by (auto simp: sample_system_def)



lemma sample_run_crew:
  "run_crew sample_runner_ops (\<lambda>_. ()) sample_chans None (\<lambda>_. None) sample_run_env sample_shared sample_spec sample_orch \<noteq> None"
  by code_simp

theorem run_crew_outcome_witness:
  "\<exists>out orc'. run_crew sample_runner_ops (\<lambda>_. ()) sample_chans None (\<lambda>_. None) sample_run_env sample_shared
     sample_spec sample_orch = Some (out, orc') \<and> or_permits orc' = 10"
proof -
  obtain out orc' where run: "run_crew sample_runner_ops (\<lambda>_. ()) sample_chans None (\<lambda>_. None) sample_run_env
      sample_shared sample_spec sample_orch = Some (out, orc')" using sample_run_crew by fastforce
  from run_crew_outcome [OF this] show ?thesis using run by (auto simp: sample_orch_def)
qed

text \<open>A cancellation that arrives after the runner's last look at the flag succeeds, and is
  then overwritten by the state of the run.\<close>

theorem late_cancel_overwritten:
  assumes "sy_runs s = [b]" and "sb_phase b = Storing st" and "crew_id (sb_spec b) = cid"
    and "hm_get (or_active (sy_orch s)) cid = Some pending" and "sy_cancels s = []"
  shows "\<exists>orc s'. mark_cancelled (ro_uuid_str ops) cid (signal_cancel cid (sy_orch s)) = (Inr (), orc) \<and>
    orch_run ops new_client chans strength s [Signal cid, Mark cid, Store cid] s' \<and>
    hm_get (or_active (sy_orch s')) cid = Some st"
proof -
  obtain orc where m: "mark_cancelled (ro_uuid_str ops) cid (signal_cancel cid (sy_orch s)) = (Inr (), orc)"
    using assms(4) by (simp add: mark_cancelled_def)
  let ?s1 = "s\<lparr>sy_orch := signal_cancel cid (sy_orch s), sy_cancels := sy_cancels s @ [cid]\<rparr>"
  let ?s2 = "?s1\<lparr>sy_orch := orc, sy_cancels := []\<rparr>"
  let ?s3 = "?s2\<lparr>sy_orch := store_crew cid st (sy_orch ?s2), sy_runs := []\<rparr>"
  have 1: "orch_step ops new_client chans strength (Signal cid) s ?s1" by (rule step_signal)
  have 2: "orch_step ops new_client chans strength (Mark cid) ?s1 ?s2"
    using step_mark [of ?s1 "[]" cid "[]" ops "Inr ()" orc] m assms(5) by simp
  have 3: "orch_step ops new_client chans strength (Store cid) ?s2 ?s3"
    using step_store [of ?s2 "[]" b "[]" st] assms by simp
  have "orch_run ops new_client chans strength s ((([] @ [Signal cid]) @ [Mark cid]) @ [Store cid]) ?s3"
    by (intro run_step [OF run_step [OF run_step [OF run_refl 1] 2] 3])
  with m show ?thesis by (intro exI [of _ orc] exI [of _ ?s3]) simp
qed

text \<open>Cancelling a crew that has finished turns its final state into a cancelled one.\<close>

theorem cancel_rewrites_finished:
  assumes "hm_get (or_active orc) cid = Some st"
  shows "\<exists>orc'. cancel_crew u cid orc = (Inr (), orc') \<and>
    hm_get (or_active orc') cid = Some (st\<lparr>state_status := CrCancelled\<rparr>)"
  using assms by (simp add: cancel_crew_def mark_cancelled_def)

end
