(* ===== verification/Server_Security.thy ===== *)
theory Server_Security
  imports Output_Validation
begin

text \<open>
  The gatekeepers of the HTTP server: the SSRF check of outbound URLs (\<open>server/ssrf.rs\<close>),
  bearer authentication (\<open>server/auth.rs\<close>) and the middleware of the rate limiter
  (\<open>server/rate_limit.rs\<close>). Parsing of
  URLs, JWT decoding and the token bucket come from other crates and are arguments.
\<close>

unbundle bit_operations_syntax

section \<open>SSRF protection\<close>

datatype ipv4 = V4 u8 u8 u8 u8

datatype ipv6 = V6 "16 word" "16 word" "16 word" "16 word" "16 word" "16 word" "16 word" "16 word"

datatype host = HostDomain string | HostIpv4 ipv4 | HostIpv6 ipv6

record url =
  url_scheme :: string
  url_host :: "host option"
  url_host_str :: "string option"

text \<open>The classification of \<open>std::net::Ipv4Addr\<close> and \<open>Ipv6Addr\<close>.\<close>

fun v4_is_private :: "ipv4 \<Rightarrow> bool" where
  "v4_is_private (V4 a b c d) = (a = 10 \<or> (a = 172 \<and> 16 \<le> b \<and> b \<le> 31) \<or> (a = 192 \<and> b = 168))"

fun v4_is_loopback :: "ipv4 \<Rightarrow> bool" where
  "v4_is_loopback (V4 a b c d) = (a = 127)"

fun v4_is_link_local :: "ipv4 \<Rightarrow> bool" where
  "v4_is_link_local (V4 a b c d) = (a = 169 \<and> b = 254)"

fun v4_is_unspecified :: "ipv4 \<Rightarrow> bool" where
  "v4_is_unspecified (V4 a b c d) = (a = 0 \<and> b = 0 \<and> c = 0 \<and> d = 0)"

fun v6_is_loopback :: "ipv6 \<Rightarrow> bool" where
  "v6_is_loopback (V6 a b c d e f g h) = (a = 0 \<and> b = 0 \<and> c = 0 \<and> d = 0 \<and> e = 0 \<and> f = 0 \<and> g = 0 \<and> h = 1)"

fun to_ipv4_mapped :: "ipv6 \<Rightarrow> ipv4 option" where
  "to_ipv4_mapped (V6 a b c d e f g h) =
     (if a = 0 \<and> b = 0 \<and> c = 0 \<and> d = 0 \<and> e = 0 \<and> f = 0xffff
      then Some (V4 (ucast (drop_bit 8 g)) (ucast g) (ucast (drop_bit 8 h)) (ucast h)) else None)"

fun first_segment :: "ipv6 \<Rightarrow> 16 word" where
  "first_segment (V6 a b c d e f g h) = a"

fun first_octet :: "ipv4 \<Rightarrow> u8" where
  "first_octet (V4 a b c d) = a"

fun second_octet :: "ipv4 \<Rightarrow> u8" where
  "second_octet (V4 a b c d) = b"

definition is_private_ipv4 :: "ipv4 \<Rightarrow> bool" where
  "is_private_ipv4 v4 \<longleftrightarrow>
     v4_is_private v4 \<or> v4_is_loopback v4 \<or> v4_is_link_local v4 \<or>
     (first_octet v4 = 169 \<and> second_octet v4 = 254) \<or> v4_is_unspecified v4 \<or> first_octet v4 = 0"

definition is_private_ipv6 :: "ipv6 \<Rightarrow> bool" where
  "is_private_ipv6 v6 =
     (if v6_is_loopback v6 then True
      else case to_ipv4_mapped v6 of
        Some mapped \<Rightarrow> is_private_ipv4 mapped
      | None \<Rightarrow>
          if first_segment v6 AND 0xfe00 = 0xfc00 then True
          else if first_segment v6 AND 0xffc0 = 0xfe80 then True
          else False)"

definition is_internal_name :: "string \<Rightarrow> bool" where
  "is_internal_name lower \<longleftrightarrow>
     lower = ''localhost'' \<or> lower = ''127.0.0.1'' \<or> lower = ''::1'' \<or> lower = ''[::1]'' \<or>
     ends_with lower ''.local'' \<or> ends_with lower ''.internal'' \<or> ends_with lower ''.localhost''"

definition is_safe_url :: "(string \<Rightarrow> url option) \<Rightarrow> string \<Rightarrow> bool" where
  "is_safe_url parse_url u =
     (case parse_url u of
        None \<Rightarrow> False
      | Some parsed \<Rightarrow>
          if url_scheme parsed \<noteq> ''http'' \<and> url_scheme parsed \<noteq> ''https'' then False
          else case url_host_str parsed of
            None \<Rightarrow> False
          | Some h \<Rightarrow>
              if is_internal_name (to_ascii_lowercase h) then False
              else \<not> (case url_host parsed of
                        Some (HostIpv4 v4) \<Rightarrow> is_private_ipv4 v4
                      | Some (HostIpv6 v6) \<Rightarrow> is_private_ipv6 v6
                      | _ \<Rightarrow> False))"

section \<open>Authentication\<close>

text \<open>The HTTP status codes the server uses.\<close>

datatype status_code =
    OK | CREATED | NO_CONTENT | BAD_REQUEST | UNAUTHORIZED | NOT_FOUND | METHOD_NOT_ALLOWED
  | PAYLOAD_TOO_LARGE | TOO_MANY_REQUESTS | INTERNAL_SERVER_ERROR

definition byte_at :: "u8 list \<Rightarrow> nat \<Rightarrow> u8" where
  "byte_at a i = (if i < length a then a ! i else 0)"

definition constant_time_eq :: "u8 list \<Rightarrow> u8 list \<Rightarrow> bool" where
  "constant_time_eq a b =
     (let len_diff = length a XOR length b;
          result = fold (\<lambda>i result. result OR (byte_at a i XOR byte_at b i)) [0..<max (length a) (length b)] 0
      in result = 0 \<and> len_diff = 0)"

record jwt_config =
  jwt_public_key_pem :: string
  jwt_issuer :: "string option"
  jwt_audience :: "string option"

record auth_config =
  ac_enabled :: bool
  ac_secret :: string
  ac_jwt :: "jwt_config option"

definition auth_with_secret :: "string \<Rightarrow> auth_config" where
  "auth_with_secret secret = \<lparr> ac_enabled = True, ac_secret = secret, ac_jwt = None \<rparr>"

definition auth_with_jwt :: "jwt_config \<Rightarrow> auth_config" where
  "auth_with_jwt jwt = \<lparr> ac_enabled = True, ac_secret = [], ac_jwt = Some jwt \<rparr>"

definition jwt_config_new :: "string \<Rightarrow> jwt_config" where
  "jwt_config_new pem = \<lparr> jwt_public_key_pem = pem, jwt_issuer = None, jwt_audience = None \<rparr>"

definition with_issuer :: "string \<Rightarrow> jwt_config \<Rightarrow> jwt_config" where
  "with_issuer issuer c = c\<lparr>jwt_issuer := Some issuer\<rparr>"

definition with_audience :: "string \<Rightarrow> jwt_config \<Rightarrow> jwt_config" where
  "with_audience audience c = c\<lparr>jwt_audience := Some audience\<rparr>"

record claims =
  cl_sub :: "string option"
  cl_iss :: "string option"
  cl_aud :: "string option"
  cl_exp :: "u64 option"
  cl_iat :: "u64 option"
  cl_scope :: "string option"

text \<open>What the code sets of \<open>jsonwebtoken::Validation\<close>; the algorithm is always RS256.\<close>

record validation =
  va_validate_exp :: bool
  va_issuer :: "string list option"
  va_audience :: "string list option"
  va_validate_aud :: bool

definition jwt_validation :: "jwt_config \<Rightarrow> validation" where
  "jwt_validation c =
     \<lparr> va_validate_exp = True, va_issuer = map_option (\<lambda>iss. [iss]) (jwt_issuer c),
       va_audience = map_option (\<lambda>aud. [aud]) (jwt_audience c), va_validate_aud = (jwt_audience c \<noteq> None) \<rparr>"

record ('k, 'e) jwt_ops =
  jo_from_rsa_pem :: "string \<Rightarrow> 'e + 'k"
  jo_decode :: "string \<Rightarrow> 'k \<Rightarrow> validation \<Rightarrow> 'e + claims"

definition validate_jwt :: "('k, 'e) jwt_ops \<Rightarrow> string \<Rightarrow> jwt_config \<Rightarrow> status_code + claims" where
  "validate_jwt ops token c =
     (case jo_from_rsa_pem ops (jwt_public_key_pem c) of
        Inl e \<Rightarrow> Inl INTERNAL_SERVER_ERROR
      | Inr key \<Rightarrow>
          (case jo_decode ops token key (jwt_validation c) of
             Inl e \<Rightarrow> Inl UNAUTHORIZED
           | Inr cl \<Rightarrow> if cl_exp cl = None then Inl UNAUTHORIZED else Inr cl))"

definition as_bytes :: "string \<Rightarrow> u8 list" where
  "as_bytes s = map (\<lambda>c. of_nat (of_char c)) s"

text \<open>The decision of \<open>auth_middleware\<close>; \<open>Inr ()\<close> passes the request on. The header is
  \<open>None\<close> when it is missing or not printable.\<close>

definition auth_middleware :: "('k, 'e) jwt_ops \<Rightarrow> auth_config \<Rightarrow> string option \<Rightarrow> status_code + unit" where
  "auth_middleware ops config auth_header =
     (if \<not> ac_enabled config then Inr ()
      else case auth_header of
        None \<Rightarrow> Inl UNAUTHORIZED
      | Some header \<Rightarrow>
          if \<not> starts_with header ''Bearer '' then Inl UNAUTHORIZED
          else
            (let token = drop (length ''Bearer '') header
             in if token = [] then Inl UNAUTHORIZED
                else case ac_jwt config of
                  Some jwt \<Rightarrow> (case validate_jwt ops token jwt of Inl e \<Rightarrow> Inl e | Inr _ \<Rightarrow> Inr ())
                | None \<Rightarrow>
                    if \<not> constant_time_eq (as_bytes token) (as_bytes (ac_secret config))
                    then Inl UNAUTHORIZED else Inr ()))"

section \<open>Rate limiting\<close>

definition extract_client_key :: "string option \<Rightarrow> string option \<Rightarrow> string" where
  "extract_client_key x_forwarded_for x_real_ip =
     (case x_forwarded_for of
        Some s \<Rightarrow> str_trim (hd (split_on CHR '','' s))
      | None \<Rightarrow> (case x_real_ip of Some s \<Rightarrow> str_trim s | None \<Rightarrow> ''unknown''))"

definition rate_limit_middleware :: "(string \<Rightarrow> bool) option \<Rightarrow> string option \<Rightarrow> string option \<Rightarrow> status_code + unit" where
  "rate_limit_middleware limiter x_forwarded_for x_real_ip =
     (case limiter of
        None \<Rightarrow> Inr ()
      | Some check \<Rightarrow>
          if \<not> check (extract_client_key x_forwarded_for x_real_ip) then Inl TOO_MANY_REQUESTS else Inr ())"

section \<open>Constant-time comparison\<close>

lemma fold_or_zero:
  "fold (\<lambda>i r. r OR f i) is (r0 :: u8) = 0 \<longleftrightarrow> r0 = 0 \<and> (\<forall>i \<in> set is. f i = 0)"
proof (induction "is" arbitrary: r0)
  case (Cons i "is")
  have "r0 OR f i = 0 \<longleftrightarrow> r0 = 0 \<and> f i = 0" by (metis or.left_neutral or_eq_0_iff)
  with Cons show ?case by auto
qed simp

lemma xor_zero_iff: "a XOR b = 0 \<longleftrightarrow> a = b" for a b :: "'a::semiring_bit_operations"
  by (metis xor.assoc xor_self_eq xor.left_neutral xor.right_neutral)

lemma constant_time_eq_iff: "constant_time_eq a b \<longleftrightarrow> a = b"
proof
  assume ct: "constant_time_eq a b"
  then have len: "length a = length b" by (simp add: constant_time_eq_def Let_def xor_zero_iff)
  have "byte_at a i XOR byte_at b i = 0" if "i < length a" for i
    using ct len that unfolding constant_time_eq_def Let_def fold_or_zero by simp
  with len show "a = b" by (intro nth_equalityI) (auto simp: byte_at_def xor_zero_iff)
next
  assume "a = b"
  then show "constant_time_eq a b" unfolding constant_time_eq_def Let_def fold_or_zero by simp
qed

lemma as_bytes_inj: "as_bytes s = as_bytes t \<longleftrightarrow> s = t"
proof -
  have "inj (\<lambda>c. of_nat (of_char c) :: u8)"
  proof (rule injI)
    fix c d :: char assume "(of_nat (of_char c) :: u8) = of_nat (of_char d)"
    then have "(of_char c :: nat) mod 256 = of_char d mod 256" by (simp add: word_of_nat_eq_iff take_bit_eq_mod)
    then show "c = d" by simp
  qed
  then show ?thesis unfolding as_bytes_def by (simp add: inj_map_eq_map)
qed

section \<open>Address ranges\<close>

lemma and_high_bits: "x AND NOT (mask n) = push_bit n (drop_bit n x)" for x :: "'a::len word"
  by (rule bit_word_eqI) (auto simp: bit_simps)

text \<open>A mask test of the upper bits is a range test.\<close>

lemma unat_clear_low: "unat (push_bit n (drop_bit n x)) = unat x div 2 ^ n * 2 ^ n" for x :: "'a::len word"
proof -
  have "unat x div 2 ^ n * 2 ^ n \<le> unat x" by simp
  also have "\<dots> < 2 ^ LENGTH('a)" by simp
  finally have "unat x div 2 ^ n * 2 ^ n mod 2 ^ LENGTH('a) = unat x div 2 ^ n * 2 ^ n" by simp
  then show ?thesis
    unfolding unsigned_push_bit_eq unat_drop_bit_eq by (simp only: take_bit_eq_mod push_bit_eq_mult drop_bit_eq_div)
qed

lemma masked_range:
  fixes x m p :: "16 word"
  assumes "NOT (mask n) = m" and "unat p = k * 2 ^ n"
  shows "x AND m = p \<longleftrightarrow> k * 2 ^ n \<le> unat x \<and> unat x < (k + 1) * 2 ^ n"
proof -
  have "x AND m = p \<longleftrightarrow> unat (x AND m) = unat p" by (simp only: word_unat_eq_iff)
  also have "\<dots> \<longleftrightarrow> unat x div 2 ^ n * 2 ^ n = k * 2 ^ n"
    unfolding assms(1) [symmetric] and_high_bits unat_clear_low assms(2) ..
  also have "\<dots> \<longleftrightarrow> unat x div 2 ^ n = k" by simp
  also have "\<dots> \<longleftrightarrow> k * 2 ^ n \<le> unat x \<and> unat x < (k + 1) * 2 ^ n"
  proof
    assume "unat x div 2 ^ n = k"
    then have "unat x = k * 2 ^ n + unat x mod 2 ^ n" using div_mult_mod_eq [of "unat x" "2 ^ n"] by simp
    moreover have "unat x mod 2 ^ n < 2 ^ n" by simp
    ultimately show "k * 2 ^ n \<le> unat x \<and> unat x < (k + 1) * 2 ^ n" by (metis add_mult_distrib le_add1 mult_1 nat_add_left_cancel_less)
  qed (auto intro: div_nat_eqI simp: mult.commute)
  finally show ?thesis .
qed

lemma unique_local_range: "x AND 0xfe00 = 0xfc00 \<longleftrightarrow> 0xfc00 \<le> x \<and> x \<le> 0xfdff" for x :: "16 word"
proof -
  have "(NOT (mask 9) :: 16 word) = 0xfe00" by code_simp
  from masked_range [OF this, of "0xfc00" 126 x] show ?thesis by (auto simp: word_le_nat_alt)
qed

lemma link_local_range: "x AND 0xffc0 = 0xfe80 \<longleftrightarrow> 0xfe80 \<le> x \<and> x \<le> 0xfebf" for x :: "16 word"
proof -
  have "(NOT (mask 6) :: 16 word) = 0xffc0" by code_simp
  from masked_range [OF this, of "0xfe80" 1018 x] show ?thesis by (auto simp: word_le_nat_alt)
qed

text \<open>The addresses that must not be reached, by their ranges.\<close>

fun forbidden_v4 :: "ipv4 \<Rightarrow> bool" where
  "forbidden_v4 (V4 a b c d) =
     (a = 0 \<or> a = 10 \<or> a = 127 \<or> (a = 169 \<and> b = 254) \<or> (a = 172 \<and> b \<in> {16..31}) \<or> (a = 192 \<and> b = 168))"

fun forbidden_v6 :: "ipv6 \<Rightarrow> bool" where
  "forbidden_v6 (V6 a b c d e f g h) =
     ((a, b, c, d, e, f, g, h) = (0, 0, 0, 0, 0, 0, 0, 1) \<or> a \<in> {0xfc00..0xfdff} \<or> a \<in> {0xfe80..0xfebf} \<or>
      (a, b, c, d, e, f) = (0, 0, 0, 0, 0, 0xffff) \<and>
        forbidden_v4 (V4 (ucast (drop_bit 8 g)) (ucast g) (ucast (drop_bit 8 h)) (ucast h)))"

lemma is_private_ipv4_iff: "is_private_ipv4 v4 \<longleftrightarrow> forbidden_v4 v4"
  by (cases v4) (auto simp: is_private_ipv4_def)

lemma is_private_ipv6_iff: "is_private_ipv6 v6 \<longleftrightarrow> forbidden_v6 v6"
  by (cases v6) (auto simp: is_private_ipv6_def is_private_ipv4_iff unique_local_range link_local_range
      simp del: forbidden_v4.simps)

section \<open>Properties\<close>

text \<open>C39. The SSRF check decides by ranges: a URL is safe exactly when it parses, has an HTTP
  scheme and a host, the host is none of the internal names, and an address host lies in
  none of the private, loopback, link-local and unique-local ranges, an IPv4 address
  wrapped in an IPv6 one included.\<close>

theorem is_safe_url_exact:
  "is_safe_url parse_url u \<longleftrightarrow>
     (\<exists>p h. parse_url u = Some p \<and> url_scheme p \<in> {''http'', ''https''} \<and> url_host_str p = Some h \<and>
        \<not> is_internal_name (to_ascii_lowercase h) \<and>
        \<not> (\<exists>v4. url_host p = Some (HostIpv4 v4) \<and> forbidden_v4 v4) \<and>
        \<not> (\<exists>v6. url_host p = Some (HostIpv6 v6) \<and> forbidden_v6 v6))"
  by (auto simp: is_safe_url_def is_private_ipv4_iff is_private_ipv6_iff split: option.splits host.splits)

text \<open>Authentication decides exactly: an enabled middleware passes a request on if and only if
  the header is a non-empty bearer token that equals the shared secret, byte for byte, or,
  with a JWT configuration, a token that decodes under the configured key, issuer and
  audience and has an expiry.\<close>

theorem auth_middleware_exact:
  assumes "ac_enabled config"
  shows "auth_middleware ops config header = Inr () \<longleftrightarrow>
    (\<exists>token. header = Some (''Bearer '' @ token) \<and> token \<noteq> [] \<and>
      (case ac_jwt config of
         None \<Rightarrow> token = ac_secret config
       | Some jwt \<Rightarrow> \<exists>key cl. jo_from_rsa_pem ops (jwt_public_key_pem jwt) = Inr key \<and>
           jo_decode ops token key (jwt_validation jwt) = Inr cl \<and> cl_exp cl \<noteq> None))"
proof (cases "\<exists>token. header = Some (''Bearer '' @ token)")
  case True
  then obtain token where h: "header = Some (''Bearer '' @ token)" by blast
  then have "starts_with (''Bearer '' @ token) ''Bearer ''" by (simp add: starts_with_iff)
  with h assms show ?thesis
    by (auto simp: auth_middleware_def constant_time_eq_iff as_bytes_inj validate_jwt_def
        split: option.splits sum.splits if_splits)
next
  case False
  then show ?thesis using assms by (auto simp: auth_middleware_def starts_with_iff split: option.splits)
qed

theorem auth_middleware_exact_witness:
  "auth_middleware \<lparr> jo_from_rsa_pem = (\<lambda>_. Inr ()), jo_decode = (\<lambda>_ _ _. Inl ()) \<rparr> (auth_with_secret ''s3'')
     (Some ''Bearer s3'') = Inr ()"
proof -
  have "ac_enabled (auth_with_secret ''s3'')" by (simp add: auth_with_secret_def)
  from auth_middleware_exact [OF this, of "\<lparr> jo_from_rsa_pem = (\<lambda>_. Inr ()), jo_decode = (\<lambda>_ _ _. Inl ()) \<rparr>"
      "Some ''Bearer s3''"] show ?thesis by (simp add: auth_with_secret_def)
qed

text \<open>The name check misses the root dot and the unspecified IPv6 address, which both reach
  the local host.\<close>

theorem ssrf_local_host_reachable:
  "is_safe_url (\<lambda>_. Some \<lparr> url_scheme = ''http'', url_host = Some (HostDomain ''localhost.''),
       url_host_str = Some ''localhost.'' \<rparr>) ''http://localhost./'' \<and>
   is_safe_url (\<lambda>_. Some \<lparr> url_scheme = ''http'', url_host = Some (HostIpv6 (V6 0 0 0 0 0 0 0 0)),
       url_host_str = Some ''[::]'' \<rparr>) ''http://[::]/''"
  by code_simp

end
