(* ===== verification/Crew_Routes.thy ===== *)
theory Crew_Routes
  imports Orchestrator Server_Security
begin

text \<open>
  The HTTP handlers that run crews: \<open>server/routes/crews.rs\<close> with its request validation and
  cycle check, and \<open>server/routes/a2a.rs\<close>. JSON bodies that serde produces from model types
  are arguments; a handler's result is a status code with a body.
\<close>

section \<open>Requests\<close>

record task_request =
  tr_description :: string
  tr_expected_output :: "string option"
  tr_priority :: "task_priority option"
  tr_dependencies :: "nat list"

record 'p crew_run_request =
  rq_name :: string
  rq_agents :: "'p agent_definition list"
  rq_tasks :: "task_request list"
  rq_process :: "string option"
  rq_max_concurrency :: "nat option"

record task_result_response =
  rp_task_id :: task_id
  rp_output :: string
  rp_status :: string

record crew_run_response =
  rp_crew_id :: crew_id
  rp_crew_status :: string
  rp_results :: "task_result_response list"
  rp_profile :: "crew_profile option"

definition MAX_AGENTS :: nat where
  "MAX_AGENTS = 100"

definition MAX_TASKS :: nat where
  "MAX_TASKS = 1000"

definition MAX_STRING_LEN :: nat where
  "MAX_STRING_LEN = 10000"

section \<open>Cycle check\<close>

text \<open>A loop over items with a state that stops at the first \<open>True\<close>; the outer \<open>None\<close> is a
  call that does not return.\<close>

primrec any_state :: "('a \<Rightarrow> 's \<Rightarrow> (bool \<times> 's) option) \<Rightarrow> 'a list \<Rightarrow> 's \<Rightarrow> (bool \<times> 's) option" where
  "any_state f [] st = Some (False, st)"
| "any_state f (x # xs) st =
     Option.bind (f x st) (\<lambda>(b, st'). if b then Some (True, st') else any_state f xs st')"

lemma any_state_mono [partial_function_mono]:
  assumes "\<And>x st. mono_option (\<lambda>f. F f x st)"
  shows "mono_option (\<lambda>f. any_state (F f) xs st)"
proof (induction xs arbitrary: st)
  case Nil
  show ?case by (simp add: option.const_mono)
next
  case (Cons x xs)
  have "mono_option (\<lambda>f. Option.bind (F f x st) (\<lambda>p. if fst p then Some (True, snd p) else any_state (F f) xs (snd p)))"
    by (intro bind_mono assms if_mono option.const_mono Cons)
  then show ?case by (simp add: case_prod_beta')
qed

text \<open>\<open>visit\<close>: 0 is unvisited, 1 in progress, 2 done.\<close>

partial_function (option) visit :: "task_request list \<Rightarrow> nat \<Rightarrow> nat list \<Rightarrow> (bool \<times> nat list) option" where
  "visit tasks node state =
     (if state ! node = 1 then Some (True, state)
      else if state ! node = 2 then Some (False, state)
      else
        Option.bind
          (any_state (\<lambda>dep state. if dep < length tasks then visit tasks dep state else Some (False, state))
             (tr_dependencies (tasks ! node)) (state[node := 1]))
          (\<lambda>(b, state). if b then Some (True, state) else Some (False, state[node := 2])))"

declare visit.simps [code]

definition has_dependency_cycle :: "nat \<Rightarrow> task_request list \<Rightarrow> bool option" where
  "has_dependency_cycle n tasks =
     map_option fst (any_state (visit tasks) [0..<n] (replicate n 0))"

section \<open>Validation\<close>

fun first_some :: "('a \<Rightarrow> 'b option) \<Rightarrow> 'a list \<Rightarrow> 'b option" where
  "first_some f [] = None"
| "first_some f (x # xs) = (case f x of Some e \<Rightarrow> Some e | None \<Rightarrow> first_some f xs)"

definition agent_error :: "nat \<times> 'p agent_definition \<Rightarrow> string option" where
  "agent_error = (\<lambda>(i, agent).
     if MAX_STRING_LEN < length (agent_key agent) \<or> MAX_STRING_LEN < length (agent_role agent)
     then Some (''agent '' @ nat_str i @ '': field exceeds max length'') else None)"

definition dependency_error :: "nat \<Rightarrow> nat \<Rightarrow> nat \<Rightarrow> string option" where
  "dependency_error n i dep =
     (if n \<le> dep then Some (''task '' @ nat_str i @ '': dependency index '' @ nat_str dep @ '' out of range'')
      else if dep = i then Some (''task '' @ nat_str i @ '': self-dependency'')
      else None)"

definition task_error :: "nat \<Rightarrow> nat \<times> task_request \<Rightarrow> string option" where
  "task_error n = (\<lambda>(i, task).
     if MAX_STRING_LEN < length (tr_description task)
     then Some (''task '' @ nat_str i @ '': description exceeds max length'')
     else first_some (dependency_error n i) (tr_dependencies task))"

definition validate_crew_request :: "'p crew_run_request \<Rightarrow> (string + unit) option" where
  "validate_crew_request req =
     (let n = length (rq_tasks req)
      in if rq_name req = [] \<or> MAX_STRING_LEN < length (rq_name req)
         then Some (Inl (''name must be 1-'' @ nat_str MAX_STRING_LEN @ '' characters''))
         else if rq_agents req = [] then Some (Inl ''at least one agent is required'')
         else if MAX_AGENTS < length (rq_agents req)
         then Some (Inl (''at most '' @ nat_str MAX_AGENTS @ '' agents allowed''))
         else if rq_tasks req = [] then Some (Inl ''at least one task is required'')
         else if MAX_TASKS < n then Some (Inl (''at most '' @ nat_str MAX_TASKS @ '' tasks allowed''))
         else case first_some agent_error (enumerate 0 (rq_agents req)) of
           Some e \<Rightarrow> Some (Inl e)
         | None \<Rightarrow>
             (case first_some (task_error n) (enumerate 0 (rq_tasks req)) of
                Some e \<Rightarrow> Some (Inl e)
              | None \<Rightarrow>
                  map_option (\<lambda>b. if b then Inl ''task dependencies contain a cycle'' else Inr ())
                    (has_dependency_cycle n (rq_tasks req))))"

section \<open>Running a crew from a request\<close>

text \<open>The identifiers that \<open>Uuid::new_v4\<close> returns are the values of \<open>fresh\<close>: the manager
  of a hierarchical crew, the crew, and the tasks in order.\<close>

definition request_process :: "(nat \<Rightarrow> uuid) \<Rightarrow> 'p crew_run_request \<Rightarrow> process_mode" where
  "request_process fresh req =
     (if rq_process req = Some ''hierarchical'' then Hierarchical (fresh 0)
      else if rq_process req = Some ''dag'' then Dag
      else if rq_process req = Some ''parallel''
      then Parallel (min 64 (max 1 (case rq_max_concurrency req of None \<Rightarrow> 4 | Some m \<Rightarrow> m)))
      else Sequential)"

definition request_task :: "(nat \<Rightarrow> uuid) \<Rightarrow> nat \<Rightarrow> task_request \<Rightarrow> task" where
  "request_task fresh i tr =
     (let t = (task_new (fresh (i + 2)) (tr_description tr))\<lparr>task_expected_output := tr_expected_output tr\<rparr>
      in case tr_priority tr of None \<Rightarrow> t | Some p \<Rightarrow> t\<lparr>task_priority := p\<rparr>)"

definition request_tasks :: "(nat \<Rightarrow> uuid) \<Rightarrow> task_request list \<Rightarrow> task list" where
  "request_tasks fresh trs =
     (let tasks = map (\<lambda>(i, tr). request_task fresh i tr) (enumerate 0 trs);
          task_ids = map task_id tasks
      in map (\<lambda>(t, tr). t\<lparr>task_dependencies := task_dependencies t @
             map ((!) task_ids) (filter (\<lambda>d. d < length task_ids) (tr_dependencies tr))\<rparr>) (zip tasks trs))"

definition request_spec :: "(nat \<Rightarrow> uuid) \<Rightarrow> 'p crew_run_request \<Rightarrow> 'p crew_spec" where
  "request_spec fresh req =
     (crew_spec_new (fresh 1) (rq_name req))
       \<lparr>crew_agents := rq_agents req, crew_process := request_process fresh req,
        crew_tasks := request_tasks fresh (rq_tasks req)\<rparr>"

definition status_text :: "json option \<Rightarrow> string" where
  "status_text v = (case Option.bind v as_str of None \<Rightarrow> ''unknown'' | Some s \<Rightarrow> s)"

definition run_response :: "(task_status \<Rightarrow> json option) \<Rightarrow> (crew_status \<Rightarrow> json option) \<Rightarrow> crew_state \<Rightarrow> crew_run_response" where
  "run_response task_value crew_value st =
     \<lparr> rp_crew_id = state_crew_id st, rp_crew_status = status_text (crew_value (state_status st)),
       rp_results = map (\<lambda>r. \<lparr> rp_task_id = result_task_id r, rp_output = result_output r,
         rp_status = status_text (task_value (result_status r)) \<rparr>) (state_results st),
       rp_profile = state_profile st \<rparr>"

definition error_body :: "string \<Rightarrow> json" where
  "error_body msg = JObject [(''error'', JString msg)]"

text \<open>\<open>run\<close> is \<open>Orchestrator::run_crew\<close> on the shared orchestrator.\<close>

definition create_crew :: "(task_status \<Rightarrow> json option) \<Rightarrow> (crew_status \<Rightarrow> json option) \<Rightarrow> (nat \<Rightarrow> uuid)
    \<Rightarrow> ('p crew_spec \<Rightarrow> 'o \<Rightarrow> (crew_state res \<times> 'o) option) \<Rightarrow> 'p crew_run_request \<Rightarrow> 'o
    \<Rightarrow> ((status_code \<times> json + crew_run_response) \<times> 'o) option" where
  "create_crew task_value crew_value fresh run req orc =
     (case validate_crew_request req of
        None \<Rightarrow> None
      | Some (Inl msg) \<Rightarrow> Some (Inl (BAD_REQUEST, error_body msg), orc)
      | Some (Inr _) \<Rightarrow>
          (case run (request_spec fresh req) orc of
             None \<Rightarrow> None
           | Some (Inl e, orc') \<Rightarrow> Some (Inl (INTERNAL_SERVER_ERROR, error_body ''crew execution failed''), orc')
           | Some (Inr st, orc') \<Rightarrow> Some (Inr (run_response task_value crew_value st), orc')))"

definition get_crew :: "(crew_state \<Rightarrow> json option) \<Rightarrow> crew_id \<Rightarrow> ('h, 'tx) orchestrator \<Rightarrow> status_code \<times> json + json" where
  "get_crew state_value cid orc =
     (case hm_get (or_active orc) cid of
        Some crew \<Rightarrow> Inr (case state_value crew of None \<Rightarrow> JNull | Some v \<Rightarrow> v)
      | None \<Rightarrow> Inl (NOT_FOUND, error_body ''crew not found''))"

definition cancel_crew_route :: "(uuid \<Rightarrow> string) \<Rightarrow> crew_id \<Rightarrow> ('h, 'tx) orchestrator
    \<Rightarrow> (status_code \<times> json + json) \<times> ('h, 'tx) orchestrator" where
  "cancel_crew_route uuid_str cid orc =
     (case cancel_crew uuid_str cid orc of
        (Inr _, orc') \<Rightarrow>
          (Inr (JObject [(''status'', JString ''cancelled''), (''crew_id'', JString (uuid_str cid))]), orc')
      | (Inl _, orc') \<Rightarrow> (Inl (NOT_FOUND, error_body ''crew not found''), orc'))"

section \<open>Delegation between agents\<close>

definition A2A_MAX_STRING_LEN :: nat where
  "A2A_MAX_STRING_LEN = 10000"

definition A2A_MAX_METADATA_BYTES :: nat where
  "A2A_MAX_METADATA_BYTES = 64 * 1024"

record a2a_request =
  aa_task_id :: string
  aa_description :: string
  aa_domain :: "string option"
  aa_size :: "string option"
  aa_preset :: "string option"
  aa_callback_url :: "string option"
  aa_metadata :: json

record a2a_response =
  ab_task_id :: string
  ab_status :: string
  ab_result :: "json option"
  ab_error :: "string option"

definition a2a_failed :: "string \<Rightarrow> string \<Rightarrow> a2a_response" where
  "a2a_failed tid msg = \<lparr> ab_task_id = tid, ab_status = ''failed'', ab_result = None, ab_error = Some msg \<rparr>"

definition a2a_spec :: "(nat \<Rightarrow> uuid) \<Rightarrow> a2a_request \<Rightarrow> 'p crew_spec" where
  "a2a_spec fresh req =
     (crew_spec_new (fresh 0)
        (''a2a-'' @ (case aa_domain req of None \<Rightarrow> ''general'' | Some d \<Rightarrow> d) @ ''-'' @ aa_task_id req))
       \<lparr>crew_tasks := [task_new (fresh 1) (aa_description req)]\<rparr>"

definition a2a_completed :: "(uuid \<Rightarrow> string) \<Rightarrow> string \<Rightarrow> crew_state \<Rightarrow> a2a_response" where
  "a2a_completed uuid_str tid st =
     \<lparr> ab_task_id = tid, ab_status = ''completed'',
       ab_result = Some (JObject [(''tasks'', JArray (map (\<lambda>r.
         JObject [(''task_id'', JString (uuid_str (result_task_id r))), (''output'', JString (result_output r))])
         (state_results st)))]),
       ab_error = None \<rparr>"

text \<open>\<open>receive\<close>: the status, the response, the callback that is posted in the background, if
  any, and the orchestrator. \<open>to_vec\<close> serializes the metadata.\<close>

definition a2a_receive :: "(string \<Rightarrow> url option) \<Rightarrow> (json \<Rightarrow> string option) \<Rightarrow> (uuid \<Rightarrow> string)
    \<Rightarrow> (agnosai_error \<Rightarrow> string) \<Rightarrow> (nat \<Rightarrow> uuid) \<Rightarrow> ('p crew_spec \<Rightarrow> 'o \<Rightarrow> (crew_state res \<times> 'o) option)
    \<Rightarrow> a2a_request \<Rightarrow> 'o \<Rightarrow> (status_code \<times> a2a_response \<times> (string \<times> a2a_response) option \<times> 'o) option" where
  "a2a_receive parse_url to_vec uuid_str err_str fresh run req orc =
     (let tid = aa_task_id req
      in if A2A_MAX_STRING_LEN < length tid \<or> A2A_MAX_STRING_LEN < length (aa_description req)
         then Some (BAD_REQUEST, a2a_failed tid ''field exceeds max length'', None, orc)
         else if (case to_vec (aa_metadata req) of None \<Rightarrow> False | Some bytes \<Rightarrow> A2A_MAX_METADATA_BYTES < length bytes)
         then Some (BAD_REQUEST, a2a_failed tid ''metadata exceeds 64 KiB limit'', None, orc)
         else case run (a2a_spec fresh req) orc of
           None \<Rightarrow> None
         | Some (Inl e, orc') \<Rightarrow> Some (INTERNAL_SERVER_ERROR, a2a_failed tid (err_str e), None, orc')
         | Some (Inr st, orc') \<Rightarrow>
             (let response = a2a_completed uuid_str tid st
              in Some (OK, response,
                   (case aa_callback_url req of
                      None \<Rightarrow> None
                    | Some u \<Rightarrow> if is_safe_url parse_url u then Some (u, response) else None),
                   orc')))"

section \<open>The cycle check decides\<close>

definition dep_edges :: "task_request list \<Rightarrow> (nat \<times> nat) set" where
  "dep_edges tasks =
     {(i, d). i < length tasks \<and> d \<in> set (tr_dependencies (tasks ! i)) \<and> d < length tasks}"

definition white_count :: "nat list \<Rightarrow> nat" where
  "white_count st = length (filter (\<lambda>c. c = 0) st)"

text \<open>Nodes that are done are on no cycle and lead to done nodes only.\<close>

definition marks_ok :: "task_request list \<Rightarrow> nat list \<Rightarrow> bool" where
  "marks_ok tasks st \<longleftrightarrow> length st = length tasks \<and> set st \<subseteq> {0, 1, 2} \<and>
     (\<forall>x < length st. st ! x = 2 \<longrightarrow>
        (x, x) \<notin> (dep_edges tasks)\<^sup>+ \<and> (\<forall>y. (x, y) \<in> dep_edges tasks \<longrightarrow> st ! y = 2))"

definition advances :: "task_request list \<Rightarrow> nat list \<Rightarrow> nat list \<Rightarrow> bool" where
  "advances tasks st st' \<longleftrightarrow> marks_ok tasks st' \<and> length st' = length st \<and>
     (\<forall>i < length st. (st ! i = 1 \<longleftrightarrow> st' ! i = 1) \<and> (st ! i = 2 \<longrightarrow> st' ! i = 2))"

lemma marks_cases:
  assumes "marks_ok tasks st" and "i < length tasks"
  shows "st ! i = 0 \<or> st ! i = 1 \<or> st ! i = 2"
proof -
  from assms have "st ! i \<in> set st" by (auto simp: marks_ok_def intro: nth_mem)
  with assms(1) show ?thesis by (auto simp: marks_ok_def)
qed

lemma marks_update:
  assumes "marks_ok tasks st" and "node < length tasks" and "st ! node \<noteq> 2" and "c \<in> {1, 2}"
    and "c = 2 \<longrightarrow> (node, node) \<notin> (dep_edges tasks)\<^sup>+ \<and> (\<forall>y. (node, y) \<in> dep_edges tasks \<longrightarrow> st ! y = 2)"
  shows "marks_ok tasks (st[node := c])"
proof -
  have len: "length st = length tasks" using assms(1) by (simp add: marks_ok_def)
  have keep: "st[node := c] ! y = 2" if "st ! y = 2" for y using that assms(3) by (cases "y = node") simp_all
  have "(x, x) \<notin> (dep_edges tasks)\<^sup>+ \<and> (\<forall>y. (x, y) \<in> dep_edges tasks \<longrightarrow> st[node := c] ! y = 2)"
    if "x < length st" "st[node := c] ! x = 2" for x
  proof (cases "x = node")
    case True
    with that assms(5) keep show ?thesis by simp
  next
    case False
    with that assms(1) keep show ?thesis by (auto simp: marks_ok_def)
  qed
  moreover have "set (st[node := c]) \<subseteq> {0, 1, 2}"
    using assms(1,4) set_update_subset_insert [of st node c] by (auto simp: marks_ok_def)
  ultimately show ?thesis using len by (simp add: marks_ok_def)
qed

lemma advances_refl: "marks_ok tasks st \<Longrightarrow> advances tasks st st"
  by (simp add: advances_def)

lemma advances_trans: "advances tasks a b \<Longrightarrow> advances tasks b c \<Longrightarrow> advances tasks a c"
  by (auto simp: advances_def)

lemma white_count_nth: "white_count st = card {i. i < length st \<and> st ! i = 0}"
  by (simp add: white_count_def length_filter_conv_card)

lemma advances_white: "advances tasks st st' \<Longrightarrow> marks_ok tasks st \<Longrightarrow> white_count st' \<le> white_count st"
proof -
  assume adv: "advances tasks st st'" and ok: "marks_ok tasks st"
  have "st ! i = 0" if "i < length st" "st' ! i = 0" for i
  proof -
    have "i < length tasks" using ok that(1) by (simp add: marks_ok_def)
    with marks_cases [OF ok] adv that show ?thesis unfolding advances_def by (metis zero_neq_numeral zero_neq_one)
  qed
  then show ?thesis unfolding white_count_nth using adv by (intro card_mono) (auto simp: advances_def)
qed

lemma white_count_mark: "i < length st \<Longrightarrow> st ! i = 0 \<Longrightarrow> white_count (st[i := 1]) < white_count st"
  unfolding white_count_nth by (intro psubset_card_mono) (auto simp: nth_list_update split: if_splits)

lemma dep_edges_lt: "(x, y) \<in> dep_edges tasks \<Longrightarrow> x < length tasks \<and> y < length tasks"
  by (auto simp: dep_edges_def)

lemma dep_edges_range: "dep_edges tasks \<subseteq> {..<length tasks} \<times> {..<length tasks}"
  by (auto simp: dep_edges_def)

text \<open>The loop over the dependencies, given what one visit does.\<close>

lemma any_state_advances:
  assumes "\<And>x st. x \<in> set xs \<Longrightarrow> advances tasks st0 st \<Longrightarrow>
      \<exists>b st'. f x st = Some (b, st') \<and> (b \<longrightarrow> C) \<and> (\<not> b \<longrightarrow> advances tasks st st' \<and> (x < length tasks \<longrightarrow> st' ! x = 2))"
    and "advances tasks st0 st"
  shows "\<exists>b st'. any_state f xs st = Some (b, st') \<and>
    (b \<longrightarrow> C) \<and> (\<not> b \<longrightarrow> advances tasks st st' \<and> (\<forall>x \<in> set xs. x < length tasks \<longrightarrow> st' ! x = 2))"
  using assms
proof (induction xs arbitrary: st)
  case Nil
  then show ?case by (auto intro: advances_refl simp: advances_def)
next
  case (Cons x xs)
  obtain b st1 where f: "f x st = Some (b, st1)"
    and b: "b \<longrightarrow> C" "\<not> b \<longrightarrow> advances tasks st st1 \<and> (x < length tasks \<longrightarrow> st1 ! x = 2)"
    using Cons.prems(1) [of x st] Cons.prems(2) by auto
  show ?case
  proof (cases b)
    case True
    with f b show ?thesis by auto
  next
    case False
    with b have adv: "advances tasks st st1" "x < length tasks \<longrightarrow> st1 ! x = 2" by auto
    obtain b' st2 where any: "any_state f xs st1 = Some (b', st2)"
      and b': "b' \<longrightarrow> C" "\<not> b' \<longrightarrow> advances tasks st1 st2 \<and> (\<forall>x \<in> set xs. x < length tasks \<longrightarrow> st2 ! x = 2)"
      using Cons.IH [OF Cons.prems(1) advances_trans [OF Cons.prems(2) adv(1)]] by auto
    have "st2 ! x = 2" if "\<not> b'" "x < length tasks"
      using that b' adv by (auto simp: advances_def marks_ok_def)
    with f any b' adv False show ?thesis by (auto intro: advances_trans)
  qed
qed

text \<open>A node whose dependencies are all done can be marked as done.\<close>

lemma mark_done:
  assumes "advances tasks (st[node := 1]) st'" and "node < length tasks" and "marks_ok tasks st"
    and "st ! node = 0" and "\<forall>d \<in> set (tr_dependencies (tasks ! node)). d < length tasks \<longrightarrow> st' ! d = 2"
  shows "advances tasks st (st'[node := 2]) \<and> st'[node := 2] ! node = 2"
proof -
  have len: "length st = length tasks" "length st' = length tasks"
    using assms(1,3) by (auto simp: advances_def marks_ok_def)
  have node: "st' ! node = 1" using assms(1,2) len by (auto simp: advances_def)
  have black: "(x, x) \<notin> (dep_edges tasks)\<^sup>+" "(x, y) \<in> dep_edges tasks \<Longrightarrow> st' ! y = 2"
    if "x < length tasks" "st' ! x = 2" for x y
    using assms(1) that len by (auto simp: advances_def marks_ok_def)
  have succ: "st' ! y = 2" if "(node, y) \<in> dep_edges tasks" for y
    using that assms(5) by (auto simp: dep_edges_def)
  have reach: "st' ! y = 2" if "(x, y) \<in> (dep_edges tasks)\<^sup>*" "st' ! x = 2" "x < length tasks" for x y
    using that by (induction rule: rtrancl_induct) (auto dest: black dep_edges_lt elim: rtranclE)
  have "(node, node) \<notin> (dep_edges tasks)\<^sup>+"
  proof
    assume "(node, node) \<in> (dep_edges tasks)\<^sup>+"
    then obtain y where "(node, y) \<in> dep_edges tasks" "(y, node) \<in> (dep_edges tasks)\<^sup>*" by (meson tranclD)
    with succ reach dep_edges_lt have "st' ! node = 2" by blast
    with node show False by simp
  qed
  then have "marks_ok tasks (st'[node := 2])"
    using assms(1,2) succ node by (intro marks_update) (auto simp: advances_def)
  then show ?thesis
    using assms(1,2,4) len by (auto simp: advances_def nth_list_update)
qed

lemma visit_spec:
  assumes "marks_ok tasks st" and "node < length tasks"
    and "\<And>g. g < length tasks \<Longrightarrow> st ! g = 1 \<Longrightarrow> (g, node) \<in> (dep_edges tasks)\<^sup>+"
  shows "\<exists>b st'. visit tasks node st = Some (b, st') \<and>
    (b \<longrightarrow> \<not> acyclic (dep_edges tasks)) \<and> (\<not> b \<longrightarrow> advances tasks st st' \<and> st' ! node = 2)"
  using assms
proof (induction "white_count st" arbitrary: st node rule: less_induct)
  case less
  have len: "length st = length tasks" using less.prems(1) by (simp add: marks_ok_def)
  consider "st ! node = 1" | "st ! node = 2" | "st ! node = 0" using marks_cases [OF less.prems(1,2)] by auto
  then show ?case
  proof cases
    case 1
    with less.prems(3) [OF less.prems(2)] show ?thesis
      by (subst visit.simps) (auto simp: acyclic_def)
  next
    case 2
    with less.prems(1) show ?thesis by (subst visit.simps) (auto simp: advances_refl)
  next
    case 3
    let ?st = "st[node := 1]"
    let ?f = "\<lambda>dep state. if dep < length tasks then visit tasks dep state else Some (False, state)"
    have ok: "marks_ok tasks ?st"
      using less.prems(1,2) 3 by (intro marks_update) auto
    have step: "\<exists>b st'. ?f x st1 = Some (b, st') \<and> (b \<longrightarrow> \<not> acyclic (dep_edges tasks)) \<and>
        (\<not> b \<longrightarrow> advances tasks st1 st' \<and> (x < length tasks \<longrightarrow> st' ! x = 2))"
      if x: "x \<in> set (tr_dependencies (tasks ! node))" and adv: "advances tasks ?st st1" for x st1
    proof (cases "x < length tasks")
      case True
      have edge: "(node, x) \<in> dep_edges tasks" using x True less.prems(2) by (simp add: dep_edges_def)
      have "white_count st1 \<le> white_count ?st" using adv ok by (rule advances_white)
      also have "\<dots> < white_count st" using less.prems(2) 3 len by (intro white_count_mark) simp_all
      finally have "white_count st1 < white_count st" .
      moreover have "(g, x) \<in> (dep_edges tasks)\<^sup>+" if "g < length tasks" "st1 ! g = 1" for g
      proof -
        have "?st ! g = 1" using adv that len by (simp add: advances_def)
        then have "g = node \<or> st ! g = 1" by (cases "g = node") simp_all
        with edge less.prems(3) that(1) show ?thesis by (auto intro: trancl_into_trancl)
      qed
      moreover have "marks_ok tasks st1" using adv by (simp add: advances_def)
      ultimately show ?thesis using less.hyps True by auto
    next
      case False
      with adv show ?thesis by (auto simp: advances_def)
    qed
    obtain b st' where any: "any_state ?f (tr_dependencies (tasks ! node)) ?st = Some (b, st')"
      and b: "b \<longrightarrow> \<not> acyclic (dep_edges tasks)" "\<not> b \<longrightarrow> advances tasks ?st st' \<and>
        (\<forall>x \<in> set (tr_dependencies (tasks ! node)). x < length tasks \<longrightarrow> st' ! x = 2)"
      using any_state_advances [of "tr_dependencies (tasks ! node)" tasks ?st ?f, OF step advances_refl [OF ok]]
      by blast
    have "visit tasks node st = Some (b, if b then st' else st'[node := 2])"
      using 3 any by (subst visit.simps) simp
    moreover have "advances tasks st (st'[node := 2]) \<and> st'[node := 2] ! node = 2" if "\<not> b"
      using that b less.prems(1,2) 3 by (intro mark_done) auto
    ultimately show ?thesis using b by auto
  qed
qed

lemma has_dependency_cycle_decides:
  "has_dependency_cycle (length tasks) tasks = Some (\<not> acyclic (dep_edges tasks))"
proof -
  let ?st = "replicate (length tasks) 0"
  have ok: "marks_ok tasks ?st" by (auto simp: marks_ok_def)
  have "\<exists>b st'. any_state (visit tasks) [0..<length tasks] ?st = Some (b, st') \<and>
      (b \<longrightarrow> \<not> acyclic (dep_edges tasks)) \<and>
      (\<not> b \<longrightarrow> advances tasks ?st st' \<and> (\<forall>x \<in> set [0..<length tasks]. x < length tasks \<longrightarrow> st' ! x = 2))"
  proof (rule any_state_advances [OF _ advances_refl [OF ok]])
    fix x st assume "x \<in> set [0..<length tasks]" and adv: "advances tasks ?st st"
    then have "st ! g \<noteq> 1" if "g < length tasks" for g using that by (auto simp: advances_def)
    then have "\<exists>b st'. visit tasks x st = Some (b, st') \<and> (b \<longrightarrow> \<not> acyclic (dep_edges tasks)) \<and>
        (\<not> b \<longrightarrow> advances tasks st st' \<and> st' ! x = 2)"
      using adv \<open>x \<in> set [0..<length tasks]\<close> by (intro visit_spec) (auto simp: advances_def)
    then show "\<exists>b st'. visit tasks x st = Some (b, st') \<and> (b \<longrightarrow> \<not> acyclic (dep_edges tasks)) \<and>
        (\<not> b \<longrightarrow> advances tasks st st' \<and> (x < length tasks \<longrightarrow> st' ! x = 2))" by blast
  qed
  then obtain b st' where any: "any_state (visit tasks) [0..<length tasks] ?st = Some (b, st')"
    and b: "b \<longrightarrow> \<not> acyclic (dep_edges tasks)" "\<not> b \<longrightarrow> advances tasks ?st st' \<and> (\<forall>x < length tasks. st' ! x = 2)"
    by auto
  have "acyclic (dep_edges tasks)" if "\<not> b"
  proof (unfold acyclic_def, intro allI notI)
    fix x assume cyc: "(x, x) \<in> (dep_edges tasks)\<^sup>+"
    then obtain y where "(x, y) \<in> dep_edges tasks" by (meson tranclD)
    then have "x < length tasks" by (simp add: dep_edges_lt)
    with that b(2) have "marks_ok tasks st'" "st' ! x = 2" "x < length st'" by (auto simp: advances_def)
    with cyc show False by (auto simp: marks_ok_def)
  qed
  with any b show ?thesis by (auto simp: has_dependency_cycle_def)
qed

section \<open>What validation accepts\<close>

lemma first_some_None [simp]: "first_some f xs = None \<longleftrightarrow> (\<forall>x \<in> set xs. f x = None)"
  by (induction xs) (auto split: option.splits)

lemma enumerate_all: "(\<forall>p \<in> set (enumerate 0 xs). P p) \<longleftrightarrow> (\<forall>i < length xs. P (i, xs ! i))"
  by (auto simp: in_set_enumerate_eq)

lemma agent_error_None:
  "agent_error (i, a) = None \<longleftrightarrow> length (agent_key a) \<le> MAX_STRING_LEN \<and> length (agent_role a) \<le> MAX_STRING_LEN"
  by (auto simp: agent_error_def)

lemma task_error_None:
  "task_error n (i, tr) = None \<longleftrightarrow>
     length (tr_description tr) \<le> MAX_STRING_LEN \<and> (\<forall>d \<in> set (tr_dependencies tr). d < n \<and> d \<noteq> i)"
  by (auto simp: task_error_def dependency_error_def not_le)

lemma acyclic_no_self: "acyclic (dep_edges tasks) \<Longrightarrow> i < length tasks \<Longrightarrow> i \<notin> set (tr_dependencies (tasks ! i))"
  by (auto simp: acyclic_def dep_edges_def dest: spec [where x = i])

lemma validate_accepts:
  "validate_crew_request req \<noteq> None"
  "validate_crew_request req = Some (Inr ()) \<longleftrightarrow>
     rq_name req \<noteq> [] \<and> length (rq_name req) \<le> 10000 \<and>
     rq_agents req \<noteq> [] \<and> length (rq_agents req) \<le> 100 \<and> rq_tasks req \<noteq> [] \<and> length (rq_tasks req) \<le> 1000 \<and>
     (\<forall>a \<in> set (rq_agents req). length (agent_key a) \<le> 10000 \<and> length (agent_role a) \<le> 10000) \<and>
     (\<forall>t \<in> set (rq_tasks req). length (tr_description t) \<le> 10000 \<and>
        (\<forall>d \<in> set (tr_dependencies t). d < length (rq_tasks req))) \<and>
     acyclic (dep_edges (rq_tasks req))"
proof -
  let ?n = "length (rq_tasks req)"
  have agents: "(\<forall>p \<in> set (enumerate 0 (rq_agents req)). agent_error p = None) \<longleftrightarrow>
      (\<forall>a \<in> set (rq_agents req). length (agent_key a) \<le> 10000 \<and> length (agent_role a) \<le> 10000)"
    unfolding enumerate_all by (simp add: agent_error_None MAX_STRING_LEN_def all_set_conv_all_nth)
  have tasks: "(\<forall>p \<in> set (enumerate 0 (rq_tasks req)). task_error ?n p = None) \<longleftrightarrow>
      (\<forall>i < ?n. length (tr_description (rq_tasks req ! i)) \<le> 10000 \<and>
        (\<forall>d \<in> set (tr_dependencies (rq_tasks req ! i)). d < ?n \<and> d \<noteq> i))"
    unfolding enumerate_all by (simp add: task_error_None MAX_STRING_LEN_def)
  show "validate_crew_request req \<noteq> None"
    by (simp add: validate_crew_request_def has_dependency_cycle_decides Let_def split: option.split)
  have "validate_crew_request req = Some (Inr ()) \<longleftrightarrow>
     rq_name req \<noteq> [] \<and> length (rq_name req) \<le> 10000 \<and>
     rq_agents req \<noteq> [] \<and> length (rq_agents req) \<le> 100 \<and> rq_tasks req \<noteq> [] \<and> ?n \<le> 1000 \<and>
     (\<forall>p \<in> set (enumerate 0 (rq_agents req)). agent_error p = None) \<and>
     (\<forall>p \<in> set (enumerate 0 (rq_tasks req)). task_error ?n p = None) \<and> acyclic (dep_edges (rq_tasks req))"
    unfolding first_some_None [symmetric]
    by (auto simp: validate_crew_request_def has_dependency_cycle_decides Let_def MAX_STRING_LEN_def MAX_AGENTS_def
        MAX_TASKS_def not_less simp del: first_some_None split: option.splits if_splits)
  then show "validate_crew_request req = Some (Inr ()) \<longleftrightarrow>
     rq_name req \<noteq> [] \<and> length (rq_name req) \<le> 10000 \<and>
     rq_agents req \<noteq> [] \<and> length (rq_agents req) \<le> 100 \<and> rq_tasks req \<noteq> [] \<and> ?n \<le> 1000 \<and>
     (\<forall>a \<in> set (rq_agents req). length (agent_key a) \<le> 10000 \<and> length (agent_role a) \<le> 10000) \<and>
     (\<forall>t \<in> set (rq_tasks req). length (tr_description t) \<le> 10000 \<and>
        (\<forall>d \<in> set (tr_dependencies t). d < ?n)) \<and> acyclic (dep_edges (rq_tasks req))"
    unfolding agents tasks using acyclic_no_self [of "rq_tasks req"] by (auto simp: in_set_conv_nth all_set_conv_all_nth)
qed

section \<open>The tasks of a request\<close>

lemma request_tasks_nth:
  assumes "i < length trs"
  shows "request_tasks fresh trs ! i = (request_task fresh i (trs ! i))\<lparr>task_dependencies :=
    map (\<lambda>d. fresh (d + 2)) (filter (\<lambda>d. d < length trs) (tr_dependencies (trs ! i)))\<rparr>"
proof -
  have id: "task_id (request_task fresh j tr) = fresh (j + 2)" "task_dependencies (request_task fresh j tr) = []" for j tr
    by (simp_all add: request_task_def task_new_def Let_def split: option.split)
  have "map ((!) (map task_id (map (\<lambda>(i, tr). request_task fresh i tr) (enumerate 0 trs))))
      (filter (\<lambda>d. d < length trs) ds) = map (\<lambda>d. fresh (d + 2)) (filter (\<lambda>d. d < length trs) ds)" for ds
    by (rule map_cong) (auto simp: nth_enumerate_eq id)
  then show ?thesis using assms by (simp add: request_tasks_def Let_def nth_enumerate_eq id)
qed

lemma length_request_tasks [simp]: "length (request_tasks fresh trs) = length trs"
  by (simp add: request_tasks_def Let_def)

lemma request_task_fields:
  assumes "i < length trs"
  shows "task_id (request_tasks fresh trs ! i) = fresh (i + 2)"
    and "task_description (request_tasks fresh trs ! i) = tr_description (trs ! i)"
    and "task_expected_output (request_tasks fresh trs ! i) = tr_expected_output (trs ! i)"
    and "task_context (request_tasks fresh trs ! i) = hm_empty"
    and "task_dependencies (request_tasks fresh trs ! i) =
      map (\<lambda>d. fresh (d + 2)) (filter (\<lambda>d. d < length trs) (tr_dependencies (trs ! i)))"
    and "task_output_schema (request_tasks fresh trs ! i) = None"
  using assms by (simp_all add: request_tasks_nth request_task_def task_new_def Let_def split: option.split)

lemma request_task_ids: "map task_id (request_tasks fresh trs) = map (\<lambda>i. fresh (i + 2)) [0..<length trs]"
  by (rule nth_equalityI) (simp_all add: request_task_fields)

lemma request_nodes: "task_id ` set (request_tasks fresh trs) = (\<lambda>i. fresh (i + 2)) ` {..<length trs}"
  using arg_cong [OF request_task_ids, of set] by (auto simp: lessThan_atLeast0)

lemma request_edges:
  "set (task_edges (request_tasks fresh trs)) \<subseteq> (map_prod (\<lambda>i. fresh (i + 2)) (\<lambda>i. fresh (i + 2)) ` dep_edges trs)\<inverse>"
proof -
  have "(d, v) \<in> (map_prod (\<lambda>i. fresh (i + 2)) (\<lambda>i. fresh (i + 2)) ` dep_edges trs)\<inverse>"
    if edge: "(d, v) \<in> set (task_edges (request_tasks fresh trs))" for d v
  proof -
    obtain t where "t \<in> set (request_tasks fresh trs)" "v = task_id t" "d \<in> set (task_dependencies t)"
      using edge unfolding task_edges_iff by blast
    then obtain i where i: "i < length trs" "v = fresh (i + 2)" "d \<in> set (task_dependencies (request_tasks fresh trs ! i))"
      by (metis in_set_conv_nth length_request_tasks request_task_fields(1))
    then obtain k where "k < length trs" "k \<in> set (tr_dependencies (trs ! i))" "d = fresh (k + 2)"
      by (auto simp: request_task_fields)
    with i have "(i, k) \<in> dep_edges trs" by (simp add: dep_edges_def)
    then have "map_prod (\<lambda>i. fresh (i + 2)) (\<lambda>i. fresh (i + 2)) (i, k) \<in>
        map_prod (\<lambda>i. fresh (i + 2)) (\<lambda>i. fresh (i + 2)) ` dep_edges trs" by (rule imageI)
    with i(2) \<open>d = fresh (k + 2)\<close> show ?thesis by simp
  qed
  then show ?thesis by auto
qed

lemma trancl_map_prod:
  assumes "inj_on f A" and "r \<subseteq> A \<times> A" and "(x, y) \<in> (map_prod f f ` r)\<^sup>+"
  shows "\<exists>a b. x = f a \<and> y = f b \<and> (a, b) \<in> r\<^sup>+"
  using assms(3)
proof (induction rule: trancl_induct)
  case (base y)
  then show ?case by auto
next
  case (step y z)
  then obtain a b c d where s: "x = f a" "y = f b" "(a, b) \<in> r\<^sup>+" "y = f c" "z = f d" "(c, d) \<in> r" by auto
  have "b \<in> A" "c \<in> A" using s(3,6) assms(2) trancl_subset_Sigma [of r A] by auto
  with s assms(1) have "b = c" by (auto simp: inj_on_eq_iff)
  with s show ?case by (auto intro: trancl_into_trancl)
qed

lemma acyclic_map_prod:
  assumes "acyclic r" and "inj_on f A" and "r \<subseteq> A \<times> A"
  shows "acyclic (map_prod f f ` r)"
proof (unfold acyclic_def, intro allI notI)
  fix x assume "(x, x) \<in> (map_prod f f ` r)\<^sup>+"
  then obtain a b where "f a = f b" "(a, b) \<in> r\<^sup>+" using trancl_map_prod [OF assms(2,3)] by metis
  moreover have "a \<in> A" "b \<in> A" using calculation(2) trancl_subset_Sigma [OF assms(3)] by auto
  ultimately show False using assms(1,2) by (auto simp: inj_on_eq_iff acyclic_def)
qed

text \<open>The tasks of an accepted request can be sorted.\<close>

lemma request_tasks_sorted:
  assumes "acyclic (dep_edges trs)" and "inj_on fresh {..<length trs + 2}"
  shows "\<exists>order. topological_sort_tasks (request_tasks fresh trs) = Some (Inr order)"
proof -
  have inj: "inj_on (\<lambda>i. fresh (i + 2)) {..<length trs}" using assms(2) by (auto simp: inj_on_def)
  have "distinct (map task_id (request_tasks fresh trs))"
    unfolding request_task_ids using inj by (simp add: distinct_map lessThan_atLeast0)
  moreover have "acyclic (set (task_edges (request_tasks fresh trs)))"
    using acyclic_map_prod [OF assms(1) inj] request_edges by (metis acyclic_converse acyclic_subset dep_edges_range)
  ultimately show ?thesis by (simp add: topological_sort_tasks_complete)
qed

lemma request_deps_inside:
  "t \<in> set (request_tasks fresh trs) \<Longrightarrow> set (task_dependencies t) \<subseteq> task_id ` set (request_tasks fresh trs)"
  unfolding request_nodes by (auto simp: in_set_conv_nth request_task_fields)

section \<open>From the request to the response\<close>

text \<open>No text of an accepted request is too long for the model, except the expected output of
  a task, which the validation does not look at.\<close>

lemma request_task_short:
  assumes "validate_crew_request req = Some (Inr ())"
    and "\<forall>t \<in> set (rq_tasks req). case tr_expected_output t of None \<Rightarrow> True | Some s \<Rightarrow> length s \<le> 50000"
    and "i < length (rq_tasks req)"
  shows "task_short ops (request_tasks fresh (rq_tasks req) ! i)"
proof -
  have "rq_tasks req ! i \<in> set (rq_tasks req)" using assms(3) by (rule nth_mem)
  then have "length (tr_description (rq_tasks req ! i)) \<le> 10000"
    "case tr_expected_output (rq_tasks req ! i) of None \<Rightarrow> True | Some s \<Rightarrow> length s \<le> 50000"
    using assms(1,2) by (auto simp: validate_accepts(2))
  with assms(3) show ?thesis by (simp add: task_short_def request_task_fields hm_empty_def)
qed

lemma request_calm:
  assumes "validate_crew_request req = Some (Inr ())"
    and "\<forall>t \<in> set (rq_tasks req). case tr_expected_output t of None \<Rightarrow> True | Some s \<Rightarrow> length s \<le> 50000"
    and "\<forall>i r n. te_random (re_task env i) r n \<le> n" and "\<forall>i. answers_short (re_task env i)"
  shows "calm ops env (request_tasks fresh (rq_tasks req))"
  using request_task_short [OF assms(1,2)] assms(3,4) by (auto simp: calm_def in_set_conv_nth)

lemma request_mode_ok: "64 \<le> re_max_permits env \<Longrightarrow> mode_ok env (request_process fresh req)"
  by (auto simp: mode_ok_def request_process_def split: option.split)

lemma request_process_dag: "request_process fresh req = Dag \<longleftrightarrow> rq_process req = Some ''dag''"
  by (auto simp: request_process_def)

lemma request_spec_simps [simp]:
  "crew_id (request_spec fresh req) = fresh 1" "crew_process (request_spec fresh req) = request_process fresh req"
  "crew_tasks (request_spec fresh req) = request_tasks fresh (rq_tasks req)"
  by (simp_all add: request_spec_def crew_spec_new_def)

text \<open>A submission with a free permit runs the crew's runner or times out, and stores the state.\<close>

lemma run_crew_returns:
  assumes "0 < or_permits orc"
    and runs: "\<And>runner. cr_spec runner = spec \<Longrightarrow>
      \<exists>out runner'. crew_run ops strength env runner = Some (out, runner') \<and> P out"
    and "P (Inr (empty_state (crew_id spec) CrFailed)) \<or> (\<forall>secs. timed_out secs = None)"
  shows "\<exists>out orc'. run_crew ops new_client chans strength timed_out env sh spec orc = Some (out, orc') \<and> P out \<and>
    (\<forall>st. out = Inr st \<longrightarrow> hm_get (or_active orc') (crew_id spec) = Some st)"
proof -
  obtain orc1 where a: "admit_crew (ro_uuid_str ops) spec orc = Some orc1"
    using assms(1) by (auto simp: admit_crew_def)
  obtain runner token orc2 where r: "register_crew new_client chans sh spec orc1 = (runner, token, orc2)"
    by (rule prod_cases3)
  from register_fields [OF r] runs obtain out runner' where
    run: "crew_run ops strength env runner = Some (out, runner')" "P out" by blast
  show ?thesis
  proof (cases "timed_out (run_timeout_secs (or_budget orc2))")
    case None
    with run show ?thesis by (cases out) (simp_all add: run_crew_def a r store_crew_def)
  next
    case (Some es)
    with assms(3) show ?thesis by (auto simp: run_crew_def a r store_crew_def Let_def)
  qed
qed

section \<open>Properties\<close>

text \<open>C5. The validation of a crew request always returns, and accepts a request exactly when
  every limit is kept, every dependency names a task of the request, and the dependencies
  have no cycle.\<close>

theorem validate_crew_request_exact:
  "\<exists>out. validate_crew_request req = Some out \<and>
     (out = Inr () \<longleftrightarrow>
        rq_name req \<noteq> [] \<and> length (rq_name req) \<le> 10000 \<and>
        rq_agents req \<noteq> [] \<and> length (rq_agents req) \<le> 100 \<and> rq_tasks req \<noteq> [] \<and> length (rq_tasks req) \<le> 1000 \<and>
        set (rq_agents req) \<subseteq> {a. length (agent_key a) \<le> 10000 \<and> length (agent_role a) \<le> 10000} \<and>
        set (rq_tasks req) \<subseteq> {t. length (tr_description t) \<le> 10000 \<and>
          set (tr_dependencies t) \<subseteq> {..<length (rq_tasks req)}} \<and>
        acyclic {(i, d). i < length (rq_tasks req) \<and> d \<in> set (tr_dependencies (rq_tasks req ! i))})"
proof -
  obtain out where out: "validate_crew_request req = Some out" using validate_accepts(1) [of req] by auto
  have "dep_edges (rq_tasks req) = {(i, d). i < length (rq_tasks req) \<and> d \<in> set (tr_dependencies (rq_tasks req ! i))}"
    if "\<forall>t \<in> set (rq_tasks req). length (tr_description t) \<le> 10000 \<and> (\<forall>d \<in> set (tr_dependencies t). d < length (rq_tasks req))"
    using that nth_mem by (fastforce simp: dep_edges_def)
  with out validate_accepts(2) [of req] show ?thesis by (auto simp: subset_iff)
qed

text \<open>A request that passed validation is always answered. When the orchestrator has a free
  permit, the expected outputs are within the prompt guard's limit and so are the answers of
  the model, every process mode, interleaving and pattern of failures ends in a response for
  the new crew or, in DAG mode only, in an internal error.\<close>

theorem accepted_request_answered:
  assumes "validate_crew_request req = Some (Inr ())"
    and "\<forall>t \<in> set (rq_tasks req). case tr_expected_output t of None \<Rightarrow> True | Some s \<Rightarrow> length s \<le> 50000"
    and "\<forall>i r n. te_random (re_task env i) r n \<le> n" and "\<forall>i. answers_short (re_task env i)"
    and "64 \<le> re_max_permits env" and "0 < or_permits orc"
  shows "\<exists>out orc'. create_crew task_value crew_value fresh
      (run_crew ops new_client chans strength timed_out env sh) req orc = Some (out, orc') \<and>
    (case out of
       Inr resp \<Rightarrow> rp_crew_id resp = fresh 1
     | Inl (code, _) \<Rightarrow> code = INTERNAL_SERVER_ERROR \<and> rq_process req = Some ''dag'')"
proof -
  let ?P = "\<lambda>out. case out of Inl e \<Rightarrow> rq_process req = Some ''dag'' | Inr st \<Rightarrow> state_crew_id st = fresh 1"
  have "\<exists>out runner'. crew_run ops strength env runner = Some (out, runner') \<and> ?P out"
    if "cr_spec runner = request_spec fresh req" for runner
    using crew_run_total [of ops env runner strength] that request_calm [OF assms(1-4), of ops fresh]
      request_mode_ok [OF assms(5)] by (fastforce simp: request_process_dag split: sum.splits)
  from run_crew_returns [OF assms(6) this] obtain out orc' where
    "run_crew ops new_client chans strength timed_out env sh (request_spec fresh req) orc = Some (out, orc')" "?P out"
    by (force simp: empty_state_def)
  with assms(1) show ?thesis by (cases out) (auto simp: create_crew_def run_response_def)
qed

text \<open>C2. The whole path of a DAG request. Given that the request passes the validation, that
  no expected output is longer than 50000 bytes (the validation does not check this, and a
  longer one can make the server panic instead of answering), that the identifiers the server draws
  are distinct, that a permit of the orchestrator is free, that the first call of the model
  succeeds for every task, that the crew is not cancelled and that it does not time out: the
  response reports the crew as completed with exactly one result for every task, each after
  the results of the tasks it depends on, and the crew can be looked up afterwards.\<close>

theorem accepted_dag_completes:
  assumes "validate_crew_request req = Some (Inr ())" and "rq_process req = Some ''dag''" and "inj_on fresh {..<length (rq_tasks req) + 2}"
    and "\<forall>t \<in> set (rq_tasks req). case tr_expected_output t of None \<Rightarrow> True | Some s \<Rightarrow> length s \<le> 50000"
    and "\<forall>k < length (rq_tasks req). \<forall>q. \<exists>resp. te_infer (re_task env k) 0 0 q = Inr resp"
    and "\<forall>k. \<not> re_cancel_loop env k" and "\<not> re_cancel_end env"
    and "0 < or_permits orc" and "\<forall>secs. timed_out secs = None"
  shows "\<exists>resp st orc'. create_crew task_value crew_value fresh
      (run_crew ops new_client chans strength timed_out env sh) req orc = Some (Inr resp, orc') \<and>
    rp_crew_status resp = status_text (crew_value CrCompleted) \<and>
    mset (map rp_task_id (rp_results resp)) = mset (map (\<lambda>i. fresh (i + 2)) [0..<length (rq_tasks req)]) \<and>
    (\<forall>xs r ys i d. rp_results resp = xs @ r # ys \<longrightarrow> rp_task_id r = fresh (i + 2) \<longrightarrow> i < length (rq_tasks req) \<longrightarrow>
       d \<in> set (tr_dependencies (rq_tasks req ! i)) \<longrightarrow> fresh (d + 2) \<in> rp_task_id ` set xs) \<and>
    get_crew state_value (fresh 1) orc' = Inr (case state_value st of None \<Rightarrow> JNull | Some v \<Rightarrow> v) \<and>
    run_response task_value crew_value st = resp"
proof -
  let ?ts = "request_tasks fresh (rq_tasks req)"
  have ok: "acyclic (dep_edges (rq_tasks req))"
    "\<And>t d. t \<in> set (rq_tasks req) \<Longrightarrow> d \<in> set (tr_dependencies t) \<Longrightarrow> d < length (rq_tasks req)"
    using assms(1) by (auto simp: validate_accepts(2))
  let ?P = "\<lambda>out. \<exists>st. out = Inr st \<and> state_status st = CrCompleted \<and>
    mset (map result_task_id (state_results st)) = mset (map task_id ?ts) \<and> deps_respected ?ts (state_results st)"
  have "\<exists>out runner'. crew_run ops strength env runner = Some (out, runner') \<and> ?P out"
    if spec: "cr_spec runner = request_spec fresh req" for runner
  proof -
    obtain order where "topological_sort_tasks ?ts = Some (Inr order)"
      using request_tasks_sorted [OF ok(1) assms(3)] by blast
    moreover have "\<forall>k < length ?ts. lucky ops (cr_llm runner) env k (?ts ! k)"
      using request_task_short [OF assms(1,4)] assms(5) by (auto intro!: lucky_calls simp: request_task_fields)
    ultimately obtain rs cr' where dag: "run_dag ops env (begun ops runner) = Some (Inr rs, cr')"
      "mset (map result_task_id rs) = mset (map task_id ?ts)" "\<forall>r \<in> set rs. result_status r = Completed"
      "deps_respected ?ts rs"
      using run_dag_lucky [of "begun ops runner" order ops env] request_deps_inside assms(6) spec by auto
    have "run_mode ops env (begun ops runner) = Some (Inr rs, cr')"
      using dag(1) spec assms(2) by (simp add: run_mode_def request_process_def)
    moreover have "crew_outcome False rs = CrCompleted" using dag(3) by (simp add: crew_outcome_def list_all_iff)
    ultimately show ?thesis using assms(7) dag(2,4) by (auto simp: crew_run_def Let_def)
  qed
  then have "\<exists>out orc'. run_crew ops new_client chans strength timed_out env sh (request_spec fresh req) orc = Some (out, orc') \<and>
      ?P out \<and> (\<forall>st. out = Inr st \<longrightarrow> hm_get (or_active orc') (crew_id (request_spec fresh req)) = Some st)"
    by (rule run_crew_returns [OF assms(8)]) (simp_all add: assms(9))
  then obtain st orc' where
    run: "run_crew ops new_client chans strength timed_out env sh (request_spec fresh req) orc = Some (Inr st, orc')"
    and st: "state_status st = CrCompleted" "mset (map result_task_id (state_results st)) = mset (map task_id ?ts)"
      "deps_respected ?ts (state_results st)" "hm_get (or_active orc') (fresh 1) = Some st" by auto
  let ?resp = "run_response task_value crew_value st"
  have "fresh (d + 2) \<in> rp_task_id ` set xs" if h: "rp_results ?resp = xs @ r # ys" "rp_task_id r = fresh (i + 2)"
    "i < length (rq_tasks req)" "d \<in> set (tr_dependencies (rq_tasks req ! i))" for xs r ys i d
  proof -
    obtain xs' r' ys' where rs: "state_results st = xs' @ r' # ys'" "result_task_id r' = fresh (i + 2)"
      "result_task_id ` set xs' = rp_task_id ` set xs"
      using h(1,2) by (auto simp: run_response_def map_eq_append_conv map_eq_Cons_conv image_image)
    have "fresh (d + 2) \<in> set (task_dependencies (?ts ! i))"
      using h(3,4) ok(2) [OF nth_mem] by (auto simp: request_task_fields)
    with st(3) rs h(3) have "fresh (d + 2) \<in> completed_ids xs'"
      unfolding deps_respected_def by (metis length_request_tasks nth_mem request_task_fields(1))
    with rs(3) show ?thesis by (auto simp: completed_ids_def)
  qed
  moreover have "mset (map rp_task_id (rp_results ?resp)) = mset (map (\<lambda>i. fresh (i + 2)) [0..<length (rq_tasks req)])"
    using st(2) unfolding request_task_ids by (simp add: run_response_def comp_def)
  ultimately show ?thesis
    using run st assms(1) by (intro exI [of _ ?resp] exI [of _ st])
      (auto simp: create_crew_def get_crew_def store_crew_def run_response_def)
qed

text \<open>A delegated task is answered under its own id; a callback is posted only for a task that
  ran, only to the URL of the request and only when that URL passes the SSRF check; a request
  that is refused as too large leaves the orchestrator alone.\<close>

theorem a2a_callback_guarded:
  assumes "a2a_receive parse_url to_vec uuid_str err_str fresh run req orc = Some (code, resp, callback, orc')"
  shows "ab_task_id resp = aa_task_id req \<and> (code = BAD_REQUEST \<longrightarrow> orc' = orc \<and> callback = None) \<and>
    (case callback of
       None \<Rightarrow> True
     | Some (u, body) \<Rightarrow> aa_callback_url req = Some u \<and> is_safe_url parse_url u \<and> body = resp \<and> code = OK \<and>
         (\<exists>st. run (a2a_spec fresh req) orc = Some (Inr st, orc')))"
  using assms
  by (auto simp: a2a_receive_def Let_def a2a_failed_def a2a_completed_def split: if_splits option.splits sum.splits)

text \<open>Every crew that returns a state is reported as completed to the caller, also one that
  failed.\<close>

theorem a2a_failure_reported_completed:
  "a2a_receive (\<lambda>_. None) (\<lambda>_. None) (\<lambda>_. []) (\<lambda>_. []) of_nat
     (\<lambda>(spec :: unit crew_spec) orc. Some (Inr (empty_state (crew_id spec) CrFailed), orc))
     \<lparr> aa_task_id = ''t'', aa_description = ''d'', aa_domain = None, aa_size = None, aa_preset = None,
       aa_callback_url = None, aa_metadata = JNull \<rparr> () =
   Some (OK, \<lparr> ab_task_id = ''t'', ab_status = ''completed'',
     ab_result = Some (JObject [(''tasks'', JArray [])]), ab_error = None \<rparr>, None, ())"
  by (simp add: a2a_receive_def a2a_completed_def empty_state_def A2A_MAX_STRING_LEN_def Let_def)

section \<open>A sample request\<close>

definition sample_request :: "unit crew_run_request" where
  "sample_request =
     \<lparr> rq_name = ''demo'', rq_agents = [agent_definition_new ''k'' ''r'' ''g''],
       rq_tasks = [\<lparr> tr_description = ''a'', tr_expected_output = None, tr_priority = None, tr_dependencies = [1] \<rparr>,
                   \<lparr> tr_description = ''b'', tr_expected_output = Some ''x'', tr_priority = Some High, tr_dependencies = [] \<rparr>],
       rq_process = Some ''dag'', rq_max_concurrency = None \<rparr>"

lemma sample_request_valid: "validate_crew_request sample_request = Some (Inr ())"
proof -
  have "dep_edges (rq_tasks sample_request) = {(0, 1)}"
    by (auto simp: dep_edges_def sample_request_def less_Suc_eq)
  then have "acyclic (dep_edges (rq_tasks sample_request))" by (simp add: acyclic_insert wf_acyclic)
  then show ?thesis
    by (simp add: validate_accepts(2) sample_request_def agent_definition_new_def)
qed

lemma sample_request_tasks:
  "rq_tasks sample_request ! 0 \<in> set (rq_tasks sample_request)" "length (rq_tasks sample_request) = 2"
  "\<forall>t \<in> set (rq_tasks sample_request). case tr_expected_output t of None \<Rightarrow> True | Some s \<Rightarrow> length s \<le> 50000"
  by (simp_all add: sample_request_def)

lemma calm_env_facts:
  "\<forall>i r n. te_random (re_task calm_env i) r n \<le> n" "\<forall>i. answers_short (re_task calm_env i)"
  "64 \<le> re_max_permits calm_env"
  "0 < or_permits sample_orch"
  using sample_dag_calm unfolding calm_def
  by (blast, blast, simp_all add: calm_env_def sample_run_env_def sample_runner_ops_def sample_orch_def)

theorem accepted_request_answered_witness:
  "\<exists>out orc'. create_crew (\<lambda>_. None) (\<lambda>_. None) of_nat
     (run_crew sample_runner_ops (\<lambda>_. ()) sample_chans None (\<lambda>_. None) calm_env sample_shared) sample_request sample_orch =
       Some (out, orc')"
  using accepted_request_answered [OF sample_request_valid sample_request_tasks(3) calm_env_facts] by blast

theorem accepted_dag_completes_witness:
  "\<exists>resp orc'. create_crew (\<lambda>_. None) (\<lambda>_. None) of_nat
     (run_crew sample_runner_ops (\<lambda>_. ()) sample_chans None (\<lambda>_. None) calm_env sample_shared) sample_request sample_orch =
       Some (Inr resp, orc') \<and> mset (map rp_task_id (rp_results resp)) = mset [2, 3]"
proof -
  have "\<forall>k < length (rq_tasks sample_request). \<forall>q. \<exists>resp. te_infer (re_task calm_env k) 0 0 q = Inr resp"
    by (simp add: calm_env_def sample_run_env_def sample_env_def)
  moreover have "inj_on (of_nat :: nat \<Rightarrow> uuid) {..<length (rq_tasks sample_request) + 2}"
    by (auto simp: inj_on_def sample_request_tasks(2) word_of_nat_eq_iff take_bit_nat_eq_self)
  moreover have "rq_process sample_request = Some ''dag''" "\<forall>k. \<not> re_cancel_loop calm_env k" "\<not> re_cancel_end calm_env"
    by (simp_all add: sample_request_def calm_env_def)
  ultimately have "\<exists>resp st orc'. create_crew (\<lambda>_. None) (\<lambda>_. None) of_nat
      (run_crew sample_runner_ops (\<lambda>_. ()) sample_chans None (\<lambda>_. None) calm_env sample_shared) sample_request sample_orch =
        Some (Inr resp, orc') \<and>
      rp_crew_status resp = status_text None \<and>
      mset (map rp_task_id (rp_results resp)) = mset (map (\<lambda>i. of_nat (i + 2)) [0..<length (rq_tasks sample_request)])"
    using accepted_dag_completes [OF sample_request_valid _ _ sample_request_tasks(3), of of_nat calm_env sample_orch
        "\<lambda>_. None" "\<lambda>_. None" "\<lambda>_. None" sample_runner_ops "\<lambda>_. ()" sample_chans None sample_shared "\<lambda>_. None"]
      calm_env_facts(4) by blast
  then show ?thesis by (auto simp: sample_request_tasks(2) upt_rec)
qed

theorem a2a_callback_guarded_witness:
  "\<exists>resp. a2a_receive (\<lambda>_. Some \<lparr> url_scheme = ''https'', url_host = Some (HostDomain ''h''), url_host_str = Some ''h'' \<rparr>)
       (\<lambda>_. None) (\<lambda>_. []) (\<lambda>_. []) of_nat (\<lambda>(spec :: unit crew_spec) orc. Some (Inr (empty_state (crew_id spec) CrCompleted), orc))
       \<lparr> aa_task_id = ''t'', aa_description = ''d'', aa_domain = None, aa_size = None, aa_preset = None,
         aa_callback_url = Some ''https://h/'', aa_metadata = JNull \<rparr> () =
     Some (OK, resp, Some (''https://h/'', resp), ()) \<and> ab_task_id resp = ''t''"
proof -
  let ?req = "\<lparr> aa_task_id = ''t'', aa_description = ''d'', aa_domain = None, aa_size = None, aa_preset = None,
    aa_callback_url = Some ''https://h/'', aa_metadata = JNull \<rparr>"
  have "is_safe_url (\<lambda>_. Some \<lparr> url_scheme = ''https'', url_host = Some (HostDomain ''h''), url_host_str = Some ''h'' \<rparr>)
    ''https://h/''" by code_simp
  then obtain resp where r: "a2a_receive (\<lambda>_. Some \<lparr> url_scheme = ''https'', url_host = Some (HostDomain ''h''), url_host_str = Some ''h'' \<rparr>)
      (\<lambda>_. None) (\<lambda>_. []) (\<lambda>_. []) of_nat (\<lambda>(spec :: unit crew_spec) orc. Some (Inr (empty_state (crew_id spec) CrCompleted), orc)) ?req () =
    Some (OK, resp, Some (''https://h/'', resp), ())"
    by (simp add: a2a_receive_def A2A_MAX_STRING_LEN_def Let_def)
  from a2a_callback_guarded [OF r] r show ?thesis by auto
qed

end
