(* ===== verification/Tools.thy ===== *)
theory Tools
  imports Output_Validation Server_Security
begin

text \<open>
  Tools: the data of \<open>tools/native.rs\<close>, the trait \<open>NativeTool\<close> as an interface, the registry
  of \<open>tools/registry.rs\<close>, and its HTTP clients \<open>server/routes/tools.rs\<close> and
  \<open>server/routes/mcp.rs\<close> (JSON-RPC). A tool is the record of its four methods; what a tool
  learns from the network or a sandbox is an argument of its definition. Printing JSON and the
  types of the \<open>bote\<close> crate are arguments.
\<close>

section \<open>Tools and their data\<close>

record parameter_schema =
  ps_name :: string
  ps_description :: string
  ps_param_type :: string
  ps_required :: bool

record tool_schema =
  ts_name :: string
  ts_description :: string
  ts_parameters :: "parameter_schema list"

record tool_input =
  ti_parameters :: "(string, json) hmap"

definition tool_input_new :: "(string, json) hmap \<Rightarrow> tool_input" where
  "tool_input_new params = \<lparr> ti_parameters = params \<rparr>"

fun value_as_f64 :: "json \<Rightarrow> rat option" where
  "value_as_f64 (JNumber q) = Some q"
| "value_as_f64 _ = None"

definition get_str :: "string \<Rightarrow> tool_input \<Rightarrow> string option" where
  "get_str key input = Option.bind (hm_get (ti_parameters input) key) as_str"

definition get_f64 :: "string \<Rightarrow> tool_input \<Rightarrow> rat option" where
  "get_f64 key input = Option.bind (hm_get (ti_parameters input) key) value_as_f64"

text \<open>\<open>Value::as_u64\<close> tells integers from floats, which the numbers of the model do not.\<close>

definition get_u64 :: "(json \<Rightarrow> u64 option) \<Rightarrow> string \<Rightarrow> tool_input \<Rightarrow> u64 option" where
  "get_u64 as_u64 key input = Option.bind (hm_get (ti_parameters input) key) as_u64"

record tool_output =
  to_success :: bool
  to_result :: json
  to_error :: "string option"

definition tool_ok :: "json \<Rightarrow> tool_output" where
  "tool_ok v = \<lparr> to_success = True, to_result = v, to_error = None \<rparr>"

definition tool_err :: "string \<Rightarrow> tool_output" where
  "tool_err msg = \<lparr> to_success = False, to_result = JNull, to_error = Some msg \<rparr>"

lemma tool_output_simps [simp]:
  "to_success (tool_ok v)" "to_error (tool_ok v) = None" "to_result (tool_ok v) = v"
  "\<not> to_success (tool_err msg)" "to_error (tool_err msg) = Some msg" "to_result (tool_err msg) = JNull"
  by (simp_all add: tool_ok_def tool_err_def)

record native_tool =
  nt_name :: string
  nt_description :: string
  nt_schema :: tool_schema
  nt_execute :: "tool_input \<Rightarrow> tool_output"

section \<open>The interface of a tool\<close>

text \<open>What a tool promises to the registry and its clients: the schema describes the tool under
  its own name, and an output has an error exactly when it is not a success.\<close>

locale tool =
  fixes t :: native_tool
  assumes schema_name: "ts_name (nt_schema t) = nt_name t"
    and output_ok: "to_success (nt_execute t input) \<longleftrightarrow> to_error (nt_execute t input) = None"
begin

lemma failure_reported:
  assumes "\<not> to_success (nt_execute t input)"
  obtains msg where "to_error (nt_execute t input) = Some msg"
  using assms output_ok by blast

end

text \<open>A tool that also checks its required parameters itself.\<close>

locale checked_tool = tool +
  assumes required: "p \<in> set (ts_parameters (nt_schema t)) \<Longrightarrow> ps_required p \<Longrightarrow>
    hm_get (ti_parameters input) (ps_name p) = None \<Longrightarrow> \<not> to_success (nt_execute t input)"
begin

lemma success_has_required:
  "to_success (nt_execute t input) \<Longrightarrow> p \<in> set (ts_parameters (nt_schema t)) \<Longrightarrow> ps_required p \<Longrightarrow>
     hm_get (ti_parameters input) (ps_name p) \<noteq> None"
  using required by blast

end

section \<open>The registry\<close>

type_synonym tool_registry = "(string, native_tool) hmap"

definition tool_registry_new :: tool_registry where
  "tool_registry_new = hm_empty"

definition tool_register :: "native_tool \<Rightarrow> tool_registry \<Rightarrow> tool_registry" where
  "tool_register t reg = hm_insert (nt_name t) t reg"

definition tool_get :: "string \<Rightarrow> tool_registry \<Rightarrow> native_tool option" where
  "tool_get name reg = hm_get reg name"

definition tool_list :: "tool_registry \<Rightarrow> tool_schema list" where
  "tool_list reg = map nt_schema (hm_values reg)"

definition tool_has :: "string \<Rightarrow> tool_registry \<Rightarrow> bool" where
  "tool_has name reg = hm_contains reg name"

definition tool_remove :: "string \<Rightarrow> tool_registry \<Rightarrow> bool \<times> tool_registry" where
  "tool_remove name reg = (hm_get reg name \<noteq> None, hm_remove name reg)"

definition tool_count :: "tool_registry \<Rightarrow> nat" where
  "tool_count reg = hm_len reg"

definition is_tool_allowed :: "string \<Rightarrow> string list \<Rightarrow> bool" where
  "is_tool_allowed name allowed_tools \<longleftrightarrow> allowed_tools = [] \<or> list_ex (\<lambda>t. t = name) allowed_tools"

definition get_allowed :: "string \<Rightarrow> string list \<Rightarrow> tool_registry \<Rightarrow> native_tool option" where
  "get_allowed name allowed_tools reg =
     (if \<not> is_tool_allowed name allowed_tools then None else tool_get name reg)"

definition remove_tool :: "string \<Rightarrow> tool_registry \<Rightarrow> status_code \<times> tool_registry" where
  "remove_tool name reg =
     (let (removed, reg') = tool_remove name reg in (if removed then NO_CONTENT else NOT_FOUND, reg'))"

section \<open>JSON-RPC\<close>

record json_rpc_request =
  jr_id :: "json option"
  jr_method :: string
  jr_params :: json

datatype json_rpc_response = RpcSuccess json json | RpcError json int string

text \<open>\<open>input_schema\<close> is the value of bote's \<open>ToolSchema::new("object", properties, required)\<close>.\<close>

definition tool_properties :: "parameter_schema list \<Rightarrow> (string, json) hmap" where
  "tool_properties params =
     fold (\<lambda>p. hm_insert (ps_name p)
       (JObject [(''type'', JString (ps_param_type p)), (''description'', JString (ps_description p))])) params hm_empty"

definition required_names :: "parameter_schema list \<Rightarrow> string list" where
  "required_names params = map ps_name (filter ps_required params)"

definition tool_def_json :: "(string \<Rightarrow> (string, json) hmap \<Rightarrow> string list \<Rightarrow> json) \<Rightarrow> tool_schema \<Rightarrow> json" where
  "tool_def_json input_schema s =
     JObject [(''name'', JString (ts_name s)), (''description'', JString (ts_description s)),
       (''inputSchema'',
         input_schema ''object'' (tool_properties (ts_parameters s)) (required_names (ts_parameters s)))]"

definition handle_initialize :: "string \<Rightarrow> json \<Rightarrow> json_rpc_response" where
  "handle_initialize version i =
     RpcSuccess i
       (JObject [(''protocolVersion'', JString ''2025-03-26''),
          (''serverInfo'', JObject [(''name'', JString ''agnosai''), (''version'', JString version)]),
          (''capabilities'', JObject [(''tools'', JObject [])])])"

definition handle_tools_list :: "(string \<Rightarrow> (string, json) hmap \<Rightarrow> string list \<Rightarrow> json) \<Rightarrow> json \<Rightarrow> tool_registry
    \<Rightarrow> json_rpc_response" where
  "handle_tools_list input_schema i reg =
     RpcSuccess i (JObject [(''tools'', JArray (map (tool_def_json input_schema) (tool_list reg)))])"

definition text_content :: "string \<Rightarrow> bool \<Rightarrow> json" where
  "text_content msg is_error =
     JObject [(''content'', JArray [JObject [(''type'', JString ''text''), (''text'', JString msg)]]),
       (''isError'', JBool is_error)]"

definition call_arguments :: "json \<Rightarrow> (string, json) hmap" where
  "call_arguments params =
     (case (case json_get ''arguments'' params of None \<Rightarrow> JObject [] | Some a \<Rightarrow> a) of
        JObject kvs \<Rightarrow> fold (\<lambda>(k, v). hm_insert k v) kvs hm_empty
      | _ \<Rightarrow> hm_empty)"

definition result_text :: "(json \<Rightarrow> string) \<Rightarrow> json \<Rightarrow> string" where
  "result_text to_string v = (case v of JString s \<Rightarrow> s | other \<Rightarrow> to_string other)"

definition handle_tools_call :: "(json \<Rightarrow> string) \<Rightarrow> json \<Rightarrow> json \<Rightarrow> tool_registry \<Rightarrow> json_rpc_response" where
  "handle_tools_call to_string i params reg =
     (case json_field ''name'' as_str params of
        None \<Rightarrow> RpcError i (- 32602) ''Missing tool name''
      | Some name \<Rightarrow>
          (case tool_get name reg of
             None \<Rightarrow> RpcSuccess i (text_content (''Tool not found: '' @ name) True)
           | Some t \<Rightarrow>
               (let out = nt_execute t (tool_input_new (call_arguments params))
                in if to_success out then RpcSuccess i (text_content (result_text to_string (to_result out)) False)
                   else RpcSuccess i (text_content
                     (case to_error out of None \<Rightarrow> ''Unknown error'' | Some e \<Rightarrow> e) True))))"

definition mcp_handler :: "string \<Rightarrow> (json \<Rightarrow> string) \<Rightarrow> (string \<Rightarrow> (string, json) hmap \<Rightarrow> string list \<Rightarrow> json)
    \<Rightarrow> tool_registry \<Rightarrow> json_rpc_request \<Rightarrow> json_rpc_response" where
  "mcp_handler version to_string input_schema reg req =
     (let i = (case jr_id req of None \<Rightarrow> JNull | Some v \<Rightarrow> v)
      in if jr_method req = ''initialize'' then handle_initialize version i
         else if jr_method req = ''tools/list'' then handle_tools_list input_schema i reg
         else if jr_method req = ''tools/call'' then handle_tools_call to_string i (jr_params req) reg
         else RpcError i (- 32601) ''Method not found'')"

section \<open>Registered tools answer under their name\<close>

text \<open>Every tool of a well-formed registry is stored under its own name and keeps its interface.\<close>

definition registry_ok :: "tool_registry \<Rightarrow> bool" where
  "registry_ok reg \<longleftrightarrow> hm_wf reg \<and> (\<forall>n t. hm_get reg n = Some t \<longrightarrow> nt_name t = n \<and> tool t)"

lemma registry_ok_new [simp]: "registry_ok tool_registry_new"
  by (simp add: registry_ok_def tool_registry_new_def)

lemma registry_ok_register: "registry_ok reg \<Longrightarrow> tool t \<Longrightarrow> registry_ok (tool_register t reg)"
  by (auto simp: registry_ok_def tool_register_def)

lemma registry_ok_remove: "registry_ok reg \<Longrightarrow> registry_ok (snd (tool_remove n reg))"
  by (auto simp: registry_ok_def tool_remove_def)

lemma tool_list_names:
  assumes "registry_ok reg"
  shows "distinct (map ts_name (tool_list reg)) \<and> set (map ts_name (tool_list reg)) = dom (hm_get reg)"
proof -
  have name: "ts_name (nt_schema t) = n" if "(n, t) \<in> set reg" for n t
    using assms that tool.schema_name by (fastforce simp: registry_ok_def hm_get_mem)
  have "map ts_name (tool_list reg) = map fst reg"
    using name by (auto simp: tool_list_def hm_values_def)
  then show ?thesis using assms by (simp add: registry_ok_def hm_wf_def hm_dom)
qed

text \<open>The operations on a registry, as events.\<close>

datatype registry_event = Register native_tool | Unregister string

fun registry_step :: "registry_event \<Rightarrow> tool_registry \<Rightarrow> tool_registry" where
  "registry_step (Register t) reg = tool_register t reg"
| "registry_step (Unregister n) reg = snd (remove_tool n reg)"

lemma registry_run_ok:
  "\<forall>t. Register t \<in> set evs \<longrightarrow> tool t \<Longrightarrow> registry_ok reg \<Longrightarrow> registry_ok (fold registry_step evs reg)"
proof (induction evs arbitrary: reg)
  case (Cons ev evs)
  then show ?case
    by (cases ev) (auto simp: registry_ok_register registry_ok_remove remove_tool_def split: prod.split,
        metis registry_ok_remove snd_conv)
qed simp

end
