(* ===== verification/Builtin_Tools.thy ===== *)
theory Builtin_Tools
  imports Tools
begin

text \<open>
  The built-in tools of \<open>tools/builtin\<close>: echo, JSON transform, and the clients of the Synapse,
  Mneme and Delta services. An HTTP tool is the request it builds from its input, or the error
  it returns instead, followed by the shared treatment of the answer. The HTTP client is an
  argument; \<open>Inl\<close> is a failed send, and a response carries its parsed body or the parse error.
\<close>

section \<open>Building blocks\<close>

definition param :: "string \<Rightarrow> string \<Rightarrow> string \<Rightarrow> bool \<Rightarrow> parameter_schema" where
  "param name descr ty req = \<lparr> ps_name = name, ps_description = descr, ps_param_type = ty, ps_required = req \<rparr>"

definition make_tool :: "string \<Rightarrow> string \<Rightarrow> parameter_schema list \<Rightarrow> (tool_input \<Rightarrow> tool_output) \<Rightarrow> native_tool" where
  "make_tool name descr params execute =
     \<lparr> nt_name = name, nt_description = descr,
       nt_schema = \<lparr> ts_name = name, ts_description = descr, ts_parameters = params \<rparr>, nt_execute = execute \<rparr>"

lemma param_simps [simp]: "ps_name (param n d ty req) = n" "ps_required (param n d ty req) = req"
  by (simp_all add: param_def)

lemma make_tool_simps [simp]:
  "nt_name (make_tool n d ps f) = n" "nt_execute (make_tool n d ps f) = f"
  "ts_name (nt_schema (make_tool n d ps f)) = n" "ts_parameters (nt_schema (make_tool n d ps f)) = ps"
  by (simp_all add: make_tool_def)

datatype http_method = GET | POST | DELETE | OPTIONS

record http_request =
  hq_method :: http_method
  hq_url :: string
  hq_query :: "(string \<times> string) list"
  hq_headers :: "(string \<times> string) list"
  hq_body :: "json option"

text \<open>A header value is \<open>None\<close> when it is not printable.\<close>

record http_response =
  hr_status :: nat
  hr_headers :: "(string, string option) hmap"
  hr_json :: "string + json"

type_synonym http_client = "http_request \<Rightarrow> string + http_response"

definition http_get :: "string \<Rightarrow> http_request" where
  "http_get u = \<lparr> hq_method = GET, hq_url = u, hq_query = [], hq_headers = [], hq_body = None \<rparr>"

definition http_post :: "string \<Rightarrow> json \<Rightarrow> http_request" where
  "http_post u body = \<lparr> hq_method = POST, hq_url = u, hq_query = [], hq_headers = [], hq_body = Some body \<rparr>"

definition answer :: "string \<Rightarrow> (json \<Rightarrow> json) \<Rightarrow> string + http_response \<Rightarrow> tool_output" where
  "answer service f r =
     (case r of
        Inr resp \<Rightarrow>
          (case hr_json resp of
             Inr data \<Rightarrow> tool_ok (f data)
           | Inl e \<Rightarrow> tool_err (''failed to parse response: '' @ e))
      | Inl e \<Rightarrow> tool_err (service @ '' request failed: '' @ e))"

definition http_tool :: "string \<Rightarrow> (json \<Rightarrow> json) \<Rightarrow> (tool_input \<Rightarrow> string + http_request) \<Rightarrow> http_client
    \<Rightarrow> tool_input \<Rightarrow> tool_output" where
  "http_tool service f request client input =
     (case request input of
        Inl msg \<Rightarrow> tool_err msg
      | Inr req \<Rightarrow> answer service f (client req))"

text \<open>A required string parameter, or the error the tool returns at once.\<close>

definition require_str :: "string \<Rightarrow> tool_input \<Rightarrow> (string \<Rightarrow> string + 'a) \<Rightarrow> string + 'a" where
  "require_str key input k =
     (case get_str key input of
        None \<Rightarrow> Inl (''missing required parameter: '' @ key)
      | Some s \<Rightarrow> k s)"

section \<open>Echo and JSON transform\<close>

definition echo_execute :: "tool_input \<Rightarrow> tool_output" where
  "echo_execute input =
     (case hm_get (ti_parameters input) ''message'' of
        Some value \<Rightarrow> tool_ok value
      | None \<Rightarrow> tool_err ''missing required parameter: message'')"

definition echo_tool :: native_tool where
  "echo_tool =
     make_tool ''echo'' ''Returns the input message unchanged. Useful for testing.''
       [param ''message'' ''The message to echo back'' ''string'' True] echo_execute"

definition json_transform_execute :: "tool_input \<Rightarrow> tool_output" where
  "json_transform_execute input =
     (case hm_get (ti_parameters input) ''data'' of
        None \<Rightarrow> tool_err ''missing required parameter: data''
      | Some data \<Rightarrow>
          (case get_str ''field'' input of
             None \<Rightarrow> tool_err ''missing required parameter: field (must be a string)''
           | Some field \<Rightarrow>
               (case json_get field data of
                  Some value \<Rightarrow> tool_ok value
                | None \<Rightarrow> tool_err (''field '' @ [CHR 0x27] @ field @ [CHR 0x27] @ '' not found in data''))))"

definition json_transform_tool :: native_tool where
  "json_transform_tool =
     make_tool ''json_transform'' ''Extracts a named field from a JSON object.''
       [param ''data'' ''The JSON object to extract from'' ''object'' True,
        param ''field'' ''The name of the field to extract'' ''string'' True] json_transform_execute"

section \<open>Synapse\<close>

text \<open>\<open>Value::index\<close>: a missing member is null.\<close>

definition json_index :: "json \<Rightarrow> string \<Rightarrow> json" where
  "json_index v k = (case json_get k v of None \<Rightarrow> JNull | Some x \<Rightarrow> x)"

definition synapse_infer_body :: "(json \<Rightarrow> u64 option) \<Rightarrow> tool_input \<Rightarrow> string \<Rightarrow> string \<Rightarrow> json" where
  "synapse_infer_body as_u64 input model prompt =
     JObject ([(''model'', JString model),
       (''messages'', JArray [JObject [(''role'', JString ''user''), (''content'', JString prompt)]])] @
       (case get_u64 as_u64 ''max_tokens'' input of None \<Rightarrow> [] | Some n \<Rightarrow> [(''max_tokens'', JNumber (of_nat (unat n)))]) @
       (case get_f64 ''temperature'' input of None \<Rightarrow> [] | Some q \<Rightarrow> [(''temperature'', JNumber q)]))"

definition synapse_infer_request :: "(json \<Rightarrow> u64 option) \<Rightarrow> string \<Rightarrow> tool_input \<Rightarrow> string + http_request" where
  "synapse_infer_request as_u64 base_url input =
     require_str ''model'' input (\<lambda>model. require_str ''prompt'' input (\<lambda>prompt.
       Inr (http_post (base_url @ ''/v1/chat/completions'') (synapse_infer_body as_u64 input model prompt))))"

fun first_choice :: "json \<Rightarrow> json option" where
  "first_choice (JArray (c # _)) = Some c"
| "first_choice _ = None"

definition completion_text :: "json \<Rightarrow> string" where
  "completion_text data =
     (case Option.bind (first_choice (json_index data ''choices''))
             (\<lambda>c. as_str (json_index (json_index c ''message'') ''content'')) of
        None \<Rightarrow> []
      | Some s \<Rightarrow> s)"

definition synapse_infer :: "(json \<Rightarrow> u64 option) \<Rightarrow> string \<Rightarrow> http_client \<Rightarrow> native_tool" where
  "synapse_infer as_u64 base_url client =
     make_tool ''synapse_infer''
       ''Run inference through the Synapse LLM controller (OpenAI-compatible chat completions)''
       [param ''model'' ''Model identifier'' ''string'' True, param ''prompt'' ''User prompt text'' ''string'' True,
        param ''max_tokens'' ''Maximum tokens to generate'' ''number'' False,
        param ''temperature'' ''Sampling temperature (0.0-2.0)'' ''number'' False]
       (http_tool ''synapse'' (\<lambda>data. JObject [(''completion'', JString (completion_text data)), (''raw'', data)])
          (synapse_infer_request as_u64 base_url) client)"

definition synapse_list_models :: "string \<Rightarrow> http_client \<Rightarrow> native_tool" where
  "synapse_list_models base_url client =
     make_tool ''synapse_list_models'' ''List models available through the Synapse LLM controller'' []
       (http_tool ''synapse'' (\<lambda>data. data) (\<lambda>_. Inr (http_get (base_url @ ''/v1/models''))) client)"

definition synapse_status :: "string \<Rightarrow> http_client \<Rightarrow> native_tool" where
  "synapse_status base_url client =
     make_tool ''synapse_status'' ''Get Synapse system status: loaded models, backends, and hardware info'' []
       (http_tool ''synapse'' (\<lambda>data. data) (\<lambda>_. Inr (http_get (base_url @ ''/system/status''))) client)"

section \<open>Mneme\<close>

definition mneme_search_request :: "(json \<Rightarrow> u64 option) \<Rightarrow> string \<Rightarrow> tool_input \<Rightarrow> string + http_request" where
  "mneme_search_request as_u64 base_url input =
     require_str ''query'' input (\<lambda>query.
       (let limit = (case get_u64 as_u64 ''limit'' input of None \<Rightarrow> 10 | Some n \<Rightarrow> unat n)
        in Inr ((http_get (base_url @ ''/api/search''))\<lparr>hq_query := [(''q'', query), (''limit'', nat_str limit)]\<rparr>)))"

definition mneme_search :: "(json \<Rightarrow> u64 option) \<Rightarrow> string \<Rightarrow> http_client \<Rightarrow> native_tool" where
  "mneme_search as_u64 base_url client =
     make_tool ''mneme_search'' ''Search the Mneme knowledge base for notes matching a query''
       [param ''query'' ''Search query text'' ''string'' True,
        param ''limit'' ''Max results to return (default 10)'' ''number'' False]
       (http_tool ''mneme'' (\<lambda>data. data) (mneme_search_request as_u64 base_url) client)"

text \<open>A path segment with a slash or two dots is refused.\<close>

definition bad_segment :: "string \<Rightarrow> bool" where
  "bad_segment val \<longleftrightarrow> CHR ''/'' \<in> set val \<or> str_contains val ''..''"

definition mneme_get_note_request :: "string \<Rightarrow> tool_input \<Rightarrow> string + http_request" where
  "mneme_get_note_request base_url input =
     require_str ''note_id'' input (\<lambda>note_id.
       if bad_segment note_id then Inl ''note_id contains invalid characters''
       else Inr (http_get (base_url @ ''/api/notes/'' @ note_id)))"

definition mneme_get_note :: "string \<Rightarrow> http_client \<Rightarrow> native_tool" where
  "mneme_get_note base_url client =
     make_tool ''mneme_get_note'' ''Get a note by ID from the Mneme knowledge base''
       [param ''note_id'' ''Note identifier'' ''string'' True]
       (http_tool ''mneme'' (\<lambda>data. data) (mneme_get_note_request base_url) client)"

definition mneme_create_note_request :: "string \<Rightarrow> tool_input \<Rightarrow> string + http_request" where
  "mneme_create_note_request base_url input =
     require_str ''title'' input (\<lambda>title. require_str ''content'' input (\<lambda>content.
       (let tags = (case hm_get (ti_parameters input) ''tags'' of None \<Rightarrow> JArray [] | Some v \<Rightarrow> v)
        in Inr (http_post (base_url @ ''/api/notes'')
             (JObject [(''title'', JString title), (''content'', JString content), (''tags'', tags)])))))"

definition mneme_create_note :: "string \<Rightarrow> http_client \<Rightarrow> native_tool" where
  "mneme_create_note base_url client =
     make_tool ''mneme_create_note'' ''Create a new note in the Mneme knowledge base''
       [param ''title'' ''Note title'' ''string'' True,
        param ''content'' ''Note body content (Markdown)'' ''string'' True,
        param ''tags'' ''Optional tags for categorisation'' ''array'' False]
       (http_tool ''mneme'' (\<lambda>data. data) (mneme_create_note_request base_url) client)"

section \<open>Delta\<close>

definition delta_list_repos :: "string \<Rightarrow> http_client \<Rightarrow> native_tool" where
  "delta_list_repos base_url client =
     make_tool ''delta_list_repos'' ''List repositories on the Delta code platform'' []
       (http_tool ''delta'' (\<lambda>data. data) (\<lambda>_. Inr (http_get (base_url @ ''/api/v1/repos''))) client)"

fun check_segments :: "(string \<times> string) list \<Rightarrow> (string + 'a) \<Rightarrow> string + 'a" where
  "check_segments [] k = k"
| "check_segments ((name, val) # rest) k =
     (if bad_segment val then Inl (name @ '' contains invalid characters'') else check_segments rest k)"

definition delta_trigger_pipeline_request :: "string \<Rightarrow> tool_input \<Rightarrow> string + http_request" where
  "delta_trigger_pipeline_request base_url input =
     require_str ''owner'' input (\<lambda>owner. require_str ''repo'' input (\<lambda>repo.
       check_segments [(''owner'', owner), (''repo'', repo)]
         (Inr (http_post (base_url @ ''/api/v1/'' @ owner @ ''/'' @ repo @ ''/pipelines'')
            (JObject (case get_str ''branch'' input of None \<Rightarrow> [] | Some b \<Rightarrow> [(''branch'', JString b)]))))))"

definition delta_trigger_pipeline :: "string \<Rightarrow> http_client \<Rightarrow> native_tool" where
  "delta_trigger_pipeline base_url client =
     make_tool ''delta_trigger_pipeline'' ''Trigger a CI/CD pipeline for a repository on the Delta code platform''
       [param ''owner'' ''Repository owner'' ''string'' True, param ''repo'' ''Repository name'' ''string'' True,
        param ''branch'' ''Branch to build (defaults to main)'' ''string'' False]
       (http_tool ''delta'' (\<lambda>data. data) (delta_trigger_pipeline_request base_url) client)"

definition delta_get_pipeline_request :: "string \<Rightarrow> tool_input \<Rightarrow> string + http_request" where
  "delta_get_pipeline_request base_url input =
     require_str ''owner'' input (\<lambda>owner. require_str ''repo'' input (\<lambda>repo. require_str ''pipeline_id'' input (\<lambda>pid.
       check_segments [(''owner'', owner), (''repo'', repo), (''pipeline_id'', pid)]
         (Inr (http_get (base_url @ ''/api/v1/'' @ owner @ ''/'' @ repo @ ''/pipelines/'' @ pid))))))"

definition delta_get_pipeline :: "string \<Rightarrow> http_client \<Rightarrow> native_tool" where
  "delta_get_pipeline base_url client =
     make_tool ''delta_get_pipeline'' ''Get the status of a CI/CD pipeline run on the Delta code platform''
       [param ''owner'' ''Repository owner'' ''string'' True, param ''repo'' ''Repository name'' ''string'' True,
        param ''pipeline_id'' ''Pipeline run identifier'' ''string'' True]
       (http_tool ''delta'' (\<lambda>data. data) (delta_get_pipeline_request base_url) client)"

section \<open>The interface holds\<close>

lemma answer_ok: "to_success (answer service f r) \<longleftrightarrow> to_error (answer service f r) = None"
  by (simp add: answer_def split: sum.split)

lemma http_tool_ok: "to_success (http_tool service f rq client input) \<longleftrightarrow> to_error (http_tool service f rq client input) = None"
  by (simp add: http_tool_def answer_ok split: sum.split)

lemma http_tool_fails: "rq input = Inl msg \<Longrightarrow> \<not> to_success (http_tool service f rq client input)"
  by (simp add: http_tool_def)

lemma get_str_absent: "hm_get (ti_parameters input) k = None \<Longrightarrow> get_str k input = None"
  by (simp add: get_str_def)

text \<open>A request that starts by requiring \<open>keys\<close> fails when one of them is absent.\<close>

definition needs :: "string list \<Rightarrow> (tool_input \<Rightarrow> string + 'a) \<Rightarrow> bool" where
  "needs keys rq \<longleftrightarrow> (\<forall>input k. k \<in> set keys \<longrightarrow> hm_get (ti_parameters input) k = None \<longrightarrow> (\<exists>msg. rq input = Inl msg))"

lemma http_tool_checked:
  assumes "needs (map ps_name (filter ps_required ps)) rq"
  shows "checked_tool (make_tool n d ps (http_tool service f rq client))"
proof unfold_locales
  fix p and input :: tool_input
  assume p: "p \<in> set (ts_parameters (nt_schema (make_tool n d ps (http_tool service f rq client))))" "ps_required p"
    and none: "hm_get (ti_parameters input) (ps_name p) = None"
  from p have "ps_name p \<in> set (map ps_name (filter ps_required ps))" by auto
  with assms none obtain msg where "rq input = Inl msg" unfolding needs_def by blast
  then show "\<not> to_success (nt_execute (make_tool n d ps (http_tool service f rq client)) input)"
    by (simp add: http_tool_fails)
qed (simp_all add: http_tool_ok)

lemma needs_simps:
  "needs [] rq" "needs [''model'', ''prompt''] (synapse_infer_request as_u64 base_url)"
  "needs [''query''] (mneme_search_request as_u64 base_url)" "needs [''note_id''] (mneme_get_note_request base_url)"
  "needs [''title'', ''content''] (mneme_create_note_request base_url)"
  "needs [''owner'', ''repo''] (delta_trigger_pipeline_request base_url)"
  "needs [''owner'', ''repo'', ''pipeline_id''] (delta_get_pipeline_request base_url)"
  by (auto simp: needs_def synapse_infer_request_def mneme_search_request_def mneme_get_note_request_def
      mneme_create_note_request_def delta_trigger_pipeline_request_def delta_get_pipeline_request_def
      require_str_def get_str_absent split: option.split)

interpretation echo: checked_tool echo_tool
  by unfold_locales (auto simp: echo_tool_def echo_execute_def split: option.splits)

interpretation json_transform: checked_tool json_transform_tool
  by unfold_locales (auto simp: json_transform_tool_def json_transform_execute_def get_str_absent split: option.splits)

interpretation synapse_infer: checked_tool "synapse_infer as_u64 base_url client" for as_u64 base_url client
  unfolding synapse_infer_def by (rule http_tool_checked) (simp add: needs_simps)

interpretation synapse_list_models: checked_tool "synapse_list_models base_url client" for base_url client
  unfolding synapse_list_models_def by (rule http_tool_checked) (simp add: needs_simps)

interpretation synapse_status: checked_tool "synapse_status base_url client" for base_url client
  unfolding synapse_status_def by (rule http_tool_checked) (simp add: needs_simps)

interpretation mneme_search: checked_tool "mneme_search as_u64 base_url client" for as_u64 base_url client
  unfolding mneme_search_def by (rule http_tool_checked) (simp add: needs_simps)

interpretation mneme_get_note: checked_tool "mneme_get_note base_url client" for base_url client
  unfolding mneme_get_note_def by (rule http_tool_checked) (simp add: needs_simps)

interpretation mneme_create_note: checked_tool "mneme_create_note base_url client" for base_url client
  unfolding mneme_create_note_def by (rule http_tool_checked) (simp add: needs_simps)

interpretation delta_list_repos: checked_tool "delta_list_repos base_url client" for base_url client
  unfolding delta_list_repos_def by (rule http_tool_checked) (simp add: needs_simps)

interpretation delta_trigger_pipeline: checked_tool "delta_trigger_pipeline base_url client" for base_url client
  unfolding delta_trigger_pipeline_def by (rule http_tool_checked) (simp add: needs_simps)

interpretation delta_get_pipeline: checked_tool "delta_get_pipeline base_url client" for base_url client
  unfolding delta_get_pipeline_def by (rule http_tool_checked) (simp add: needs_simps)

end
