(* ===== verification/Audit_Tools.thy ===== *)
theory Audit_Tools
  imports Builtin_Tools
begin

text \<open>
  The two tools that measure a server: \<open>tools/builtin/security_audit.rs\<close> and
  \<open>tools/builtin/load_testing.rs\<close>. Both refuse URLs of internal networks. Floats are
  rationals; the HTTP client and the outcome of building it, the progress of the users of a
  load test, and the JSON form of the reports are arguments. Logging is left out.
\<close>

text \<open>\<open>f64::round\<close>: half away from zero.\<close>

definition round_f64 :: "rat \<Rightarrow> rat" where
  "round_f64 q = (if 0 \<le> q then of_int \<lfloor>q + 1 / 2\<rfloor> else - of_int \<lfloor>1 / 2 - q\<rfloor>)"

definition join_strings :: "string \<Rightarrow> string list \<Rightarrow> string" where
  "join_strings sep ss = (case ss of [] \<Rightarrow> [] | s # rest \<Rightarrow> s @ concat (map (\<lambda>x. sep @ x) rest))"

section \<open>Security audit\<close>

definition SECURITY_HEADERS :: "(string \<times> string) list" where
  "SECURITY_HEADERS =
     [(''content-security-policy'', ''critical''), (''strict-transport-security'', ''critical''),
      (''x-frame-options'', ''high''), (''x-content-type-options'', ''high''), (''referrer-policy'', ''medium''),
      (''permissions-policy'', ''medium''), (''x-xss-protection'', ''low'')]"

definition DISCLOSURE_HEADERS :: "string list" where
  "DISCLOSURE_HEADERS = [''server'', ''x-powered-by'', ''x-aspnet-version'', ''x-generator'']"

record missing_header =
  mh_header :: string
  mh_severity :: string

record header_analysis =
  ha_present :: "string list"
  ha_missing :: "missing_header list"
  ha_score :: rat

record cors_analysis =
  co_misconfigured :: bool
  co_allows_all_origins :: bool
  co_allows_credentials :: bool
  co_detail :: string

record vulnerability =
  vu_type :: string
  vu_severity :: string
  vu_description :: string
  vu_remediation :: string

record audit_result =
  ad_target_url :: string
  ad_security_score :: rat
  ad_risk_level :: string
  ad_header_analysis :: header_analysis
  ad_cors_analysis :: cors_analysis
  ad_information_disclosure :: "string list"
  ad_vulnerabilities :: "vulnerability list"
  ad_recommendations :: "string list"

definition header_str :: "string \<Rightarrow> http_response \<Rightarrow> string option" where
  "header_str h resp = Option.bind (hm_get (hr_headers resp) h) (\<lambda>v. v)"

definition analyze_headers :: "http_response \<Rightarrow> header_analysis" where
  "analyze_headers resp =
     (let present = filter (\<lambda>(h, _). hm_get (hr_headers resp) h \<noteq> None) SECURITY_HEADERS;
          missing = filter (\<lambda>(h, _). hm_get (hr_headers resp) h = None) SECURITY_HEADERS
      in \<lparr> ha_present = map fst present,
           ha_missing = map (\<lambda>(h, sev). \<lparr> mh_header = h, mh_severity = sev \<rparr>) missing,
           ha_score = round_f64 (of_nat (length present) / of_nat (length SECURITY_HEADERS) * 100) \<rparr>)"

definition disclosure_of :: "http_response \<Rightarrow> string list" where
  "disclosure_of resp =
     List.map_filter (\<lambda>h. map_option (\<lambda>v. h @ '': '' @ v) (header_str h resp)) DISCLOSURE_HEADERS"

definition analyze_cors :: "http_client \<Rightarrow> string \<Rightarrow> cors_analysis" where
  "analyze_cors client target_url =
     (case client \<lparr> hq_method = OPTIONS, hq_url = target_url, hq_query = [],
                    hq_headers = [(''Origin'', ''https://evil.example.com'')], hq_body = None \<rparr> of
        Inr r \<Rightarrow>
          (let acao = (case header_str ''access-control-allow-origin'' r of None \<Rightarrow> '''' | Some v \<Rightarrow> v);
               acac = (case header_str ''access-control-allow-credentials'' r of None \<Rightarrow> ''false'' | Some v \<Rightarrow> v);
               allows_all = (acao = ''*'' \<or> acao = ''https://evil.example.com'');
               allows_creds = eq_ignore_ascii_case acac ''true'';
               misconfigured = (allows_all \<and> allows_creds)
           in \<lparr> co_misconfigured = misconfigured, co_allows_all_origins = allows_all,
                co_allows_credentials = allows_creds,
                co_detail = (if misconfigured
                             then ''Wildcard origin with credentials '' @ [CHR 0xE2, CHR 0x80, CHR 0x94] @
                                  '' critical misconfiguration''
                             else if allows_all then ''Wildcard origin allowed (no credentials)''
                             else ''CORS properly configured'') \<rparr>)
      | Inl _ \<Rightarrow>
          \<lparr> co_misconfigured = False, co_allows_all_origins = False, co_allows_credentials = False,
            co_detail = ''OPTIONS request failed (CORS may not be configured)'' \<rparr>)"

definition audit_vulnerabilities :: "header_analysis \<Rightarrow> cors_analysis \<Rightarrow> string list \<Rightarrow> vulnerability list" where
  "audit_vulnerabilities ha cors disclosure =
     (if ha_score ha < 50
      then [\<lparr> vu_type = ''missing_security_headers'', vu_severity = ''high'',
              vu_description = ''Only '' @ nat_str (nat \<lfloor>ha_score ha\<rfloor>) @
                ''% of recommended security headers are present'',
              vu_remediation = ''Add missing security headers to all responses'' \<rparr>] else []) @
     (if co_allows_all_origins cors \<and> co_allows_credentials cors
      then [\<lparr> vu_type = ''cors_misconfiguration'', vu_severity = ''critical'',
              vu_description = ''CORS allows all origins with credentials'',
              vu_remediation = ''Restrict Access-Control-Allow-Origin to specific trusted domains'' \<rparr>] else []) @
     (if disclosure \<noteq> []
      then [\<lparr> vu_type = ''information_disclosure'', vu_severity = ''low'',
              vu_description = ''Server discloses: '' @ join_strings '', '' disclosure,
              vu_remediation = ''Remove or obfuscate server identification headers'' \<rparr>] else [])"

definition audit_score :: "header_analysis \<Rightarrow> cors_analysis \<Rightarrow> string list \<Rightarrow> rat" where
  "audit_score ha cors disclosure =
     (let s = ha_score ha;
          s = (if co_misconfigured cors then s - 15 else s);
          s = (if disclosure \<noteq> [] then s - 5 else s)
      in round_f64 (min 100 (max 0 s) * 100) / 100)"

definition risk_level :: "rat \<Rightarrow> string" where
  "risk_level s = (if 80 \<le> s then ''low'' else if 60 \<le> s then ''medium'' else if 40 \<le> s then ''high'' else ''critical'')"

definition audit_recommendations :: "header_analysis \<Rightarrow> cors_analysis \<Rightarrow> string list \<Rightarrow> string \<Rightarrow> string list" where
  "audit_recommendations ha cors disclosure target_url =
     (if ha_score ha < 100
      then [''Add all recommended security headers (CSP, HSTS, X-Frame-Options, X-Content-Type-Options)''] else []) @
     (if co_misconfigured cors then [''Fix CORS configuration: restrict allowed origins''] else []) @
     (if disclosure \<noteq> [] then [''Remove server version headers to reduce attack surface''] else []) @
     (if \<not> starts_with target_url ''https://'' then [''Enforce HTTPS for all endpoints''] else [])"

text \<open>\<open>build\<close> is the outcome of building the client.\<close>

definition run_security_audit :: "(string + http_client) \<Rightarrow> string \<Rightarrow> string + audit_result" where
  "run_security_audit build target_url =
     (case build of
        Inl e \<Rightarrow> Inl e
      | Inr client \<Rightarrow>
          (case client (http_get target_url) of
             Inl e \<Rightarrow> Inl e
           | Inr resp \<Rightarrow>
               (let ha = analyze_headers resp;
                    disclosure = disclosure_of resp;
                    cors = analyze_cors client target_url;
                    score = audit_score ha cors disclosure
                in Inr \<lparr> ad_target_url = target_url, ad_security_score = score, ad_risk_level = risk_level score,
                         ad_header_analysis = ha, ad_cors_analysis = cors, ad_information_disclosure = disclosure,
                         ad_vulnerabilities = audit_vulnerabilities ha cors disclosure,
                         ad_recommendations = audit_recommendations ha cors disclosure target_url \<rparr>)))"

definition security_audit_execute :: "(string \<Rightarrow> url option) \<Rightarrow> (string + http_client) \<Rightarrow> (audit_result \<Rightarrow> json)
    \<Rightarrow> tool_input \<Rightarrow> tool_output" where
  "security_audit_execute parse_url build audit_value input =
     (case get_str ''target_url'' input of
        None \<Rightarrow> tool_err ''missing required parameter: target_url''
      | Some target_url \<Rightarrow>
          if \<not> is_safe_url parse_url target_url
          then tool_err ''target_url rejected: cannot target private/internal networks''
          else case run_security_audit build target_url of
            Inr r \<Rightarrow> tool_ok (audit_value r)
          | Inl e \<Rightarrow> tool_err (''security audit failed: '' @ e))"

definition security_audit_tool :: "(string \<Rightarrow> url option) \<Rightarrow> (string + http_client) \<Rightarrow> (audit_result \<Rightarrow> json) \<Rightarrow> native_tool" where
  "security_audit_tool parse_url build audit_value =
     make_tool ''security_audit''
       ''Assess security posture of a target URL: HTTP headers, TLS grade, CORS policy, and information disclosure.''
       [param ''target_url'' ''URL to audit'' ''string'' True,
        param ''scan_profile'' ''Scan depth: quick, standard, or deep (default: standard)'' ''string'' False]
       (security_audit_execute parse_url build audit_value)"

section \<open>Load test\<close>

definition MAX_TOTAL_REQUESTS :: nat where
  "MAX_TOTAL_REQUESTS = 100000"

record load_test_result =
  lt_target_url :: string
  lt_concurrent_users :: nat
  lt_duration_seconds :: u64
  lt_total_requests :: nat
  lt_successful_requests :: nat
  lt_failed_requests :: nat
  lt_avg_latency_ms :: rat
  lt_p50_latency_ms :: rat
  lt_p95_latency_ms :: rat
  lt_p99_latency_ms :: rat
  lt_min_latency_ms :: rat
  lt_max_latency_ms :: rat
  lt_throughput_rps :: rat
  lt_error_rate :: rat
  lt_status_codes :: "(nat, nat) hmap"

text \<open>One user: the latencies in nanoseconds, the counts per status, and the errors. \<open>step n\<close>
  is \<open>None\<close> when the deadline has passed before request \<open>n\<close>, and otherwise its latency with
  the status, if it was answered.\<close>

type_synonym user_run = "nat \<Rightarrow> (nat \<times> nat option) option"

definition count_up :: "'k \<Rightarrow> nat \<Rightarrow> ('k, nat) hmap \<Rightarrow> ('k, nat) hmap" where
  "count_up k n m = hm_insert k ((case hm_get m k of None \<Rightarrow> 0 | Some c \<Rightarrow> c) + n) m"

function user_loop :: "user_run \<Rightarrow> nat \<Rightarrow> nat list \<Rightarrow> (nat, nat) hmap \<Rightarrow> nat \<Rightarrow> nat list \<times> (nat, nat) hmap \<times> nat" where
  "user_loop step limit latencies statuses errors =
     (if length latencies + errors < limit
      then case step (length latencies) of
             None \<Rightarrow> (latencies, statuses, errors)
           | Some (lat, Some status) \<Rightarrow> user_loop step limit (latencies @ [lat]) (count_up status 1 statuses) errors
           | Some (lat, None) \<Rightarrow> user_loop step limit (latencies @ [lat]) statuses (errors + 1)
      else (latencies, statuses, errors))"
  by pat_completeness auto

termination user_loop by (relation "measure (\<lambda>(_, limit, l, _, e). limit - (length l + e))") auto

declare user_loop.simps [simp del]

text \<open>The results of the users in order; \<open>None\<close> is a user whose task panicked.\<close>

fun collect_users :: "(nat list \<times> (nat, nat) hmap \<times> nat) option list \<Rightarrow> nat list \<times> (nat, nat) hmap \<times> nat
    \<Rightarrow> nat list \<times> (nat, nat) hmap \<times> nat" where
  "collect_users [] acc = acc"
| "collect_users (Some (l, s, e) # us) (ls, ss, es) =
     collect_users us (ls @ l, fold (\<lambda>(code, n). count_up code n) s ss, es + e)"
| "collect_users (None # us) (ls, ss, es) = collect_users us (ls, ss, es + 1)"

definition to_ms :: "nat \<Rightarrow> rat" where
  "to_ms d = of_nat d / 1000000"

definition round2 :: "rat \<Rightarrow> rat" where
  "round2 q = round_f64 (q * 100) / 100"

definition percentile :: "nat \<Rightarrow> nat list \<Rightarrow> rat" where
  "percentile p lats = to_ms (lats ! min (length lats * p div 100) (length lats - 1))"

definition run_load_test :: "(string + unit) \<Rightarrow> (nat \<Rightarrow> user_run option) \<Rightarrow> string \<Rightarrow> nat \<Rightarrow> u64
    \<Rightarrow> string + load_test_result" where
  "run_load_test build runs target_url concurrent_users duration_secs =
     (case build of
        Inl e \<Rightarrow> Inl e
      | Inr _ \<Rightarrow>
          (let limit = MAX_TOTAL_REQUESTS div max concurrent_users 1;
               users = map (\<lambda>u. map_option (\<lambda>step. user_loop step limit [] hm_empty 0) (runs u)) [0..<concurrent_users];
               (all_latencies, statuses, total_errors) = collect_users users ([], hm_empty, 0);
               total_requests = length all_latencies;
               lats = sort all_latencies
           in if all_latencies = [] then Inl ''no requests completed''
              else
                Inr \<lparr> lt_target_url = target_url, lt_concurrent_users = concurrent_users,
                      lt_duration_seconds = duration_secs, lt_total_requests = total_requests,
                      lt_successful_requests = total_requests - total_errors, lt_failed_requests = total_errors,
                      lt_avg_latency_ms = round2 (sum_list (map to_ms lats) / of_nat total_requests),
                      lt_p50_latency_ms = round2 (percentile 50 lats), lt_p95_latency_ms = round2 (percentile 95 lats),
                      lt_p99_latency_ms = round2 (percentile 99 lats), lt_min_latency_ms = round2 (to_ms (lats ! 0)),
                      lt_max_latency_ms = round2 (to_ms (last lats)),
                      lt_throughput_rps = round2 (of_nat total_requests / of_nat (unat duration_secs)),
                      lt_error_rate = round_f64 (of_nat total_errors / of_nat total_requests * 10000) / 10000,
                      lt_status_codes = statuses \<rparr>))"

definition load_test_users :: "(json \<Rightarrow> u64 option) \<Rightarrow> tool_input \<Rightarrow> nat" where
  "load_test_users as_u64 input =
     min (unat (case get_u64 as_u64 ''concurrent_users'' input of None \<Rightarrow> 10 | Some n \<Rightarrow> n)) 500"

definition load_test_secs :: "(json \<Rightarrow> u64 option) \<Rightarrow> tool_input \<Rightarrow> u64" where
  "load_test_secs as_u64 input =
     min 300 (max 1 (case get_u64 as_u64 ''duration_seconds'' input of None \<Rightarrow> 10 | Some n \<Rightarrow> n))"

definition load_testing_execute :: "(string \<Rightarrow> url option) \<Rightarrow> (json \<Rightarrow> u64 option) \<Rightarrow> (string + unit)
    \<Rightarrow> (nat \<Rightarrow> user_run option) \<Rightarrow> (load_test_result \<Rightarrow> json) \<Rightarrow> tool_input \<Rightarrow> tool_output" where
  "load_testing_execute parse_url as_u64 build runs result_value input =
     (case get_str ''target_url'' input of
        None \<Rightarrow> tool_err ''missing required parameter: target_url''
      | Some target_url \<Rightarrow>
          if \<not> is_safe_url parse_url target_url
          then tool_err ''target_url rejected: cannot target private/internal networks''
          else case run_load_test build runs target_url (load_test_users as_u64 input) (load_test_secs as_u64 input) of
            Inr r \<Rightarrow> tool_ok (result_value r)
          | Inl e \<Rightarrow> tool_err (''load test failed: '' @ e))"

definition load_testing_tool :: "(string \<Rightarrow> url option) \<Rightarrow> (json \<Rightarrow> u64 option) \<Rightarrow> (string + unit)
    \<Rightarrow> (nat \<Rightarrow> user_run option) \<Rightarrow> (load_test_result \<Rightarrow> json) \<Rightarrow> native_tool" where
  "load_testing_tool parse_url as_u64 build runs result_value =
     make_tool ''load_testing''
       ''Generate HTTP load against a target URL with concurrent users and measure performance metrics.''
       [param ''target_url'' ''URL to load test'' ''string'' True,
        param ''concurrent_users'' ''Number of concurrent users (default: 10)'' ''number'' False,
        param ''duration_seconds'' ''Test duration in seconds (default: 10)'' ''number'' False]
       (load_testing_execute parse_url as_u64 build runs result_value)"

interpretation security_audit: checked_tool "security_audit_tool parse_url build audit_value" for parse_url build audit_value
  by unfold_locales
    (auto simp: security_audit_tool_def security_audit_execute_def get_str_absent split: option.splits sum.splits)

interpretation load_testing: checked_tool "load_testing_tool parse_url as_u64 build runs result_value"
  for parse_url as_u64 build runs result_value
  by unfold_locales
    (auto simp: load_testing_tool_def load_testing_execute_def get_str_absent split: option.splits sum.splits)

end
