(* ===== verification/Tool_Service.thy ===== *)
theory Tool_Service
  imports Audit_Tools
begin

text \<open>
  What the tools give their clients: the report of a load test adds up and its percentiles are
  ordered, the score of a security audit, and the JSON-RPC service over the registry that
  \<open>main.rs\<close> fills, where a call that lacks a parameter advertised as required is an error.
\<close>

section \<open>The load test\<close>

definition hm_total :: "('k, nat) hmap \<Rightarrow> nat" where
  "hm_total m = sum_list (hm_values m)"

lemma hm_total_empty [simp]: "hm_total hm_empty = 0"
  by (simp add: hm_total_def hm_values_def hm_empty_def)

lemma hm_total_count_up [simp]: "hm_wf m \<Longrightarrow> hm_total (count_up k n m) = hm_total m + n"
  by (induction m)
    (auto simp: hm_total_def hm_values_def count_up_def hm_insert_def hm_get_def hm_wf_def
      split: option.splits if_splits)

lemma hm_wf_count_up [simp]: "hm_wf m \<Longrightarrow> hm_wf (count_up k n m)"
  by (simp add: count_up_def)

lemma fold_count_up:
  "hm_wf m \<Longrightarrow> hm_wf (fold (\<lambda>(c, n). count_up c n) s m) \<and>
     hm_total (fold (\<lambda>(c, n). count_up c n) s m) = hm_total m + hm_total s"
proof (induction s arbitrary: m)
  case Nil
  then show ?case by (simp add: hm_total_def [of "[]"] hm_values_def)
next
  case (Cons x s)
  then show ?case
    by (cases x) (simp add: hm_total_def [of "x # s" for x s] hm_total_def [of s] hm_values_def)
qed

text \<open>The tallies of a user: every request is a latency and either a status or an error.\<close>

fun tally_ok :: "nat list \<times> (nat, nat) hmap \<times> nat \<Rightarrow> bool" where
  "tally_ok (l, s, e) \<longleftrightarrow> hm_wf s \<and> hm_total s + e = length l"

lemma user_loop_tally:
  "tally_ok (l, s, e) \<Longrightarrow> tally_ok (user_loop step limit l s e)"
proof (induction step limit l s e rule: user_loop.induct)
  case (1 step limit l s e)
  then show ?case
    by (subst user_loop.simps) (auto split: option.splits)
qed

lemma user_loop_limit:
  "length l \<le> limit \<Longrightarrow> length (fst (user_loop step limit l s e)) \<le> limit"
proof (induction step limit l s e rule: user_loop.induct)
  case (1 step limit l s e)
  then show ?case
    by (subst user_loop.simps) (auto split: option.splits)
qed

lemma collect_users_tally:
  assumes "\<forall>x \<in> set us. \<exists>u. x = Some u \<and> tally_ok u" "tally_ok acc"
  shows "tally_ok (collect_users us acc)"
  using assms by (induction us acc rule: collect_users.induct) (auto simp: fold_count_up)

lemma collect_users_limit:
  assumes "\<And>u. Some u \<in> set us \<Longrightarrow> length (fst u) \<le> limit"
  shows "length (fst (collect_users us acc)) \<le> length (fst acc) + length us * limit"
  using assms
proof (induction us acc rule: collect_users.induct)
  case (2 l s e us ls ss es)
  from "2.prems" [of "(l, s, e)"] have "length l \<le> limit" by simp
  with "2.IH" "2.prems" show ?case by fastforce
next
  case (3 us ls ss es)
  then show ?case by fastforce
qed simp

lemma round_f64_nonneg: "0 \<le> q \<Longrightarrow> round_f64 q = of_int \<lfloor>q + 1 / 2\<rfloor>"
  by (simp add: round_f64_def)

lemma round2_mono: "0 \<le> a \<Longrightarrow> a \<le> b \<Longrightarrow> round2 a \<le> round2 b"
  by (simp add: round2_def round_f64_nonneg divide_right_mono floor_mono)

lemma to_ms_mono: "a \<le> b \<Longrightarrow> to_ms a \<le> to_ms b"
  by (simp add: to_ms_def divide_right_mono)

lemma to_ms_nonneg [simp]: "0 \<le> to_ms d"
  by (simp add: to_ms_def)

text \<open>The reported latencies of a sorted sample, in order.\<close>

lemma percentile_index: "lats \<noteq> [] \<Longrightarrow> min i (length lats - Suc 0) < length lats"
  by (cases lats) auto

lemma percentile_mono:
  "sorted lats \<Longrightarrow> lats \<noteq> [] \<Longrightarrow> p \<le> q \<Longrightarrow> round2 (percentile p lats) \<le> round2 (percentile q lats)"
  unfolding percentile_def
  by (intro round2_mono to_ms_mono sorted_nth_mono min.mono div_le_mono mult_le_mono2)
    (auto simp: percentile_index)

lemma percentile_bounds:
  assumes "sorted lats" "lats \<noteq> []"
  shows "round2 (to_ms (lats ! 0)) \<le> round2 (percentile p lats)"
    and "round2 (percentile p lats) \<le> round2 (to_ms (last lats))"
  using assms percentile_index [OF assms(2)]
  by (auto simp: percentile_def last_conv_nth intro!: round2_mono to_ms_mono sorted_nth_mono)

lemma mean_bounds:
  assumes "sorted lats" "lats \<noteq> []"
  defines "avg \<equiv> sum_list (map to_ms lats) / of_nat (length lats)"
  shows "round2 (to_ms (lats ! 0)) \<le> round2 avg" and "round2 avg \<le> round2 (to_ms (last lats))"
proof -
  have n: "0 < (of_nat (length lats) :: rat)" using assms(2) by simp
  have "sum_list (map (\<lambda>_. to_ms (lats ! 0)) lats) \<le> sum_list (map to_ms lats)"
    using assms by (intro sum_list_mono to_ms_mono) (auto simp: in_set_conv_nth intro: sorted_nth_mono)
  then have lo: "to_ms (lats ! 0) \<le> avg"
    using n by (simp add: avg_def sum_list_triv pos_le_divide_eq mult.commute)
  have "sum_list (map to_ms lats) \<le> sum_list (map (\<lambda>_. to_ms (last lats)) lats)"
    using assms by (intro sum_list_mono to_ms_mono)
      (auto simp: in_set_conv_nth last_conv_nth intro: sorted_nth_mono)
  then have hi: "avg \<le> to_ms (last lats)"
    using n by (simp add: avg_def sum_list_triv pos_divide_le_eq mult.commute)
  show "round2 (to_ms (lats ! 0)) \<le> round2 avg" "round2 avg \<le> round2 (to_ms (last lats))"
    using lo hi order_trans [OF to_ms_nonneg lo] by (simp_all add: round2_mono)
qed

text \<open>The report of a load test in which no user task panicked: at most 100,000 requests were
  sent; every request is a success or a failure, and the successes are the requests counted by
  status; the percentiles are ordered and lie, as does the mean, between the least and the
  greatest latency.\<close>

theorem load_test_report:
  assumes run: "run_load_test build runs url users secs = Inr r"
    and calm: "None \<notin> runs ` {..<users}"
  shows "lt_total_requests r \<le> MAX_TOTAL_REQUESTS
    \<and> lt_successful_requests r + lt_failed_requests r = lt_total_requests r
    \<and> hm_total (lt_status_codes r) = lt_successful_requests r
    \<and> lt_min_latency_ms r \<le> lt_p50_latency_ms r \<and> lt_p50_latency_ms r \<le> lt_p95_latency_ms r
    \<and> lt_p95_latency_ms r \<le> lt_p99_latency_ms r \<and> lt_p99_latency_ms r \<le> lt_max_latency_ms r
    \<and> lt_min_latency_ms r \<le> lt_avg_latency_ms r \<and> lt_avg_latency_ms r \<le> lt_max_latency_ms r"
proof -
  define limit where "limit = MAX_TOTAL_REQUESTS div max users 1"
  define us where "us = map (\<lambda>u. map_option (\<lambda>step. user_loop step limit [] hm_empty 0) (runs u)) [0..<users]"
  obtain l s e where c: "collect_users us ([], hm_empty, 0) = (l, s, e)" by (cases "collect_users us ([], hm_empty, 0)")
  have "runs u \<noteq> None" if "u < users" for u
    using calm that by (metis image_eqI lessThan_iff)
  then have "\<forall>x \<in> set us. \<exists>u. x = Some u \<and> tally_ok u"
    using user_loop_tally [of "[]" hm_empty 0] by (fastforce simp: us_def simp del: split_paired_Ex)
  then have tally: "tally_ok (l, s, e)"
    using collect_users_tally [of us "([], hm_empty, 0)"] c by simp
  have "length (fst u) \<le> limit" if "Some u \<in> set us" for u
    using that user_loop_limit [of "[]" limit] by (auto simp: us_def eq_commute [of "Some u"])
  from collect_users_limit [OF this, of us "([], hm_empty, 0)"] have "length l \<le> length us * limit"
    by (simp add: c)
  also have "\<dots> \<le> MAX_TOTAL_REQUESTS"
    by (cases "users = 0") (auto simp: us_def limit_def max_def)
  finally have total: "length l \<le> MAX_TOTAL_REQUESTS" .
  have "l \<noteq> []"
    using run c by (auto simp: run_load_test_def limit_def us_def Let_def split: sum.splits if_splits)
  then have ne: "sort l \<noteq> []" by (metis length_0_conv length_sort)
  note order = percentile_bounds [OF sorted_sort ne] percentile_mono [OF sorted_sort ne] mean_bounds [OF sorted_sort ne]
  show ?thesis
    using run c tally total order
    by (auto simp: run_load_test_def limit_def us_def Let_def split: sum.splits if_splits)
qed

definition sample_user :: user_run where
  "sample_user n = (if n = 0 then Some (7000000, Some 200) else if n = 1 then Some (3000000, None) else None)"

lemma sample_run:
  "user_loop sample_user 50000 [] hm_empty 0 = ([7000000, 3000000], [(200, 1)], 1)"
  by (simp add: user_loop.simps sample_user_def count_up_def hm_insert_def hm_empty_def hm_get_def)

lemma sample_runs:
  "collect_users (map (\<lambda>u. Some (user_loop sample_user 50000 [] hm_empty 0)) [0..<2]) ([], hm_empty, 0) =
     ([7000000, 3000000, 7000000, 3000000], [(200, 2)], 2)"
  by (simp add: upt_rec sample_run [unfolded hm_empty_def] count_up_def hm_insert_def hm_empty_def hm_get_def)

theorem load_test_report_witness:
  "\<exists>r. run_load_test (Inr ()) (\<lambda>_. Some sample_user) ''http://example.com'' 2 1 = Inr r \<and>
     lt_total_requests r = 4 \<and> hm_total (lt_status_codes r) = 2 \<and> lt_min_latency_ms r = 3 \<and>
     lt_min_latency_ms r \<le> lt_avg_latency_ms r"
proof -
  obtain r where r: "run_load_test (Inr ()) (\<lambda>_. Some sample_user) ''http://example.com'' 2 1 = Inr r"
      "lt_total_requests r = 4" "lt_successful_requests r = 2" "lt_min_latency_ms r = 3"
    unfolding run_load_test_def MAX_TOTAL_REQUESTS_def
    by (simp add: sample_runs max_def Let_def to_ms_def round2_def round_f64_def floor_eq_iff)
  show ?thesis using r load_test_report [OF r(1)] by auto
qed

section \<open>The security audit\<close>

definition headers_present :: "http_response \<Rightarrow> nat" where
  "headers_present resp = length (filter (\<lambda>(h, _). hm_get (hr_headers resp) h \<noteq> None) SECURITY_HEADERS)"

lemma SECURITY_HEADERS_length: "length SECURITY_HEADERS = 7"
  by (simp add: SECURITY_HEADERS_def)

lemma headers_present_le: "headers_present resp \<le> 7"
  unfolding headers_present_def by (metis SECURITY_HEADERS_length length_filter_le)

lemma headers_present_all:
  "headers_present resp = 7 \<longleftrightarrow> (\<forall>(h, _) \<in> set SECURITY_HEADERS. hm_get (hr_headers resp) h \<noteq> None)"
  unfolding headers_present_def
  by (metis (no_types, lifting) SECURITY_HEADERS_length filter_True length_filter_less nat_neq_iff)

text \<open>The percentage of the seven headers, rounded.\<close>

lemma ha_score_cases:
  "ha_score (analyze_headers resp) = [0, 14, 29, 43, 57, 71, 86, 100] ! headers_present resp"
proof -
  have "ha_score (analyze_headers resp) = round_f64 (of_nat (headers_present resp) / 7 * 100)"
    by (simp add: analyze_headers_def headers_present_def Let_def SECURITY_HEADERS_def)
  moreover have "headers_present resp \<in> {0, 1, 2, 3, 4, 5, 6, 7}" using headers_present_le [of resp] by auto
  ultimately show ?thesis by (auto simp: round_f64_def floor_eq_iff)
qed

lemma ha_score_percent:
  obtains k :: int where "ha_score (analyze_headers resp) = of_int k" "0 \<le> k" "k \<le> 100"
    "k = 100 \<longleftrightarrow> headers_present resp = 7" "headers_present resp = 7 \<Longrightarrow> \<not> k < 50"
proof -
  let ?k = "[0, 14, 29, 43, 57, 71, 86, 100 :: int] ! headers_present resp"
  have "headers_present resp \<in> {0, 1, 2, 3, 4, 5, 6, 7}" using headers_present_le [of resp] by auto
  then show thesis by (intro that [of ?k]) (auto simp: ha_score_cases)
qed

lemma round_percent: "0 \<le> k \<Longrightarrow> round_f64 (of_int k * 100) / 100 = of_int k"
proof -
  assume "0 \<le> k"
  then have "round_f64 (of_int k * 100) = of_int \<lfloor>of_int (k * 100) + 1 / 2 :: rat\<rfloor>"
    by (simp add: round_f64_def)
  also have "\<lfloor>of_int (k * 100) + 1 / 2 :: rat\<rfloor> = k * 100" by (rule floor_unique) simp_all
  finally show ?thesis by simp
qed

lemma audit_score_eq:
  "audit_score (analyze_headers resp) cors disclosure = max 0 (ha_score (analyze_headers resp)
      - (if co_misconfigured cors then 15 else 0) - (if disclosure \<noteq> [] then 5 else 0))"
proof -
  obtain k where k: "ha_score (analyze_headers resp) = of_int k" "k \<le> 100" by (metis ha_score_percent)
  define d where "d = (if co_misconfigured cors then 15 else 0 :: int) + (if disclosure \<noteq> [] then 5 else 0)"
  have "min 100 (max 0 (of_int (k - d))) = (of_int (max 0 (k - d)) :: rat)"
    using k(2) by (auto simp: d_def min_def max_def)
  moreover have "audit_score (analyze_headers resp) cors disclosure =
      round_f64 (min 100 (max 0 (of_int (k - d))) * 100) / 100"
    by (simp add: audit_score_def Let_def k(1) d_def)
  ultimately show ?thesis
    using round_percent [of "max 0 (k - d)"] k(1) by (auto simp: d_def of_int_max)
qed

text \<open>The score of a security audit is a percentage: the rounded share of the seven security
  headers, less 15 for a CORS misconfiguration and 5 for any header that discloses the server,
  never below zero. It is 100 exactly when every header is present and neither deduction
  applies, and then no vulnerability is listed.\<close>

theorem security_audit_score:
  assumes "run_security_audit (Inr client) url = Inr a" "client (http_get url) = Inr resp"
  shows "ad_security_score a = max 0 (ha_score (ad_header_analysis a)
      - (if co_misconfigured (ad_cors_analysis a) then 15 else 0) - (if ad_information_disclosure a \<noteq> [] then 5 else 0))
    \<and> ad_security_score a \<in> {0..100}
    \<and> (ad_security_score a = 100 \<longleftrightarrow>
         headers_present resp = 7 \<and> \<not> co_misconfigured (ad_cors_analysis a) \<and> ad_information_disclosure a = [])
    \<and> (ad_security_score a = 100 \<longleftrightarrow> ad_vulnerabilities a = [] \<and> headers_present resp = 7)"
proof -
  obtain k :: int where k: "ha_score (analyze_headers resp) = of_int k" "0 \<le> k" "k \<le> 100"
      "k = 100 \<longleftrightarrow> headers_present resp = 7" "headers_present resp = 7 \<Longrightarrow> \<not> k < 50"
    using ha_score_percent by blast
  have a: "a = (case run_security_audit (Inr client) url of Inr a \<Rightarrow> a)" using assms(1) by simp
  have cors: "co_misconfigured (analyze_cors client url) \<longleftrightarrow>
      co_allows_all_origins (analyze_cors client url) \<and> co_allows_credentials (analyze_cors client url)"
    by (simp add: analyze_cors_def Let_def split: sum.split)
  show ?thesis
    unfolding a using k cors
    by (auto simp: run_security_audit_def assms(2) Let_def audit_score_eq audit_vulnerabilities_def)
qed

theorem security_audit_score_witness:
  "\<exists>a. run_security_audit (Inr (\<lambda>_. Inr \<lparr> hr_status = 200, hr_headers = [(''server'', Some ''x'')],
        hr_json = Inl '''' \<rparr>)) ''http://h'' = Inr a \<and> ad_security_score a = 0"
proof -
  let ?resp = "\<lparr> hr_status = 200, hr_headers = [(''server'', Some ''x'')], hr_json = Inl '''' \<rparr>"
  obtain a where a: "run_security_audit (Inr (\<lambda>_. Inr ?resp)) ''http://h'' = Inr a"
    by (simp add: run_security_audit_def Let_def)
  then have "ha_score (ad_header_analysis a) = 0"
    by (auto simp: run_security_audit_def Let_def ha_score_cases headers_present_def SECURITY_HEADERS_def hm_get_def)
  then show ?thesis using a security_audit_score [OF a refl] by auto
qed

section \<open>JSON-RPC over the registry of the server\<close>

text \<open>The registry after start-up (\<open>main.rs\<close>); the arguments are those of the tools.\<close>

definition server_tools :: "(string \<Rightarrow> url option) \<Rightarrow> (json \<Rightarrow> u64 option) \<Rightarrow> (string + unit) \<Rightarrow> (nat \<Rightarrow> user_run option)
    \<Rightarrow> (load_test_result \<Rightarrow> json) \<Rightarrow> (string + http_client) \<Rightarrow> (audit_result \<Rightarrow> json) \<Rightarrow> tool_registry" where
  "server_tools parse_url as_u64 build runs result_value audit_client audit_value =
     tool_register (security_audit_tool parse_url audit_client audit_value)
       (tool_register (load_testing_tool parse_url as_u64 build runs result_value)
         (tool_register json_transform_tool (tool_register echo_tool tool_registry_new)))"

definition checked_registry :: "tool_registry \<Rightarrow> bool" where
  "checked_registry reg \<longleftrightarrow> registry_ok reg \<and> (\<forall>n t. hm_get reg n = Some t \<longrightarrow> checked_tool t)"

lemma checked_registry_register:
  "checked_registry reg \<Longrightarrow> checked_tool t \<Longrightarrow> checked_registry (tool_register t reg)"
  by (auto simp: checked_registry_def registry_ok_register checked_tool.axioms(1)) (auto simp: tool_register_def split: if_splits)

lemma checked_registry_remove: "checked_registry reg \<Longrightarrow> checked_registry (snd (remove_tool n reg))"
  by (auto simp: checked_registry_def remove_tool_def registry_ok_remove split: prod.split if_splits)
    (metis registry_ok_remove snd_conv, auto simp: tool_remove_def split: if_splits)

lemma checked_registry_removed:
  "checked_registry reg \<Longrightarrow> checked_registry (fold (\<lambda>n. snd \<circ> remove_tool n) ns reg)"
  by (induction ns arbitrary: reg) (simp_all add: checked_registry_remove)

lemma checked_registry_server:
  "checked_registry (server_tools parse_url as_u64 build runs result_value audit_client audit_value)"
  unfolding server_tools_def
  by (intro checked_registry_register echo.checked_tool_axioms json_transform.checked_tool_axioms
      load_testing.checked_tool_axioms security_audit.checked_tool_axioms)
    (simp add: checked_registry_def tool_registry_new_def registry_ok_new [unfolded tool_registry_new_def])

lemma call_without_required:
  assumes reg: "checked_registry reg" and s: "s \<in> set (tool_list reg)"
    and missing: "\<not> set (required_names (ts_parameters s)) \<subseteq> dom (hm_get (call_arguments params))"
    and name: "json_field ''name'' as_str params = Some (ts_name s)"
  obtains msg where "handle_tools_call to_string i params reg = RpcSuccess i (text_content msg True)"
proof -
  from s obtain n t where t: "hm_get reg n = Some t" "s = nt_schema t"
    using reg by (auto simp: tool_list_def checked_registry_def registry_ok_def hm_values_get)
  with reg have ct: "checked_tool t" and n: "nt_name t = n"
    by (auto simp: checked_registry_def registry_ok_def)
  then have "ts_name s = n"
    using t(2) tool.schema_name checked_tool.axioms(1) by metis
  moreover obtain p where "p \<in> set (ts_parameters s)" "ps_required p" "hm_get (call_arguments params) (ps_name p) = None"
    using missing by (auto simp: required_names_def)
  then have "\<not> to_success (nt_execute t (tool_input_new (call_arguments params)))"
    using checked_tool.required [OF ct] t(2) by (simp add: tool_input_new_def)
  ultimately show ?thesis
    using that name t(1) by (auto simp: handle_tools_call_def tool_get_def Let_def)
qed

text \<open>C15. The JSON-RPC service keeps what it advertises: whatever tools are removed over the API from
  the registry of the server, the registry lists each tool name once, and a \<open>tools/call\<close> of a
  listed tool without one of the parameters listed as required is answered with an error result.\<close>

theorem mcp_required_enforced:
  assumes "reg = fold (\<lambda>n. snd \<circ> remove_tool n) removed
      (server_tools parse_url as_u64 build runs result_value audit_client audit_value)"
    and "s \<in> set (tool_list reg)"
    and "jr_method req = ''tools/call''" "json_field ''name'' as_str (jr_params req) = Some (ts_name s)"
    and "\<not> set (required_names (ts_parameters s)) \<subseteq> dom (hm_get (call_arguments (jr_params req)))"
  shows "distinct (map ts_name (tool_list reg)) \<and>
    (\<exists>msg. mcp_handler version to_string input_schema reg req =
       RpcSuccess (case jr_id req of None \<Rightarrow> JNull | Some v \<Rightarrow> v) (text_content msg True))"
proof -
  have reg: "checked_registry reg"
    using assms(1) checked_registry_removed checked_registry_server by blast
  obtain msg where "handle_tools_call to_string (case jr_id req of None \<Rightarrow> JNull | Some v \<Rightarrow> v) (jr_params req) reg =
      RpcSuccess (case jr_id req of None \<Rightarrow> JNull | Some v \<Rightarrow> v) (text_content msg True)"
    using call_without_required [OF reg assms(2,5,4)] by blast
  then show ?thesis
    using assms(3) tool_list_names [of reg] reg by (auto simp: mcp_handler_def checked_registry_def Let_def)
qed

theorem mcp_required_enforced_witness:
  "\<exists>msg. mcp_handler ''1'' (\<lambda>_. '''') (\<lambda>_ _ _. JNull)
     (snd (remove_tool ''echo'' (server_tools (\<lambda>_. None) (\<lambda>_. None) (Inr ()) (\<lambda>_. None) (\<lambda>_. JNull) (Inl '''') (\<lambda>_. JNull))))
     \<lparr> jr_id = None, jr_method = ''tools/call'', jr_params = JObject [(''name'', JString ''load_testing'')] \<rparr> =
       RpcSuccess JNull (text_content msg True)"
proof -
  let ?t = "load_testing_tool (\<lambda>_. None) (\<lambda>_. None) (Inr ()) (\<lambda>_. None) (\<lambda>_. JNull)"
  let ?srv = "server_tools (\<lambda>_. None) (\<lambda>_. None) (Inr ()) (\<lambda>_. None) (\<lambda>_. JNull) (Inl '''') (\<lambda>_. JNull)"
  let ?reg = "fold (\<lambda>n. snd \<circ> remove_tool n) [''echo''] ?srv"
  let ?req = "\<lparr> jr_id = None, jr_method = ''tools/call'', jr_params = JObject [(''name'', JString ''load_testing'')] \<rparr>"
  have "nt_schema ?t \<in> set (tool_list ?reg)"
    by (simp add: server_tools_def tool_list_def remove_tool_def tool_remove_def tool_register_def
        tool_registry_new_def hm_empty_def hm_insert_def hm_remove_def hm_values_def hm_get_def
        load_testing_tool_def security_audit_tool_def echo_tool_def json_transform_tool_def make_tool_def)
  moreover have "json_field ''name'' as_str (jr_params ?req) = Some (ts_name (nt_schema ?t))"
    by (simp add: json_field_def load_testing_tool_def make_tool_def)
  moreover have "\<not> set (required_names (ts_parameters (nt_schema ?t))) \<subseteq> dom (hm_get (call_arguments (jr_params ?req)))"
    by (simp add: call_arguments_def load_testing_tool_def make_tool_def required_names_def param_def)
  ultimately show ?thesis
    using mcp_required_enforced [OF refl, of "nt_schema ?t" "[''echo'']" _ _ _ _ _ _ _ ?req "''1''" "\<lambda>_. ''''" "\<lambda>_ _ _. JNull"] by simp
qed

end
