(* ===== verification/Definitions.thy ===== *)
theory Definitions
  imports Core_Types
begin

text \<open>
  Agent definitions: crew assembly of \<open>definitions/assembler.rs\<close> and the version store of
  \<open>definitions/versioning.rs\<close>. Scores are rationals; the Unicode lower-case mapping, the clock
  and the fresh identifier are arguments. The version store is related to the complete log of
  what was ever saved, of which it keeps a window.
\<close>

section \<open>Assembly\<close>

record team_member =
  tm_role :: string
  tm_tools :: "string list"
  tm_complexity :: "string option"

definition team_member_new :: "string \<Rightarrow> string list \<Rightarrow> string option \<Rightarrow> team_member" where
  "team_member_new role tools complexity = \<lparr> tm_role = role, tm_tools = tools, tm_complexity = complexity \<rparr>"

definition match_score :: "(string \<Rightarrow> string) \<Rightarrow> team_member \<Rightarrow> 'p agent_definition \<Rightarrow> rat" where
  "match_score lower member agent =
     (let member_role = lower (tm_role member);
          ag_role = lower (agent_role agent);
          score = (if ag_role = member_role then 10
                   else if str_contains ag_role member_role \<or> str_contains member_role ag_role then 5 else 0);
          score = (if str_contains (lower (agent_name agent)) member_role then score + 2 else score);
          score = fold (\<lambda>tool s. if list_ex (\<lambda>t. lower t = lower tool) (agent_tools agent) then s + 3 else s)
                    (tm_tools member) score
      in case tm_complexity member of
           Some requested \<Rightarrow> if lower (agent_complexity agent) = lower requested then score + 2 else score
         | None \<Rightarrow> score)"

definition assemble_team :: "(string \<Rightarrow> string) \<Rightarrow> team_member list \<Rightarrow> 'p agent_definition list \<Rightarrow> 'p agent_definition list" where
  "assemble_team lower members available =
     List.map_filter (\<lambda>member.
       case max_by_key (match_score lower member) available of
         None \<Rightarrow> None
       | Some agent \<Rightarrow> if match_score lower member agent > 0 then Some agent else None) members"

definition build_crew :: "(string \<Rightarrow> string) \<Rightarrow> uuid \<Rightarrow> string \<Rightarrow> team_member list \<Rightarrow> 'p agent_definition list \<Rightarrow> task list
    \<Rightarrow> 'p crew_spec" where
  "build_crew lower fresh name members available tasks =
     (crew_spec_new fresh name)\<lparr>crew_agents := assemble_team lower members available, crew_tasks := tasks\<rparr>"

section \<open>The version store\<close>

record 'p definition_version =
  dv_version :: u32
  dv_definition :: "'p agent_definition"
  dv_created_at :: int
  dv_message :: "string option"

definition MAX_VERSIONS_PER_AGENT :: nat where
  "MAX_VERSIONS_PER_AGENT = 500"

type_synonym 'p version_store = "(string, 'p definition_version list) hmap"

definition version_store_new :: "'p version_store" where
  "version_store_new = hm_empty"

definition save_version :: "int \<Rightarrow> 'p agent_definition \<Rightarrow> string option \<Rightarrow> 'p version_store \<Rightarrow> u32 \<times> 'p version_store" where
  "save_version now d msg store =
     (let key = agent_key d;
          history = (case hm_get store key of None \<Rightarrow> [] | Some h \<Rightarrow> h);
          history = (if MAX_VERSIONS_PER_AGENT \<le> length history
                     then drop (length history - MAX_VERSIONS_PER_AGENT + 1) history else history);
          version = (if history = [] then 1 else dv_version (last history) + 1)
      in (version,
          hm_insert key (history @ [\<lparr> dv_version = version, dv_definition = d, dv_created_at = now, dv_message = msg \<rparr>])
            store))"

definition get_version :: "string \<Rightarrow> u32 \<Rightarrow> 'p version_store \<Rightarrow> 'p definition_version option" where
  "get_version key version store =
     Option.bind (hm_get store key) (find (\<lambda>v. dv_version v = version))"

definition latest_version :: "string \<Rightarrow> 'p version_store \<Rightarrow> 'p definition_version option" where
  "latest_version key store = Option.bind (hm_get store key) (\<lambda>h. if h = [] then None else Some (last h))"

definition list_versions :: "string \<Rightarrow> 'p version_store \<Rightarrow> 'p definition_version list" where
  "list_versions key store = (case hm_get store key of None \<Rightarrow> [] | Some h \<Rightarrow> h)"

definition rollback :: "int \<Rightarrow> string \<Rightarrow> u32 \<Rightarrow> 'p version_store \<Rightarrow> 'p agent_definition option \<times> 'p version_store" where
  "rollback now key version store =
     (case hm_get store key of
        None \<Rightarrow> (None, store)
      | Some h \<Rightarrow>
          (case find (\<lambda>v. dv_version v = version) h of
             None \<Rightarrow> (None, store)
           | Some v \<Rightarrow>
               (let old_def = dv_definition v
                in (Some old_def,
                    snd (save_version now old_def (Some (''Rollback to version '' @ nat_str (unat version))) store)))))"

section \<open>Assembly picks the best match\<close>

text \<open>Each member of an assembled team is the best of the available agents for a requested
  member, with a positive score; a member is left out exactly when no agent has a positive
  score, and the order of the request is kept.\<close>

theorem assemble_team_best:
  "\<exists>picks. assemble_team lower members available = List.map_filter (\<lambda>p. p) picks \<and>
     list_all2 (\<lambda>member p. case p of
         None \<Rightarrow> set available \<subseteq> {a. match_score lower member a \<le> 0}
       | Some agent \<Rightarrow> agent \<in> set available \<and> 0 < match_score lower member agent \<and>
           set available \<subseteq> {a. match_score lower member a \<le> match_score lower member agent}) members picks"
proof (intro exI conjI)
  let ?pick = "\<lambda>member. case max_by_key (match_score lower member) available of
         None \<Rightarrow> None
       | Some agent \<Rightarrow> if match_score lower member agent > 0 then Some agent else None"
  show "assemble_team lower members available = List.map_filter (\<lambda>p. p) (map ?pick members)"
    by (simp add: assemble_team_def List.map_filter_def comp_def filter_map)
  show "list_all2 (\<lambda>member p. case p of
         None \<Rightarrow> set available \<subseteq> {a. match_score lower member a \<le> 0}
       | Some agent \<Rightarrow> agent \<in> set available \<and> 0 < match_score lower member agent \<and>
           set available \<subseteq> {a. match_score lower member a \<le> match_score lower member agent}) members (map ?pick members)"
    by (auto simp: list.rel_map list_all2_same dest!: max_by_key_Some split: option.splits)
qed

section \<open>The version store is a window of the log\<close>

text \<open>The abstract store: per key, everything that was ever saved.\<close>

type_synonym 'p version_log = "string \<Rightarrow> ('p agent_definition \<times> int \<times> string option) list"

datatype 'p version_event = Save int "'p agent_definition" "string option" | Rollback int string u32

fun version_step :: "'p version_event \<Rightarrow> 'p version_store \<Rightarrow> 'p version_store" where
  "version_step (Save now d msg) store = snd (save_version now d msg store)"
| "version_step (Rollback now key v) store = snd (rollback now key v store)"

definition log_save :: "int \<Rightarrow> 'p agent_definition \<Rightarrow> string option \<Rightarrow> 'p version_log \<Rightarrow> 'p version_log" where
  "log_save now d msg logs = logs(agent_key d := logs (agent_key d) @ [(d, now, msg)])"

definition in_window :: "nat \<Rightarrow> nat \<Rightarrow> bool" where
  "in_window n v \<longleftrightarrow> n - MAX_VERSIONS_PER_AGENT < v \<and> v \<le> n"

fun log_step :: "'p version_event \<Rightarrow> 'p version_log \<Rightarrow> 'p version_log" where
  "log_step (Save now d msg) logs = log_save now d msg logs"
| "log_step (Rollback now key v) logs =
     (if in_window (length (logs key)) (unat v)
      then log_save now (fst (logs key ! (unat v - 1))) (Some (''Rollback to version '' @ nat_str (unat v))) logs
      else logs)"

definition entry_of :: "('p agent_definition \<times> int \<times> string option) list \<Rightarrow> nat \<Rightarrow> 'p definition_version" where
  "entry_of l i = (case l ! (i - 1) of (d, now, msg) \<Rightarrow>
     \<lparr> dv_version = of_nat i, dv_definition = d, dv_created_at = now, dv_message = msg \<rparr>)"

definition window :: "('p agent_definition \<times> int \<times> string option) list \<Rightarrow> 'p definition_version list" where
  "window l = map (entry_of l) [Suc (length l - MAX_VERSIONS_PER_AGENT)..<Suc (length l)]"

definition store_refines :: "'p version_log \<Rightarrow> 'p version_store \<Rightarrow> bool" where
  "store_refines logs store \<longleftrightarrow>
     (\<forall>k. hm_get store k = (if logs k = [] then None else Some (window (logs k)))) \<and>
     (\<forall>k. \<forall>x \<in> set (logs k). agent_key (fst x) = k)"

lemma entry_of_append: "0 < i \<Longrightarrow> i \<le> length l \<Longrightarrow> entry_of (l @ xs) i = entry_of l i"
  by (simp add: entry_of_def nth_append)

lemma window_empty: "window [] = []"
  by (simp add: window_def)

lemma window_snoc:
  "window (l @ [x]) =
     (if MAX_VERSIONS_PER_AGENT \<le> length (window l)
      then drop (length (window l) - MAX_VERSIONS_PER_AGENT + 1) (window l) else window l) @
     [entry_of (l @ [x]) (Suc (length l))]"
proof -
  have len: "length (window l) = min (length l) MAX_VERSIONS_PER_AGENT" by (auto simp: window_def)
  have old: "map (entry_of (l @ [x])) [Suc j..<Suc (length l)] = map (entry_of l) [Suc j..<Suc (length l)]" for j
    by (rule map_cong) (auto intro!: entry_of_append simp del: length_greater_0_conv)
  define j where "j = Suc (length l) - MAX_VERSIONS_PER_AGENT"
  have "j \<le> length l" by (simp add: j_def MAX_VERSIONS_PER_AGENT_def)
  then have "window (l @ [x]) = map (entry_of l) [Suc j..<Suc (length l)] @ [entry_of (l @ [x]) (Suc (length l))]"
    by (simp only: window_def length_append_singleton j_def [symmetric] upt_Suc_append [of "Suc j" "Suc (length l)"]
        Suc_le_mono map_append old list.map)
  moreover have "map (entry_of l) [Suc j..<Suc (length l)] = (if MAX_VERSIONS_PER_AGENT \<le> length (window l)
      then drop (length (window l) - MAX_VERSIONS_PER_AGENT + 1) (window l) else window l)"
    by (auto simp: len window_def drop_map j_def Suc_diff_le min_def simp del: upt_Suc)
  ultimately show ?thesis by simp
qed

lemma find_window:
  assumes "length l < 2 ^ 32"
  shows "find (\<lambda>d. dv_version d = v) (window l) =
    (if in_window (length l) (unat v) then Some (entry_of l (unat v)) else None)"
proof -
  have ver: "dv_version (entry_of l i) = v \<longleftrightarrow> i = unat v" if "i \<le> length l" for i
    using that assms by (auto simp: entry_of_def unat_of_nat take_bit_nat_eq_self split: prod.split)
  show ?thesis
  proof (cases "in_window (length l) (unat v)")
    case True
    then have "entry_of l (unat v) \<in> set (window l)" 
      by (auto simp: window_def in_window_def simp del: upt_Suc)
    then obtain d where d: "find (\<lambda>d. dv_version d = v) (window l) = Some d"
      using ver [of "unat v"] True by (cases "find (\<lambda>d. dv_version d = v) (window l)") (auto simp: find_None_iff in_window_def)
    then have "d \<in> set (window l)" and dv: "dv_version d = v" by (auto simp: find_Some_iff)
    then obtain i where "d = entry_of l i" "i \<le> length l"
      by (auto simp: window_def less_Suc_eq_le simp del: upt_Suc)
    with d dv ver True show ?thesis by auto
  next
    case False
    have "dv_version d \<noteq> v" if d: "d \<in> set (window l)" for d
    proof -
      from d obtain i where "d = entry_of l i" "length l - MAX_VERSIONS_PER_AGENT < i" "i \<le> length l"
        by (auto simp: window_def less_Suc_eq_le Suc_le_eq simp del: upt_Suc)
      with ver False show ?thesis by (auto simp: in_window_def)
    qed
    then have "find (\<lambda>d. dv_version d = v) (window l) = None" by (auto simp: find_None_iff)
    with False show ?thesis by simp
  qed
qed

lemma store_refines_new: "store_refines (\<lambda>_. []) version_store_new"
  by (simp add: store_refines_def version_store_new_def)

lemma window_last: "l \<noteq> [] \<Longrightarrow> window l \<noteq> [] \<and> dv_version (last (window l)) = of_nat (length l)"
  by (cases l) (auto simp: window_def entry_of_def MAX_VERSIONS_PER_AGENT_def last_map split: prod.split)

lemma save_version_refines:
  assumes "store_refines logs store"
  shows "store_refines (log_save now d msg logs) (snd (save_version now d msg store))"
    and "fst (save_version now d msg store) = of_nat (length (log_save now d msg logs (agent_key d)))"
proof -
  let ?l = "logs (agent_key d)" and ?x = "(d, now, msg)"
  let ?h = "if MAX_VERSIONS_PER_AGENT \<le> length (window ?l)
      then drop (length (window ?l) - MAX_VERSIONS_PER_AGENT + 1) (window ?l) else window ?l"
  have h: "(case hm_get store (agent_key d) of None \<Rightarrow> [] | Some h \<Rightarrow> h) = window ?l"
    using assms by (simp add: store_refines_def window_empty)
  have version: "(if ?h = [] then 1 else dv_version (last ?h) + 1) = of_nat (Suc (length ?l))"
  proof (cases "?l = []")
    case False
    have "?h \<noteq> []" "last ?h = last (window ?l)"
      using window_last [OF False] by (auto simp: MAX_VERSIONS_PER_AGENT_def last_drop)
    then show ?thesis using window_last [OF False] by simp
  qed (simp add: window_empty MAX_VERSIONS_PER_AGENT_def)
  have saved: "save_version now d msg store =
      (of_nat (Suc (length ?l)), hm_insert (agent_key d) (window (?l @ [?x])) store)"
    unfolding save_version_def Let_def h version window_snoc by (simp add: entry_of_def)
  show "store_refines (log_save now d msg logs) (snd (save_version now d msg store))"
    using assms by (auto simp: saved store_refines_def log_save_def)
  show "fst (save_version now d msg store) = of_nat (length (log_save now d msg logs (agent_key d)))"
    by (simp add: saved log_save_def)
qed

lemma rollback_refines:
  assumes "store_refines logs store" "length (logs key) < 2 ^ 32"
  shows "store_refines (log_step (Rollback now key v) logs) (snd (rollback now key v store))"
    and "fst (rollback now key v store) =
      (if in_window (length (logs key)) (unat v) then Some (fst (logs key ! (unat v - 1))) else None)"
proof -
  have found: "(case hm_get store key of None \<Rightarrow> None | Some h \<Rightarrow> find (\<lambda>d. dv_version d = v) h) =
      (if in_window (length (logs key)) (unat v) then Some (entry_of (logs key) (unat v)) else None)"
    using assms(1) find_window [OF assms(2), of v] by (auto simp: store_refines_def in_window_def)
  have d: "dv_definition (entry_of l i) = fst (l ! (i - 1))" for l :: "('a agent_definition \<times> int \<times> string option) list" and i
    by (simp add: entry_of_def split: prod.split)
  show "store_refines (log_step (Rollback now key v) logs) (snd (rollback now key v store))"
    using found assms(1) save_version_refines(1) [OF assms(1)]
    by (auto simp: rollback_def Let_def d split: option.splits if_splits)
  show "fst (rollback now key v store) =
      (if in_window (length (logs key)) (unat v) then Some (fst (logs key ! (unat v - 1))) else None)"
    using found by (auto simp: rollback_def Let_def d split: option.splits if_splits)
qed

lemma log_step_grows: "length (logs k) \<le> length (log_step ev logs k)"
  by (cases ev) (auto simp: log_save_def)

lemma log_run_grows: "length (logs k) \<le> length (fold log_step evs logs k)"
  by (induction evs arbitrary: logs) (auto intro: order_trans [OF log_step_grows])

lemma version_run_refines:
  assumes "store_refines logs store" "\<And>k. length (fold log_step evs logs k) < 2 ^ 32"
  shows "store_refines (fold log_step evs logs) (fold version_step evs store)"
  using assms
proof (induction evs arbitrary: logs store)
  case (Cons ev evs)
  have "length (logs k) < 2 ^ 32" for k
    using le_less_trans [OF log_run_grows Cons.prems(2)] .
  then have "store_refines (log_step ev logs) (version_step ev store)"
    using Cons.prems(1) by (cases ev) (auto simp: save_version_refines(1) rollback_refines(1) simp del: log_step.simps(2))
  with Cons show ?case by simp
qed simp

text \<open>C22. The version store keeps a window of everything that was ever saved: after any saves and
  rollbacks, fewer than \<open>2 ^ 32\<close> for a key, the versions listed for a key are the last 500
  of its log, numbered by their position in the log, and looking a number up gives the
  definition saved as that number, or nothing when it is outside the window.\<close>

theorem version_store_refines:
  assumes "\<And>k. length (fold log_step evs (\<lambda>_. []) k) < 2 ^ 32"
  shows "list_versions key (fold version_step evs version_store_new) = window (fold log_step evs (\<lambda>_. []) key) \<and>
    get_version key v (fold version_step evs version_store_new) =
      (if in_window (length (fold log_step evs (\<lambda>_. []) key)) (unat v)
       then Some (entry_of (fold log_step evs (\<lambda>_. []) key) (unat v)) else None)"
proof -
  have r: "store_refines (fold log_step evs (\<lambda>_. [])) (fold version_step evs version_store_new)"
    using version_run_refines [OF store_refines_new assms] .
  show ?thesis
    using r find_window [OF assms, of v key]
    by (auto simp: store_refines_def list_versions_def get_version_def window_empty in_window_def)
qed

theorem version_store_refines_witness:
  "map dv_version (list_versions ''a'' (fold version_step
     [Save 1 (agent_definition_new ''a'' ''r'' ''g'' :: unit agent_definition) None,
      Save 2 (agent_definition_new ''a'' ''r2'' ''g'') None, Rollback 3 ''a'' 1] version_store_new)) = [1, 2, 3]"
proof -
  let ?evs = "[Save 1 (agent_definition_new ''a'' ''r'' ''g'' :: unit agent_definition) None,
      Save 2 (agent_definition_new ''a'' ''r2'' ''g'') None, Rollback 3 ''a'' 1]"
  have logs: "length (fold log_step ?evs (\<lambda>_. []) k) = (if k = ''a'' then 3 else 0)" for k
    by (simp add: log_save_def in_window_def agent_definition_new_def MAX_VERSIONS_PER_AGENT_def)
  have "window l = [entry_of l 1, entry_of l 2, entry_of l 3]"
    if "length l = 3" for l :: "(unit agent_definition \<times> int \<times> string option) list"
    using that by (simp add: window_def MAX_VERSIONS_PER_AGENT_def upt_rec numeral_eq_Suc)
  moreover have "dv_version (entry_of l i) = of_nat i" for l :: "(unit agent_definition \<times> int \<times> string option) list" and i
    by (simp add: entry_of_def split: prod.split)
  ultimately show ?thesis
    using version_store_refines [of ?evs "''a''" 1] logs by simp
qed

end
