(* ===== verification/Packaging.thy ===== *)
theory Packaging
  imports Definitions
begin

text \<open>
  Getting definitions in and out: \<open>definitions/loader.rs\<close> and \<open>definitions/packaging.rs\<close>.
  The file system, the \<open>zip\<close> crate and the serialisation of \<open>serde\<close> are arguments, with what
  the round trip relies on as named laws. File contents are their UTF-8 bytes.
\<close>

section \<open>Results\<close>

fun bind_res :: "'a res \<Rightarrow> ('a \<Rightarrow> 'b res) \<Rightarrow> 'b res" where
  "bind_res (Inl e) f = Inl e"
| "bind_res (Inr x) f = f x"

fun map_err :: "('e \<Rightarrow> agnosai_error) \<Rightarrow> 'e + 'a \<Rightarrow> 'a res" where
  "map_err f (Inl e) = Inl (f e)"
| "map_err f (Inr x) = Inr x"

text \<open>A loop that stops at the first error.\<close>

fun fold_res :: "('a \<Rightarrow> 's \<Rightarrow> 's res) \<Rightarrow> 'a list \<Rightarrow> 's \<Rightarrow> 's res" where
  "fold_res f [] s = Inr s"
| "fold_res f (x # xs) s = bind_res (f x s) (fold_res f xs)"

lemma bind_res_Inr: "bind_res r f = Inr y \<longleftrightarrow> (\<exists>x. r = Inr x \<and> f x = Inr y)"
  by (cases r) auto

lemma map_err_Inr: "map_err f r = Inr y \<longleftrightarrow> r = Inr y"
  by (cases r) auto

text \<open>A loop that extends a list, when every step succeeds.\<close>

lemma fold_res_append:
  "fold_res (\<lambda>x acc. bind_res (f x) (\<lambda>ys. Inr (acc @ ys))) xs acc = Inr r \<longleftrightarrow>
     (\<exists>yss. list_all2 (\<lambda>x ys. f x = Inr ys) xs yss \<and> r = acc @ concat yss)"
proof (induction xs arbitrary: acc)
  case (Cons x xs)
  show ?case
  proof (cases "f x")
    case (Inr ys)
    with Cons.IH [of "acc @ ys"] show ?thesis by (auto simp: list_all2_Cons1)
  qed (auto simp: list_all2_Cons1)
qed auto

section \<open>Loading\<close>

record 'p serde_ops =
  so_def_from_json :: "string \<Rightarrow> string + 'p agent_definition"
  so_def_from_yaml :: "string \<Rightarrow> string + 'p agent_definition"
  so_def_text :: "'p agent_definition \<Rightarrow> string + string"

definition load_from_json :: "'p serde_ops \<Rightarrow> string \<Rightarrow> 'p agent_definition res" where
  "load_from_json ops json = map_err Serialization (so_def_from_json ops json)"

definition load_from_yaml :: "'p serde_ops \<Rightarrow> string \<Rightarrow> 'p agent_definition res" where
  "load_from_yaml ops yaml = map_err InvalidDefinition (so_def_from_yaml ops yaml)"

text \<open>The files: reading one, what is a regular file, and the entries of a directory.\<close>

record file_system =
  fs_read_to_string :: "string \<Rightarrow> string + string"
  fs_is_file :: "string \<Rightarrow> bool"
  fs_read_dir :: "string \<Rightarrow> string + (string + string) list"

text \<open>\<open>Path::extension\<close> of the last component: what follows the last dot, unless there is none or
  only the first character is one.\<close>

definition path_extension :: "string \<Rightarrow> string option" where
  "path_extension path =
     (let name = rev (takeWhile (\<lambda>c. c \<noteq> CHR ''/'') (rev path));
          ext = rev (takeWhile (\<lambda>c. c \<noteq> CHR ''.'') (rev name))
      in if name = ''..'' \<or> length name \<le> length ext + 1 then None else Some ext)"

definition lower_extension :: "(string \<Rightarrow> string) \<Rightarrow> string \<Rightarrow> string" where
  "lower_extension lower path = lower (case path_extension path of None \<Rightarrow> '''' | Some e \<Rightarrow> e)"

definition load_from_file :: "(string \<Rightarrow> string) \<Rightarrow> 'p serde_ops \<Rightarrow> file_system \<Rightarrow> string \<Rightarrow> 'p agent_definition res" where
  "load_from_file lower ops fs path =
     (let ext = lower_extension lower path
      in bind_res (map_err Io (fs_read_to_string fs path)) (\<lambda>content.
           if ext = ''json'' then load_from_json ops content
           else if ext = ''yaml'' \<or> ext = ''yml'' then load_from_yaml ops content
           else Inl (InvalidDefinition (''unsupported file extension: '' @ ext))))"

definition load_entry :: "(string \<Rightarrow> bool) \<Rightarrow> (string \<Rightarrow> 'd res) \<Rightarrow> file_system \<Rightarrow> string + string \<Rightarrow> 'd list res" where
  "load_entry wanted load fs entry =
     bind_res (map_err Io entry) (\<lambda>path.
       if \<not> fs_is_file fs path then Inr []
       else if wanted path then bind_res (load path) (\<lambda>d. Inr [d]) else Inr [])"

definition load_all_from_dir :: "(string \<Rightarrow> string) \<Rightarrow> 'p serde_ops \<Rightarrow> file_system \<Rightarrow> string \<Rightarrow> 'p agent_definition list res" where
  "load_all_from_dir lower ops fs dir =
     bind_res (map_err Io (fs_read_dir fs dir)) (\<lambda>entries.
       fold_res (\<lambda>entry defs. bind_res
           (load_entry (\<lambda>path. lower_extension lower path \<in> {''json'', ''yaml'', ''yml''}) (load_from_file lower ops fs) fs entry)
           (\<lambda>ds. Inr (defs @ ds))) entries [])"

record 'p preset_spec =
  pr_name :: string
  pr_description :: string
  pr_domain :: string
  pr_size :: string
  pr_version :: string
  pr_agents :: "'p agent_definition list"

definition load_preset_from_json :: "(string \<Rightarrow> string + 'p preset_spec) \<Rightarrow> string \<Rightarrow> 'p preset_spec res" where
  "load_preset_from_json parse json = map_err Serialization (parse json)"

definition load_preset_from_file :: "(string \<Rightarrow> string + 'p preset_spec) \<Rightarrow> file_system \<Rightarrow> string \<Rightarrow> 'p preset_spec res" where
  "load_preset_from_file parse fs path =
     bind_res (map_err Io (fs_read_to_string fs path)) (load_preset_from_json parse)"

definition load_all_presets :: "(string \<Rightarrow> string) \<Rightarrow> (string \<Rightarrow> string + 'p preset_spec) \<Rightarrow> file_system \<Rightarrow> string
    \<Rightarrow> 'p preset_spec list res" where
  "load_all_presets lower parse fs dir =
     bind_res (map_err Io (fs_read_dir fs dir)) (\<lambda>entries.
       fold_res (\<lambda>entry presets. bind_res
           (load_entry (\<lambda>path. lower_extension lower path = ''json'') (load_preset_from_file parse fs) fs entry)
           (\<lambda>ps. Inr (presets @ ps))) entries [])"

text \<open>The texts of the presets are compiled in: an argument.\<close>

definition builtin_presets :: "(string \<Rightarrow> string + 'p preset_spec) \<Rightarrow> string list \<Rightarrow> 'p preset_spec list" where
  "builtin_presets parse jsons =
     List.map_filter (\<lambda>j. case load_preset_from_json parse j of Inl _ \<Rightarrow> None | Inr p \<Rightarrow> Some p) jsons"

section \<open>Packages\<close>

record package_manifest =
  pm_name :: string
  pm_version :: string
  pm_metadata :: json

record 'p agnos_package =
  pk_name :: string
  pk_version :: string
  pk_definitions :: "'p agent_definition list"
  pk_metadata :: json

definition package_new :: "string \<Rightarrow> string \<Rightarrow> 'p agnos_package" where
  "package_new name version = \<lparr> pk_name = name, pk_version = version, pk_definitions = [], pk_metadata = JObject [] \<rparr>"

definition add_definition :: "'p agent_definition \<Rightarrow> 'p agnos_package \<Rightarrow> 'p agnos_package" where
  "add_definition d p = p\<lparr>pk_definitions := pk_definitions p @ [d]\<rparr>"

definition MAX_FILE_SIZE :: u64 where
  "MAX_FILE_SIZE = 1024 * 1024"

definition MAX_ENTRIES :: nat where
  "MAX_ENTRIES = 100"

text \<open>The writer \<open>'w\<close>, the reader \<open>'r\<close> and the bytes \<open>'b\<close> of the \<open>zip\<close> crate.\<close>

record zip_file =
  zf_name :: string
  zf_size :: u64
  zf_content :: "string + string"

record ('w, 'r, 'b) zip_ops =
  zo_new :: 'w
  zo_start_file :: "string \<Rightarrow> 'w \<Rightarrow> string + 'w"
  zo_write_all :: "string \<Rightarrow> 'w \<Rightarrow> string + 'w"
  zo_finish :: "'w \<Rightarrow> string + 'b"
  zo_open :: "'b \<Rightarrow> string + 'r"
  zo_len :: "'r \<Rightarrow> nat"
  zo_by_name :: "string \<Rightarrow> 'r \<Rightarrow> string + zip_file"
  zo_by_index :: "nat \<Rightarrow> 'r \<Rightarrow> string + zip_file"

record manifest_ops =
  mo_text :: "package_manifest \<Rightarrow> string + string"
  mo_parse :: "string \<Rightarrow> string + package_manifest"

definition zip_put :: "('w, 'r, 'b) zip_ops \<Rightarrow> string \<Rightarrow> string \<Rightarrow> 'w \<Rightarrow> 'w res" where
  "zip_put zo name text w =
     bind_res (map_err (\<lambda>e. Other (''zip error: '' @ e)) (zo_start_file zo name w))
       (\<lambda>w. map_err Io (zo_write_all zo text w))"

definition def_file :: "'p agent_definition \<Rightarrow> string" where
  "def_file d = ''definitions/'' @ agent_key d @ ''.json''"

definition package_export :: "('w, 'r, 'b) zip_ops \<Rightarrow> manifest_ops \<Rightarrow> 'p serde_ops \<Rightarrow> 'p agnos_package \<Rightarrow> 'b res" where
  "package_export zo mo so p =
     (let manifest = \<lparr> pm_name = pk_name p, pm_version = pk_version p, pm_metadata = pk_metadata p \<rparr>
      in bind_res (map_err Serialization (mo_text mo manifest)) (\<lambda>manifest_json.
         bind_res (zip_put zo ''manifest.json'' manifest_json (zo_new zo)) (\<lambda>w.
         bind_res (fold_res (\<lambda>d w.
             bind_res (map_err Serialization (so_def_text so d)) (\<lambda>def_json. zip_put zo (def_file d) def_json w))
             (pk_definitions p) w) (\<lambda>w.
         map_err (\<lambda>e. Other (''zip finish error: '' @ e)) (zo_finish zo w)))))"

definition def_names :: "('w, 'r, 'b) zip_ops \<Rightarrow> 'r \<Rightarrow> string list" where
  "def_names zo archive =
     List.map_filter (\<lambda>i.
       case zo_by_index zo i archive of
         Inl _ \<Rightarrow> None
       | Inr f \<Rightarrow>
           if str_contains (zf_name f) ''..'' then None
           else if starts_with (zf_name f) ''definitions/'' \<and> ends_with (zf_name f) ''.json'' then Some (zf_name f)
           else None) [0..<zo_len zo archive]"

definition read_manifest :: "('w, 'r, 'b) zip_ops \<Rightarrow> manifest_ops \<Rightarrow> 'r \<Rightarrow> package_manifest res" where
  "read_manifest zo mo archive =
     bind_res (map_err (\<lambda>e. InvalidDefinition (''missing manifest.json: '' @ e)) (zo_by_name zo ''manifest.json'' archive)) (\<lambda>f.
       if MAX_FILE_SIZE < zf_size f then Inl (InvalidDefinition ''manifest.json exceeds 1 MiB size limit'')
       else bind_res (map_err Io (zf_content f)) (\<lambda>content. map_err Serialization (mo_parse mo content)))"

definition read_definition :: "('w, 'r, 'b) zip_ops \<Rightarrow> 'p serde_ops \<Rightarrow> 'r \<Rightarrow> string \<Rightarrow> 'p agent_definition res" where
  "read_definition zo so archive name =
     bind_res (map_err (\<lambda>e. Other (''zip read error: '' @ e)) (zo_by_name zo name archive)) (\<lambda>f.
       if MAX_FILE_SIZE < zf_size f then Inl (InvalidDefinition (name @ '' exceeds 1 MiB size limit''))
       else bind_res (map_err Io (zf_content f)) (\<lambda>content. map_err Serialization (so_def_from_json so content)))"

definition package_import :: "('w, 'r, 'b) zip_ops \<Rightarrow> manifest_ops \<Rightarrow> 'p serde_ops \<Rightarrow> 'b \<Rightarrow> 'p agnos_package res" where
  "package_import zo mo so data =
     bind_res (map_err (\<lambda>e. InvalidDefinition (''invalid zip: '' @ e)) (zo_open zo data)) (\<lambda>archive.
       if MAX_ENTRIES < zo_len zo archive
       then Inl (InvalidDefinition (''package has '' @ nat_str (zo_len zo archive) @ '' entries, max is '' @ nat_str MAX_ENTRIES))
       else bind_res (read_manifest zo mo archive) (\<lambda>manifest.
         bind_res (fold_res (\<lambda>name defs. bind_res (bind_res (read_definition zo so archive name) (\<lambda>d. Inr [d]))
             (\<lambda>ds. Inr (defs @ ds))) (def_names zo archive) [])
           (\<lambda>defs. Inr \<lparr> pk_name = pm_name manifest, pk_version = pm_version manifest, pk_definitions = defs,
                         pk_metadata = pm_metadata manifest \<rparr>)))"

definition export_to_file :: "('w, 'r, 'b) zip_ops \<Rightarrow> manifest_ops \<Rightarrow> 'p serde_ops \<Rightarrow> ('b \<Rightarrow> 'f \<Rightarrow> string + 'f)
    \<Rightarrow> 'p agnos_package \<Rightarrow> 'f \<Rightarrow> 'f res" where
  "export_to_file zo mo so fs_write p fs = bind_res (package_export zo mo so p) (\<lambda>bytes. map_err Io (fs_write bytes fs))"

definition import_from_file :: "('w, 'r, 'b) zip_ops \<Rightarrow> manifest_ops \<Rightarrow> 'p serde_ops \<Rightarrow> (string + 'b) \<Rightarrow> 'p agnos_package res" where
  "import_from_file zo mo so fs_read = bind_res (map_err Io fs_read) (package_import zo mo so)"

section \<open>The round trip of a package\<close>

text \<open>What an archive is relied on for: entries of distinct names, within the limits of the format,
  are read back in order, by index and by name.\<close>

definition zip_law :: "('w, 'r, 'b) zip_ops \<Rightarrow> bool" where
  "zip_law zo \<longleftrightarrow>
     (\<forall>es. distinct (map fst es) \<and> length es < 2 ^ 16 \<and>
        (\<forall>(n, t) \<in> set es. length n < 2 ^ 16 \<and> length t < 2 ^ 32) \<longrightarrow>
        (\<exists>w b r. fold_res (\<lambda>(n, t). zip_put zo n t) es (zo_new zo) = Inr w \<and> zo_finish zo w = Inr b \<and>
           zo_open zo b = Inr r \<and> zo_len zo r = length es \<and>
           (\<forall>i < length es. \<exists>f. zo_by_index zo i r = Inr f \<and> zf_name f = fst (es ! i)) \<and>
           (\<forall>(n, t) \<in> set es. zo_by_name zo n r = Inr \<lparr> zf_name = n, zf_size = of_nat (length t), zf_content = Inr t \<rparr>)))"

text \<open>A value whose text is within the size limit and reads back as the value.\<close>

definition text_law :: "('v \<Rightarrow> string + string) \<Rightarrow> (string \<Rightarrow> string + 'v) \<Rightarrow> 'v \<Rightarrow> bool" where
  "text_law text parse v \<longleftrightarrow> (\<exists>t. text v = Inr t \<and> length t \<le> 1024 * 1024 \<and> parse t = Inr v)"

lemma def_file_inj: "def_file d = def_file e \<longleftrightarrow> agent_key d = agent_key e"
  by (simp add: def_file_def)

lemma def_file_not_manifest [simp]: "''manifest.json'' \<noteq> def_file d" "def_file d \<noteq> ''manifest.json''"
  by (simp_all add: def_file_def)

lemma size_ok: "n \<le> 1024 * 1024 \<Longrightarrow> \<not> MAX_FILE_SIZE < of_nat n"
  by (simp add: MAX_FILE_SIZE_def word_less_nat_alt unat_of_nat take_bit_nat_eq_self)

lemma export_fold:
  assumes "\<And>d. d \<in> set ds \<Longrightarrow> so_def_text so d = Inr (tx d)"
  shows "fold_res (\<lambda>d w. bind_res (map_err Serialization (so_def_text so d)) (\<lambda>t. zip_put zo (def_file d) t w)) ds w =
    fold_res (\<lambda>(n, t). zip_put zo n t) (map (\<lambda>d. (def_file d, tx d)) ds) w"
  using assms
proof (induction ds arbitrary: w)
  case (Cons d ds)
  then show ?case by (cases "zip_put zo (def_file d) (tx d) w") auto
qed simp

definition kept :: "'p agent_definition \<Rightarrow> bool" where
  "kept d \<longleftrightarrow> \<not> str_contains (def_file d) ''..''"

definition def_name_of :: "string \<Rightarrow> string option" where
  "def_name_of n = (if str_contains n ''..'' then None
     else if starts_with n ''definitions/'' \<and> ends_with n ''.json'' then Some n else None)"

lemma map_filter_cong: "(\<And>x. x \<in> set xs \<Longrightarrow> f x = g x) \<Longrightarrow> List.map_filter f xs = List.map_filter g xs"
  by (induction xs) (simp_all add: List.map_filter_def)

lemma def_names_eq:
  assumes "zo_len zo r = length es"
    and "\<And>i. i < length es \<Longrightarrow> \<exists>f. zo_by_index zo i r = Inr f \<and> zf_name f = fst (es ! i)"
  shows "def_names zo r = List.map_filter def_name_of (map fst es)"
proof -
  have "def_names zo r = List.map_filter (\<lambda>i. def_name_of (fst (es ! i))) [0..<length es]"
    unfolding def_names_def assms(1)
    by (rule map_filter_cong) (use assms(2) in \<open>fastforce simp: def_name_of_def\<close>)+
  also have "\<dots> = List.map_filter def_name_of (map (\<lambda>i. fst (es ! i)) [0..<length es])"
    by (simp add: List.map_filter_def comp_def filter_map)
  also have "map (\<lambda>i. fst (es ! i)) [0..<length es] = map fst es"
    by (rule nth_equalityI) simp_all
  finally show ?thesis .
qed

lemma def_name_of_file: "def_name_of (def_file d) = (if kept d then Some (def_file d) else None)"
  by (simp add: def_name_of_def kept_def def_file_def starts_with_iff ends_with_iff)

lemma def_name_of_manifest: "def_name_of ''manifest.json'' = None"
  by (simp add: def_name_of_def starts_with_def)

lemma map_filter_files: "List.map_filter def_name_of (map def_file ds) = map def_file (filter kept ds)"
  by (induction ds) (simp_all add: List.map_filter_def def_name_of_file)

lemma read_manifest_ok:
  assumes "zo_by_name zo ''manifest.json'' r = Inr \<lparr> zf_name = n, zf_size = of_nat (length t), zf_content = Inr t \<rparr>"
    "length t \<le> 1024 * 1024" "mo_parse mo t = Inr m"
  shows "read_manifest zo mo r = Inr m"
  using assms size_ok [of "length t"] by (simp add: read_manifest_def)

lemma read_definition_ok:
  assumes "zo_by_name zo (def_file d) r = Inr \<lparr> zf_name = n, zf_size = of_nat (length t), zf_content = Inr t \<rparr>"
    "length t \<le> 1024 * 1024" "so_def_from_json so t = Inr d"
  shows "read_definition zo so r (def_file d) = Inr d"
  using assms size_ok [of "length t"] by (simp add: read_definition_def)

lemma read_definitions_ok:
  assumes "\<And>d. d \<in> set ds \<Longrightarrow> read_definition zo so r (def_file d) = Inr d"
  shows "fold_res (\<lambda>name defs. bind_res (bind_res (read_definition zo so r name) (\<lambda>d. Inr [d])) (\<lambda>x. Inr (defs @ x)))
      (map def_file ds) [] = Inr ds"
proof -
  have "list_all2 (\<lambda>x ys. bind_res (read_definition zo so r x) (\<lambda>d. Inr [d]) = Inr ys) (map def_file ds) (map (\<lambda>d. [d]) ds)"
    using assms by (simp add: list.rel_map list_all2_same)
  then show ?thesis
    using fold_res_append [of "\<lambda>x. bind_res (read_definition zo so r x) (\<lambda>d. Inr [d])" "map def_file ds" "[]" ds] by fastforce
qed

text \<open>C23. Take a package whose agent keys are distinct and shorter than 65000 bytes, with fewer than 65000
  definitions, where the JSON text of the manifest and of each definition is at most 1 MiB long
  and reads back as what was written, and an archive library that reads back the entries it was
  given. Exporting the package and importing the bytes gives the package back, less the definitions
  whose file name contains two dots in a row (a key with \<open>..\<close> or one that ends in a dot),
  which the import drops without an error; a package of 100 or more definitions is exported but
  refused by the import.\<close>

theorem package_round_trip:
  assumes zip: "zip_law zo"
    and manifest: "text_law (mo_text mo) (mo_parse mo)
      \<lparr> pm_name = pk_name p, pm_version = pk_version p, pm_metadata = pk_metadata p \<rparr>"
    and texts: "set (pk_definitions p) \<subseteq> {d. text_law (so_def_text so) (so_def_from_json so) d \<and> length (agent_key d) < 65000}"
    and keys: "distinct (map agent_key (pk_definitions p))" "length (pk_definitions p) < 65000"
  shows "\<exists>bytes. package_export zo mo so p = Inr bytes \<and>
    package_import zo mo so bytes =
      (if 100 \<le> length (pk_definitions p)
       then Inl (InvalidDefinition (''package has '' @ nat_str (Suc (length (pk_definitions p))) @ '' entries, max is '' @ nat_str 100))
       else Inr (p\<lparr>pk_definitions := filter kept (pk_definitions p)\<rparr>))"
proof -
  let ?m = "\<lparr> pm_name = pk_name p, pm_version = pk_version p, pm_metadata = pk_metadata p \<rparr>" and ?ds = "pk_definitions p"
  define tx where "tx d = projr (so_def_text so d)" for d
  have tx: "so_def_text so d = Inr (tx d)" "length (tx d) \<le> 1024 * 1024" "so_def_from_json so (tx d) = Inr d"
    if "d \<in> set ?ds" for d
    using texts that by (auto simp: tx_def text_law_def)
  obtain mt where mt: "mo_text mo ?m = Inr mt" "length mt \<le> 1024 * 1024" "mo_parse mo mt = Inr ?m"
    using manifest by (auto simp: text_law_def)
  define es where "es = (''manifest.json'', mt) # map (\<lambda>d. (def_file d, tx d)) ?ds"
  have "distinct (map fst es)" "length es < 2 ^ 16" "\<forall>(n, t) \<in> set es. length n < 2 ^ 16 \<and> length t < 2 ^ 32"
    using keys texts tx(2) mt(2) by (fastforce simp: es_def comp_def distinct_map inj_on_def def_file_inj def_file_def)+
  with zip obtain w b r where w: "fold_res (\<lambda>(n, t). zip_put zo n t) es (zo_new zo) = Inr w" "zo_finish zo w = Inr b"
      "zo_open zo b = Inr r" "zo_len zo r = length es"
      "\<And>i. i < length es \<Longrightarrow> \<exists>f. zo_by_index zo i r = Inr f \<and> zf_name f = fst (es ! i)"
      "\<And>n t. (n, t) \<in> set es \<Longrightarrow> zo_by_name zo n r = Inr \<lparr> zf_name = n, zf_size = of_nat (length t), zf_content = Inr t \<rparr>"
    unfolding zip_law_def by blast
  have "package_export zo mo so p = Inr b"
    using w(1,2) mt(1) tx(1) by (auto simp: package_export_def es_def bind_res_Inr export_fold)
  moreover have "def_names zo r = map def_file (filter kept ?ds)"
    using def_names_eq [OF w(4,5)] by (simp add: es_def comp_def map_filter_simps def_name_of_manifest map_filter_files)
  moreover have "read_definition zo so r (def_file d) = Inr d" if "d \<in> set (filter kept ?ds)" for d
    using that tx [of d] by (intro read_definition_ok [OF w(6)]) (auto simp: es_def)
  moreover have "read_manifest zo mo r = Inr ?m"
    using mt by (intro read_manifest_ok [OF w(6)]) (auto simp: es_def)
  moreover note read_definitions_ok [of "filter kept ?ds" zo so r]
  ultimately show ?thesis
    using w(3,4) by (auto simp: package_import_def es_def MAX_ENTRIES_def)
qed

text \<open>An archive as the list of its entries keeps the law.\<close>

definition list_zip :: "((string \<times> string) list, (string \<times> string) list, (string \<times> string) list) zip_ops" where
  "list_zip = \<lparr> zo_new = [], zo_start_file = (\<lambda>n w. Inr (w @ [(n, [])])),
     zo_write_all = (\<lambda>t w. Inr (butlast w @ [(fst (last w), snd (last w) @ t)])), zo_finish = Inr, zo_open = Inr,
     zo_len = length,
     zo_by_name = (\<lambda>n r. case map_of r n of None \<Rightarrow> Inl ''file not found''
       | Some t \<Rightarrow> Inr \<lparr> zf_name = n, zf_size = of_nat (length t), zf_content = Inr t \<rparr>),
     zo_by_index = (\<lambda>i r. if i < length r
       then Inr \<lparr> zf_name = fst (r ! i), zf_size = of_nat (length (snd (r ! i))), zf_content = Inr (snd (r ! i)) \<rparr>
       else Inl ''file not found'') \<rparr>"

lemma list_zip_put: "fold_res (\<lambda>(n, t). zip_put list_zip n t) es w = Inr (w @ es)"
  by (induction es arbitrary: w) (auto simp: zip_put_def list_zip_def)

lemma zip_law_list: "zip_law list_zip"
  by (auto simp: zip_law_def list_zip_put) (auto simp: list_zip_def map_of_is_SomeI)

definition key_serde :: "unit serde_ops" where
  "key_serde = \<lparr> so_def_from_json = (\<lambda>t. Inr (agent_definition_new t ''r'' ''g'')), so_def_from_yaml = Inl,
     so_def_text = (\<lambda>d. Inr (agent_key d)) \<rparr>"

definition name_manifest :: manifest_ops where
  "name_manifest = \<lparr> mo_text = (\<lambda>m. Inr (pm_name m)),
     mo_parse = (\<lambda>t. Inr \<lparr> pm_name = t, pm_version = ''1'', pm_metadata = JObject [] \<rparr>) \<rparr>"

theorem package_round_trip_witness:
  "\<exists>bytes. package_export list_zip name_manifest key_serde
       (add_definition (agent_definition_new ''b..'' ''r'' ''g'')
         (add_definition (agent_definition_new ''a'' ''r'' ''g'') (package_new ''p'' ''1''))) = Inr bytes \<and>
     package_import list_zip name_manifest key_serde bytes =
       Inr (add_definition (agent_definition_new ''a'' ''r'' ''g'') (package_new ''p'' ''1''))"
proof -
  let ?p = "add_definition (agent_definition_new ''b..'' ''r'' ''g'')
     (add_definition (agent_definition_new ''a'' ''r'' ''g'') (package_new ''p'' ''1'')) :: unit agnos_package"
  have "text_law (mo_text name_manifest) (mo_parse name_manifest)
      \<lparr> pm_name = pk_name ?p, pm_version = pk_version ?p, pm_metadata = pk_metadata ?p \<rparr>"
    by (simp add: text_law_def name_manifest_def package_new_def add_definition_def)
  moreover have "set (pk_definitions ?p) \<subseteq>
      {d. text_law (so_def_text key_serde) (so_def_from_json key_serde) d \<and> length (agent_key d) < 65000}"
    by (simp add: text_law_def key_serde_def package_new_def add_definition_def agent_definition_new_def)
  moreover have "filter kept (pk_definitions ?p) = [agent_definition_new ''a'' ''r'' ''g'']"
    by (simp add: package_new_def add_definition_def kept_def def_file_def agent_definition_new_def starts_with_def)
  ultimately show ?thesis
    using package_round_trip [OF zip_law_list, of name_manifest ?p key_serde]
    by (simp add: package_new_def add_definition_def agent_definition_new_def)
qed

section \<open>Loading a directory\<close>

lemma load_entry_simps:
  "load_entry wanted load fs (Inl e) = Inl (Io e)"
  "load_entry wanted load fs (Inr p) =
     (if fs_is_file fs p \<and> wanted p then bind_res (load p) (\<lambda>d. Inr [d]) else Inr [])"
  by (simp_all add: load_entry_def)

lemma load_entries:
  "fold_res (\<lambda>entry acc. bind_res (load_entry wanted load fs entry) (\<lambda>ds. Inr (acc @ ds))) es acc = Inr r \<longleftrightarrow>
     (\<exists>paths ds. es = map Inr paths \<and> map load (filter (\<lambda>p. fs_is_file fs p \<and> wanted p) paths) = map Inr ds \<and> r = acc @ ds)"
proof (induction es arbitrary: acc)
  case (Cons e es)
  show ?case
  proof (cases e)
    case (Inr p)
    show ?thesis
    proof (cases "fs_is_file fs p \<and> wanted p")
      case True
      show ?thesis
      proof (cases "load p")
        case (Inr d)
        with True \<open>e = Inr p\<close> show ?thesis
          by (auto simp: load_entry_simps Cons.IH Cons_eq_map_conv)
      qed (use True Inr in \<open>auto simp: load_entry_simps Cons_eq_map_conv\<close>)
    qed (use Inr in \<open>auto simp: load_entry_simps Cons.IH Cons_eq_map_conv\<close>)
  qed (auto simp: load_entry_simps)
qed auto

text \<open>Loading a directory gives, in the order of its entries, exactly the definitions of the
  regular files with a JSON or YAML extension; it succeeds if and only if every entry can be
  read and every such file loads.\<close>

theorem load_all_from_dir_exact:
  "load_all_from_dir lower ops fs dir = Inr defs \<longleftrightarrow>
     (\<exists>paths. fs_read_dir fs dir = Inr (map Inr paths) \<and>
        map (load_from_file lower ops fs)
          (filter (\<lambda>p. fs_is_file fs p \<and> lower_extension lower p \<in> {''json'', ''yaml'', ''yml''}) paths) = map Inr defs)"
  by (cases "fs_read_dir fs dir") (auto simp: load_all_from_dir_def load_entries)

end
