(* ===== verification/Server.thy ===== *)
theory Server
  imports Crew_Routes Tool_Service Packaging Approval
begin

text \<open>
  The HTTP server as a whole: the shared state of \<open>server/state.rs\<close>, the router of
  \<open>server/mod.rs\<close> with its authentication layer, the remaining handlers under
  \<open>server/routes/\<close>, and the start-up configuration of \<open>main.rs\<close>. The request is given by its
  method, the segments of its path, the authorization header and the body; extracting typed
  arguments, running a crew and the types of other crates are arguments. A handler that panics
  or does not return gives \<open>None\<close>. The concurrency limit and the HTTP transport are left out.
\<close>

section \<open>Configuration from the environment\<close>

definition env_or :: "(string \<Rightarrow> string option) \<Rightarrow> string \<Rightarrow> string" where
  "env_or env k = (case env k of None \<Rightarrow> '''' | Some v \<Rightarrow> v)"

definition jwt_from_env :: "(string \<Rightarrow> string option) \<Rightarrow> jwt_config option" where
  "jwt_from_env env =
     (case env ''AGNOSAI_JWT_PUBLIC_KEY'' of
        None \<Rightarrow> None
      | Some key \<Rightarrow>
          if key = [] then None
          else
            (let cfg = jwt_config_new key;
                 cfg = (case env ''AGNOSAI_JWT_ISSUER'' of Some iss \<Rightarrow> with_issuer iss cfg | None \<Rightarrow> cfg);
                 cfg = (case env ''AGNOSAI_JWT_AUDIENCE'' of Some aud \<Rightarrow> with_audience aud cfg | None \<Rightarrow> cfg)
             in Some cfg))"

definition auth_enabled_env :: "(string \<Rightarrow> string option) \<Rightarrow> bool" where
  "auth_enabled_env env =
     (case env ''AGNOSAI_AUTH_ENABLED'' of None \<Rightarrow> False | Some v \<Rightarrow> eq_ignore_ascii_case v ''true'' \<or> v = ''1'')"

definition load_auth_config :: "(string \<Rightarrow> string option) \<Rightarrow> auth_config" where
  "load_auth_config env =
     (let enabled = auth_enabled_env env;
          secret = env_or env ''AGNOSAI_AUTH_SECRET'';
          default = \<lparr> ac_enabled = False, ac_secret = [], ac_jwt = None \<rparr>
      in case jwt_from_env env of
           Some jwt_cfg \<Rightarrow> auth_with_jwt jwt_cfg
         | None \<Rightarrow>
             if secret \<noteq> [] then auth_with_secret secret
             else if enabled then default\<lparr>ac_enabled := True\<rparr>
             else default)"

section \<open>State and answers\<close>

record ('p, 'h, 'tx, 'ax) app_state =
  ap_orchestrator :: "('h, 'tx) orchestrator"
  ap_tools :: tool_registry
  ap_auth :: auth_config
  ap_approval_gate :: "'ax approval_gate"
  ap_definitions :: "(string, 'p agent_definition) hmap"

record crew_summary =
  su_crew_id :: string
  su_status :: string
  su_task_count :: nat
  su_wall_ms :: u64
  su_cost_usd :: rat

record agent_summary =
  sg_agent_key :: string
  sg_name :: string
  sg_role :: string
  sg_tool_count :: nat

datatype http_answer =
    AnsStatus status_code
  | AnsRejected string
  | AnsJson status_code json
  | AnsValues "json list"
  | AnsCrew crew_run_response
  | AnsA2a status_code a2a_response "(string \<times> a2a_response) option"
  | AnsRpc json_rpc_response
  | AnsTools "tool_schema list"
  | AnsText string
  | AnsApproval bool string
  | AnsIds "task_id list"
  | AnsCrews "crew_summary list"
  | AnsAgents "agent_summary list"
  | AnsStream bool

text \<open>Typed arguments of the handlers, from the body and from a path segment.\<close>

record 'p extractors =
  ex_crew :: "string \<Rightarrow> string + 'p crew_run_request"
  ex_a2a :: "string \<Rightarrow> string + a2a_request"
  ex_rpc :: "string \<Rightarrow> string + json_rpc_request"
  ex_definition :: "string \<Rightarrow> string + 'p agent_definition"
  ex_approval :: "string \<Rightarrow> string + (task_id \<times> approval_decision)"
  ex_uuid :: "string \<Rightarrow> string + uuid"

record ('p, 'h, 'tx, 'rx, 'ax, 'k, 'e) server_ops =
  sv_jwt :: "('k, 'e) jwt_ops"
  sv_extract :: "'p extractors"
  sv_run :: "'p crew_spec \<Rightarrow> ('h, 'tx) orchestrator \<Rightarrow> (crew_state res \<times> ('h, 'tx) orchestrator) option"
  sv_channels :: "('tx, 'rx) channel_ops"
  sv_send_ok :: "'ax \<Rightarrow> approval_decision \<Rightarrow> bool"
  sv_task_value :: "task_status \<Rightarrow> json option"
  sv_crew_value :: "crew_status \<Rightarrow> json option"
  sv_state_value :: "crew_state \<Rightarrow> json option"
  sv_def_value :: "'p agent_definition \<Rightarrow> string + json"
  sv_preset_values :: "json list"
  sv_uuid_str :: "uuid \<Rightarrow> string"
  sv_err_str :: "agnosai_error \<Rightarrow> string"
  sv_parse_url :: "string \<Rightarrow> url option"
  sv_to_vec :: "json \<Rightarrow> string option"
  sv_to_string :: "json \<Rightarrow> string"
  sv_input_schema :: "string \<Rightarrow> (string, json) hmap \<Rightarrow> string list \<Rightarrow> json"
  sv_version :: string
  sv_llm_metrics :: string

record server_request =
  sr_method :: http_method
  sr_path :: "string list"
  sr_authorization :: "string option"
  sr_body :: string

definition MAX_BODY_BYTES :: nat where
  "MAX_BODY_BYTES = 10 * 1024 * 1024"

text \<open>A body within the limit, decoded; the handler runs only on success.\<close>

definition with_body :: "(string \<Rightarrow> string + 'a) \<Rightarrow> string \<Rightarrow> ('a \<Rightarrow> 's \<Rightarrow> (http_answer \<times> 's) option) \<Rightarrow> 's \<Rightarrow> (http_answer \<times> 's) option" where
  "with_body decode body h s =
     (if MAX_BODY_BYTES < length body then Some (AnsStatus PAYLOAD_TOO_LARGE, s)
      else case decode body of Inl e \<Rightarrow> Some (AnsRejected e, s) | Inr x \<Rightarrow> h x s)"

definition with_id :: "(string \<Rightarrow> string + uuid) \<Rightarrow> string list \<Rightarrow> (uuid \<Rightarrow> 's \<Rightarrow> (http_answer \<times> 's) option) \<Rightarrow> 's \<Rightarrow> (http_answer \<times> 's) option" where
  "with_id decode captures h s =
     (case captures of
        [] \<Rightarrow> Some (AnsStatus INTERNAL_SERVER_ERROR, s)
      | c # _ \<Rightarrow> (case decode c of Inl e \<Rightarrow> Some (AnsRejected e, s) | Inr i \<Rightarrow> h i s))"

section \<open>Handlers\<close>

definition health_probe :: json where
  "health_probe = JObject [(''status'', JString ''ok'')]"

definition ready_probe :: "string \<Rightarrow> json" where
  "ready_probe version = JObject [(''status'', JString ''ready''), (''version'', JString version)]"

definition a2a_status :: json where
  "a2a_status = JObject [(''status'', JString ''not_implemented'')]"

definition list_definitions :: "('p agent_definition \<Rightarrow> string + json) \<Rightarrow> (string, 'p agent_definition) hmap \<Rightarrow> json list" where
  "list_definitions def_value defs =
     List.map_filter (\<lambda>d. case def_value d of Inl _ \<Rightarrow> None | Inr v \<Rightarrow> Some v) (hm_values defs)"

definition create_definition :: "('p agent_definition \<Rightarrow> string + json) \<Rightarrow> 'p agent_definition \<Rightarrow> (string, 'p agent_definition) hmap
    \<Rightarrow> (status_code \<times> json) \<times> (string, 'p agent_definition) hmap" where
  "create_definition def_value d defs =
     (case def_value d of
        Inl e \<Rightarrow> ((INTERNAL_SERVER_ERROR, JObject [(''error'', JString (''serialization failed: '' @ e))]), defs)
      | Inr v \<Rightarrow> ((CREATED, v), hm_insert (agent_key d) d defs))"

fun decision_text :: "approval_decision \<Rightarrow> string" where
  "decision_text Approved = ''Approved''"
| "decision_text Rejected = ''Rejected''"

definition submit_approval :: "(uuid \<Rightarrow> string) \<Rightarrow> ('ax \<Rightarrow> approval_decision \<Rightarrow> bool) \<Rightarrow> task_id \<Rightarrow> approval_decision
    \<Rightarrow> 'ax approval_gate \<Rightarrow> (bool \<times> string) \<times> 'ax approval_gate" where
  "submit_approval uuid_str send_ok tid decision gate =
     (let (delivered, _, gate') = submit_decision send_ok tid decision gate
      in ((delivered,
           if delivered then ''Decision '' @ decision_text decision @ '' delivered for task '' @ uuid_str tid
           else ''No pending approval found for task '' @ uuid_str tid), gate'))"

text \<open>The debug form of a status.\<close>

fun status_debug :: "crew_status \<Rightarrow> string" where
  "status_debug CrPending = ''Pending''"
| "status_debug CrRunning = ''Running''"
| "status_debug CrCompleted = ''Completed''"
| "status_debug CrFailed = ''Failed''"
| "status_debug CrCancelled = ''Cancelled''"

definition crew_history :: "(uuid \<Rightarrow> string) \<Rightarrow> ('h, 'tx) orchestrator \<Rightarrow> crew_summary list" where
  "crew_history uuid_str orc =
     map (\<lambda>c. \<lparr> su_crew_id = uuid_str (state_crew_id c), su_status = status_debug (state_status c),
                su_task_count = length (state_results c),
                su_wall_ms = (case state_profile c of None \<Rightarrow> 0 | Some p \<Rightarrow> prof_wall_ms p),
                su_cost_usd = (case state_profile c of None \<Rightarrow> 0 | Some p \<Rightarrow> prof_cost_usd p) \<rparr>)
       (hm_values (or_active orc))"

definition metadata_str :: "string \<Rightarrow> task_result \<Rightarrow> string option" where
  "metadata_str k r = Option.bind (hm_get (result_metadata r) k) as_str"

definition agent_entry :: "task_result \<Rightarrow> string list \<times> agent_summary list \<Rightarrow> string list \<times> agent_summary list" where
  "agent_entry r acc =
     (case (metadata_str ''agent'' r, acc) of
        (None, _) \<Rightarrow> acc
      | (Some key, seen, summaries) \<Rightarrow>
          if key \<in> set seen then acc
          else (key # seen,
                summaries @ [\<lparr> sg_agent_key = key,
                  sg_name = (case metadata_str ''agent_name'' r of None \<Rightarrow> key | Some n \<Rightarrow> n),
                  sg_role = (case metadata_str ''agent_role'' r of None \<Rightarrow> '''' | Some n \<Rightarrow> n),
                  sg_tool_count = 0 \<rparr>]))"

definition agent_performance :: "('h, 'tx) orchestrator \<Rightarrow> agent_summary list" where
  "agent_performance orc =
     snd (fold agent_entry (concat (map state_results (hm_values (or_active orc)))) ([], []))"

text \<open>The event bus is shared with the orchestrator. The stream itself is sent by axum: its
  events are those of \<open>stream_events\<close>, from the outcomes of receiving.\<close>

definition crew_stream :: "('tx, 'rx) channel_ops \<Rightarrow> crew_id \<Rightarrow> ('h, 'tx) orchestrator \<Rightarrow> bool \<times> ('h, 'tx) orchestrator" where
  "crew_stream chans cid orc =
     (case or_events orc of
        None \<Rightarrow> (False, orc)
      | Some bus \<Rightarrow>
          (let crew_exists = bus_has cid bus;
               bus' = snd (bus_subscribe chans cid bus)
           in (crew_exists,
               orc\<lparr>or_events := Some (if \<not> crew_exists then bus_remove cid bus' else bus')\<rparr>)))"

datatype recv_outcome = Received crew_event | Lagged nat | ChannelClosed

datatype sse_event = SseCrew crew_event | SseRaw string json

fun forward_events :: "recv_outcome list \<Rightarrow> sse_event list" where
  "forward_events [] = []"
| "forward_events (Received e # rs) = SseCrew e # forward_events rs"
| "forward_events (Lagged n # rs) =
     [SseRaw ''error'' (JObject [(''event_type'', JString ''error''),
        (''message'', JString (''stream lagged, '' @ nat_str n @ '' events dropped''))])]"
| "forward_events (ChannelClosed # rs) = []"

definition stream_events :: "string \<Rightarrow> bool \<Rightarrow> recv_outcome list \<Rightarrow> sse_event list" where
  "stream_events cid crew_exists outcomes =
     (if \<not> crew_exists
      then [SseCrew \<lparr> ev_crew_id = cid, ev_event_type = ''error'',
              ev_data = JObject [(''message'', JString ''crew not found''), (''crew_id'', JString cid)] \<rparr>]
      else SseCrew \<lparr> ev_crew_id = cid, ev_event_type = ''connected'',
              ev_data = JObject [(''message'', JString ''SSE stream connected'')] \<rparr> # forward_events outcomes)"

section \<open>The router\<close>

datatype handler =
    HHealth | HReady | HMetrics | HMcp | HCreateCrew | HGetCrew | HCancelCrew | HCrewStream | HA2aReceive | HA2aStatus
  | HListDefinitions | HCreateDefinition | HListTools | HRemoveTool | HListPending | HSubmitApproval | HListPresets
  | HCrewHistory | HAgentPerformance

type_synonym route_entry = "string list \<times> (http_method \<times> handler) list"

definition PUBLIC_ROUTES :: "route_entry list" where
  "PUBLIC_ROUTES = [([''health''], [(GET, HHealth)]), ([''ready''], [(GET, HReady)]), ([''metrics''], [(GET, HMetrics)])]"

definition API_V1 :: "route_entry list" where
  "API_V1 =
     [([''crews''], [(POST, HCreateCrew)]),
      ([''crews'', ''{id}''], [(GET, HGetCrew)]),
      ([''crews'', ''{id}'', ''cancel''], [(POST, HCancelCrew)]),
      ([''crews'', ''{id}'', ''stream''], [(GET, HCrewStream)]),
      ([''a2a'', ''receive''], [(POST, HA2aReceive)]),
      ([''a2a'', ''status''], [(POST, HA2aStatus)]),
      ([''agents'', ''definitions''], [(GET, HListDefinitions), (POST, HCreateDefinition)]),
      ([''tools''], [(GET, HListTools)]),
      ([''tools'', ''{name}''], [(DELETE, HRemoveTool)]),
      ([''approvals''], [(GET, HListPending), (POST, HSubmitApproval)]),
      ([''presets''], [(GET, HListPresets)]),
      ([''dashboard'', ''crews''], [(GET, HCrewHistory)]),
      ([''dashboard'', ''agents''], [(GET, HAgentPerformance)])]"

definition PROTECTED_ROUTES :: "route_entry list" where
  "PROTECTED_ROUTES = ([''mcp''], [(POST, HMcp)]) # map (\<lambda>(p, hs). ([''api'', ''v1''] @ p, hs)) API_V1"

text \<open>Matching a path: a capture takes any segment that is not empty.\<close>

definition is_capture :: "string \<Rightarrow> bool" where
  "is_capture p \<longleftrightarrow> p \<noteq> [] \<and> hd p = CHR ''{''"

fun match_path :: "string list \<Rightarrow> string list \<Rightarrow> string list option" where
  "match_path [] [] = Some []"
| "match_path (p # ps) (x # xs) =
     (if is_capture p then (if x = [] then None else map_option (\<lambda>cs. x # cs) (match_path ps xs))
      else if p = x then match_path ps xs else None)"
| "match_path _ _ = None"

definition find_route :: "route_entry list \<Rightarrow> string list \<Rightarrow> (string list \<times> (http_method \<times> handler) list) option" where
  "find_route routes path =
     (case List.map_filter (\<lambda>(p, hs). map_option (\<lambda>cs. (cs, hs)) (match_path p path)) routes of
        [] \<Rightarrow> None | r # _ \<Rightarrow> Some r)"

definition handle :: "('p, 'h, 'tx, 'rx, 'ax, 'k, 'e) server_ops \<Rightarrow> (nat \<Rightarrow> uuid) \<Rightarrow> handler \<Rightarrow> string list \<Rightarrow> string
    \<Rightarrow> ('p, 'h, 'tx, 'ax) app_state \<Rightarrow> (http_answer \<times> ('p, 'h, 'tx, 'ax) app_state) option" where
  "handle ops fresh h captures body s =
     (let ex = sv_extract ops; orc = ap_orchestrator s; uuid_str = sv_uuid_str ops
      in case h of
        HHealth \<Rightarrow> Some (AnsJson OK health_probe, s)
      | HReady \<Rightarrow> Some (AnsJson OK (ready_probe (sv_version ops)), s)
      | HMetrics \<Rightarrow> Some (AnsText (sv_llm_metrics ops), s)
      | HMcp \<Rightarrow> with_body (ex_rpc ex) body (\<lambda>req s.
          Some (AnsRpc (mcp_handler (sv_version ops) (sv_to_string ops) (sv_input_schema ops) (ap_tools s) req), s)) s
      | HCreateCrew \<Rightarrow> with_body (ex_crew ex) body (\<lambda>req s.
          map_option (\<lambda>(r, orc'). (case r of Inl (code, v) \<Rightarrow> AnsJson code v | Inr resp \<Rightarrow> AnsCrew resp,
              s\<lparr>ap_orchestrator := orc'\<rparr>))
            (create_crew (sv_task_value ops) (sv_crew_value ops) fresh (sv_run ops) req orc)) s
      | HGetCrew \<Rightarrow> with_id (ex_uuid ex) captures (\<lambda>i s.
          Some (case get_crew (sv_state_value ops) i orc of Inl (code, v) \<Rightarrow> AnsJson code v | Inr v \<Rightarrow> AnsJson OK v, s)) s
      | HCancelCrew \<Rightarrow> with_id (ex_uuid ex) captures (\<lambda>i s.
          (case cancel_crew_route uuid_str i orc of
             (r, orc') \<Rightarrow> Some (case r of Inl (code, v) \<Rightarrow> AnsJson code v | Inr v \<Rightarrow> AnsJson OK v, s\<lparr>ap_orchestrator := orc'\<rparr>))) s
      | HCrewStream \<Rightarrow> with_id (ex_uuid ex) captures (\<lambda>i s.
          (case crew_stream (sv_channels ops) i orc of (found, orc') \<Rightarrow> Some (AnsStream found, s\<lparr>ap_orchestrator := orc'\<rparr>))) s
      | HA2aReceive \<Rightarrow> with_body (ex_a2a ex) body (\<lambda>req s.
          map_option (\<lambda>(code, resp, callback, orc'). (AnsA2a code resp callback, s\<lparr>ap_orchestrator := orc'\<rparr>))
            (a2a_receive (sv_parse_url ops) (sv_to_vec ops) uuid_str (sv_err_str ops) fresh (sv_run ops) req orc)) s
      | HA2aStatus \<Rightarrow> Some (AnsJson OK a2a_status, s)
      | HListDefinitions \<Rightarrow> Some (AnsValues (list_definitions (sv_def_value ops) (ap_definitions s)), s)
      | HCreateDefinition \<Rightarrow> with_body (ex_definition ex) body (\<lambda>d s.
          (case create_definition (sv_def_value ops) d (ap_definitions s) of
             ((code, v), defs) \<Rightarrow> Some (AnsJson code v, s\<lparr>ap_definitions := defs\<rparr>))) s
      | HListTools \<Rightarrow> Some (AnsTools (tool_list (ap_tools s)), s)
      | HRemoveTool \<Rightarrow>
          (case captures of
             [] \<Rightarrow> Some (AnsStatus INTERNAL_SERVER_ERROR, s)
           | name # _ \<Rightarrow> (case remove_tool name (ap_tools s) of (code, tools) \<Rightarrow> Some (AnsStatus code, s\<lparr>ap_tools := tools\<rparr>)))
      | HListPending \<Rightarrow> Some (AnsIds (pending_tasks (ap_approval_gate s)), s)
      | HSubmitApproval \<Rightarrow> with_body (ex_approval ex) body (\<lambda>(tid, d) s.
          (case submit_approval uuid_str (sv_send_ok ops) tid d (ap_approval_gate s) of
             ((delivered, msg), gate) \<Rightarrow> Some (AnsApproval delivered msg, s\<lparr>ap_approval_gate := gate\<rparr>))) s
      | HListPresets \<Rightarrow> Some (AnsValues (sv_preset_values ops), s)
      | HCrewHistory \<Rightarrow> Some (AnsCrews (crew_history uuid_str orc), s)
      | HAgentPerformance \<Rightarrow> Some (AnsAgents (agent_performance orc), s))"

definition dispatch :: "('p, 'h, 'tx, 'rx, 'ax, 'k, 'e) server_ops \<Rightarrow> (nat \<Rightarrow> uuid) \<Rightarrow> server_request
    \<Rightarrow> string list \<times> (http_method \<times> handler) list \<Rightarrow> ('p, 'h, 'tx, 'ax) app_state
    \<Rightarrow> (http_answer \<times> ('p, 'h, 'tx, 'ax) app_state) option" where
  "dispatch ops fresh req = (\<lambda>(captures, handlers) s.
     case map_of handlers (sr_method req) of
       None \<Rightarrow> Some (AnsStatus METHOD_NOT_ALLOWED, s)
     | Some h \<Rightarrow> handle ops fresh h captures (sr_body req) s)"

text \<open>The authentication layer is around the routes of the protected router. A path that has no
  route is answered with 404 here; if the layer of axum also wraps the fallback, such a request
  without a credential is answered with 401 instead, and reaches no handler either way.\<close>

definition router :: "('p, 'h, 'tx, 'rx, 'ax, 'k, 'e) server_ops \<Rightarrow> (nat \<Rightarrow> uuid) \<Rightarrow> server_request
    \<Rightarrow> ('p, 'h, 'tx, 'ax) app_state \<Rightarrow> (http_answer \<times> ('p, 'h, 'tx, 'ax) app_state) option" where
  "router ops fresh req s =
     (case find_route PUBLIC_ROUTES (sr_path req) of
        Some r \<Rightarrow> dispatch ops fresh req r s
      | None \<Rightarrow>
          (case find_route PROTECTED_ROUTES (sr_path req) of
             None \<Rightarrow> Some (AnsStatus NOT_FOUND, s)
           | Some r \<Rightarrow>
               (case auth_middleware (sv_jwt ops) (ap_auth s) (sr_authorization req) of
                  Inl code \<Rightarrow> Some (AnsStatus code, s)
                | Inr _ \<Rightarrow> dispatch ops fresh req r s)))"

section \<open>Closed to requests without a credential\<close>

definition auth_configured :: "(string \<Rightarrow> string option) \<Rightarrow> bool" where
  "auth_configured env \<longleftrightarrow> auth_enabled_env env \<or> env_or env ''AGNOSAI_AUTH_SECRET'' \<noteq> [] \<or> env_or env ''AGNOSAI_JWT_PUBLIC_KEY'' \<noteq> []"

text \<open>The credential the environment asks for: a token that decodes under the public key, or,
  when there is none, the secret.\<close>

definition credential :: "(string \<Rightarrow> string option) \<Rightarrow> ('k, 'e) jwt_ops \<Rightarrow> string option \<Rightarrow> bool" where
  "credential env jwt header \<longleftrightarrow>
     (\<exists>token. header = Some (''Bearer '' @ token) \<and> token \<noteq> [] \<and>
        (if env_or env ''AGNOSAI_JWT_PUBLIC_KEY'' = [] then token = env_or env ''AGNOSAI_AUTH_SECRET''
         else \<exists>key cl. jo_from_rsa_pem jwt (env_or env ''AGNOSAI_JWT_PUBLIC_KEY'') = Inr key \<and>
           jo_decode jwt token key (jwt_validation (the (jwt_from_env env))) = Inr cl \<and> cl_exp cl \<noteq> None))"

lemma public_handlers: "find_route PUBLIC_ROUTES path = Some (cs, hs) \<Longrightarrow> snd ` set hs \<subseteq> {HHealth, HReady, HMetrics}"
  by (auto simp: find_route_def PUBLIC_ROUTES_def List.map_filter_def split: list.splits if_splits)

lemma public_dispatch_keeps:
  assumes "find_route PUBLIC_ROUTES (sr_path req) = Some r" "dispatch ops fresh req r s = Some (ans, s')"
  shows "s' = s"
  using assms public_handlers [of "sr_path req" "fst r" "snd r"]
  by (fastforce simp: dispatch_def handle_def case_prod_unfold dest!: map_of_SomeD split: option.splits handler.splits)

lemma load_auth_enabled: "auth_configured env \<Longrightarrow> ac_enabled (load_auth_config env)"
  by (auto simp: auth_configured_def load_auth_config_def jwt_from_env_def env_or_def auth_with_jwt_def auth_with_secret_def
      Let_def split: option.splits)

lemma jwt_from_env_key:
  "jwt_from_env env = None \<longleftrightarrow> env_or env ''AGNOSAI_JWT_PUBLIC_KEY'' = []"
  "jwt_from_env env = Some jwt \<Longrightarrow> jwt_public_key_pem jwt = env_or env ''AGNOSAI_JWT_PUBLIC_KEY''"
  by (auto simp: jwt_from_env_def env_or_def jwt_config_new_def with_issuer_def with_audience_def Let_def
      split: option.splits if_splits)

lemma configured_auth:
  assumes "auth_configured env"
  shows "auth_middleware jwt (load_auth_config env) header = Inr () \<longleftrightarrow> credential env jwt header"
proof (cases "jwt_from_env env")
  case None
  then show ?thesis
    unfolding auth_middleware_exact [OF load_auth_enabled [OF assms]] credential_def
    using jwt_from_env_key(1) [of env]
    by (auto simp: load_auth_config_def auth_with_secret_def Let_def)
next
  case (Some cfg)
  then have "env_or env ''AGNOSAI_JWT_PUBLIC_KEY'' \<noteq> []" using jwt_from_env_key(1) by (metis option.distinct(1))
  with Some show ?thesis
    unfolding auth_middleware_exact [OF load_auth_enabled [OF assms]] credential_def
    by (simp add: load_auth_config_def auth_with_jwt_def jwt_from_env_key(2))
qed

lemma auth_rejection_codes:
  "auth_middleware jwt cfg header = Inl code \<Longrightarrow> code \<in> {UNAUTHORIZED, INTERNAL_SERVER_ERROR}"
  by (auto simp: auth_middleware_def validate_jwt_def Let_def split: if_splits option.splits sum.splits)

text \<open>C6. A server whose environment asks for authentication (the flag, a secret, or a public key) is
  closed: a request without the configured credential changes no part of the state, and, unless it is
  for one of the three public probes, it is answered with 401, 404, or 500 for an unusable key.\<close>

theorem protected_requires_credential:
  assumes "auth_configured env" "ap_auth s = load_auth_config env"
    and "\<not> credential env (sv_jwt ops) (sr_authorization req)"
    and "router ops fresh req s = Some (ans, s')"
  shows "s' = s \<and> (find_route PUBLIC_ROUTES (sr_path req) = None \<longrightarrow>
    ans \<in> AnsStatus ` {UNAUTHORIZED, NOT_FOUND, INTERNAL_SERVER_ERROR})"
proof (cases "find_route PUBLIC_ROUTES (sr_path req)")
  case None
  have "auth_middleware (sv_jwt ops) (ap_auth s) (sr_authorization req) \<noteq> Inr ()"
    using assms(1-3) configured_auth by metis
  then obtain c where "auth_middleware (sv_jwt ops) (ap_auth s) (sr_authorization req) = Inl c"
    by (metis old.sum.exhaust old.unit.exhaust)
  with assms(4) None auth_rejection_codes show ?thesis by (fastforce simp: router_def split: option.splits)
next
  case (Some r)
  with assms(4) public_dispatch_keeps [OF Some] show ?thesis by (simp add: router_def)
qed


section \<open>Start-up and the invariant\<close>

text \<open>The state that \<open>main\<close> builds; the tools are those of \<open>server_tools\<close>.\<close>

definition server_init :: "nat \<Rightarrow> (string \<Rightarrow> string option) \<Rightarrow> tool_registry \<Rightarrow> ('p, 'h, 'tx, 'ax) app_state option" where
  "server_init max_permits env tools =
     (let hoosh_url = (case env ''HOOSH_URL'' of None \<Rightarrow> ''http://localhost:8088'' | Some u \<Rightarrow> u)
      in map_option (\<lambda>orc.
           \<lparr> ap_orchestrator = orch_with_events event_bus_new (Orchestrator.with_llm_url hoosh_url orc),
             ap_tools = tools, ap_auth = load_auth_config env, ap_approval_gate = approval_gate_new,
             ap_definitions = hm_empty \<rparr>)
         (orchestrator_new max_permits resource_budget_default))"




lemma with_body_cases:
  assumes "with_body decode body h s = Some (ans, s')" "s' \<noteq> s"
  obtains x where "decode body = Inr x" "h x s = Some (ans, s')"
  using assms by (auto simp: with_body_def split: if_splits sum.splits)

lemma with_id_cases:
  assumes "with_id decode captures h s = Some (ans, s')" "s' \<noteq> s"
  obtains i where "h i s = Some (ans, s')"
  using assms by (auto simp: with_id_def split: list.splits sum.splits)






lemma server_init_fields:
  assumes "server_init max_permits env tools = Some s"
  shows "ap_tools s = tools" "ap_auth s = load_auth_config env" "ap_approval_gate s = approval_gate_new"
    "ap_definitions s = hm_empty"
proof -
  obtain orc where "s = \<lparr> ap_orchestrator = orc, ap_tools = tools, ap_auth = load_auth_config env,
      ap_approval_gate = approval_gate_new, ap_definitions = hm_empty \<rparr>"
    using assms unfolding server_init_def Let_def map_option_eq_Some by blast
  then show "ap_tools s = tools" "ap_auth s = load_auth_config env" "ap_approval_gate s = approval_gate_new"
    "ap_definitions s = hm_empty" by simp_all
qed


text \<open>Concrete arguments: every identifier is refused, every body is an agent key.\<close>

definition server_ops_sample :: "(unit, unit, unit, unit, unit, unit, unit) server_ops" where
  "server_ops_sample = \<lparr> sv_jwt = \<lparr> jo_from_rsa_pem = (\<lambda>_. Inr ()), jo_decode = (\<lambda>_ _ _. Inl ()) \<rparr>,
     sv_extract = \<lparr> ex_crew = Inl, ex_a2a = Inl, ex_rpc = Inl, ex_definition = (\<lambda>k. Inr (agent_definition_new k ''r'' ''g'')),
       ex_approval = Inl, ex_uuid = Inl \<rparr>,
     sv_run = (\<lambda>_ _. None), sv_channels = \<lparr> ch_channel = (\<lambda>_. ()), ch_subscribe = (\<lambda>_. ((), ())), ch_receiver_count = (\<lambda>_. 0) \<rparr>,
     sv_send_ok = (\<lambda>_ _. True), sv_task_value = (\<lambda>_. None), sv_crew_value = (\<lambda>_. None), sv_state_value = (\<lambda>_. None),
     sv_def_value = (\<lambda>d. Inr (JString (agent_key d))), sv_preset_values = [], sv_uuid_str = (\<lambda>_. ''''), sv_err_str = (\<lambda>_. ''''),
     sv_parse_url = (\<lambda>_. None), sv_to_vec = (\<lambda>_. None), sv_to_string = (\<lambda>_. ''''), sv_input_schema = (\<lambda>_ _ _. JNull),
     sv_version = ''1'', sv_llm_metrics = '''' \<rparr>"

definition auth_env_sample :: "string \<Rightarrow> string option" where
  "auth_env_sample k = (if k = ''AGNOSAI_AUTH_SECRET'' then Some ''s3'' else None)"

definition sample_tools :: tool_registry where
  "sample_tools = server_tools (\<lambda>_. None) (\<lambda>_. None) (Inr ()) (\<lambda>_. None) (\<lambda>_. JNull) (Inl '''') (\<lambda>_. JNull)"

definition sample_start :: "(unit, unit, unit, unit) app_state" where
  "sample_start = the (server_init 100 auth_env_sample sample_tools)"

definition sample_post :: "string option \<Rightarrow> server_request" where
  "sample_post header = \<lparr> sr_method = POST, sr_path = [''api'', ''v1'', ''agents'', ''definitions''],
     sr_authorization = header, sr_body = ''dev'' \<rparr>"

lemma sample_start_init: "server_init 100 auth_env_sample sample_tools = Some sample_start"
  by (simp add: sample_start_def server_init_def orchestrator_new_def max_concurrent_def resource_budget_default_def
      resource_budget_new_def)

lemma sample_post_route:
  "find_route PUBLIC_ROUTES (sr_path (sample_post header)) = None"
  "find_route PROTECTED_ROUTES (sr_path (sample_post header)) = Some ([], [(GET, HListDefinitions), (POST, HCreateDefinition)])"
  by (simp_all add: sample_post_def find_route_def PUBLIC_ROUTES_def PROTECTED_ROUTES_def API_V1_def List.map_filter_def
      is_capture_def)

theorem protected_requires_credential_witness:
  "router server_ops_sample (\<lambda>n. of_nat n) (sample_post (Some ''Bearer guess'')) sample_start = Some (AnsStatus UNAUTHORIZED, sample_start)"
proof -
  note auth = server_init_fields(2) [OF sample_start_init]
  have conf: "auth_configured auth_env_sample" by (simp add: auth_configured_def env_or_def auth_env_sample_def)
  have none: "\<not> credential auth_env_sample (sv_jwt server_ops_sample) (sr_authorization (sample_post (Some ''Bearer guess'')))"
    by (simp add: credential_def sample_post_def env_or_def auth_env_sample_def)
  have "auth_middleware (sv_jwt server_ops_sample) (ap_auth sample_start) (Some ''Bearer guess'') = Inl UNAUTHORIZED"
    unfolding auth by (simp add: load_auth_config_def jwt_from_env_def env_or_def auth_env_sample_def auth_with_secret_def
        auth_middleware_def starts_with_def constant_time_eq_iff as_bytes_inj Let_def)
  then obtain ans s' where r: "router server_ops_sample (\<lambda>n. of_nat n) (sample_post (Some ''Bearer guess'')) sample_start = Some (ans, s')"
      "ans = AnsStatus UNAUTHORIZED"
    by (simp add: router_def sample_post_route) (simp add: sample_post_def)
  with protected_requires_credential [OF conf auth none r(1)] show ?thesis by simp
qed


end
