(* ===== verification/Metrics.thy ===== *)
theory Metrics
  imports Prelude
begin

text \<open>
  The counters of \<open>server/prometheus.rs\<close>: 64-bit atomic counters that wrap around and a gauge
  that saturates at zero. Each record operation is a few atomic updates; an event of the model is one
  call. Costs are rationals; printing a cost with six decimals is an argument.
\<close>

record agnos_metrics =
  mt_crews_total :: u64
  mt_crews_active :: u64
  mt_tasks_completed :: u64
  mt_tasks_failed :: u64
  mt_inference_tokens_total :: u64
  mt_inference_cost_micro_usd :: u64

definition metrics_new :: agnos_metrics where
  "metrics_new = \<lparr> mt_crews_total = 0, mt_crews_active = 0, mt_tasks_completed = 0, mt_tasks_failed = 0,
     mt_inference_tokens_total = 0, mt_inference_cost_micro_usd = 0 \<rparr>"

definition record_crew_started :: "agnos_metrics \<Rightarrow> agnos_metrics" where
  "record_crew_started m = m\<lparr>mt_crews_total := mt_crews_total m + 1, mt_crews_active := mt_crews_active m + 1\<rparr>"

definition record_crew_completed :: "agnos_metrics \<Rightarrow> agnos_metrics" where
  "record_crew_completed m = m\<lparr>mt_crews_active := (if mt_crews_active m = 0 then 0 else mt_crews_active m - 1)\<rparr>"

definition record_task_completed :: "agnos_metrics \<Rightarrow> agnos_metrics" where
  "record_task_completed m = m\<lparr>mt_tasks_completed := mt_tasks_completed m + 1\<rparr>"

definition record_task_failed :: "agnos_metrics \<Rightarrow> agnos_metrics" where
  "record_task_failed m = m\<lparr>mt_tasks_failed := mt_tasks_failed m + 1\<rparr>"

text \<open>\<open>as u64\<close> on a float saturates.\<close>

definition float_to_u64 :: "rat \<Rightarrow> u64" where
  "float_to_u64 q = (if q \<le> 0 then 0 else if 2 ^ 64 \<le> q then - 1 else of_nat (nat \<lfloor>q\<rfloor>))"

definition record_inference :: "u64 \<Rightarrow> rat \<Rightarrow> agnos_metrics \<Rightarrow> agnos_metrics" where
  "record_inference tokens cost_usd m =
     m\<lparr>mt_inference_tokens_total := mt_inference_tokens_total m + tokens,
       mt_inference_cost_micro_usd := mt_inference_cost_micro_usd m + float_to_u64 (cost_usd * 1000000)\<rparr>"

definition inference_cost_usd :: "agnos_metrics \<Rightarrow> rat" where
  "inference_cost_usd m = of_nat (unat (mt_inference_cost_micro_usd m)) / 1000000"

definition metric_lines :: "string \<Rightarrow> string \<Rightarrow> string \<Rightarrow> string \<Rightarrow> string list" where
  "metric_lines name help kind value_text =
     [''# HELP '' @ name @ '' '' @ help, ''# TYPE '' @ name @ '' '' @ kind, name @ '' '' @ value_text]"

definition gather :: "(rat \<Rightarrow> string) \<Rightarrow> agnos_metrics \<Rightarrow> string list" where
  "gather fixed6 m =
     metric_lines ''agnosai_crews_total'' ''Total number of crews created.'' ''counter'' (nat_str (unat (mt_crews_total m))) @
     metric_lines ''agnosai_crews_active'' ''Number of currently active crews.'' ''gauge'' (nat_str (unat (mt_crews_active m))) @
     metric_lines ''agnosai_tasks_completed_total'' ''Total tasks completed successfully.'' ''counter''
       (nat_str (unat (mt_tasks_completed m))) @
     metric_lines ''agnosai_tasks_failed_total'' ''Total tasks that failed.'' ''counter'' (nat_str (unat (mt_tasks_failed m))) @
     metric_lines ''agnosai_inference_tokens_total'' ''Total inference tokens processed.'' ''counter''
       (nat_str (unat (mt_inference_tokens_total m))) @
     metric_lines ''agnosai_inference_cost_usd_total'' ''Total inference cost in USD.'' ''counter'' (fixed6 (inference_cost_usd m))"

section \<open>The gauge counts the running crews\<close>

datatype metric_event = CrewStarted | CrewCompleted | TaskCompleted | TaskFailed | Inference u64 rat

fun metric_step :: "metric_event \<Rightarrow> agnos_metrics \<Rightarrow> agnos_metrics" where
  "metric_step CrewStarted m = record_crew_started m"
| "metric_step CrewCompleted m = record_crew_completed m"
| "metric_step TaskCompleted m = record_task_completed m"
| "metric_step TaskFailed m = record_task_failed m"
| "metric_step (Inference tokens cost) m = record_inference tokens cost m"

text \<open>The crews that run: no event can complete a crew when none runs.\<close>

fun running :: "metric_event list \<Rightarrow> nat \<Rightarrow> nat" where
  "running [] n = n"
| "running (CrewStarted # es) n = running es (n + 1)"
| "running (CrewCompleted # es) n = running es (n - 1)"
| "running (_ # es) n = running es n"

lemma unat_small: "n < 2 ^ 64 \<Longrightarrow> unat (of_nat n :: u64) = n"
  by (simp add: unat_of_nat take_bit_nat_eq_self)

lemma gauge_step:
  assumes "mt_crews_active m = of_nat n" "n < 2 ^ 64"
  shows "mt_crews_active (record_crew_completed m) = of_nat (n - 1)"
proof (cases n)
  case (Suc k)
  with assms have "mt_crews_active m \<noteq> 0" by (metis Suc_neq_Zero unat_0 unat_small)
  with assms(1) Suc show ?thesis by (simp add: record_crew_completed_def)
qed (use assms in \<open>simp add: record_crew_completed_def\<close>)

lemma gauge_run:
  "mt_crews_active m = of_nat n \<Longrightarrow> n + length es < 2 ^ 64 \<Longrightarrow>
     mt_crews_active (fold metric_step es m) = of_nat (running es n) \<and> running es n < 2 ^ 64"
proof (induction es arbitrary: m n)
  case (Cons e es)
  show ?case
  proof (cases e)
    case CrewStarted
    with Cons.IH [of "record_crew_started m" "n + 1"] Cons.prems show ?thesis by (simp add: record_crew_started_def)
  next
    case CrewCompleted
    with Cons.IH [of "record_crew_completed m" "n - 1"] Cons.prems gauge_step [of m n] show ?thesis by simp
  next
    case TaskCompleted
    with Cons.IH [of "record_task_completed m" n] Cons.prems show ?thesis by (simp add: record_task_completed_def)
  next
    case TaskFailed
    with Cons.IH [of "record_task_failed m" n] Cons.prems show ?thesis by (simp add: record_task_failed_def)
  next
    case (Inference t c)
    with Cons.IH [of "record_inference t c m" n] Cons.prems show ?thesis by (simp add: record_inference_def)
  qed
qed simp

text \<open>The gauge of active crews is the number of crews that run, after fewer than \<open>2 ^ 64\<close>
  events in any order: it never underflows, and a completion without a running crew is ignored.\<close>

theorem metrics_gauge:
  assumes "length events < 2 ^ 64"
  shows "unat (mt_crews_active (fold metric_step events metrics_new)) = running events 0"
  using gauge_run [of metrics_new 0 events] assms by (simp add: metrics_new_def unat_small)

theorem metrics_gauge_witness:
  "unat (mt_crews_active (fold metric_step [CrewStarted, CrewStarted, CrewCompleted, TaskFailed] metrics_new)) = 1"
  using metrics_gauge [of "[CrewStarted, CrewStarted, CrewCompleted, TaskFailed]"] by simp

end
