(* ===== verification/Sandbox.thy ===== *)
theory Sandbox
  imports Core_Types
begin

text \<open>
  Sandboxes: the policies of \<open>sandbox/policy.rs\<close>, the dispatch of \<open>sandbox/manager.rs\<close>, the
  child processes of \<open>sandbox/process.rs\<close>, \<open>sandbox/python.rs\<close> and \<open>sandbox/oci.rs\<close>, the
  mapping of policies to the kavach crate of \<open>sandbox/kavach_bridge.rs\<close>, and the time limit of
  \<open>sandbox/wasm.rs\<close>. A child process is the command that is spawned (program, arguments and
  changes of the environment) with an argument for how it ends; seconds and nanoseconds are those of
  \<open>Duration\<close>. Logging is left out.
\<close>

section \<open>Policies\<close>

datatype isolation_level = IsoNone | IsoWasm | IsoProcess | IsoOci

fun strength :: "isolation_level \<Rightarrow> u8" where
  "strength IsoNone = 0"
| "strength IsoWasm = 1"
| "strength IsoProcess = 2"
| "strength IsoOci = 3"

text \<open>The derived order is that of the discriminants.\<close>

instantiation isolation_level :: linorder
begin

definition less_eq_isolation_level :: "isolation_level \<Rightarrow> isolation_level \<Rightarrow> bool" where
  "less_eq_isolation_level a b \<longleftrightarrow> strength a \<le> strength b"

definition less_isolation_level :: "isolation_level \<Rightarrow> isolation_level \<Rightarrow> bool" where
  "less_isolation_level a b \<longleftrightarrow> strength a < strength b"

instance
proof
  show "a = b" if "a \<le> b" "b \<le> a" for a b :: isolation_level
  proof -
    from that have "strength a = strength b" by (simp add: less_eq_isolation_level_def)
    then show ?thesis by (cases a; cases b) auto
  qed
qed (auto simp: less_eq_isolation_level_def less_isolation_level_def)

end

record sandbox_policy =
  sp_min_isolation :: isolation_level
  sp_needs_filesystem :: bool
  sp_needs_network :: bool
  sp_max_duration_secs :: u64
  sp_max_memory_bytes :: nat

definition policy_native :: sandbox_policy where
  "policy_native = \<lparr> sp_min_isolation = IsoNone, sp_needs_filesystem = False, sp_needs_network = False,
     sp_max_duration_secs = 300, sp_max_memory_bytes = 0 \<rparr>"

definition policy_wasm :: sandbox_policy where
  "policy_wasm = \<lparr> sp_min_isolation = IsoWasm, sp_needs_filesystem = False, sp_needs_network = False,
     sp_max_duration_secs = 30, sp_max_memory_bytes = 64 * 1024 * 1024 \<rparr>"

definition policy_process :: sandbox_policy where
  "policy_process = \<lparr> sp_min_isolation = IsoProcess, sp_needs_filesystem = True, sp_needs_network = False,
     sp_max_duration_secs = 60, sp_max_memory_bytes = 256 * 1024 * 1024 \<rparr>"

definition policy_container :: sandbox_policy where
  "policy_container = \<lparr> sp_min_isolation = IsoOci, sp_needs_filesystem = True, sp_needs_network = True,
     sp_max_duration_secs = 120, sp_max_memory_bytes = 512 * 1024 * 1024 \<rparr>"

definition effective_isolation :: "sandbox_policy \<Rightarrow> isolation_level" where
  "effective_isolation p =
     (let level = sp_min_isolation p
      in if sp_needs_network p \<and> level < IsoOci then IsoOci
         else if sp_needs_filesystem p \<and> level < IsoProcess then IsoProcess
         else level)"

section \<open>Child processes\<close>

text \<open>Changes of the inherited environment, in the order of the calls.\<close>

datatype env_change = EnvRemove string | EnvClear | EnvSet string string

fun env_apply :: "env_change \<Rightarrow> (string \<rightharpoonup> string) \<Rightarrow> (string \<rightharpoonup> string)" where
  "env_apply (EnvRemove k) e = e(k := None)"
| "env_apply EnvClear e = Map.empty"
| "env_apply (EnvSet k v) e = e(k \<mapsto> v)"

record command =
  cm_program :: string
  cm_args :: "string list"
  cm_env :: "env_change list"
  cm_dir :: "string option"

definition child_env :: "command \<Rightarrow> (string \<rightharpoonup> string) \<Rightarrow> (string \<rightharpoonup> string)" where
  "child_env cmd inherited = fold env_apply (cm_env cmd) inherited"

definition SANITIZED_ENV_VARS :: "string list" where
  "SANITIZED_ENV_VARS = [''LD_PRELOAD'', ''LD_LIBRARY_PATH'', ''DYLD_INSERT_LIBRARIES'', ''DYLD_LIBRARY_PATH'']"

text \<open>How a child ends: it cannot be started, its input cannot be written (the rest says how it
  went on), waiting fails, it ends with a code (none when a signal killed it) and the two outputs,
  or the timeout fires.\<close>

datatype child_end = WaitFails string | Exits "int option" string string | TimesOut

datatype child_run = SpawnFails string | StdinFails string child_end | Runs child_end

record child_result =
  cx_stdout :: string
  cx_stderr :: string
  cx_exit_code :: int
  cx_timed_out :: bool

fun child_outcome :: "string \<Rightarrow> child_end \<Rightarrow> child_result res" where
  "child_outcome what (WaitFails e) = Inl (Sandbox (what @ '' I/O error: '' @ e))"
| "child_outcome what (Exits code out err) =
     Inr \<lparr> cx_stdout = out, cx_stderr = err, cx_exit_code = (case code of None \<Rightarrow> - 1 | Some c \<Rightarrow> c), cx_timed_out = False \<rparr>"
| "child_outcome what TimesOut = Inr \<lparr> cx_stdout = '''', cx_stderr = '''', cx_exit_code = - 1, cx_timed_out = True \<rparr>"

type_synonym spawner = "command \<Rightarrow> string \<Rightarrow> duration \<Rightarrow> child_run"

record process_config =
  pc_executable :: string
  pc_args :: "string list"
  pc_work_dir :: "string option"
  pc_timeout :: duration
  pc_env :: "(string \<times> string) list"
  pc_clean_env :: bool

definition process_shell :: "duration \<Rightarrow> process_config" where
  "process_shell timeout = \<lparr> pc_executable = ''/bin/sh'', pc_args = [''-c''], pc_work_dir = None, pc_timeout = timeout,
     pc_env = [], pc_clean_env = False \<rparr>"

definition process_env :: "process_config \<Rightarrow> env_change list" where
  "process_env cfg = map EnvRemove SANITIZED_ENV_VARS @ (if pc_clean_env cfg then [EnvClear] else []) @
     map (\<lambda>(k, v). EnvSet k v) (pc_env cfg)"

definition run_child :: "string \<Rightarrow> string \<Rightarrow> spawner \<Rightarrow> command \<Rightarrow> string \<Rightarrow> duration \<Rightarrow> child_result res" where
  "run_child what name spawn cmd input timeout =
     (case spawn cmd input timeout of
        SpawnFails e \<Rightarrow> Inl (Sandbox (''failed to spawn '' @ name @ '': '' @ e))
      | StdinFails _ r \<Rightarrow> child_outcome what r
      | Runs r \<Rightarrow> child_outcome what r)"

definition process_execute_argv :: "spawner \<Rightarrow> process_config \<Rightarrow> string list \<Rightarrow> string \<Rightarrow> child_result res" where
  "process_execute_argv spawn cfg argv input =
     (case argv of
        [] \<Rightarrow> Inl (Sandbox ''empty argv'')
      | prog # args \<Rightarrow>
          run_child ''process'' prog spawn
            \<lparr> cm_program = prog, cm_args = args, cm_env = process_env cfg, cm_dir = pc_work_dir cfg \<rparr> input (pc_timeout cfg))"

definition process_execute :: "spawner \<Rightarrow> process_config \<Rightarrow> string \<Rightarrow> string \<Rightarrow> child_result res" where
  "process_execute spawn cfg cmdline input =
     run_child ''process'' (pc_executable cfg) spawn
       \<lparr> cm_program = pc_executable cfg, cm_args = pc_args cfg @ [cmdline], cm_env = process_env cfg,
         cm_dir = pc_work_dir cfg \<rparr> input (pc_timeout cfg)"

record python_sandbox =
  py_python_path :: string
  py_timeout :: duration
  py_work_dir :: "string option"

definition python_new :: python_sandbox where
  "python_new = \<lparr> py_python_path = ''python3'', py_timeout = 30 * 1000000000, py_work_dir = None \<rparr>"

definition python_with_config :: "string \<Rightarrow> duration \<Rightarrow> python_sandbox" where
  "python_with_config path timeout = \<lparr> py_python_path = path, py_timeout = timeout, py_work_dir = None \<rparr>"

definition with_work_dir :: "string \<Rightarrow> python_sandbox \<Rightarrow> python_sandbox" where
  "with_work_dir dir py = py\<lparr>py_work_dir := Some dir\<rparr>"

definition execute_script :: "spawner \<Rightarrow> python_sandbox \<Rightarrow> string \<Rightarrow> string \<Rightarrow> child_result res" where
  "execute_script spawn py script input =
     (case spawn \<lparr> cm_program = py_python_path py, cm_args = [''-c'', script], cm_env = map EnvRemove SANITIZED_ENV_VARS,
                   cm_dir = py_work_dir py \<rparr> input (py_timeout py) of
        SpawnFails e \<Rightarrow> Inl (Sandbox (''failed to spawn python process: '' @ e))
      | StdinFails e _ \<Rightarrow> Inl (Sandbox (''failed to write to python stdin: '' @ e))
      | Runs r \<Rightarrow> child_outcome ''python process'' r)"

text \<open>The wrapper script is a constant text; \<open>to_string\<close> prints the JSON it reads.\<close>

definition execute_tool :: "spawner \<Rightarrow> (json \<Rightarrow> string + string) \<Rightarrow> string \<Rightarrow> python_sandbox \<Rightarrow> string \<Rightarrow> string \<Rightarrow> json
    \<Rightarrow> child_result res" where
  "execute_tool spawn to_string wrapper_script py tool_source tool_name parameters =
     (case to_string (JObject [(''__tool_source__'', JString tool_source), (''tool_name'', JString tool_name),
        (''parameters'', parameters)]) of
        Inl e \<Rightarrow> Inl (Serialization e)
      | Inr input_str \<Rightarrow> execute_script spawn py wrapper_script input_str)"

section \<open>Containers\<close>

record oci_config =
  oc_runtime :: string
  oc_image :: string
  oc_timeout :: duration
  oc_memory_limit :: string
  oc_allow_network :: bool
  oc_env :: "(string \<times> string) list"
  oc_volumes :: "string list"

definition oci_config_new :: "string \<Rightarrow> oci_config" where
  "oci_config_new img = \<lparr> oc_runtime = ''docker'', oc_image = img, oc_timeout = 60 * 1000000000, oc_memory_limit = ''256m'',
     oc_allow_network = False, oc_env = [], oc_volumes = [] \<rparr>"

text \<open>The characters of a UTF-8 text: a byte with the continuation bytes that follow it. What is
  alphanumeric comes from the Unicode tables, an argument.\<close>

definition utf8_continuation :: "char \<Rightarrow> bool" where
  "utf8_continuation c \<longleftrightarrow> (let n = (of_char c :: nat) in 128 \<le> n \<and> n < 192)"

function utf8_chars :: "string \<Rightarrow> string list" where
  "utf8_chars [] = []"
| "utf8_chars (c # cs) = (c # takeWhile utf8_continuation cs) # utf8_chars (dropWhile utf8_continuation cs)"
  by pat_completeness auto

termination utf8_chars
  by (relation "measure length") (auto simp: length_dropWhile_le le_imp_less_Suc)

definition quote_char :: "string \<Rightarrow> string" where
  "quote_char s = [CHR 0x27] @ s @ [CHR 0x27]"

definition validate_image_ref :: "(string \<Rightarrow> bool) \<Rightarrow> string \<Rightarrow> string + unit" where
  "validate_image_ref is_alphanumeric img =
     (if img = [] then Inl ''image name is empty''
      else if starts_with img ''-''
      then Inl (''image name must not start with '' @ quote_char ''-'' @ '' (flag injection)'')
      else case find (\<lambda>c. \<not> is_alphanumeric c \<and> c \<notin> set (map (\<lambda>x. [x]) ''-_./:#@'')) (utf8_chars img) of
        Some ch \<Rightarrow> Inl (''image name contains invalid character: '' @ quote_char ch)
      | None \<Rightarrow> Inr ())"

definition oci_new :: "(string \<Rightarrow> bool) \<Rightarrow> oci_config \<Rightarrow> oci_config res" where
  "oci_new is_alphanumeric cfg =
     (case validate_image_ref is_alphanumeric (oc_image cfg) of
        Inl e \<Rightarrow> Inl (Sandbox (''invalid OCI image: '' @ e))
      | Inr _ \<Rightarrow> Inr cfg)"

definition oci_options :: "oci_config \<Rightarrow> string list" where
  "oci_options cfg =
     [''run'', ''--rm'', ''-i'', ''--read-only'', ''--tmpfs'', ''/tmp'', ''--memory'', oc_memory_limit cfg] @
     (if \<not> oc_allow_network cfg then [''--network=none''] else []) @
     concat (map (\<lambda>(k, v). [''--env'', k @ ''='' @ v]) (oc_env cfg)) @
     concat (map (\<lambda>vol. [''-v'', vol]) (oc_volumes cfg))"

definition oci_execute :: "spawner \<Rightarrow> oci_config \<Rightarrow> string list \<Rightarrow> string \<Rightarrow> child_result res" where
  "oci_execute spawn cfg entrypoint_args input =
     run_child ''container'' (oc_runtime cfg @ '' container'') spawn
       \<lparr> cm_program = oc_runtime cfg, cm_args = oci_options cfg @ [oc_image cfg] @ entrypoint_args, cm_env = [], cm_dir = None \<rparr>
       input (oc_timeout cfg)"

section \<open>The manager\<close>

record sandbox_result =
  sx_stdout :: string
  sx_stderr :: string
  sx_exit_code :: int
  sx_timed_out :: bool
  sx_backend :: isolation_level

record sandbox_manager =
  sm_default_timeout :: duration
  sm_oci_runtime :: string
  sm_oci_default_image :: string
  sm_oci_memory_limit :: string

definition sandbox_manager_default :: sandbox_manager where
  "sandbox_manager_default = \<lparr> sm_default_timeout = 30 * 1000000000, sm_oci_runtime = ''docker'',
     sm_oci_default_image = ''alpine:latest'', sm_oci_memory_limit = ''256m'' \<rparr>"

definition with_backend :: "isolation_level \<Rightarrow> child_result res \<Rightarrow> sandbox_result res" where
  "with_backend level r =
     (case r of
        Inl e \<Rightarrow> Inl e
      | Inr c \<Rightarrow> Inr \<lparr> sx_stdout = cx_stdout c, sx_stderr = cx_stderr c, sx_exit_code = cx_exit_code c,
                      sx_timed_out = cx_timed_out c, sx_backend = level \<rparr>)"

definition policy_timeout :: "sandbox_manager \<Rightarrow> sandbox_policy \<Rightarrow> duration" where
  "policy_timeout m p =
     (if 0 < sp_max_duration_secs p then unat (sp_max_duration_secs p) * 1000000000 else sm_default_timeout m)"

definition manager_oci :: "sandbox_manager \<Rightarrow> sandbox_policy \<Rightarrow> oci_config" where
  "manager_oci m p = \<lparr> oc_runtime = sm_oci_runtime m, oc_image = sm_oci_default_image m, oc_timeout = policy_timeout m p,
     oc_memory_limit = sm_oci_memory_limit m, oc_allow_network = sp_needs_network p, oc_env = [], oc_volumes = [] \<rparr>"

definition manager_execute_argv :: "(string \<Rightarrow> bool) \<Rightarrow> spawner \<Rightarrow> sandbox_manager \<Rightarrow> sandbox_policy \<Rightarrow> string list \<Rightarrow> string
    \<Rightarrow> sandbox_result res" where
  "manager_execute_argv is_alphanumeric spawn m p argv input =
     (case effective_isolation p of
        IsoNone \<Rightarrow> Inr \<lparr> sx_stdout = input, sx_stderr = '''', sx_exit_code = 0, sx_timed_out = False, sx_backend = IsoNone \<rparr>
      | IsoWasm \<Rightarrow> Inl (Sandbox ''WASM tools must be executed via WasmSandbox directly with a compiled module'')
      | IsoProcess \<Rightarrow> with_backend IsoProcess (process_execute_argv spawn (process_shell (policy_timeout m p)) argv input)
      | IsoOci \<Rightarrow>
          (case oci_new is_alphanumeric (manager_oci m p) of
             Inl e \<Rightarrow> Inl e
           | Inr cfg \<Rightarrow> with_backend IsoOci (oci_execute spawn cfg argv input)))"

definition resolve_backend :: "sandbox_policy \<Rightarrow> isolation_level" where
  "resolve_backend p = effective_isolation p"

section \<open>The kavach bridge\<close>

text \<open>The configuration handed to the kavach crate: its builder calls, as a record.\<close>

datatype kavach_backend = Noop | BkWasm | BkProcess | BkOci

fun map_backend :: "isolation_level \<Rightarrow> kavach_backend" where
  "map_backend IsoNone = Noop"
| "map_backend IsoWasm = BkWasm"
| "map_backend IsoProcess = BkProcess"
| "map_backend IsoOci = BkOci"

datatype severity = SevLow | SevMedium | SevHigh | SevCritical

record externalization_policy =
  xp_enabled :: bool
  xp_max_artifact_size_bytes :: nat
  xp_block_threshold :: severity
  xp_quarantine_threshold :: severity
  xp_redact_secrets :: bool

record kavach_config =
  kc_backend :: kavach_backend
  kc_network :: bool
  kc_timeout_ms :: u64
  kc_agent_id :: "string option"
  kc_externalization :: externalization_policy
  kc_seccomp :: "string option"

text \<open>\<open>default_policy\<close> is \<open>ExternalizationPolicy::default()\<close>.\<close>

definition build_config :: "externalization_policy \<Rightarrow> sandbox_policy \<Rightarrow> string option \<Rightarrow> kavach_config" where
  "build_config default_policy p agent_id =
     \<lparr> kc_backend = map_backend (effective_isolation p), kc_network = sp_needs_network p,
       kc_timeout_ms = sp_max_duration_secs p * 1000, kc_agent_id = agent_id, kc_externalization = default_policy,
       kc_seccomp = (if IsoProcess \<le> effective_isolation p then Some ''basic'' else None) \<rparr>"

definition policy_for_trust :: "externalization_policy \<Rightarrow> string \<Rightarrow> externalization_policy" where
  "policy_for_trust default_policy trust =
     (if trust = ''minimal''
      then \<lparr> xp_enabled = True, xp_max_artifact_size_bytes = 1024 * 1024, xp_block_threshold = SevMedium,
             xp_quarantine_threshold = SevLow, xp_redact_secrets = True \<rparr>
      else if trust = ''strict''
      then \<lparr> xp_enabled = True, xp_max_artifact_size_bytes = 10 * 1024 * 1024, xp_block_threshold = SevHigh,
             xp_quarantine_threshold = SevMedium, xp_redact_secrets = True \<rparr>
      else default_policy)"

section \<open>Isolation is never weaker than the policy\<close>

lemma isolation_simps [simp]:
  "IsoNone \<le> x" "x \<le> IsoOci" "IsoWasm < IsoProcess" "IsoNone < IsoProcess" "IsoNone < IsoOci" "IsoWasm < IsoOci"
  "IsoProcess < IsoOci" "\<not> IsoOci < x" "\<not> IsoProcess < IsoProcess"
  by (cases x; simp add: less_eq_isolation_level_def less_isolation_level_def)+

lemma effective_isolation_max:
  "effective_isolation p = max (sp_min_isolation p)
     (if sp_needs_network p then IsoOci else if sp_needs_filesystem p then IsoProcess else IsoNone)"
  by (cases "sp_min_isolation p") (auto simp: effective_isolation_def max_def less_eq_isolation_level_def less_isolation_level_def)

lemma env_set_other: "v \<notin> fst ` set kvs \<Longrightarrow> fold env_apply (map (\<lambda>(k, x). EnvSet k x) kvs) e v = e v"
  by (induction kvs arbitrary: e) auto

lemma env_removed: "v \<in> set vs \<Longrightarrow> fold env_apply (map EnvRemove vs) e v = None"
proof (induction vs arbitrary: e)
  case (Cons x vs)
  have keep: "fold env_apply (map EnvRemove vs) e v = None" if "e v = None" for e :: "string \<rightharpoonup> string"
    using that by (induction vs arbitrary: e) auto
  from Cons keep show ?case by (cases "v \<in> set vs") auto
qed simp

text \<open>A child process of the process sandbox never sees the variables that inject libraries, unless
  the configuration itself sets them.\<close>

lemma process_env_sanitized:
  assumes "v \<in> set SANITIZED_ENV_VARS" "v \<notin> fst ` set (pc_env cfg)" "cm_env c = process_env cfg"
  shows "child_env c inherited v = None"
  using assms by (simp add: child_env_def process_env_def env_set_other env_removed)

text \<open>The commands that the manager may spawn for a policy, and a spawner that refuses all others.\<close>

definition confined :: "sandbox_manager \<Rightarrow> sandbox_policy \<Rightarrow> string list \<Rightarrow> command set" where
  "confined m p argv =
     (case effective_isolation p of
        IsoProcess \<Rightarrow> {c. cm_program c # cm_args c = argv \<and>
          (\<forall>inherited. \<forall>v \<in> set SANITIZED_ENV_VARS. child_env c inherited v = None)}
      | IsoOci \<Rightarrow> {c. cm_program c = sm_oci_runtime m \<and> \<not> starts_with (sm_oci_default_image m) ''-'' \<and>
          (\<exists>opts. cm_args c = opts @ sm_oci_default_image m # argv \<and> {''--rm'', ''--read-only''} \<subseteq> set opts \<and>
             (sp_needs_network p \<or> ''--network=none'' \<in> set opts))}
      | _ \<Rightarrow> {})"

definition restrict_spawn :: "command set \<Rightarrow> spawner \<Rightarrow> spawner" where
  "restrict_spawn ok spawn = (\<lambda>c input timeout. if c \<in> ok then spawn c input timeout else SpawnFails ''refused'')"

lemma image_ref_no_flag: "validate_image_ref ia img = Inr () \<Longrightarrow> \<not> starts_with img ''-''"
  by (auto simp: validate_image_ref_def split: if_splits)

text \<open>C21. The sandbox manager confines what it runs: it starts nothing but commands allowed for the policy
  (refusing all others changes no result), that is, for the process backend the given argument
  vector without the variables that inject libraries, and for the container backend a read-only
  container of the configured image, which is no flag, without network unless the policy asks
  for it. The backend it reports is at least as strong as the policy demands, with a container for
  network access and a process for file access.\<close>

theorem manager_confines:
  "manager_execute_argv ia spawn m p argv input =
     manager_execute_argv ia (restrict_spawn (confined m p argv) spawn) m p argv input \<and>
   {sx_backend r |r. manager_execute_argv ia spawn m p argv input = Inr r} \<subseteq>
     {level. level = max (sp_min_isolation p)
        (if sp_needs_network p then IsoOci else if sp_needs_filesystem p then IsoProcess else IsoNone)}"
proof
  show "manager_execute_argv ia spawn m p argv input =
     manager_execute_argv ia (restrict_spawn (confined m p argv) spawn) m p argv input"
  proof (cases "effective_isolation p")
    case IsoProcess
    show ?thesis
    proof (cases argv)
      case (Cons prog args)
      let ?c = "\<lparr> cm_program = prog, cm_args = args, cm_env = process_env (process_shell (policy_timeout m p)), cm_dir = None \<rparr>"
      have "\<forall>inherited. \<forall>v \<in> set SANITIZED_ENV_VARS. child_env ?c inherited v = None"
        using process_env_sanitized [of _ "process_shell (policy_timeout m p)" ?c] by (simp add: process_shell_def)
      then have "?c \<in> confined m p argv" using IsoProcess Cons by (simp add: confined_def)
      with IsoProcess Cons show ?thesis
        by (simp add: manager_execute_argv_def process_execute_argv_def run_child_def restrict_spawn_def process_shell_def)
    qed (simp add: manager_execute_argv_def process_execute_argv_def IsoProcess)
  next
    case IsoOci
    show ?thesis
    proof (cases "validate_image_ref ia (sm_oci_default_image m)")
      case (Inr u)
      let ?o = "manager_oci m p"
      let ?c = "\<lparr> cm_program = oc_runtime ?o, cm_args = oci_options ?o @ [oc_image ?o] @ argv, cm_env = [], cm_dir = None \<rparr>"
      have "?c \<in> confined m p argv"
        using IsoOci image_ref_no_flag Inr by (auto simp: confined_def manager_oci_def oci_options_def)
      with IsoOci show ?thesis
        by (simp add: manager_execute_argv_def oci_execute_def run_child_def restrict_spawn_def split: sum.split)
          (auto simp: oci_new_def split: sum.splits)
    qed (simp add: manager_execute_argv_def IsoOci oci_new_def manager_oci_def)
  qed (simp_all add: manager_execute_argv_def)
  show "{sx_backend r |r. manager_execute_argv ia spawn m p argv input = Inr r} \<subseteq>
     {level. level = max (sp_min_isolation p)
        (if sp_needs_network p then IsoOci else if sp_needs_filesystem p then IsoProcess else IsoNone)}"
    unfolding effective_isolation_max [symmetric]
    by (auto simp: manager_execute_argv_def with_backend_def split: isolation_level.splits sum.splits)
qed

end
