(* ===== verification/Sandbox_Tools.thy ===== *)
theory Sandbox_Tools
  imports Sandbox Builtin_Tools
begin

text \<open>
  Tools that run in a sandbox: \<open>tools/python_tool.rs\<close>, \<open>tools/wasm_tool.rs\<close>, the package loader
  of \<open>tools/wasm_loader.rs\<close>, the download of \<open>tools/remote_registry.rs\<close>, and the execution
  limits of \<open>sandbox/wasm.rs\<close>. The wasmtime engine is an argument: what a call of a module
  returns; its epoch counter, which stops modules that run too long, is modelled by a step relation.
\<close>

section \<open>The answer of a sandboxed tool\<close>

definition int_text :: "int \<Rightarrow> string" where
  "int_text n = (if n < 0 then ''-'' @ nat_str (nat (- n)) else nat_str (nat n))"

definition parsed_output :: "json \<Rightarrow> tool_output" where
  "parsed_output v =
     (if (case json_field ''success'' as_bool v of None \<Rightarrow> True | Some b \<Rightarrow> b)
      then tool_ok (case json_get ''result'' v of None \<Rightarrow> v | Some r \<Rightarrow> r)
      else tool_err (case json_field ''error'' as_str v of None \<Rightarrow> ''unknown error'' | Some e \<Rightarrow> e))"

section \<open>Python tools\<close>

record python_tool =
  pt_name :: string
  pt_description :: string
  pt_parameters :: "parameter_schema list"
  pt_source :: string
  pt_sandbox :: python_sandbox

definition python_output :: "(string \<Rightarrow> json option) \<Rightarrow> child_result \<Rightarrow> tool_output" where
  "python_output parse r =
     (if cx_timed_out r then tool_err ''python tool execution timed out''
      else if cx_exit_code r \<noteq> 0
      then tool_err (if cx_stderr r = [] then ''python tool exited with code '' @ int_text (cx_exit_code r)
                     else str_trim (cx_stderr r))
      else case parse (str_trim (cx_stdout r)) of
             Some v \<Rightarrow> parsed_output v
           | None \<Rightarrow> tool_ok (JString (str_trim (cx_stdout r))))"

definition python_execute :: "spawner \<Rightarrow> (json \<Rightarrow> string + string) \<Rightarrow> string \<Rightarrow> (string \<Rightarrow> json option)
    \<Rightarrow> (agnosai_error \<Rightarrow> string) \<Rightarrow> python_tool \<Rightarrow> tool_input \<Rightarrow> tool_output" where
  "python_execute spawn to_string wrapper parse err_str t input =
     (case execute_tool spawn to_string wrapper (pt_sandbox t) (pt_source t) (pt_name t) (JObject (ti_parameters input)) of
        Inr r \<Rightarrow> python_output parse r
      | Inl e \<Rightarrow> tool_err (''python sandbox error: '' @ err_str e))"

definition python_native :: "spawner \<Rightarrow> (json \<Rightarrow> string + string) \<Rightarrow> string \<Rightarrow> (string \<Rightarrow> json option)
    \<Rightarrow> (agnosai_error \<Rightarrow> string) \<Rightarrow> python_tool \<Rightarrow> native_tool" where
  "python_native spawn to_string wrapper parse err_str t =
     make_tool (pt_name t) (pt_description t) (pt_parameters t) (python_execute spawn to_string wrapper parse err_str t)"

section \<open>WASM tools\<close>

definition DEFAULT_MAX_MEMORY_BYTES :: nat where
  "DEFAULT_MAX_MEMORY_BYTES = 64 * 1024 * 1024"

definition DEFAULT_FUEL :: u64 where
  "DEFAULT_FUEL = 1000000000"

definition STDOUT_CAPACITY :: nat where
  "STDOUT_CAPACITY = 1024 * 1024"

text \<open>The engine: compiling, linking and looking up the entry point, and the call of \<open>_start\<close>
  within memory and fuel, which returns, or fails with an exit code of \<open>proc_exit\<close> or with
  the text of an error chain; and the captured output.\<close>

datatype start_outcome = Returned | ExitCalled int | Trapped string

record 'm wasm_engine =
  wn_compile :: "string \<Rightarrow> string + 'm"
  wn_link :: "'m \<Rightarrow> string option"
  wn_has_start :: "'m \<Rightarrow> bool"
  wn_call :: "'m \<Rightarrow> nat \<Rightarrow> u64 \<Rightarrow> duration \<Rightarrow> string \<Rightarrow> start_outcome \<times> string"

record 'm wasm_sandbox =
  ws_engine :: "'m wasm_engine"
  ws_max_memory_bytes :: nat
  ws_timeout :: duration
  ws_fuel :: u64

record wasm_result =
  wx_stdout :: string
  wx_exit_code :: int

definition wasm_with_limits :: "'m wasm_engine \<Rightarrow> nat \<Rightarrow> duration \<Rightarrow> 'm wasm_sandbox" where
  "wasm_with_limits engine max_memory_bytes timeout =
     \<lparr> ws_engine = engine, ws_max_memory_bytes = max_memory_bytes, ws_timeout = timeout, ws_fuel = DEFAULT_FUEL \<rparr>"

definition wasm_new :: "'m wasm_engine \<Rightarrow> 'm wasm_sandbox" where
  "wasm_new engine = wasm_with_limits engine DEFAULT_MAX_MEMORY_BYTES (30 * 1000000000)"

definition load_module :: "'m wasm_sandbox \<Rightarrow> string \<Rightarrow> 'm res" where
  "load_module ws bytes = (case wn_compile (ws_engine ws) bytes of Inl e \<Rightarrow> Inl (Sandbox e) | Inr m \<Rightarrow> Inr m)"

fun extract_exit_code :: "start_outcome \<Rightarrow> int" where
  "extract_exit_code Returned = 0"
| "extract_exit_code (ExitCalled n) = n"
| "extract_exit_code (Trapped full) =
     (if str_contains full ''epoch'' \<or> str_contains full ''interrupt'' then - 1
      else if str_contains full ''fuel'' then - 2
      else - 3)"

definition wasm_execute :: "'m wasm_sandbox \<Rightarrow> 'm \<Rightarrow> string \<Rightarrow> wasm_result res" where
  "wasm_execute ws m input =
     (case wn_link (ws_engine ws) m of
        Some e \<Rightarrow> Inl (Sandbox e)
      | None \<Rightarrow>
          if \<not> wn_has_start (ws_engine ws) m then Inl (Sandbox ''module does not export a WASI _start function'')
          else
            (let (outcome, out) = wn_call (ws_engine ws) m (ws_max_memory_bytes ws) (ws_fuel ws) (ws_timeout ws) input
             in Inr \<lparr> wx_stdout = out, wx_exit_code = extract_exit_code outcome \<rparr>))"

record wasm_tool_manifest =
  wm_name :: string
  wm_description :: string
  wm_parameters :: "parameter_schema list"

record 'm wasm_tool =
  wt_manifest :: wasm_tool_manifest
  wt_sandbox :: "'m wasm_sandbox"
  wt_module :: 'm

definition wasm_from_bytes :: "wasm_tool_manifest \<Rightarrow> 'm wasm_sandbox \<Rightarrow> string \<Rightarrow> 'm wasm_tool res" where
  "wasm_from_bytes manifest ws bytes =
     (case load_module ws bytes of
        Inl e \<Rightarrow> Inl e
      | Inr m \<Rightarrow> Inr \<lparr> wt_manifest = manifest, wt_sandbox = ws, wt_module = m \<rparr>)"

definition wasm_output :: "(string \<Rightarrow> json option) \<Rightarrow> wasm_result \<Rightarrow> tool_output" where
  "wasm_output parse r =
     (if wx_exit_code r \<noteq> 0 then tool_err (''WASM module exited with code '' @ int_text (wx_exit_code r))
      else case parse (wx_stdout r) of Some v \<Rightarrow> parsed_output v | None \<Rightarrow> tool_ok (JString (wx_stdout r)))"

definition wasm_tool_execute :: "(json \<Rightarrow> string + string) \<Rightarrow> (string \<Rightarrow> json option) \<Rightarrow> (agnosai_error \<Rightarrow> string)
    \<Rightarrow> 'm wasm_tool \<Rightarrow> tool_input \<Rightarrow> tool_output" where
  "wasm_tool_execute to_string parse err_str t input =
     (case to_string (JObject [(''parameters'', JObject (ti_parameters input))]) of
        Inl e \<Rightarrow> tool_err (''failed to serialize input: '' @ e)
      | Inr input_json \<Rightarrow>
          (case wasm_execute (wt_sandbox t) (wt_module t) input_json of
             Inr r \<Rightarrow> wasm_output parse r
           | Inl e \<Rightarrow> tool_err (''WASM execution failed: '' @ err_str e)))"

definition wasm_native :: "(json \<Rightarrow> string + string) \<Rightarrow> (string \<Rightarrow> json option) \<Rightarrow> (agnosai_error \<Rightarrow> string)
    \<Rightarrow> 'm wasm_tool \<Rightarrow> native_tool" where
  "wasm_native to_string parse err_str t =
     make_tool (wm_name (wt_manifest t)) (wm_description (wt_manifest t)) (wm_parameters (wt_manifest t))
       (wasm_tool_execute to_string parse err_str t)"

lemma parsed_output_ok [simp]: "to_success (parsed_output v) \<longleftrightarrow> to_error (parsed_output v) = None"
  by (simp add: parsed_output_def)

interpretation python: tool "python_native spawn to_string wrapper parse err_str t" for spawn to_string wrapper parse err_str t
  by unfold_locales
    (auto simp: python_native_def make_tool_def python_execute_def python_output_def split: sum.splits option.splits)

interpretation wasm: tool "wasm_native to_string parse err_str t" for to_string parse err_str t
  by unfold_locales
    (auto simp: wasm_native_def make_tool_def wasm_tool_execute_def wasm_output_def split: sum.splits option.splits)

section \<open>Packages of WASM tools\<close>

record wasm_package =
  wp_name :: string
  wp_description :: string
  wp_version :: string
  wp_parameters :: "parameter_schema list"

record wasm_files =
  wf_read :: "string \<Rightarrow> string + string"
  wf_read_dir :: "string \<Rightarrow> string + (string + string) list"
  wf_is_dir :: "string \<Rightarrow> bool"
  wf_exists :: "string \<Rightarrow> bool"

definition load_tool_package :: "(string \<Rightarrow> string + wasm_package) \<Rightarrow> wasm_files \<Rightarrow> 'm wasm_sandbox \<Rightarrow> string
    \<Rightarrow> 'm wasm_tool res" where
  "load_tool_package parse fs ws dir =
     (let manifest_path = path_join dir ''manifest.json''
      in case wf_read fs manifest_path of
        Inl e \<Rightarrow> Inl (InvalidDefinition (''failed to read '' @ manifest_path @ '': '' @ e))
      | Inr text \<Rightarrow>
          (case parse text of
             Inl e \<Rightarrow> Inl (Serialization e)
           | Inr pkg \<Rightarrow>
               (let wasm_path = path_join dir (wp_name pkg @ ''.wasm'')
                in case wf_read fs wasm_path of
                  Inl e \<Rightarrow> Inl (InvalidDefinition (''failed to read '' @ wasm_path @ '': '' @ e))
                | Inr bytes \<Rightarrow>
                    wasm_from_bytes \<lparr> wm_name = wp_name pkg, wm_description = wp_description pkg,
                      wm_parameters = wp_parameters pkg \<rparr> ws bytes)))"

fun load_packages :: "(string \<Rightarrow> 'm wasm_tool res) \<Rightarrow> ('m wasm_tool \<Rightarrow> native_tool) \<Rightarrow> wasm_files \<Rightarrow> (string + string) list
    \<Rightarrow> tool_registry \<Rightarrow> nat \<Rightarrow> nat res \<times> tool_registry" where
  "load_packages load native fs [] reg loaded = (Inr loaded, reg)"
| "load_packages load native fs (Inl e # es) reg loaded = (Inl (Io e), reg)"
| "load_packages load native fs (Inr path # es) reg loaded =
     (if \<not> wf_is_dir fs path then load_packages load native fs es reg loaded
      else if \<not> wf_exists fs (path_join path ''manifest.json'') then load_packages load native fs es reg loaded
      else case load path of
        Inr t \<Rightarrow> load_packages load native fs es (tool_register (native t) reg) (loaded + 1)
      | Inl _ \<Rightarrow> load_packages load native fs es reg loaded)"

definition load_all_tool_packages :: "(string \<Rightarrow> string + wasm_package) \<Rightarrow> ('m wasm_tool \<Rightarrow> native_tool) \<Rightarrow> wasm_files
    \<Rightarrow> 'm wasm_sandbox \<Rightarrow> string \<Rightarrow> tool_registry \<Rightarrow> nat res \<times> tool_registry" where
  "load_all_tool_packages parse native fs ws tools_dir reg =
     (case wf_read_dir fs tools_dir of
        Inl e \<Rightarrow> (Inl (Io e), reg)
      | Inr entries \<Rightarrow> load_packages (load_tool_package parse fs ws) native fs entries reg 0)"

section \<open>Downloading packages\<close>

definition MAX_DOWNLOAD_SIZE :: nat where
  "MAX_DOWNLOAD_SIZE = 10 * 1024 * 1024"

datatype fetch_result = FetchOk nat "string option" string | FetchError string

record download =
  dl_success :: bool
  dl_status_text :: string
  dl_content_length :: "u64 option"
  dl_content_type :: "string option"
  dl_bytes :: "string + string"

definition fetch_package :: "(string \<Rightarrow> url option) \<Rightarrow> (string \<Rightarrow> string + download) \<Rightarrow> string \<Rightarrow> fetch_result" where
  "fetch_package parse_url get u =
     (if \<not> is_safe_url parse_url u then FetchError ''URL rejected: private/internal network''
      else case get u of
        Inl e \<Rightarrow> FetchError (''download failed: '' @ e)
      | Inr resp \<Rightarrow>
          if \<not> dl_success resp then FetchError (''HTTP '' @ dl_status_text resp)
          else if (case dl_content_length resp of None \<Rightarrow> False | Some len \<Rightarrow> MAX_DOWNLOAD_SIZE < unat len)
          then FetchError (''package too large: '' @ nat_str (unat (the (dl_content_length resp))) @ '' bytes (max '' @
                 nat_str MAX_DOWNLOAD_SIZE @ '')'')
          else case dl_bytes resp of
            Inr bytes \<Rightarrow>
              if MAX_DOWNLOAD_SIZE < length bytes
              then FetchError (''package too large: '' @ nat_str (length bytes) @ '' bytes (max '' @ nat_str MAX_DOWNLOAD_SIZE @ '')'')
              else FetchOk (length bytes) (dl_content_type resp) bytes
          | Inl e \<Rightarrow> FetchError (''failed to read response body: '' @ e))"

section \<open>What a sandboxed tool reports\<close>

text \<open>The registry keeps its interface when packages are loaded, and the count is what was registered.\<close>

lemma load_packages_ok:
  assumes "\<And>t. tool (native t)" "registry_ok reg"
  shows "registry_ok (snd (load_packages load native fs es reg n))"
  using assms(2)
proof (induction es arbitrary: reg n)
  case (Cons e es)
  then show ?case by (cases e) (auto simp: registry_ok_register [OF _ assms(1)] split: sum.split)
qed simp

text \<open>A Python tool is a success only when the interpreter ended by itself with code 0.\<close>

lemma python_success:
  assumes "to_success (python_output parse r)"
  shows "\<not> cx_timed_out r \<and> cx_exit_code r = 0"
  using assms by (auto simp: python_output_def split: if_splits)

lemma nat_str_one: "nat_str (Suc 0) = ''1''"
  by code_simp

text \<open>The error of a Python tool is lost: the wrapper script reports an exception as JSON on its
  output and then exits with code 1, and the exit code is looked at first, so whatever the
  script reported the tool's error is only the exit code.\<close>

theorem python_tool_error_lost:
  "to_error (python_output parse \<lparr> cx_stdout = out, cx_stderr = '''', cx_exit_code = 1, cx_timed_out = False \<rparr>) =
     Some ''python tool exited with code 1''"
  by (simp add: python_output_def int_text_def nat_str_one)

section \<open>The time limit of WASM modules\<close>

text \<open>All modules of a sandbox share the epoch counter of its engine. A run sets its deadline one tick ahead of the
  counter (\<open>set_epoch_deadline(1)\<close>) and starts a ticker, which advances the counter when the timeout is
  over and the run has not ended; a run is stopped at its next check once the counter has reached its
  deadline, and may end by itself at any time.\<close>

datatype wasm_status = Active | Finished start_outcome

record epoch_run =
  er_deadline :: nat
  er_ticked :: bool
  er_status :: wasm_status

record epoch_state =
  ep_counter :: nat
  ep_runs :: "epoch_run list"

definition epoch_start :: "epoch_state \<Rightarrow> epoch_state" where
  "epoch_start s = s\<lparr>ep_runs := ep_runs s @ [\<lparr> er_deadline = ep_counter s + 1, er_ticked = False, er_status = Active \<rparr>]\<rparr>"

definition stop_run :: "nat \<Rightarrow> start_outcome \<Rightarrow> epoch_state \<Rightarrow> epoch_state" where
  "stop_run i out s = s\<lparr>ep_runs := (ep_runs s)[i := (ep_runs s ! i)\<lparr>er_status := Finished out\<rparr>]\<rparr>"

definition tick_run :: "nat \<Rightarrow> epoch_state \<Rightarrow> epoch_state" where
  "tick_run i s = s\<lparr>ep_counter := ep_counter s + 1, ep_runs := (ep_runs s)[i := (ep_runs s ! i)\<lparr>er_ticked := True\<rparr>]\<rparr>"

inductive epoch_step :: "epoch_state \<Rightarrow> epoch_state \<Rightarrow> bool" where
  start: "epoch_step s (epoch_start s)"
| tick: "i < length (ep_runs s) \<Longrightarrow> er_status (ep_runs s ! i) = Active \<Longrightarrow> \<not> er_ticked (ep_runs s ! i) \<Longrightarrow>
    epoch_step s (tick_run i s)"
| trap: "i < length (ep_runs s) \<Longrightarrow> er_status (ep_runs s ! i) = Active \<Longrightarrow> er_deadline (ep_runs s ! i) \<le> ep_counter s \<Longrightarrow>
    epoch_step s (stop_run i (Trapped ''wasm trap: interrupt'') s)"
| finish: "i < length (ep_runs s) \<Longrightarrow> er_status (ep_runs s ! i) = Active \<Longrightarrow> epoch_step s (stop_run i out s)"

inductive_cases epoch_stepE: "epoch_step s t"

definition epoch_init :: epoch_state where
  "epoch_init = \<lparr> ep_counter = 0, ep_runs = [] \<rparr>"

text \<open>A run whose ticker fired has reached its deadline.\<close>

definition ticked_due :: "epoch_state \<Rightarrow> bool" where
  "ticked_due s \<longleftrightarrow> (\<forall>r \<in> set (ep_runs s). er_deadline r \<le> ep_counter s + 1 \<and> (er_ticked r \<longrightarrow> er_deadline r \<le> ep_counter s))"

lemma ticked_due_step: "epoch_step s t \<Longrightarrow> ticked_due s \<Longrightarrow> ticked_due t"
proof (induction rule: epoch_step.induct)
  case (start s)
  then show ?case by (auto simp: ticked_due_def epoch_start_def)
next
  case (tick i s)
  then show ?case
    by (auto simp: ticked_due_def tick_run_def dest!: subsetD [OF set_update_subset_insert]) (fastforce dest: nth_mem)+
next
  case (trap i s)
  then show ?case
    by (auto simp: ticked_due_def stop_run_def dest!: subsetD [OF set_update_subset_insert])
next
  case (finish i s out)
  then show ?case
    by (auto simp: ticked_due_def stop_run_def dest!: subsetD [OF set_update_subset_insert])
qed

lemma ticked_due_reachable: "epoch_step\<^sup>*\<^sup>* epoch_init s \<Longrightarrow> ticked_due s"
proof (induction rule: rtranclp_induct)
  case base
  then show ?case by (simp add: ticked_due_def epoch_init_def)
qed (rule ticked_due_step)

lemma interrupt_code: "extract_exit_code (Trapped ''wasm trap: interrupt'') = - 1"
  by (simp add: starts_with_def)

text \<open>The timeout of a WASM run takes effect: once the ticker of a run has fired, the run is due, and if it
  is still active it can be stopped, with exit code -1.\<close>

theorem wasm_timeout_due:
  assumes "epoch_step\<^sup>*\<^sup>* epoch_init s" "i < length (ep_runs s)" "er_ticked (ep_runs s ! i)"
    and "er_status (ep_runs s ! i) = Active"
  shows "er_deadline (ep_runs s ! i) \<le> ep_counter s \<and>
    (\<exists>t out. epoch_step s t \<and> er_status (ep_runs t ! i) = Finished out \<and> extract_exit_code out = - 1)"
proof -
  have due: "er_deadline (ep_runs s ! i) \<le> ep_counter s"
    using ticked_due_reachable [OF assms(1)] assms(2,3) by (auto simp: ticked_due_def)
  from epoch_step.trap [OF assms(2,4) this] assms(2)
  have "epoch_step s (stop_run i (Trapped ''wasm trap: interrupt'') s) \<and>
      er_status (ep_runs (stop_run i (Trapped ''wasm trap: interrupt'') s) ! i) = Finished (Trapped ''wasm trap: interrupt'')"
    by (simp add: stop_run_def)
  with due interrupt_code show ?thesis by blast
qed

theorem wasm_timeout_due_witness:
  "\<exists>t out. epoch_step (tick_run 0 (epoch_start epoch_init)) t \<and> er_status (ep_runs t ! 0) = Finished out \<and>
     extract_exit_code out = - 1"
proof -
  let ?s1 = "epoch_start epoch_init"
  let ?s2 = "tick_run 0 ?s1"
  have "epoch_step epoch_init ?s1" by (rule epoch_step.start)
  moreover have "epoch_step ?s1 ?s2"
    by (rule epoch_step.tick) (simp_all add: epoch_start_def epoch_init_def)
  ultimately have "epoch_step\<^sup>*\<^sup>* epoch_init ?s2"
    by (meson converse_rtranclp_into_rtranclp rtranclp.rtrancl_refl)
  from wasm_timeout_due [OF this, of 0] show ?thesis
    by (simp add: epoch_start_def epoch_init_def tick_run_def)
qed

text \<open>The timeout of one run stops another: the counter is shared, so a run that has just started is
  stopped when the ticker of an earlier one fires.\<close>

theorem wasm_timeout_shared:
  "\<exists>s. epoch_step\<^sup>*\<^sup>* epoch_init s \<and> er_ticked (ep_runs s ! 1) = False \<and>
     er_status (ep_runs s ! 1) = Finished (Trapped ''wasm trap: interrupt'')"
proof -
  let ?s2 = "epoch_start (epoch_start epoch_init)"
  let ?s3 = "tick_run 0 ?s2"
  let ?s4 = "stop_run 1 (Trapped ''wasm trap: interrupt'') ?s3"
  have "epoch_step epoch_init (epoch_start epoch_init)" "epoch_step (epoch_start epoch_init) ?s2"
    by (rule epoch_step.start)+
  moreover have "epoch_step ?s2 ?s3"
    by (rule epoch_step.tick) (simp_all add: epoch_start_def epoch_init_def)
  moreover have "epoch_step ?s3 ?s4"
    by (rule epoch_step.trap) (simp_all add: epoch_start_def epoch_init_def tick_run_def)
  ultimately have "epoch_step\<^sup>*\<^sup>* epoch_init ?s4"
    by (meson converse_rtranclp_into_rtranclp rtranclp.rtrancl_refl)
  moreover have "er_ticked (ep_runs ?s4 ! 1) = False" "er_status (ep_runs ?s4 ! 1) = Finished (Trapped ''wasm trap: interrupt'')"
    by (simp_all add: epoch_start_def epoch_init_def tick_run_def stop_run_def)
  ultimately show ?thesis by blast
qed

end
