(* ===== verification/Durable_State.thy ===== *)
theory Durable_State
  imports Core_Types
begin

text \<open>
  Durable crew state: \<open>orchestrator/durable_state.rs\<close>. The trait \<open>StateStore\<close> is an interface,
  \<open>FileStateStore\<close> its provider over a disk of files by path, where an operation on a path may
  fail and a failed write may leave part of the data; the JSON form of a crew state is an argument.
\<close>

section \<open>The interface of a store\<close>

text \<open>What a crew can rely on after a restart: a successful save is what is loaded, and saves for other
  identifiers, successful or not, do not change what is loaded. Every call meets the faults of
  its own moment, \<open>'f\<close>; \<open>valid\<close> are the identifiers for which the store promises this,
  \<open>reads\<close> says that a load is not prevented by a fault.\<close>

locale state_store =
  fixes save :: "'f \<Rightarrow> 'i \<Rightarrow> string \<Rightarrow> 's \<Rightarrow> unit res \<times> 's"
    and load :: "'f \<Rightarrow> 'i \<Rightarrow> 's \<Rightarrow> string option res"
    and valid :: "'i \<Rightarrow> bool"
    and reads :: "'f \<Rightarrow> 'i \<Rightarrow> bool"
  assumes load_saved: "valid i \<Longrightarrow> reads g i \<Longrightarrow> fst (save f i b s) = Inr () \<Longrightarrow> load g i (snd (save f i b s)) = Inr (Some b)"
    and load_other: "valid i \<Longrightarrow> valid j \<Longrightarrow> i \<noteq> j \<Longrightarrow> load g j (snd (save f i b s)) = load g j s"
begin

primrec saves :: "('f \<times> 'i \<times> string) list \<Rightarrow> 's \<Rightarrow> 's" where
  "saves [] s = s"
| "saves (x # xs) s = saves xs (snd (save (fst x) (fst (snd x)) (snd (snd x)) s))"

lemma saves_append [simp]: "saves (xs @ ys) s = saves ys (saves xs s)"
  by (induction xs arbitrary: s) simp_all

lemma load_after_others:
  "valid i \<Longrightarrow> \<forall>(f, j, b) \<in> set xs. valid j \<and> j \<noteq> i \<Longrightarrow> load g i (saves xs s) = load g i s"
  by (induction xs arbitrary: s) (auto simp: load_other)

text \<open>In a history of saves, the last one of an identifier is loaded when it succeeded.\<close>

lemma load_last:
  assumes "valid i" "reads g i" "fst (save f i b (saves before s)) = Inr ()" "\<forall>(f, j, b) \<in> set after. valid j \<and> j \<noteq> i"
  shows "load g i (saves (before @ (f, i, b) # after) s) = Inr (Some b)"
  using load_after_others [OF assms(1,4)] load_saved [OF assms(1-3)] by simp

end

section \<open>The store in files\<close>

record disk =
  dk_files :: "(string, string) hmap"
  dk_dirs :: "string list"

record file_state_store =
  fst_base_dir :: string

definition file_state_store_new :: "string \<Rightarrow> file_state_store" where
  "file_state_store_new base_dir = \<lparr> fst_base_dir = base_dir \<rparr>"

definition path_for :: "file_state_store \<Rightarrow> string \<Rightarrow> string" where
  "path_for st cid = path_join (fst_base_dir st) (cid @ ''.json'')"

text \<open>The faults one call meets: creating a directory or reading a file fails with an error; writing
  fails with an error and leaves what is given, or the file as it was. Every call has its own.\<close>

record disk_faults =
  df_mkdir :: "string \<Rightarrow> string option"
  df_write :: "string \<Rightarrow> string \<Rightarrow> (string \<times> string option) option"
  df_read :: "string \<Rightarrow> string option"

definition file_save :: "disk_faults \<Rightarrow> file_state_store \<Rightarrow> string \<Rightarrow> string \<Rightarrow> disk \<Rightarrow> unit res \<times> disk" where
  "file_save io st cid bytes d =
     (case df_mkdir io (fst_base_dir st) of
        Some e \<Rightarrow> (Inl (Io e), d)
      | None \<Rightarrow>
          (let d = d\<lparr>dk_dirs := fst_base_dir st # dk_dirs d\<rparr>; path = path_for st cid
           in case df_write io path bytes of
             Some (e, None) \<Rightarrow> (Inl (Io e), d)
           | Some (e, Some torn) \<Rightarrow> (Inl (Io e), d\<lparr>dk_files := hm_insert path torn (dk_files d)\<rparr>)
           | None \<Rightarrow> (Inr (), d\<lparr>dk_files := hm_insert path bytes (dk_files d)\<rparr>)))"

definition file_load :: "disk_faults \<Rightarrow> file_state_store \<Rightarrow> string \<Rightarrow> disk \<Rightarrow> string option res" where
  "file_load io st cid d =
     (case df_read io (path_for st cid) of
        Some e \<Rightarrow> Inl (Io e)
      | None \<Rightarrow> Inr (hm_get (dk_files d) (path_for st cid)))"

definition serialize_crew_state :: "(crew_state \<Rightarrow> string + string) \<Rightarrow> crew_state \<Rightarrow> string res" where
  "serialize_crew_state to_json st = (case to_json st of Inl e \<Rightarrow> Inl (Serialization e) | Inr bytes \<Rightarrow> Inr bytes)"

definition deserialize_crew_state :: "(string \<Rightarrow> string + crew_state) \<Rightarrow> string \<Rightarrow> crew_state res" where
  "deserialize_crew_state from_json bytes = (case from_json bytes of Inl e \<Rightarrow> Inl (Serialization e) | Inr st \<Rightarrow> Inr st)"

text \<open>Identifiers without a path separator name different files of the base directory.\<close>

definition plain_id :: "string \<Rightarrow> bool" where
  "plain_id i \<longleftrightarrow> CHR ''/'' \<notin> set i"

lemma path_for_inj: "plain_id i \<Longrightarrow> plain_id j \<Longrightarrow> path_for st i = path_for st j \<longleftrightarrow> i = j"
  by (cases i; cases j) (auto simp: path_for_def path_join_def plain_id_def starts_with_def)

interpretation file_store: state_store "\<lambda>io. file_save io st" "\<lambda>io. file_load io st" plain_id
  "\<lambda>io i. df_read io (path_for st i) = None" for st
proof
  fix i j b d and io io' :: disk_faults
  show "plain_id i \<Longrightarrow> df_read io' (path_for st i) = None \<Longrightarrow> fst (file_save io st i b d) = Inr () \<Longrightarrow>
      file_load io' st i (snd (file_save io st i b d)) = Inr (Some b)"
    by (auto simp: file_save_def file_load_def Let_def split: option.splits)
  show "plain_id i \<Longrightarrow> plain_id j \<Longrightarrow> i \<noteq> j \<Longrightarrow> file_load io' st j (snd (file_save io st i b d)) = file_load io' st j d"
    by (auto simp: file_save_def file_load_def Let_def path_for_inj split: option.splits)
qed

text \<open>A history of saves, each with the faults it meets.\<close>

definition file_saves :: "file_state_store \<Rightarrow> (disk_faults \<times> string \<times> string) list \<Rightarrow> disk \<Rightarrow> disk" where
  "file_saves st = fold (\<lambda>(io, cid, bytes) d. snd (file_save io st cid bytes d))"

lemma file_saves_eq: "file_store.saves st xs d = file_saves st xs d"
  unfolding file_saves_def by (induction xs arbitrary: d) (auto split: prod.split)

text \<open>C24. Crew states survive a restart. Take any history of saves by crews whose identifiers contain
  no slash, where each save may fail at the directory or at the write, with its own error and its
  own torn file. When the last save of a crew succeeded and reading its file does not fail now,
  the load returns those bytes, and they are the saved state if its JSON text reads back; a
  crew that was never saved and has no file loads as none.\<close>

theorem crew_state_recovered:
  assumes "history = before @ (io, cid, bytes) # after" and "\<forall>(io, j, b) \<in> set history. plain_id j"
    and "fst (file_save io st cid bytes (file_saves st before d)) = Inr ()" and "\<forall>(io, j, b) \<in> set after. j \<noteq> cid"
    and "df_read now (path_for st cid) = None"
    and "serialize_crew_state to_json state = Inr bytes" and "from_json bytes = Inr state"
  shows "(\<exists>loaded. file_load now st cid (file_saves st history d) = Inr (Some loaded) \<and>
      deserialize_crew_state from_json loaded = Inr state) \<and>
    (\<forall>new. plain_id new \<longrightarrow> (\<forall>(io, j, b) \<in> set history. j \<noteq> new) \<longrightarrow>
       hm_get (dk_files d) (path_for st new) = None \<longrightarrow> df_read now (path_for st new) = None \<longrightarrow>
       file_load now st new (file_saves st history d) = Inr None)"
proof -
  have ids: "plain_id cid" "\<forall>(io, j, b) \<in> set after. plain_id j \<and> j \<noteq> cid"
    using assms(2,4) unfolding assms(1) by (auto simp: ball_Un)
  from file_store.load_last [OF ids(1) assms(5) assms(3) [folded file_saves_eq] ids(2)]
  have "file_load now st cid (file_saves st history d) = Inr (Some bytes)"
    by (simp add: file_saves_eq assms(1))
  moreover have "file_load now st new (file_saves st history d) = Inr None"
    if new: "plain_id new" "\<forall>(io, j, b) \<in> set history. j \<noteq> new"
      "hm_get (dk_files d) (path_for st new) = None" "df_read now (path_for st new) = None" for new
  proof -
    have "\<forall>(io, j, b) \<in> set history. plain_id j \<and> j \<noteq> new" using assms(2) new(2) by blast
    from file_store.load_after_others [OF new(1) this, where st = st and s = d and g = now] new(3,4) show ?thesis
      by (simp add: file_saves_eq file_load_def)
  qed
  ultimately show ?thesis using assms(7) by (simp add: deserialize_crew_state_def)
qed

definition no_faults :: disk_faults where
  "no_faults = \<lparr> df_mkdir = (\<lambda>_. None), df_write = (\<lambda>_ _. None), df_read = (\<lambda>_. None) \<rparr>"

definition torn_faults :: disk_faults where
  "torn_faults = no_faults\<lparr>df_write := (\<lambda>_ _. Some (''disk full'', Some ''n''))\<rparr>"

text \<open>The save of another crew, and an earlier one of the same crew, may be torn.\<close>

theorem crew_state_recovered_witness:
  "let st = file_state_store_new ''state''; state = \<lparr> state_crew_id = 1, state_status = CrPending, state_results = [], state_profile = None \<rparr>;
       d = file_saves st [(torn_faults, ''c1'', ''w''), (no_faults, ''c1'', ''x''), (torn_faults, ''c2'', ''y'')] \<lparr> dk_files = hm_empty, dk_dirs = [] \<rparr>
   in (\<exists>loaded. file_load no_faults st ''c1'' d = Inr (Some loaded) \<and> deserialize_crew_state (\<lambda>_. Inr state) loaded = Inr state) \<and>
     file_load no_faults st ''c3'' d = Inr None"
proof -
  let ?st = "file_state_store_new ''state''" and ?d = "\<lparr> dk_files = hm_empty, dk_dirs = [] \<rparr>"
  let ?state = "\<lparr> state_crew_id = 1, state_status = CrPending, state_results = [], state_profile = None \<rparr>"
  let ?h = "[(torn_faults, ''c1'', ''w''), (no_faults, ''c1'', ''x''), (torn_faults, ''c2'', ''y'')]"
  have h: "?h = [(torn_faults, ''c1'', ''w'')] @ (no_faults, ''c1'', ''x'') # [(torn_faults, ''c2'', ''y'')]" by simp
  have "serialize_crew_state (\<lambda>_. Inr ''x'') ?state = Inr ''x''" by (simp add: serialize_crew_state_def)
  moreover have "fst (file_save no_faults ?st ''c1'' ''x'' s) = Inr ()" for s by (simp add: file_save_def no_faults_def Let_def)
  ultimately show ?thesis
    using crew_state_recovered [OF h, of ?st ?d no_faults "\<lambda>_. Inr ''x''" ?state "\<lambda>_. Inr ?state"]
    by (simp add: plain_id_def no_faults_def)
qed

text \<open>The file is written in place: a save that fails half way destroys the state that was saved before.\<close>

theorem failed_save_loses_state:
  "let st = file_state_store_new ''state''; d = snd (file_save no_faults st ''c1'' ''old'' \<lparr> dk_files = hm_empty, dk_dirs = [] \<rparr>);
       full = torn_faults
   in file_load no_faults st ''c1'' d = Inr (Some ''old'') \<and>
     file_load no_faults st ''c1'' (snd (file_save full st ''c1'' ''new'' d)) = Inr (Some ''n'')"
  by (simp add: Let_def file_save_def file_load_def torn_faults_def no_faults_def)

text \<open>An identifier that is an absolute path leaves the base directory.\<close>

theorem state_path_escapes: "path_for (file_state_store_new ''state'') ''/etc/crew'' = ''/etc/crew.json''"
  by (simp add: path_for_def path_join_def file_state_store_new_def starts_with_def)

end
