(* ===== verification/Liveness.thy ===== *)
theory Liveness
  imports Prelude
begin

text \<open>
  Heartbeat liveness, the contract that the node registry and the federation manager
  share: peers are kept with the time of their last heartbeat; a heartbeat makes a peer
  live; a sweep takes liveness away from the peers whose last heartbeat is too long ago.
\<close>

datatype ('k, 'p) live_event =
    Beat instant 'k 'p
  | Sweep instant

fun live_step :: "('p \<Rightarrow> instant \<Rightarrow> 'k \<Rightarrow> 's \<Rightarrow> 's) \<Rightarrow> (instant \<Rightarrow> 's \<Rightarrow> 's)
    \<Rightarrow> ('k, 'p) live_event \<Rightarrow> 's \<Rightarrow> 's" where
  "live_step beat sweep (Beat now k p) s = beat p now k s"
| "live_step beat sweep (Sweep now) s = sweep now s"

fun beats_of :: "'k \<Rightarrow> ('k, 'p) live_event \<Rightarrow> bool" where
  "beats_of k (Beat now j p) = (j = k)"
| "beats_of k (Sweep now) = False"

locale heartbeat_liveness =
  fixes beat :: "'p \<Rightarrow> instant \<Rightarrow> 'k \<Rightarrow> 's \<Rightarrow> 's"
    and sweep :: "instant \<Rightarrow> 's \<Rightarrow> 's"
    and last_beat :: "'s \<Rightarrow> 'k \<Rightarrow> instant option"
    and live :: "'s \<Rightarrow> 'k \<Rightarrow> bool"
    and late :: "'s \<Rightarrow> duration \<Rightarrow> bool"
  assumes beat_self: "last_beat s k \<noteq> None \<Longrightarrow>
      live (beat p now k s) k \<and> last_beat (beat p now k s) k = Some now"
    and beat_other: "j \<noteq> k \<Longrightarrow>
      live (beat p now k s) j = live s j \<and> last_beat (beat p now k s) j = last_beat s j"
    and beat_late: "late (beat p now k s) = late s"
    and sweep_last: "last_beat (sweep now s) k = last_beat s k"
    and sweep_live: "last_beat s k = Some t \<Longrightarrow>
      live (sweep now s) k \<longleftrightarrow> live s k \<and> \<not> late s (duration_since now t)"
    and sweep_late: "late (sweep now s) = late s"
begin

abbreviation step :: "('k, 'p) live_event \<Rightarrow> 's \<Rightarrow> 's" where
  "step \<equiv> live_step beat sweep"

lemma step_late: "late (step e s) = late s"
  by (cases e) (simp_all add: beat_late sweep_late)

lemma step_last: "\<not> beats_of k e \<Longrightarrow> last_beat (step e s) k = last_beat s k"
  by (cases e) (auto simp: beat_other sweep_last)

text \<open>A peer is live exactly when it was live at first and no sweep came too late after
  its last heartbeat.\<close>

lemma live_trace:
  assumes "last_beat s k = Some t" and "\<forall>e \<in> set es. \<not> beats_of k e"
  shows "live (fold step es s) k \<longleftrightarrow>
    live s k \<and> (\<forall>now. Sweep now \<in> set es \<longrightarrow> \<not> late s (duration_since now t))"
  using assms
proof (induction es arbitrary: s)
  case Nil
  then show ?case by simp
next
  case (Cons e es)
  have "last_beat (step e s) k = Some t" using Cons.prems step_last [of k e s] by simp
  with Cons have IH: "live (fold step es (step e s)) k \<longleftrightarrow> live (step e s) k \<and>
      (\<forall>now. Sweep now \<in> set es \<longrightarrow> \<not> late s (duration_since now t))"
    by (simp add: step_late)
  show ?case
  proof (cases e)
    case (Beat now j p)
    with Cons.prems IH show ?thesis using beat_other [of k j p now s] by auto
  next
    case (Sweep now)
    with Cons.prems IH show ?thesis using sweep_live [OF Cons.prems(1), of now] by auto
  qed
qed

text \<open>After a heartbeat at time \<open>t\<close>, a peer stays live as long as the sweeps are on time.\<close>

lemma live_after_beat:
  assumes "last_beat s k \<noteq> None" and "\<forall>e \<in> set es. \<not> beats_of k e"
  shows "live (fold step es (beat p t k s)) k \<longleftrightarrow>
    (\<forall>now. Sweep now \<in> set es \<longrightarrow> \<not> late s (duration_since now t))"
  using live_trace [OF _ assms(2), of "beat p t k s" t] beat_self [OF assms(1)]
  by (simp add: beat_late)

end

end
