(* ===== verification/Fleet_Registry.thy ===== *)
theory Fleet_Registry
  imports Core_Types Liveness
begin

text \<open>
  The node registry, \<open>fleet/registry.rs\<close>. The clocks (\<open>Instant::now\<close>, \<open>Utc::now\<close>) and the
  fresh node id are arguments.
\<close>

type_synonym node_id = string

datatype node_status = NodeOnline | NodeSuspect | NodeOffline | NodeDraining

record node_info =
  node_id :: node_id
  node_hostname :: string
  node_address :: string
  node_status :: node_status
  node_gpu_count :: u32
  node_gpu_vram_mb :: u64
  node_capabilities :: "string list"
  node_hardware :: hardware_inventory
  node_last_heartbeat :: instant
  node_registered_at :: instant
  node_last_heartbeat_instant :: instant

definition node_info_new :: "instant \<Rightarrow> instant \<Rightarrow> string \<Rightarrow> u32 \<Rightarrow> u64 \<Rightarrow> node_info" where
  "node_info_new utc now i gpu_count gpu_vram_mb =
     \<lparr> node_id = i, node_hostname = i, node_address = [], node_status = NodeOnline,
       node_gpu_count = gpu_count, node_gpu_vram_mb = gpu_vram_mb, node_capabilities = [],
       node_hardware = hardware_inventory_default, node_last_heartbeat = utc,
       node_registered_at = now, node_last_heartbeat_instant = now \<rparr>"

definition node_with_hardware :: "hardware_inventory \<Rightarrow> node_info \<Rightarrow> node_info" where
  "node_with_hardware hw n = n\<lparr>node_hardware := hw\<rparr>"

definition satisfies_hardware :: "hardware_requirement \<Rightarrow> node_info \<Rightarrow> bool" where
  "satisfies_hardware req n = satisfies (node_hardware n) req"

definition node_with_capabilities :: "string list \<Rightarrow> node_info \<Rightarrow> node_info" where
  "node_with_capabilities caps n = n\<lparr>node_capabilities := caps\<rparr>"

definition node_with_status :: "node_status \<Rightarrow> node_info \<Rightarrow> node_info" where
  "node_with_status st n = n\<lparr>node_status := st\<rparr>"

definition has_gpu :: "node_info \<Rightarrow> bool" where
  "has_gpu n \<longleftrightarrow> 0 < node_gpu_count n"

record node_registry =
  reg_nodes :: "(node_id, node_info) hmap"
  reg_heartbeat_ttl :: duration
  reg_offline_ttl :: duration

definition registry_with_ttl :: "duration \<Rightarrow> duration \<Rightarrow> node_registry" where
  "registry_with_ttl heartbeat_ttl offline_ttl =
     \<lparr> reg_nodes = hm_empty, reg_heartbeat_ttl = heartbeat_ttl, reg_offline_ttl = offline_ttl \<rparr>"

definition registry_new :: node_registry where
  "registry_new = registry_with_ttl (30 * 1000000000) (90 * 1000000000)"

definition register_node :: "node_id \<Rightarrow> instant \<Rightarrow> instant \<Rightarrow> string \<Rightarrow> string \<Rightarrow> nat \<Rightarrow> u64 \<Rightarrow> string list
    \<Rightarrow> node_registry \<Rightarrow> node_id \<times> node_registry" where
  "register_node fresh utc now hostname address gpu_count gpu_vram_mb capabilities r =
     (let info =
        \<lparr> node_id = fresh, node_hostname = hostname, node_address = address, node_status = NodeOnline,
          node_gpu_count = (if gpu_count < 2 ^ 32 then of_nat gpu_count else - 1),
          node_gpu_vram_mb = gpu_vram_mb, node_capabilities = capabilities,
          node_hardware = hardware_inventory_default, node_last_heartbeat = utc,
          node_registered_at = now, node_last_heartbeat_instant = now \<rparr>
      in (fresh, r\<lparr>reg_nodes := hm_insert fresh info (reg_nodes r)\<rparr>))"

definition node_heartbeat :: "instant \<Rightarrow> instant \<Rightarrow> node_id \<Rightarrow> node_registry \<Rightarrow> bool \<times> node_registry" where
  "node_heartbeat utc now i r =
     (case hm_get (reg_nodes r) i of
        Some n \<Rightarrow>
          (True, r\<lparr>reg_nodes := hm_insert i (n\<lparr>node_last_heartbeat_instant := now,
             node_last_heartbeat := utc, node_status := NodeOnline\<rparr>) (reg_nodes r)\<rparr>)
      | None \<Rightarrow> (False, r))"

definition unregister :: "node_id \<Rightarrow> node_registry \<Rightarrow> bool \<times> node_registry" where
  "unregister i r = (hm_contains (reg_nodes r) i, r\<lparr>reg_nodes := hm_remove i (reg_nodes r)\<rparr>)"

definition get_node :: "node_id \<Rightarrow> node_registry \<Rightarrow> node_info option" where
  "get_node i r = hm_get (reg_nodes r) i"

definition list_nodes :: "node_registry \<Rightarrow> node_info list" where
  "list_nodes r = hm_values (reg_nodes r)"

definition list_online :: "node_registry \<Rightarrow> node_info list" where
  "list_online r = filter (\<lambda>n. node_status n = NodeOnline) (hm_values (reg_nodes r))"

definition update_node_status :: "node_registry \<Rightarrow> instant \<Rightarrow> node_info \<Rightarrow> node_info" where
  "update_node_status r now n =
     (let elapsed = duration_since now (node_last_heartbeat_instant n)
      in if reg_offline_ttl r \<le> elapsed then n\<lparr>node_status := NodeOffline\<rparr>
         else if reg_heartbeat_ttl r \<le> elapsed then n\<lparr>node_status := NodeSuspect\<rparr>
         else n)"

definition update_statuses :: "instant \<Rightarrow> node_registry \<Rightarrow> node_registry" where
  "update_statuses now r =
     r\<lparr>reg_nodes := hm_map_values (update_node_status r now) (reg_nodes r)\<rparr>"

definition node_count :: "node_registry \<Rightarrow> nat" where
  "node_count r = hm_len (reg_nodes r)"

definition count_online :: "node_registry \<Rightarrow> nat" where
  "count_online r = length (filter (\<lambda>n. node_status n = NodeOnline) (hm_values (reg_nodes r)))"

definition find_by_capability :: "string \<Rightarrow> node_registry \<Rightarrow> node_info list" where
  "find_by_capability cap r =
     filter (\<lambda>n. node_status n = NodeOnline \<and> list_ex (\<lambda>c. c = cap) (node_capabilities n))
       (hm_values (reg_nodes r))"

section \<open>Liveness of nodes\<close>

definition node_beat :: "instant \<Rightarrow> instant \<Rightarrow> node_id \<Rightarrow> node_registry \<Rightarrow> node_registry" where
  "node_beat utc now i r = snd (node_heartbeat utc now i r)"

definition node_last :: "node_registry \<Rightarrow> node_id \<Rightarrow> instant option" where
  "node_last r i = map_option node_last_heartbeat_instant (hm_get (reg_nodes r) i)"

definition node_live :: "node_registry \<Rightarrow> node_id \<Rightarrow> bool" where
  "node_live r i \<longleftrightarrow> (case hm_get (reg_nodes r) i of None \<Rightarrow> False | Some n \<Rightarrow> node_status n = NodeOnline)"

definition node_late :: "node_registry \<Rightarrow> duration \<Rightarrow> bool" where
  "node_late r d \<longleftrightarrow> reg_heartbeat_ttl r \<le> d \<or> reg_offline_ttl r \<le> d"

lemma update_node_status_last [simp]:
  "node_last_heartbeat_instant (update_node_status r now n) = node_last_heartbeat_instant n"
  by (simp add: update_node_status_def Let_def)

lemma update_node_status_online:
  "node_status (update_node_status r now n) = NodeOnline \<longleftrightarrow> node_status n = NodeOnline \<and>
     \<not> node_late r (duration_since now (node_last_heartbeat_instant n))"
  by (auto simp: update_node_status_def Let_def node_late_def)

interpretation nl: heartbeat_liveness node_beat update_statuses node_last node_live node_late
  by unfold_locales
    (auto simp: node_beat_def node_heartbeat_def node_last_def node_live_def node_late_def [abs_def]
       update_statuses_def option.map_comp comp_def update_node_status_online split: option.splits)

section \<open>Properties\<close>

text \<open>Liveness of nodes is exact: after a heartbeat of a registered node at time \<open>t\<close>,
  and any sweeps and heartbeats of other nodes, the node is online exactly when every
  sweep came earlier than the heartbeat TTL (and the offline TTL) after \<open>t\<close>.\<close>

theorem node_liveness:
  assumes "hm_get (reg_nodes r) i \<noteq> None" and "\<forall>e \<in> set es. \<not> beats_of i e"
  shows "(\<exists>n. hm_get (reg_nodes (fold (live_step node_beat update_statuses) es
        (snd (node_heartbeat utc t i r)))) i = Some n \<and> node_status n = NodeOnline) \<longleftrightarrow>
    (\<forall>now. Sweep now \<in> set es \<longrightarrow> now - t < reg_heartbeat_ttl r \<and> now - t < reg_offline_ttl r)"
proof -
  have "node_last r i \<noteq> None" using assms(1) by (simp add: node_last_def)
  from nl.live_after_beat [OF this assms(2), of utc t] show ?thesis
    by (auto simp: node_live_def node_late_def node_beat_def duration_since_def not_le
          split: option.splits)
qed

text \<open>A registry with two nodes, registered at time 0.\<close>

definition sample_registry :: node_registry where
  "sample_registry =
     snd (register_node ''n2'' 0 0 ''b'' ''b:1'' 2 80000 [''llm''] 
       (snd (register_node ''n1'' 0 0 ''a'' ''a:1'' 0 0 [] (registry_with_ttl 30 90))))"

theorem node_liveness_witness:
  "\<exists>n. hm_get (reg_nodes (fold (live_step node_beat update_statuses) [Sweep 39, Beat 50 ''n2'' 0]
     (snd (node_heartbeat 10 10 ''n1'' sample_registry)))) ''n1'' = Some n \<and> node_status n = NodeOnline"
proof -
  have "hm_get (reg_nodes sample_registry) ''n1'' \<noteq> None"
    "\<forall>e \<in> set [Sweep 39, Beat 50 ''n2'' (0 :: instant)]. \<not> beats_of ''n1'' e"
    "\<forall>now. Sweep now \<in> set [Sweep 39, Beat 50 ''n2'' (0 :: instant)] \<longrightarrow>
       now - 10 < reg_heartbeat_ttl sample_registry \<and> now - 10 < reg_offline_ttl sample_registry"
    by (simp_all add: sample_registry_def register_node_def registry_with_ttl_def Let_def)
  then show ?thesis using node_liveness [of sample_registry "''n1''"] by blast
qed

end
