(* ===== verification/Fleet_Placement.thy ===== *)
theory Fleet_Placement
  imports Fleet_Registry Ranking
begin

text \<open>
  Placement of work on fleet nodes, \<open>fleet/placement.rs\<close>: a policy-dependent score per node,
  where 0 disqualifies, and the ranking of the qualified nodes. \<open>f64\<close> scores are exact
  rationals.
\<close>

datatype placement_policy = GpuAffinity | Balanced | Locality | Cost | Manual

record placement_request =
  pr_policy :: placement_policy
  pr_required_gpu :: bool
  pr_min_gpu_vram_mb :: u64
  pr_required_capabilities :: "string list"
  pr_preferred_node :: "node_id option"
  pr_hardware :: "hardware_requirement option"

definition placement_request_new :: "placement_policy \<Rightarrow> placement_request" where
  "placement_request_new policy =
     \<lparr> pr_policy = policy, pr_required_gpu = False, pr_min_gpu_vram_mb = 0,
       pr_required_capabilities = [], pr_preferred_node = None, pr_hardware = None \<rparr>"

definition with_required_gpu :: "bool \<Rightarrow> placement_request \<Rightarrow> placement_request" where
  "with_required_gpu b q = q\<lparr>pr_required_gpu := b\<rparr>"

definition with_min_gpu_vram_mb :: "u64 \<Rightarrow> placement_request \<Rightarrow> placement_request" where
  "with_min_gpu_vram_mb mb q = q\<lparr>pr_min_gpu_vram_mb := mb\<rparr>"

definition request_with_capabilities :: "string list \<Rightarrow> placement_request \<Rightarrow> placement_request" where
  "request_with_capabilities caps q = q\<lparr>pr_required_capabilities := caps\<rparr>"

definition with_preferred_node :: "node_id \<Rightarrow> placement_request \<Rightarrow> placement_request" where
  "with_preferred_node n q = q\<lparr>pr_preferred_node := Some n\<rparr>"

definition request_with_hardware :: "hardware_requirement \<Rightarrow> placement_request \<Rightarrow> placement_request" where
  "request_with_hardware hw q = q\<lparr>pr_hardware := Some hw\<rparr>"

record placement_result =
  plr_node_id :: node_id
  plr_score :: rat

text \<open>The score by policy, after the hard requirements.\<close>

definition policy_score :: "placement_request \<Rightarrow> node_info \<Rightarrow> nat \<Rightarrow> nat \<Rightarrow> rat" where
  "policy_score q n index cnt =
     (case pr_policy q of
        GpuAffinity \<Rightarrow>
          if \<not> has_gpu n then 0 else min (as_f64 (node_gpu_vram_mb n) / 1000000) 1
      | Balanced \<Rightarrow> if cnt \<le> 1 then 1 else 1 - of_nat index / of_nat cnt
      | Locality \<Rightarrow>
          if pr_required_capabilities q = [] then 1
          else of_nat (length (filter (\<lambda>cap. cap \<in> set (node_capabilities n)) (pr_required_capabilities q)))
             / of_nat (length (pr_required_capabilities q))
      | Cost \<Rightarrow> 1 / (1 + (as_f64 (node_gpu_count n) + as_f64 (node_gpu_vram_mb n)))
      | Manual \<Rightarrow> if pr_preferred_node q = Some (node_id n) then 1 else 0)"

definition score_node :: "placement_request \<Rightarrow> node_info \<Rightarrow> nat \<Rightarrow> nat \<Rightarrow> rat" where
  "score_node q n index cnt =
     (if node_status n \<noteq> NodeOnline then 0
      else case pr_hardware q of
        Some hw_req \<Rightarrow>
          if \<not> satisfies_hardware hw_req n then 0 else policy_score q n index cnt
      | None \<Rightarrow>
          if pr_required_gpu q \<and> \<not> has_gpu n then 0
          else if 0 < pr_min_gpu_vram_mb q \<and> node_gpu_vram_mb n < pr_min_gpu_vram_mb q then 0
          else policy_score q n index cnt)"

definition rank_nodes :: "placement_request \<Rightarrow> node_info list \<Rightarrow> placement_result list" where
  "rank_nodes q nodes =
     (let cnt = length nodes
      in sort_desc plr_score
           (filter (\<lambda>r. 0 < plr_score r)
             (map (\<lambda>(i, n). \<lparr> plr_node_id = node_id n, plr_score = score_node q n i cnt \<rparr>)
               (enumerate 0 nodes))))"

definition place :: "placement_request \<Rightarrow> node_info list \<Rightarrow> placement_result option" where
  "place q nodes = (case rank_nodes q nodes of [] \<Rightarrow> None | r # _ \<Rightarrow> Some r)"

section \<open>What qualifies a node\<close>

interpretation rn: ranking "rank_nodes q"
  "\<lambda>i cnt n. \<lparr> plr_node_id = node_id n, plr_score = score_node q n i cnt \<rparr>"
  "\<lambda>r. 0 < plr_score r" plr_score for q
  by unfold_locales (simp add: rank_nodes_def)

text \<open>The hard requirements of a request: the node is online and meets the hardware
  requirement when there is one, else the legacy GPU fields.\<close>

definition meets_requirements :: "placement_request \<Rightarrow> node_info \<Rightarrow> bool" where
  "meets_requirements q n \<longleftrightarrow> node_status n = NodeOnline \<and>
     (case pr_hardware q of
        Some req \<Rightarrow> satisfies (node_hardware n) req
      | None \<Rightarrow> (pr_required_gpu q \<longrightarrow> 0 < node_gpu_count n) \<and> pr_min_gpu_vram_mb q \<le> node_gpu_vram_mb n)"

text \<open>What each policy asks of a node in addition.\<close>

definition suits_policy :: "placement_request \<Rightarrow> node_info \<Rightarrow> bool" where
  "suits_policy q n \<longleftrightarrow>
     (case pr_policy q of
        GpuAffinity \<Rightarrow> 0 < node_gpu_count n \<and> 0 < node_gpu_vram_mb n
      | Locality \<Rightarrow> pr_required_capabilities q = [] \<or>
          set (pr_required_capabilities q) \<inter> set (node_capabilities n) \<noteq> {}
      | Manual \<Rightarrow> pr_preferred_node q = Some (node_id n)
      | _ \<Rightarrow> True)"

lemma score_node_cases:
  "score_node q n i cnt = (if meets_requirements q n then policy_score q n i cnt else 0)"
  by (auto simp: score_node_def meets_requirements_def satisfies_hardware_def has_gpu_def
        not_less word_neq_0_conv split: option.split)

lemma policy_score_pos:
  assumes "i < cnt"
  shows "0 < policy_score q n i cnt \<longleftrightarrow> suits_policy q n"
proof (cases "pr_policy q")
  case GpuAffinity
  then show ?thesis
    by (auto simp: policy_score_def suits_policy_def has_gpu_def)
next
  case Balanced
  then show ?thesis using assms by (auto simp: policy_score_def suits_policy_def)
next
  case Locality
  then show ?thesis
    by (auto simp: policy_score_def suits_policy_def zero_less_divide_iff filter_empty_conv)
next
  case Cost
  have "0 < 1 + (as_f64 (node_gpu_count n) + as_f64 (node_gpu_vram_mb n))"
    by (rule add_pos_nonneg) simp_all
  with Cost show ?thesis by (simp add: policy_score_def suits_policy_def)
next
  case Manual
  then show ?thesis by (simp add: policy_score_def suits_policy_def)
qed

lemma policy_score_le_1: "i < cnt \<Longrightarrow> policy_score q n i cnt \<le> 1"
  using add_nonneg_nonneg [OF as_f64_nonneg [of "node_gpu_count n"] as_f64_nonneg [of "node_gpu_vram_mb n"]]
  by (cases "pr_policy q") (auto simp: policy_score_def divide_le_eq_1)

lemma score_node_pos:
  "i < cnt \<Longrightarrow> 0 < score_node q n i cnt \<longleftrightarrow> meets_requirements q n \<and> suits_policy q n"
  by (simp add: score_node_cases policy_score_pos)

lemma place_Some_iff: "place q nodes = Some r \<longleftrightarrow> (\<exists>rs. rank_nodes q nodes = r # rs)"
  by (auto simp: place_def split: list.split)

section \<open>Properties\<close>

text \<open>C33. Placement is safe and optimal: a placed node is online, meets every hard
  requirement of the request and what its policy asks, no other node of the list scores
  higher, and no earlier one scores as high.\<close>

theorem place_sound_optimal:
  assumes "place q nodes = Some r"
  shows "\<exists>i < length nodes. plr_node_id r = node_id (nodes ! i) \<and>
    plr_score r = score_node q (nodes ! i) i (length nodes) \<and> 0 < plr_score r \<and> plr_score r \<le> 1 \<and>
    meets_requirements q (nodes ! i) \<and> suits_policy q (nodes ! i) \<and>
    (\<forall>j < length nodes. score_node q (nodes ! j) j (length nodes) \<le> plr_score r \<and>
       (j < i \<longrightarrow> score_node q (nodes ! j) j (length nodes) < plr_score r))"
proof -
  obtain rs where rs: "rank_nodes q nodes = r # rs" using assms by (auto simp: place_Some_iff)
  obtain i where i: "i < length nodes" "plr_node_id r = node_id (nodes ! i)"
    "plr_score r = score_node q (nodes ! i) i (length nodes)" "0 < plr_score r"
    and best: "\<forall>j < length nodes. 0 < score_node q (nodes ! j) j (length nodes) \<longrightarrow>
       score_node q (nodes ! j) j (length nodes) \<le> plr_score r \<and>
       (j < i \<longrightarrow> score_node q (nodes ! j) j (length nodes) < plr_score r)"
    using rn.rank_best [OF rs] by auto
  have "score_node q (nodes ! j) j (length nodes) \<le> plr_score r \<and>
      (j < i \<longrightarrow> score_node q (nodes ! j) j (length nodes) < plr_score r)" if "j < length nodes" for j
    using that best i(4) by (cases "0 < score_node q (nodes ! j) j (length nodes)") auto
  moreover have "meets_requirements q (nodes ! i) \<and> suits_policy q (nodes ! i)"
    using i score_node_pos [OF i(1)] by simp
  moreover have "plr_score r \<le> 1"
    using i policy_score_le_1 [OF i(1)] by (simp add: score_node_cases)
  ultimately show ?thesis using i by blast
qed

text \<open>Placement is complete: it fails exactly when no node of the list is online, meets
  the requirements and suits the policy.\<close>

theorem place_None_iff:
  "place q nodes = None \<longleftrightarrow> (\<forall>n \<in> set nodes. \<not> (meets_requirements q n \<and> suits_policy q n))"
proof -
  have "place q nodes = None \<longleftrightarrow> rank_nodes q nodes = []"
    by (simp add: place_def split: list.split)
  also have "\<dots> \<longleftrightarrow> (\<forall>i < length nodes. \<not> 0 < score_node q (nodes ! i) i (length nodes))"
    by (simp add: rn.rank_empty_iff)
  also have "\<dots> \<longleftrightarrow> (\<forall>i < length nodes. \<not> (meets_requirements q (nodes ! i) \<and> suits_policy q (nodes ! i)))"
    by (simp add: score_node_pos)
  finally show ?thesis by (simp only: all_set_conv_all_nth)
qed

definition sample_nodes :: "node_info list" where
  "sample_nodes =
     [node_info_new 0 0 ''cpu'' 0 0, node_info_new 0 0 ''small'' 1 24000, node_info_new 0 0 ''big'' 8 640000]"

theorem place_sound_optimal_witness:
  "\<exists>i < length sample_nodes. node_id (sample_nodes ! i) = ''big'' \<and>
     meets_requirements (with_required_gpu True (with_preferred_node ''big'' (placement_request_new Manual)))
       (sample_nodes ! i)"
proof -
  have "place (with_required_gpu True (with_preferred_node ''big'' (placement_request_new Manual))) sample_nodes
      = Some \<lparr> plr_node_id = ''big'', plr_score = 1 \<rparr>"
    by (simp add: place_def rank_nodes_def score_node_def policy_score_def has_gpu_def sample_nodes_def
          node_info_new_def with_required_gpu_def with_preferred_node_def placement_request_new_def
          sort_desc_def)
  from place_sound_optimal [OF this] show ?thesis by auto
qed

theorem place_None_iff_witness:
  "place (with_preferred_node ''x'' (placement_request_new Manual)) sample_nodes = None"
  using place_None_iff [of "with_preferred_node ''x'' (placement_request_new Manual)" sample_nodes]
  by (simp add: sample_nodes_def suits_policy_def with_preferred_node_def placement_request_new_def
        node_info_new_def)

end
