(* ===== verification/Fleet_Gpu.thy ===== *)
theory Fleet_Gpu
  imports Core_Types
begin

text \<open>
  Allocation of accelerator memory, \<open>fleet/gpu.rs\<close>. Memory amounts are 64-bit words and the
  additions are those of words; \<open>None\<close> stands for the panic of an index out of range.
\<close>

record compute_allocation =
  ca_task_id :: uuid
  ca_device_index :: nat
  ca_memory_mb :: u64

definition vram_mb :: "compute_allocation \<Rightarrow> u64" where
  "vram_mb a = ca_memory_mb a"

record device_state =
  ds_device :: compute_device
  ds_memory_used_mb :: u64

definition memory_available_mb :: "device_state \<Rightarrow> u64" where
  "memory_available_mb ds = saturating_sub (dev_memory_total_mb (ds_device ds)) (ds_memory_used_mb ds)"

record compute_scheduler =
  cs_devices :: "device_state list"
  cs_allocations :: "(uuid, compute_allocation) hmap"

record gpu_device =
  gd_index :: nat
  gd_name :: string
  gd_vram_total_mb :: u64
  gd_vram_used_mb :: u64

definition vram_available_mb :: "gpu_device \<Rightarrow> u64" where
  "vram_available_mb g = saturating_sub (gd_vram_total_mb g) (gd_vram_used_mb g)"

definition compute_scheduler_new :: compute_scheduler where
  "compute_scheduler_new = \<lparr> cs_devices = [], cs_allocations = hm_empty \<rparr>"

definition add_device :: "string \<Rightarrow> accelerator_type \<Rightarrow> u64 \<Rightarrow> compute_scheduler \<Rightarrow> compute_scheduler" where
  "add_device name accelerator mem s =
     s\<lparr>cs_devices := cs_devices s @
        [\<lparr> ds_device = \<lparr> dev_index = length (cs_devices s), dev_name = name, dev_accelerator = accelerator,
             dev_memory_total_mb = mem, dev_memory_available_mb = mem \<rparr>,
           ds_memory_used_mb = 0 \<rparr>]\<rparr>"

definition add_gpu :: "string \<Rightarrow> u64 \<Rightarrow> compute_scheduler \<Rightarrow> compute_scheduler" where
  "add_gpu name mem s = add_device name Cuda mem s"

definition compute_devices :: "compute_scheduler \<Rightarrow> compute_device list" where
  "compute_devices s = map ds_device (cs_devices s)"

definition gpu_view :: "device_state \<Rightarrow> gpu_device" where
  "gpu_view ds =
     \<lparr> gd_index = dev_index (ds_device ds), gd_name = dev_name (ds_device ds),
       gd_vram_total_mb = dev_memory_total_mb (ds_device ds), gd_vram_used_mb = ds_memory_used_mb ds \<rparr>"

definition gpu_devices :: "compute_scheduler \<Rightarrow> gpu_device list" where
  "gpu_devices s = map gpu_view (cs_devices s)"

definition sched_devices_of_type :: "accelerator_type \<Rightarrow> compute_scheduler \<Rightarrow> compute_device list" where
  "sched_devices_of_type accel s =
     map ds_device (filter (\<lambda>ds. dev_accelerator (ds_device ds) = accel) (cs_devices s))"

definition of_accel :: "accelerator_type option \<Rightarrow> device_state \<Rightarrow> bool" where
  "of_accel accel ds \<longleftrightarrow> (case accel of None \<Rightarrow> True | Some a \<Rightarrow> dev_accelerator (ds_device ds) = a)"

definition sched_total_memory_mb :: "accelerator_type option \<Rightarrow> compute_scheduler \<Rightarrow> u64" where
  "sched_total_memory_mb accel s =
     sum_list (map (\<lambda>ds. dev_memory_total_mb (ds_device ds)) (filter (of_accel accel) (cs_devices s)))"

definition available_memory_mb :: "accelerator_type option \<Rightarrow> compute_scheduler \<Rightarrow> u64" where
  "available_memory_mb accel s =
     sum_list (map memory_available_mb (filter (of_accel accel) (cs_devices s)))"

definition total_vram_mb :: "compute_scheduler \<Rightarrow> u64" where
  "total_vram_mb s = sched_total_memory_mb None s"

definition available_vram_mb :: "compute_scheduler \<Rightarrow> u64" where
  "available_vram_mb s = available_memory_mb None s"

text \<open>\<open>memory_used_mb\<close> changes and the device's own field is kept in sync.\<close>

definition set_used :: "u64 \<Rightarrow> device_state \<Rightarrow> device_state" where
  "set_used used ds =
     (let ds = ds\<lparr>ds_memory_used_mb := used\<rparr>
      in ds\<lparr>ds_device := (ds_device ds)\<lparr>dev_memory_available_mb := memory_available_mb ds\<rparr>\<rparr>)"

definition allocate :: "uuid \<Rightarrow> u64 \<Rightarrow> accelerator_type option \<Rightarrow> compute_scheduler
    \<Rightarrow> compute_allocation option \<times> compute_scheduler" where
  "allocate tid mem accel s =
     (case max_by_key (\<lambda>(_, ds). memory_available_mb ds)
             (filter (\<lambda>(_, ds). mem \<le> memory_available_mb ds)
               (filter (\<lambda>(_, ds). of_accel accel ds) (enumerate 0 (cs_devices s)))) of
        None \<Rightarrow> (None, s)
      | Some (best_idx, ds) \<Rightarrow>
          (let alloc = \<lparr> ca_task_id = tid, ca_device_index = best_idx, ca_memory_mb = mem \<rparr>
           in (Some alloc,
               s\<lparr>cs_devices := (cs_devices s)[best_idx := set_used (ds_memory_used_mb ds + mem) ds],
                 cs_allocations := hm_insert tid alloc (cs_allocations s)\<rparr>)))"

definition release :: "uuid \<Rightarrow> compute_scheduler \<Rightarrow> (bool \<times> compute_scheduler) option" where
  "release tid s =
     (case hm_get (cs_allocations s) tid of
        None \<Rightarrow> Some (False, s)
      | Some alloc \<Rightarrow>
          (let i = ca_device_index alloc
           in if i < length (cs_devices s) then
                (let ds = cs_devices s ! i
                 in Some (True,
                      s\<lparr>cs_devices := (cs_devices s)[i := set_used
                           (saturating_sub (ds_memory_used_mb ds) (ca_memory_mb alloc)) ds],
                        cs_allocations := hm_remove tid (cs_allocations s)\<rparr>))
              else None))"

definition best_device :: "compute_scheduler \<Rightarrow> gpu_device option" where
  "best_device s = map_option gpu_view (max_by_key memory_available_mb (cs_devices s))"

definition list_allocations :: "compute_scheduler \<Rightarrow> compute_allocation list" where
  "list_allocations s = hm_values (cs_allocations s)"

section \<open>The accounting invariant\<close>

text \<open>The memory of the live allocations on a device.\<close>

definition alloc_on :: "nat \<Rightarrow> (uuid, compute_allocation) hmap \<Rightarrow> nat" where
  "alloc_on i m = hm_sum (\<lambda>_ a. if ca_device_index a = i then unat (ca_memory_mb a) else 0) m"

text \<open>Every device accounts for at least its live allocations and at most its memory, and
  publishes what is left; every allocation is on an existing device.\<close>

definition gpu_ok :: "compute_scheduler \<Rightarrow> bool" where
  "gpu_ok s \<longleftrightarrow> hm_wf (cs_allocations s) \<and>
     (\<forall>t a. hm_get (cs_allocations s) t = Some a \<longrightarrow>
        ca_device_index a < length (cs_devices s) \<and> ca_task_id a = t) \<and>
     (\<forall>i < length (cs_devices s). let ds = cs_devices s ! i in
        dev_index (ds_device ds) = i \<and>
        alloc_on i (cs_allocations s) \<le> unat (ds_memory_used_mb ds) \<and>
        ds_memory_used_mb ds \<le> dev_memory_total_mb (ds_device ds) \<and>
        dev_memory_available_mb (ds_device ds) = memory_available_mb ds)"

lemma set_used_simps [simp]:
  "ds_memory_used_mb (set_used u ds) = u"
  "dev_memory_total_mb (ds_device (set_used u ds)) = dev_memory_total_mb (ds_device ds)"
  "dev_index (ds_device (set_used u ds)) = dev_index (ds_device ds)"
  "dev_memory_available_mb (ds_device (set_used u ds)) = memory_available_mb (set_used u ds)"
  by (simp_all add: set_used_def memory_available_mb_def Let_def)

lemma alloc_on_insert:
  "hm_wf m \<Longrightarrow> alloc_on i (hm_insert t a m) +
     (case hm_get m t of None \<Rightarrow> 0 | Some b \<Rightarrow> if ca_device_index b = i then unat (ca_memory_mb b) else 0)
   = alloc_on i m + (if ca_device_index a = i then unat (ca_memory_mb a) else 0)"
  unfolding alloc_on_def by (rule hm_sum_insert)

lemma alloc_on_remove:
  "hm_wf m \<Longrightarrow> alloc_on i (hm_remove t m) +
     (case hm_get m t of None \<Rightarrow> 0 | Some b \<Rightarrow> if ca_device_index b = i then unat (ca_memory_mb b) else 0)
   = alloc_on i m"
  unfolding alloc_on_def by (rule hm_sum_remove)

lemma enough_no_wrap:
  fixes used total mem :: u64
  assumes "mem \<le> saturating_sub total used" and "used \<le> total"
  shows "unat (used + mem) = unat used + unat mem" and "used + mem \<le> total"
proof -
  have "unat (total - used) = unat total - unat used" using assms(2) by (simp add: unat_sub)
  then have le: "unat used + unat mem \<le> unat total"
    using assms by (auto simp: saturating_sub_def word_le_nat_alt word_less_nat_alt split: if_splits)
  moreover have "unat total < 2 ^ LENGTH(64)" by (rule unsigned_less)
  ultimately have "unat used + unat mem < 2 ^ 64" by simp
  then show "unat (used + mem) = unat used + unat mem" by (simp add: unat_word_ariths)
  with le show "used + mem \<le> total" by (simp add: word_le_nat_alt)
qed

lemma unat_saturating_sub: "unat (saturating_sub a b) = unat a - unat b"
  by (simp add: saturating_sub_def word_less_nat_alt unat_sub word_le_nat_alt)

lemma allocate_cases:
  assumes "allocate tid mem accel s = (Some a, s')"
  obtains i where "i < length (cs_devices s)" and "of_accel accel (cs_devices s ! i)"
    and "mem \<le> memory_available_mb (cs_devices s ! i)"
    and "a = \<lparr> ca_task_id = tid, ca_device_index = i, ca_memory_mb = mem \<rparr>"
    and "s' = s\<lparr>cs_devices := (cs_devices s)[i := set_used (ds_memory_used_mb (cs_devices s ! i) + mem)
                  (cs_devices s ! i)],
                cs_allocations := hm_insert tid a (cs_allocations s)\<rparr>"
    and "\<forall>j < length (cs_devices s). of_accel accel (cs_devices s ! j) \<longrightarrow>
      memory_available_mb (cs_devices s ! j) \<le> memory_available_mb (cs_devices s ! i)"
proof -
  let ?cand = "filter (\<lambda>(_, ds). mem \<le> memory_available_mb ds)
      (filter (\<lambda>(_, ds). of_accel accel ds) (enumerate 0 (cs_devices s)))"
  obtain i ds where m: "max_by_key (\<lambda>(_, ds). memory_available_mb ds) ?cand = Some (i, ds)"
    using assms by (auto simp: allocate_def split: option.splits)
  note sel = max_by_key_Some [OF m]
  then have i: "i < length (cs_devices s)" "ds = cs_devices s ! i" "of_accel accel ds"
    "mem \<le> memory_available_mb ds"
    by (auto simp: in_set_enumerate_eq)
  have best: "memory_available_mb (cs_devices s ! j) \<le> memory_available_mb ds"
    if "j < length (cs_devices s)" "of_accel accel (cs_devices s ! j)" for j
  proof (cases "mem \<le> memory_available_mb (cs_devices s ! j)")
    case True
    with that have "(j, cs_devices s ! j) \<in> set ?cand" by (simp add: in_set_enumerate_eq)
    with sel show ?thesis by fastforce
  next
    case False
    with i(4) show ?thesis by simp
  qed
  have "(Some a, s') = (let alloc = \<lparr> ca_task_id = tid, ca_device_index = i, ca_memory_mb = mem \<rparr>
      in (Some alloc, s\<lparr>cs_devices := (cs_devices s)[i := set_used (ds_memory_used_mb ds + mem) ds],
                        cs_allocations := hm_insert tid alloc (cs_allocations s)\<rparr>))"
    unfolding assms [symmetric] allocate_def m by simp
  with i best show thesis by (intro that [of i]) (auto simp: Let_def)
qed

lemma gpu_okD:
  assumes "gpu_ok s" and "i < length (cs_devices s)"
  shows "dev_index (ds_device (cs_devices s ! i)) = i"
    and "alloc_on i (cs_allocations s) \<le> unat (ds_memory_used_mb (cs_devices s ! i))"
    and "ds_memory_used_mb (cs_devices s ! i) \<le> dev_memory_total_mb (ds_device (cs_devices s ! i))"
    and "dev_memory_available_mb (ds_device (cs_devices s ! i)) = memory_available_mb (cs_devices s ! i)"
  using assms by (auto simp: gpu_ok_def Let_def)

text \<open>Changing the used memory of one device together with the allocations.\<close>

lemma gpu_ok_update:
  assumes "gpu_ok s" and "i < length (cs_devices s)" and "hm_wf m"
    and "\<And>t a. hm_get m t = Some a \<Longrightarrow> ca_device_index a < length (cs_devices s) \<and> ca_task_id a = t"
    and "\<And>j. j \<noteq> i \<Longrightarrow> alloc_on j m \<le> alloc_on j (cs_allocations s)"
    and "alloc_on i m \<le> unat used"
    and "used \<le> dev_memory_total_mb (ds_device (cs_devices s ! i))"
  shows "gpu_ok (s\<lparr>cs_devices := (cs_devices s)[i := set_used used (cs_devices s ! i)], cs_allocations := m\<rparr>)"
proof -
  have "alloc_on j m \<le> unat (ds_memory_used_mb (cs_devices s ! j))" if "j < length (cs_devices s)" "j \<noteq> i" for j
    using assms(5) [OF that(2)] gpu_okD(2) [OF assms(1) that(1)] by linarith
  with assms gpu_okD(1,3,4) [OF assms(1)] show ?thesis
    by (auto simp: gpu_ok_def Let_def nth_list_update)
qed

lemma allocate_ok:
  assumes "gpu_ok s" and "allocate tid mem accel s = (Some a, s')"
  shows "gpu_ok s'"
proof -
  obtain i where i: "i < length (cs_devices s)" "mem \<le> memory_available_mb (cs_devices s ! i)"
    "a = \<lparr> ca_task_id = tid, ca_device_index = i, ca_memory_mb = mem \<rparr>"
    "s' = s\<lparr>cs_devices := (cs_devices s)[i := set_used (ds_memory_used_mb (cs_devices s ! i) + mem)
                  (cs_devices s ! i)],
            cs_allocations := hm_insert tid a (cs_allocations s)\<rparr>"
    using assms(2) by (rule allocate_cases)
  have wf: "hm_wf (cs_allocations s)" using assms(1) by (simp add: gpu_ok_def)
  note nw = enough_no_wrap [OF i(2) [unfolded memory_available_mb_def] gpu_okD(3) [OF assms(1) i(1)]]
  have le: "alloc_on j (hm_insert tid a (cs_allocations s)) \<le>
      alloc_on j (cs_allocations s) + (if j = i then unat mem else 0)" for j
    using alloc_on_insert [OF wf, of j tid a] i(3) by (auto split: option.splits if_splits)
  show ?thesis
    unfolding i(4)
  proof (rule gpu_ok_update [OF assms(1) i(1)])
    show "alloc_on i (hm_insert tid a (cs_allocations s)) \<le>
        unat (ds_memory_used_mb (cs_devices s ! i) + mem)"
      using le [of i] nw(1) gpu_okD(2) [OF assms(1) i(1)] by simp
    show "alloc_on j (hm_insert tid a (cs_allocations s)) \<le> alloc_on j (cs_allocations s)" if "j \<noteq> i" for j
      using le [of j] that by simp
  qed (use assms(1) i wf nw(2) in \<open>auto simp: gpu_ok_def split: if_splits\<close>)
qed

lemma release_ok:
  assumes "gpu_ok s"
  shows "\<exists>b s'. release tid s = Some (b, s') \<and> gpu_ok s'"
proof (cases "hm_get (cs_allocations s) tid")
  case None
  then show ?thesis
    using assms by (intro exI [of _ False] exI [of _ s]) (simp add: release_def)
next
  case (Some a)
  let ?i = "ca_device_index a" and ?m = "hm_remove tid (cs_allocations s)"
  let ?ds = "cs_devices s ! ?i"
  have i: "?i < length (cs_devices s)" and wf: "hm_wf (cs_allocations s)"
    using assms Some by (auto simp: gpu_ok_def)
  have rem: "alloc_on j ?m + (if ?i = j then unat (ca_memory_mb a) else 0) = alloc_on j (cs_allocations s)" for j
    using alloc_on_remove [OF wf, of j tid] Some by simp
  have "alloc_on ?i ?m \<le> unat (saturating_sub (ds_memory_used_mb ?ds) (ca_memory_mb a))"
    using rem [of ?i] gpu_okD(2) [OF assms i] by (simp add: unat_saturating_sub)
  moreover have "saturating_sub (ds_memory_used_mb ?ds) (ca_memory_mb a) \<le> dev_memory_total_mb (ds_device ?ds)"
    using gpu_okD(3) [OF assms i] by (simp add: word_le_nat_alt unat_saturating_sub)
  moreover have "alloc_on j ?m \<le> alloc_on j (cs_allocations s)" for j
    using rem [of j] by simp
  ultimately have "gpu_ok (s\<lparr>cs_devices := (cs_devices s)[?i := set_used
      (saturating_sub (ds_memory_used_mb ?ds) (ca_memory_mb a)) ?ds], cs_allocations := ?m\<rparr>)"
    using assms i wf by (intro gpu_ok_update) (auto simp: gpu_ok_def split: if_splits)
  then show ?thesis
    using Some i by (auto simp: release_def Let_def)
qed

lemma add_device_ok: "gpu_ok s \<Longrightarrow> gpu_ok (add_device name accel mem s)"
proof -
  assume ok: "gpu_ok s"
  have "alloc_on (length (cs_devices s)) (cs_allocations s) = 0"
  proof -
    have "ca_device_index a < length (cs_devices s)" if "(t, a) \<in> set (cs_allocations s)" for t a
      using ok that by (auto simp: gpu_ok_def hm_get_mem)
    then show ?thesis by (fastforce simp: alloc_on_def hm_sum_def)
  qed
  with ok show ?thesis
    by (auto simp: gpu_ok_def add_device_def Let_def nth_append memory_available_mb_def
          saturating_sub_def less_Suc_eq dest: less_SucI)
qed

section \<open>The scheduler as a state machine\<close>

datatype gpu_op =
    GAddDevice string accelerator_type u64
  | GAllocate uuid u64 "accelerator_type option"
  | GRelease uuid

fun gpu_step :: "gpu_op \<Rightarrow> compute_scheduler \<Rightarrow> compute_scheduler" where
  "gpu_step (GAddDevice name accel mem) s = add_device name accel mem s"
| "gpu_step (GAllocate tid mem accel) s = snd (allocate tid mem accel s)"
| "gpu_step (GRelease tid) s = (case release tid s of None \<Rightarrow> s | Some (_, s') \<Rightarrow> s')"

lemma allocate_None: "allocate tid mem accel s = (None, s') \<Longrightarrow> s' = s"
  by (auto simp: allocate_def Let_def split: option.splits)

lemma gpu_step_ok: "gpu_ok s \<Longrightarrow> gpu_ok (gpu_step e s)"
proof (cases e)
  case (GAllocate tid mem accel)
  obtain r s' where a: "allocate tid mem accel s = (r, s')" by (cases "allocate tid mem accel s")
  assume "gpu_ok s"
  with a GAllocate show ?thesis
    using allocate_ok [of s tid mem accel] allocate_None [of tid mem accel s] by (cases r) auto
next
  case (GRelease tid)
  assume "gpu_ok s"
  from release_ok [OF this, of tid] GRelease show ?thesis by auto
qed (simp_all add: add_device_ok)

interpretation gpm: invariant_machine "\<lambda>s. s = compute_scheduler_new" gpu_step gpu_ok
proof unfold_locales
  show "gpu_ok s" if "s = compute_scheduler_new" for s
    using that by (simp add: gpu_ok_def compute_scheduler_new_def)
qed (rule gpu_step_ok)

lemma set_used_same:
  assumes "gpu_ok s" and "i < length (cs_devices s)"
  shows "set_used (ds_memory_used_mb (cs_devices s ! i)) (set_used u (cs_devices s ! i)) = cs_devices s ! i"
  using gpu_okD(4) [OF assms]
  by (cases "cs_devices s ! i"; cases "ds_device (cs_devices s ! i)")
    (simp add: set_used_def memory_available_mb_def Let_def)

section \<open>Properties\<close>

text \<open>C30. Memory is never over-committed: after any sequence of operations, on every device
  the live allocations together fit into its memory, the used counter stays between the
  two, the published available memory is what is left, and \<open>release\<close> does not panic.\<close>

theorem gpu_no_overcommit:
  assumes "s = fold gpu_step es compute_scheduler_new" and "i < length (cs_devices s)"
  shows "alloc_on i (cs_allocations s) \<le> unat (ds_memory_used_mb (cs_devices s ! i)) \<and>
    ds_memory_used_mb (cs_devices s ! i) \<le> dev_memory_total_mb (ds_device (cs_devices s ! i)) \<and>
    dev_memory_available_mb (ds_device (cs_devices s ! i)) =
      dev_memory_total_mb (ds_device (cs_devices s ! i)) - ds_memory_used_mb (cs_devices s ! i) \<and>
    release tid s \<noteq> None"
proof -
  have ok: "gpu_ok s" using gpm.run_good [of compute_scheduler_new es] assms(1) by simp
  have "memory_available_mb (cs_devices s ! i) =
      dev_memory_total_mb (ds_device (cs_devices s ! i)) - ds_memory_used_mb (cs_devices s ! i)"
    using gpu_okD(3) [OF ok assms(2)] by (auto simp: memory_available_mb_def saturating_sub_def)
  with gpu_okD [OF ok assms(2)] release_ok [OF ok, of tid] show ?thesis by auto
qed

theorem gpu_no_overcommit_witness:
  "alloc_on 0 (cs_allocations (fold gpu_step [GAddDevice ''a'' Cuda 100, GAllocate 1 60 None, GAllocate 2 60 None]
     compute_scheduler_new)) \<le> 100"
proof -
  let ?s = "fold gpu_step [GAddDevice ''a'' Cuda 100, GAllocate 1 60 None, GAllocate 2 60 None]
    compute_scheduler_new"
  have "length (cs_devices ?s) = 1" "dev_memory_total_mb (ds_device (cs_devices ?s ! 0)) = 100"
    by code_simp+
  then have dev: "0 < length (cs_devices ?s)" "unat (dev_memory_total_mb (ds_device (cs_devices ?s ! 0))) = 100"
    by simp_all
  note p = gpu_no_overcommit [OF refl dev(1), of 1]
  have "alloc_on 0 (cs_allocations ?s) \<le> unat (dev_memory_total_mb (ds_device (cs_devices ?s ! 0)))"
    using conjunct1 [OF p] conjunct1 [OF conjunct2 [OF p]] unfolding word_le_nat_alt by (rule order_trans)
  then show ?thesis by (simp only: dev(2))
qed

text \<open>An allocation fails exactly when no device of the asked type has enough memory
  available; otherwise it goes to a device of that type with the most available memory,
  which then has exactly that much less.\<close>

theorem gpu_allocate_best_fit:
  assumes "gpu_ok s" and "allocate tid mem accel s = (r, s')"
  shows "case r of
      None \<Rightarrow> s' = s \<and> (\<forall>ds \<in> set (cs_devices s). of_accel accel ds \<longrightarrow> memory_available_mb ds < mem)
    | Some a \<Rightarrow> \<exists>i < length (cs_devices s). ca_device_index a = i \<and> ca_memory_mb a = mem \<and>
        of_accel accel (cs_devices s ! i) \<and> mem \<le> memory_available_mb (cs_devices s ! i) \<and>
        (\<forall>ds \<in> set (cs_devices s). of_accel accel ds \<longrightarrow>
           memory_available_mb ds \<le> memory_available_mb (cs_devices s ! i)) \<and>
        memory_available_mb (cs_devices s' ! i) = memory_available_mb (cs_devices s ! i) - mem \<and>
        hm_get (cs_allocations s') tid = Some a"
proof (cases r)
  case None
  let ?cand = "filter (\<lambda>(_, ds). mem \<le> memory_available_mb ds)
      (filter (\<lambda>(_, ds). of_accel accel ds) (enumerate 0 (cs_devices s)))"
  have "max_by_key (\<lambda>(_, ds). memory_available_mb ds) ?cand = None"
    using assms(2) None by (auto simp: allocate_def Let_def split: option.splits simp del: filter_filter)
  then have "?cand = []" by (simp only: max_by_key_None)
  then have "\<forall>j < length (cs_devices s). of_accel accel (cs_devices s ! j) \<longrightarrow>
      memory_available_mb (cs_devices s ! j) < mem"
    by (auto simp: filter_empty_conv in_set_enumerate_eq not_le [symmetric])
  with None allocate_None assms(2) show ?thesis by (auto simp: all_set_conv_all_nth)
next
  case (Some a)
  then have run: "allocate tid mem accel s = (Some a, s')" using assms(2) by simp
  obtain i where i: "i < length (cs_devices s)" "of_accel accel (cs_devices s ! i)"
    "mem \<le> memory_available_mb (cs_devices s ! i)"
    "a = \<lparr> ca_task_id = tid, ca_device_index = i, ca_memory_mb = mem \<rparr>"
    "s' = s\<lparr>cs_devices := (cs_devices s)[i := set_used (ds_memory_used_mb (cs_devices s ! i) + mem)
                  (cs_devices s ! i)],
            cs_allocations := hm_insert tid a (cs_allocations s)\<rparr>"
    "\<forall>j < length (cs_devices s). of_accel accel (cs_devices s ! j) \<longrightarrow>
      memory_available_mb (cs_devices s ! j) \<le> memory_available_mb (cs_devices s ! i)"
    using run by (rule allocate_cases)
  note used = gpu_okD(3) [OF assms(1) i(1)]
  note nw = enough_no_wrap [OF i(3) [unfolded memory_available_mb_def] used]
  have "memory_available_mb (cs_devices s' ! i) = memory_available_mb (cs_devices s ! i) - mem"
    using i(1,5) used nw(2) by (simp add: memory_available_mb_def saturating_sub_def leD)
  with i Some show ?thesis by (auto simp: all_set_conv_all_nth)
qed

text \<open>Of a device with 100 MB and one with 300 MB, a request for 60 MB takes the second.\<close>

definition sample_gpus :: compute_scheduler where
  "sample_gpus = add_gpu ''b'' 300 (add_gpu ''a'' 100 compute_scheduler_new)"

lemma sample_gpus_ok: "gpu_ok sample_gpus"
  using gpm.run_good [of compute_scheduler_new "[GAddDevice ''a'' Cuda 100, GAddDevice ''b'' Cuda 300]"]
  by (simp add: add_gpu_def sample_gpus_def)

theorem gpu_allocate_best_fit_witness:
  "fst (allocate 1 60 None sample_gpus) = Some \<lparr> ca_task_id = 1, ca_device_index = 1, ca_memory_mb = 60 \<rparr> \<and>
   memory_available_mb (cs_devices (snd (allocate 1 60 None sample_gpus)) ! 1) =
     memory_available_mb (cs_devices sample_gpus ! 1) - 60"
proof -
  have fst: "fst (allocate 1 60 None sample_gpus) =
      Some \<lparr> ca_task_id = 1, ca_device_index = 1, ca_memory_mb = 60 \<rparr>"
    by code_simp
  then have "allocate 1 60 None sample_gpus =
      (Some \<lparr> ca_task_id = 1, ca_device_index = 1, ca_memory_mb = 60 \<rparr>, snd (allocate 1 60 None sample_gpus))"
    by (metis prod.collapse)
  from fst gpu_allocate_best_fit [OF sample_gpus_ok this] show ?thesis by auto
qed

text \<open>Releasing undoes allocating: for a task id without a live allocation, an
  allocation followed by the release of that id leaves the devices and every allocation
  as they were.\<close>

theorem gpu_allocate_release:
  assumes "gpu_ok s" and "hm_get (cs_allocations s) tid = None"
    and "allocate tid mem accel s = (Some a, s1)"
  shows "\<exists>s2. release tid s1 = Some (True, s2) \<and> cs_devices s2 = cs_devices s \<and>
    hm_get (cs_allocations s2) = hm_get (cs_allocations s)"
proof -
  obtain i where i: "i < length (cs_devices s)" "mem \<le> memory_available_mb (cs_devices s ! i)"
    "a = \<lparr> ca_task_id = tid, ca_device_index = i, ca_memory_mb = mem \<rparr>"
    "s1 = s\<lparr>cs_devices := (cs_devices s)[i := set_used (ds_memory_used_mb (cs_devices s ! i) + mem)
                  (cs_devices s ! i)],
            cs_allocations := hm_insert tid a (cs_allocations s)\<rparr>"
    using assms(3) by (rule allocate_cases)
  let ?used = "ds_memory_used_mb (cs_devices s ! i)"
  note nw = enough_no_wrap [OF i(2) [unfolded memory_available_mb_def] gpu_okD(3) [OF assms(1) i(1)]]
  have "saturating_sub (?used + mem) mem = ?used"
    using nw(1) by (simp add: saturating_sub_def word_less_nat_alt)
  then show ?thesis
    using i assms(2) set_used_same [OF assms(1) i(1)] by (auto simp: release_def Let_def)
qed

theorem gpu_allocate_release_witness:
  "\<exists>s1 s2. allocate 1 60 None (add_gpu ''a'' 100 compute_scheduler_new) =
      (Some \<lparr> ca_task_id = 1, ca_device_index = 0, ca_memory_mb = 60 \<rparr>, s1) \<and>
    release 1 s1 = Some (True, s2) \<and> cs_devices s2 = cs_devices (add_gpu ''a'' 100 compute_scheduler_new)"
proof -
  let ?s = "add_gpu ''a'' 100 compute_scheduler_new"
  have ok: "gpu_ok ?s"
    using gpm.run_good [of compute_scheduler_new "[GAddDevice ''a'' Cuda 100]"] by (simp add: add_gpu_def)
  have "hm_get (cs_allocations ?s) 1 = None"
    by (simp add: add_gpu_def add_device_def compute_scheduler_new_def)
  moreover have run: "allocate 1 60 None ?s =
      (Some \<lparr> ca_task_id = 1, ca_device_index = 0, ca_memory_mb = 60 \<rparr>, snd (allocate 1 60 None ?s))"
    by code_simp
  ultimately show ?thesis using gpu_allocate_release [OF ok _ run] by blast
qed

text \<open>A second allocation under the same task id overwrites the first one, whose memory is
  then never given back: the device stays in use with no allocation left.\<close>

lemma gpu_double_allocation_leaks:
  "let s = fold gpu_step [GAddDevice ''a'' Cuda 100, GAllocate 1 60 None, GAllocate 1 30 None, GRelease 1]
     compute_scheduler_new
   in cs_allocations s = [] \<and> map ds_memory_used_mb (cs_devices s) = [60]"
  by code_simp

end
