(* ===== verification/Fleet_Federation.thy ===== *)
theory Fleet_Federation
  imports Liveness
begin

text \<open>
  Cluster federation, \<open>fleet/federation.rs\<close>: heartbeats and liveness of peer clusters, and
  the election of a coordinator with terms. The clocks are arguments. The term is a 64-bit
  word whose increment wraps, as in the release build.
\<close>

type_synonym cluster_id = string

datatype federation_role = Coordinator | Follower | Candidate

datatype cluster_status = ClOnline | ClSuspect | ClOffline

record cluster_info =
  cl_id :: cluster_id
  cl_endpoint :: string
  cl_status :: cluster_status
  cl_role :: federation_role
  cl_node_count :: nat
  cl_last_heartbeat :: instant
  cl_last_heartbeat_instant :: instant

record election_state =
  el_term :: u64
  el_coordinator :: "cluster_id option"
  el_term_started :: instant

record federation_config =
  fc_cluster_id :: cluster_id
  fc_endpoint :: string
  fc_seeds :: "string list"
  fc_suspect_timeout :: duration
  fc_offline_timeout :: duration
  fc_election_timeout :: duration

definition federation_config_default :: federation_config where
  "federation_config_default =
     \<lparr> fc_cluster_id = [], fc_endpoint = [], fc_seeds = [],
       fc_suspect_timeout = 10 * 1000000000, fc_offline_timeout = 30 * 1000000000,
       fc_election_timeout = 5 * 1000000000 \<rparr>"

record federation_manager =
  fm_config :: federation_config
  fm_role :: federation_role
  fm_clusters :: "(cluster_id, cluster_info) hmap"
  fm_election :: election_state

definition federation_manager_new :: "instant \<Rightarrow> federation_config \<Rightarrow> federation_manager" where
  "federation_manager_new now config =
     \<lparr> fm_config = config, fm_role = Follower, fm_clusters = hm_empty,
       fm_election = \<lparr> el_term = 0, el_coordinator = None, el_term_started = now \<rparr> \<rparr>"

definition cluster_heartbeat :: "instant \<Rightarrow> instant \<Rightarrow> cluster_id \<Rightarrow> string \<Rightarrow> nat
    \<Rightarrow> federation_manager \<Rightarrow> federation_manager" where
  "cluster_heartbeat utc now i endpoint nodes f =
     (let entry =
        (case hm_get (fm_clusters f) i of
           Some c \<Rightarrow> c
         | None \<Rightarrow>
             \<lparr> cl_id = i, cl_endpoint = endpoint, cl_status = ClOnline, cl_role = Follower,
               cl_node_count = 0, cl_last_heartbeat = utc, cl_last_heartbeat_instant = now \<rparr>)
      in f\<lparr>fm_clusters := hm_insert i
            (entry\<lparr>cl_endpoint := endpoint, cl_node_count := nodes, cl_status := ClOnline,
                   cl_last_heartbeat := utc, cl_last_heartbeat_instant := now\<rparr>) (fm_clusters f)\<rparr>)"

definition update_cluster :: "federation_config \<Rightarrow> instant \<Rightarrow> cluster_info \<Rightarrow> cluster_info" where
  "update_cluster config now c =
     (let elapsed = duration_since now (cl_last_heartbeat_instant c)
      in if fc_offline_timeout config < elapsed \<and> cl_status c \<noteq> ClOffline then c\<lparr>cl_status := ClOffline\<rparr>
         else if fc_suspect_timeout config < elapsed \<and> cl_status c = ClOnline then c\<lparr>cl_status := ClSuspect\<rparr>
         else c)"

definition check_liveness :: "instant \<Rightarrow> federation_manager \<Rightarrow> federation_manager" where
  "check_liveness now f =
     f\<lparr>fm_clusters := hm_map_values (update_cluster (fm_config f) now) (fm_clusters f)\<rparr>"

definition start_election :: "instant \<Rightarrow> federation_manager \<Rightarrow> u64 \<times> federation_manager" where
  "start_election now f =
     (let e = \<lparr> el_term = el_term (fm_election f) + 1, el_coordinator = None, el_term_started = now \<rparr>
      in (el_term e, f\<lparr>fm_election := e, fm_role := Candidate\<rparr>))"

definition declare_coordinator :: "u64 \<Rightarrow> cluster_id \<Rightarrow> federation_manager \<Rightarrow> bool \<times> federation_manager" where
  "declare_coordinator trm coord f =
     (if trm < el_term (fm_election f) then (False, f)
      else
        (let election = (fm_election f)\<lparr>el_term := trm, el_coordinator := Some coord\<rparr>;
             role = (if coord = fc_cluster_id (fm_config f) then Coordinator else Follower);
             clusters = hm_map_values (cl_role_update (\<lambda>_. Follower)) (fm_clusters f);
             clusters = hm_modify coord (cl_role_update (\<lambda>_. Coordinator)) clusters
         in (True, f\<lparr>fm_election := election, fm_role := role, fm_clusters := clusters\<rparr>)))"

text \<open>\<open>Vec::dedup\<close> drops consecutive repetitions.\<close>

fun dedup :: "'a list \<Rightarrow> 'a list" where
  "dedup [] = []"
| "dedup [x] = [x]"
| "dedup (x # y # xs) = (if x = y then dedup (y # xs) else x # dedup (y # xs))"

definition candidates :: "federation_manager \<Rightarrow> cluster_id list" where
  "candidates f =
     dedup (sort (map cl_id (filter (\<lambda>c. cl_status c = ClOnline) (hm_values (fm_clusters f)))
       @ [fc_cluster_id (fm_config f)]))"

definition elect_by_lowest_id :: "instant \<Rightarrow> federation_manager \<Rightarrow> cluster_id option \<times> federation_manager" where
  "elect_by_lowest_id now f =
     (let (trm, f) = start_election now f
      in case candidates f of
           [] \<Rightarrow> (None, f)
         | winner # _ \<Rightarrow> (Some winner, snd (declare_coordinator trm winner f)))"

definition current_coordinator :: "federation_manager \<Rightarrow> cluster_id option" where
  "current_coordinator f = el_coordinator (fm_election f)"

definition is_coordinator :: "federation_manager \<Rightarrow> bool" where
  "is_coordinator f \<longleftrightarrow> fm_role f = Coordinator"

definition current_term :: "federation_manager \<Rightarrow> u64" where
  "current_term f = el_term (fm_election f)"

definition list_clusters :: "federation_manager \<Rightarrow> cluster_info list" where
  "list_clusters f = hm_values (fm_clusters f)"

definition online_clusters :: "federation_manager \<Rightarrow> cluster_info list" where
  "online_clusters f = filter (\<lambda>c. cl_status c = ClOnline) (hm_values (fm_clusters f))"

definition cluster_count :: "federation_manager \<Rightarrow> nat" where
  "cluster_count f = hm_len (fm_clusters f)"

definition evict_offline :: "instant \<Rightarrow> duration \<Rightarrow> federation_manager \<Rightarrow> cluster_id list \<times> federation_manager" where
  "evict_offline now ttl f =
     (let evicted = map fst (filter (\<lambda>(_, c). cl_status c = ClOffline \<and>
            ttl < duration_since now (cl_last_heartbeat_instant c)) (fm_clusters f))
      in (evicted, f\<lparr>fm_clusters := hm_remove_all evicted (fm_clusters f)\<rparr>))"

section \<open>Liveness of clusters\<close>

definition cluster_beat :: "instant \<times> string \<times> nat \<Rightarrow> instant \<Rightarrow> cluster_id
    \<Rightarrow> federation_manager \<Rightarrow> federation_manager" where
  "cluster_beat p now i f = (case p of (utc, endpoint, nodes) \<Rightarrow> cluster_heartbeat utc now i endpoint nodes f)"

definition cluster_last :: "federation_manager \<Rightarrow> cluster_id \<Rightarrow> instant option" where
  "cluster_last f i = map_option cl_last_heartbeat_instant (hm_get (fm_clusters f) i)"

definition cluster_live :: "federation_manager \<Rightarrow> cluster_id \<Rightarrow> bool" where
  "cluster_live f i \<longleftrightarrow> (case hm_get (fm_clusters f) i of None \<Rightarrow> False | Some c \<Rightarrow> cl_status c = ClOnline)"

definition cluster_late :: "federation_manager \<Rightarrow> duration \<Rightarrow> bool" where
  "cluster_late f d \<longleftrightarrow> fc_offline_timeout (fm_config f) < d \<or> fc_suspect_timeout (fm_config f) < d"

lemma update_cluster_last [simp]:
  "cl_last_heartbeat_instant (update_cluster config now c) = cl_last_heartbeat_instant c"
  "cl_id (update_cluster config now c) = cl_id c" "cl_role (update_cluster config now c) = cl_role c"
  by (simp_all add: update_cluster_def Let_def)

lemma update_cluster_online:
  "cl_status (update_cluster (fm_config f) now c) = ClOnline \<longleftrightarrow> cl_status c = ClOnline \<and>
     \<not> cluster_late f (duration_since now (cl_last_heartbeat_instant c))"
  by (auto simp: update_cluster_def Let_def cluster_late_def)

interpretation cl: heartbeat_liveness cluster_beat check_liveness cluster_last cluster_live cluster_late
  by unfold_locales
    (auto simp: cluster_beat_def cluster_heartbeat_def cluster_last_def cluster_live_def
       cluster_late_def [abs_def] check_liveness_def option.map_comp comp_def update_cluster_online Let_def
       split: option.splits prod.splits)

section \<open>Elections\<close>

text \<open>Every peer is kept under its own id, at most the coordinator has the coordinator role,
  and this cluster's own role agrees with the election.\<close>

definition federation_ok :: "federation_manager \<Rightarrow> bool" where
  "federation_ok f \<longleftrightarrow> hm_wf (fm_clusters f) \<and>
     (\<forall>i c. hm_get (fm_clusters f) i = Some c \<longrightarrow> cl_id c = i) \<and>
     (fm_role f = Coordinator \<longrightarrow> el_coordinator (fm_election f) = Some (fc_cluster_id (fm_config f))) \<and>
     (fm_role f = Candidate \<longrightarrow> el_coordinator (fm_election f) = None)"

datatype federation_op =
    FHeartbeat instant instant cluster_id string nat
  | FCheck instant
  | FElection instant
  | FDeclare u64 cluster_id
  | FElect instant
  | FEvict instant duration

fun federation_step :: "federation_op \<Rightarrow> federation_manager \<Rightarrow> federation_manager" where
  "federation_step (FHeartbeat utc now i endpoint nodes) f = cluster_heartbeat utc now i endpoint nodes f"
| "federation_step (FCheck now) f = check_liveness now f"
| "federation_step (FElection now) f = snd (start_election now f)"
| "federation_step (FDeclare trm c) f = snd (declare_coordinator trm c f)"
| "federation_step (FElect now) f = snd (elect_by_lowest_id now f)"
| "federation_step (FEvict now ttl) f = snd (evict_offline now ttl f)"

lemma sort_Nil_iff [simp]: "sort xs = [] \<longleftrightarrow> xs = []"
  by (metis length_0_conv length_sort)

lemma set_dedup [simp]: "set (dedup xs) = set xs"
  by (induction xs rule: dedup.induct) auto

lemma dedup_hd: "xs \<noteq> [] \<Longrightarrow> hd (dedup xs) = hd xs"
  by (induction xs rule: dedup.induct) auto

lemma dedup_Nil [simp]: "dedup xs = [] \<longleftrightarrow> xs = []"
  by (metis set_dedup set_empty)

lemma heartbeat_ok [invariant_intros]:
  "federation_ok f \<Longrightarrow> federation_ok (cluster_heartbeat utc now i endpoint nodes f)"
  by (auto simp: federation_ok_def cluster_heartbeat_def Let_def split: option.splits)

lemma check_liveness_ok [invariant_intros]: "federation_ok f \<Longrightarrow> federation_ok (check_liveness now f)"
  by (auto simp: federation_ok_def check_liveness_def)

lemma start_election_ok [invariant_intros]: "federation_ok f \<Longrightarrow> federation_ok (snd (start_election now f))"
  by (auto simp: federation_ok_def start_election_def Let_def)

lemma declare_ok [invariant_intros]: "federation_ok f \<Longrightarrow> federation_ok (snd (declare_coordinator trm c f))"
  by (auto simp: federation_ok_def declare_coordinator_def Let_def split: if_splits)

lemma evict_offline_ok [invariant_intros]: "federation_ok f \<Longrightarrow> federation_ok (snd (evict_offline now ttl f))"
  by (auto simp: federation_ok_def evict_offline_def Let_def split: if_splits)

lemma candidates_nonempty: "candidates f \<noteq> []"
  by (simp add: candidates_def)

lemma elect_eq:
  "elect_by_lowest_id now f =
     (Some (hd (candidates f)),
      snd (declare_coordinator (fst (start_election now f)) (hd (candidates f)) (snd (start_election now f))))"
proof -
  have "candidates (snd (start_election now f)) = candidates f"
    by (simp add: candidates_def start_election_def Let_def)
  moreover obtain w ws where "candidates f = w # ws"
    using candidates_nonempty [of f] by (cases "candidates f") auto
  ultimately show ?thesis by (auto simp: elect_by_lowest_id_def split: prod.split)
qed

lemma elect_ok [invariant_intros]: "federation_ok f \<Longrightarrow> federation_ok (snd (elect_by_lowest_id now f))"
  by (simp add: elect_eq start_election_ok declare_ok)

interpretation fem: invariant_machine "\<lambda>f. \<exists>now config. f = federation_manager_new now config"
  federation_step federation_ok
proof unfold_locales
  show "federation_ok f" if "\<exists>now config. f = federation_manager_new now config" for f
    using that by (auto simp: federation_ok_def federation_manager_new_def)
  show "federation_ok (federation_step e f)" if "federation_ok f" for e f
    using that by (cases e) (simp_all add: invariant_intros)
qed

text \<open>The lowest id: the head of the sorted candidates is their minimum.\<close>

definition electorate :: "federation_manager \<Rightarrow> cluster_id set" where
  "electorate f = insert (fc_cluster_id (fm_config f))
     {i. \<exists>c. hm_get (fm_clusters f) i = Some c \<and> cl_status c = ClOnline}"

lemma set_candidates: "federation_ok f \<Longrightarrow> set (candidates f) = electorate f"
  by (force simp: candidates_def electorate_def federation_ok_def hm_values_get)

lemma sort_hd_Min:
  assumes "xs \<noteq> []"
  shows "hd (sort xs) = Min (set xs)"
proof -
  obtain y ys where y: "sort xs = y # ys" using assms by (cases "sort xs") auto
  then have "sorted (y # ys)" by (metis sorted_sort)
  moreover have "set xs = set (y # ys)" by (metis set_sort y)
  ultimately show ?thesis using y by (simp add: Min_insert2)
qed

lemma candidates_hd: "federation_ok f \<Longrightarrow> hd (candidates f) = Min (electorate f)"
  unfolding set_candidates [symmetric] by (simp add: candidates_def dedup_hd sort_hd_Min)

section \<open>Properties\<close>

text \<open>C32. An election picks the lowest id among this cluster and its online peers: every other
  candidate has a greater id; the winner is recorded under the incremented term, this
  cluster leads exactly when it won, and exactly the winner among the known peers has the
  coordinator role.\<close>

theorem election_correct:
  assumes "federation_ok f" and "elect_by_lowest_id now f = (w, f')"
  shows "w = Some (Min (electorate f)) \<and> current_coordinator f' = w \<and>
    current_term f' = current_term f + 1 \<and>
    (is_coordinator f' \<longleftrightarrow> w = Some (fc_cluster_id (fm_config f))) \<and>
    (\<forall>i c. hm_get (fm_clusters f') i = Some c \<longrightarrow> (cl_role c = Coordinator \<longleftrightarrow> w = Some i))"
proof -
  have "w = Some (Min (electorate f))" and f': "f' = snd (declare_coordinator
      (fst (start_election now f)) (Min (electorate f)) (snd (start_election now f)))"
    using assms(2) by (auto simp: elect_eq candidates_hd [OF assms(1)])
  then show ?thesis
    by (auto simp: declare_coordinator_def start_election_def Let_def current_coordinator_def
          current_term_def is_coordinator_def split: if_splits option.splits)
qed

text \<open>Agreement: two clusters with the same view of who is online (each counting itself)
  elect the same coordinator, and at most one of two clusters with different ids becomes
  coordinator.\<close>

theorem election_agreement:
  assumes "federation_ok f" and "federation_ok g" and "electorate f = electorate g"
    and "fc_cluster_id (fm_config f) \<noteq> fc_cluster_id (fm_config g)"
  shows "fst (elect_by_lowest_id t f) = fst (elect_by_lowest_id t' g) \<and>
    \<not> (is_coordinator (snd (elect_by_lowest_id t f)) \<and> is_coordinator (snd (elect_by_lowest_id t' g)))"
  using assms
  by (auto simp: elect_eq candidates_hd declare_coordinator_def start_election_def Let_def
        is_coordinator_def split: if_splits)

text \<open>Terms only grow: a declaration is accepted exactly when its term is not older than
  the current one, then it sets term and coordinator; a stale declaration changes nothing.\<close>

theorem declarations_respect_terms:
  assumes "declare_coordinator trm c f = (ok, f')"
  shows "(ok \<longleftrightarrow> current_term f \<le> trm) \<and>
    (ok \<longrightarrow> current_term f' = trm \<and> current_coordinator f' = Some c \<and> current_term f \<le> current_term f') \<and>
    (\<not> ok \<longrightarrow> f' = f)"
  using assms
  by (auto simp: declare_coordinator_def current_term_def current_coordinator_def Let_def split: if_splits)

text \<open>Whatever happens, a cluster is in the coordinator role only when the election names
  it, and in the candidate role only while no coordinator is known.\<close>

lemma role_follows_election:
  assumes "f = fold federation_step es (federation_manager_new now config)"
  shows "is_coordinator f \<Longrightarrow> current_coordinator f = Some (fc_cluster_id (fm_config f))"
    and "fm_role f = Candidate \<Longrightarrow> current_coordinator f = None"
  using fem.run_good [of "federation_manager_new now config" es] assms
  by (auto simp: federation_ok_def is_coordinator_def current_coordinator_def)

text \<open>Liveness of clusters is exact: after a heartbeat of a known cluster at time \<open>t\<close>,
  and any checks and heartbeats of other clusters, it is online exactly when no check came
  later than the suspect timeout (or the offline timeout) after \<open>t\<close>.\<close>

theorem cluster_liveness:
  assumes "hm_get (fm_clusters f) i \<noteq> None" and "\<forall>e \<in> set es. \<not> beats_of i e"
  shows "(\<exists>c. hm_get (fm_clusters (fold (live_step cluster_beat check_liveness) es
        (cluster_heartbeat utc t i endpoint nodes f))) i = Some c \<and> cl_status c = ClOnline) \<longleftrightarrow>
    (\<forall>now. Sweep now \<in> set es \<longrightarrow>
       now - t \<le> fc_suspect_timeout (fm_config f) \<and> now - t \<le> fc_offline_timeout (fm_config f))"
proof -
  have "cluster_last f i \<noteq> None" using assms(1) by (simp add: cluster_last_def)
  from cl.live_after_beat [OF this assms(2), of "(utc, endpoint, nodes)" t] show ?thesis
    by (auto simp: cluster_live_def cluster_late_def cluster_beat_def duration_since_def not_less
          split: option.splits)
qed

section \<open>Instances\<close>

definition sample_config :: "cluster_id \<Rightarrow> federation_config" where
  "sample_config i = federation_config_default\<lparr>fc_cluster_id := i\<rparr>"

definition sample_east :: federation_manager where
  "sample_east = fold federation_step [FHeartbeat 0 0 ''west'' ''w:1'' 4]
     (federation_manager_new 0 (sample_config ''east''))"

definition sample_west :: federation_manager where
  "sample_west = fold federation_step [FHeartbeat 0 0 ''east'' ''e:1'' 2]
     (federation_manager_new 0 (sample_config ''west''))"

lemma sample_federation:
  "federation_ok sample_east" "federation_ok sample_west"
  "electorate sample_east = {''east'', ''west''}" "electorate sample_west = {''east'', ''west''}"
  "fc_cluster_id (fm_config sample_east) = ''east''" "fc_cluster_id (fm_config sample_west) = ''west''"
proof -
  show "federation_ok sample_east" "federation_ok sample_west"
    unfolding sample_east_def sample_west_def by (rule fem.run_good, blast)+
qed (auto simp: sample_east_def sample_west_def sample_config_def electorate_def cluster_heartbeat_def
    federation_manager_new_def Let_def split: if_splits)

theorem election_correct_witness:
  "current_coordinator (snd (elect_by_lowest_id 5 sample_west)) = Some (Min (electorate sample_west))"
  using election_correct [OF sample_federation(2) prod.collapse [symmetric], of 5] by simp

theorem election_agreement_witness:
  "fst (elect_by_lowest_id 5 sample_east) = fst (elect_by_lowest_id 6 sample_west)"
  using election_agreement [OF sample_federation(1,2), of 5 6] by (simp add: sample_federation(3-6))

theorem declarations_respect_terms_witness:
  "current_coordinator (snd (declare_coordinator 3 ''west'' sample_east)) = Some ''west''"
proof -
  have "declare_coordinator 3 ''west'' sample_east =
      (True, snd (declare_coordinator 3 ''west'' sample_east))"
    by (simp add: declare_coordinator_def sample_east_def cluster_heartbeat_def federation_manager_new_def Let_def)
  from declarations_respect_terms [OF this] show ?thesis by blast
qed

theorem cluster_liveness_witness:
  "\<not> (\<exists>c. hm_get (fm_clusters (fold (live_step cluster_beat check_liveness) [Sweep 10000000002]
      (cluster_heartbeat 1 1 ''west'' ''w:1'' 4 sample_east))) ''west'' = Some c \<and> cl_status c = ClOnline)"
proof -
  have "hm_get (fm_clusters sample_east) ''west'' \<noteq> None"
    "\<forall>e \<in> set [Sweep 10000000002]. \<not> beats_of ''west'' (e :: (cluster_id, instant \<times> string \<times> nat) live_event)"
    "fc_suspect_timeout (fm_config sample_east) = 10000000000"
    by (simp_all add: sample_east_def cluster_heartbeat_def federation_manager_new_def Let_def
          sample_config_def federation_config_default_def)
  then show ?thesis
    using cluster_liveness [of sample_east "''west''" "[Sweep 10000000002]" 1 1 "''w:1''" 4] by simp
qed

end
