(* ===== verification/Fleet_Relay.thy ===== *)
theory Fleet_Relay
  imports Fleet_Registry
begin

text \<open>
  The relay between fleet nodes, \<open>fleet/relay.rs\<close>: sequence numbers, de-duplication per
  sender and fan-out. The broadcast channel is tokio's: its contents are the list of the
  messages handed to \<open>tx.send\<close>. Mutex poisoning (a panic while a lock is held) is not
  modelled, since no code under the locks panics. Counters are 64-bit words.
\<close>

record relay_message =
  rm_seq :: u64
  rm_from :: node_id
  rm_to :: string
  rm_topic :: string
  rm_payload :: json
  rm_timestamp :: instant

definition relay_message_new :: "instant \<Rightarrow> u64 \<Rightarrow> node_id \<Rightarrow> string \<Rightarrow> string \<Rightarrow> json \<Rightarrow> relay_message" where
  "relay_message_new now seq from to topic payload =
     \<lparr> rm_seq = seq, rm_from = from, rm_to = to, rm_topic = topic, rm_payload = payload,
       rm_timestamp = now \<rparr>"

record incoming_message =
  im_message :: relay_message
  im_is_broadcast :: bool

record relay_stats =
  messages_sent :: u64
  messages_received :: u64
  duplicates_dropped :: u64

record relay =
  rl_node_id :: node_id
  rl_next_seq :: u64
  rl_seen :: "(node_id, u64) hmap"
  rl_sent :: "incoming_message list"
  rl_stats :: relay_stats

definition relay_new :: "node_id \<Rightarrow> relay" where
  "relay_new i =
     \<lparr> rl_node_id = i, rl_next_seq = 1, rl_seen = hm_empty, rl_sent = [],
       rl_stats = \<lparr> messages_sent = 0, messages_received = 0, duplicates_dropped = 0 \<rparr> \<rparr>"

definition relay_send :: "instant \<Rightarrow> string \<Rightarrow> string \<Rightarrow> json \<Rightarrow> relay \<Rightarrow> u64 \<times> relay" where
  "relay_send now to topic payload r =
     (let seq = rl_next_seq r;
          msg = \<lparr> rm_seq = seq, rm_from = rl_node_id r, rm_to = to, rm_topic = topic,
                  rm_payload = payload, rm_timestamp = now \<rparr>;
          incoming = \<lparr> im_message = msg, im_is_broadcast = (rm_to msg = []) \<rparr>
      in (seq, r\<lparr>rl_next_seq := rl_next_seq r + 1,
                 rl_sent := rl_sent r @ [incoming],
                 rl_stats := messages_sent_update (\<lambda>n. n + 1) (rl_stats r)\<rparr>))"

definition relay_broadcast :: "instant \<Rightarrow> string \<Rightarrow> json \<Rightarrow> relay \<Rightarrow> u64 \<times> relay" where
  "relay_broadcast now topic payload r = relay_send now [] topic payload r"

definition relay_receive :: "relay_message \<Rightarrow> relay \<Rightarrow> incoming_message option \<times> relay" where
  "relay_receive msg r =
     (if rm_from msg = rl_node_id r then (None, r)
      else if rm_to msg \<noteq> [] \<and> rm_to msg \<noteq> rl_node_id r then (None, r)
      else
        (let last_seen = (case hm_get (rl_seen r) (rm_from msg) of None \<Rightarrow> 0 | Some n \<Rightarrow> n)
         in if rm_seq msg \<le> last_seen then
              (None, r\<lparr>rl_seen := hm_insert (rm_from msg) last_seen (rl_seen r),
                       rl_stats := duplicates_dropped_update (\<lambda>n. n + 1) (rl_stats r)\<rparr>)
            else
              (let incoming = \<lparr> im_message = msg, im_is_broadcast = (rm_to msg = []) \<rparr>
               in (Some incoming,
                   r\<lparr>rl_seen := hm_insert (rm_from msg) (rm_seq msg) (rl_seen r),
                     rl_stats := messages_received_update (\<lambda>n. n + 1) (rl_stats r),
                     rl_sent := rl_sent r @ [incoming]\<rparr>))))"

section \<open>Streams of messages\<close>

text \<open>Processing a list of incoming messages: the messages accepted, and the relay after.\<close>

fun receive_all :: "relay_message list \<Rightarrow> relay \<Rightarrow> relay_message list \<times> relay" where
  "receive_all [] r = ([], r)"
| "receive_all (msg # msgs) r =
     (case relay_receive msg r of
        (res, r1) \<Rightarrow>
          (case receive_all msgs r1 of
             (acc, r2) \<Rightarrow> ((case res of None \<Rightarrow> [] | Some m \<Rightarrow> [im_message m]) @ acc, r2)))"

text \<open>Sending a list of (time, target, topic, payload): the messages put on the channel.\<close>

fun send_all :: "(instant \<times> string \<times> string \<times> json) list \<Rightarrow> relay \<Rightarrow> relay" where
  "send_all [] r = r"
| "send_all ((now, to, topic, payload) # ms) r = send_all ms (snd (relay_send now to topic payload r))"

definition last_seq :: "relay \<Rightarrow> node_id \<Rightarrow> u64" where
  "last_seq r i = (case hm_get (rl_seen r) i of None \<Rightarrow> 0 | Some n \<Rightarrow> n)"

definition addressed :: "relay \<Rightarrow> relay_message \<Rightarrow> bool" where
  "addressed r msg \<longleftrightarrow> rm_from msg \<noteq> rl_node_id r \<and> (rm_to msg = [] \<or> rm_to msg = rl_node_id r)"

lemma relay_receive_cases:
  "relay_receive msg r =
     (if \<not> addressed r msg then (None, r)
      else if rm_seq msg \<le> last_seq r (rm_from msg) then
        (None, r\<lparr>rl_seen := hm_insert (rm_from msg) (last_seq r (rm_from msg)) (rl_seen r),
                 rl_stats := duplicates_dropped_update (\<lambda>n. n + 1) (rl_stats r)\<rparr>)
      else
        (Some \<lparr> im_message = msg, im_is_broadcast = (rm_to msg = []) \<rparr>,
         r\<lparr>rl_seen := hm_insert (rm_from msg) (rm_seq msg) (rl_seen r),
           rl_stats := messages_received_update (\<lambda>n. n + 1) (rl_stats r),
           rl_sent := rl_sent r @ [\<lparr> im_message = msg, im_is_broadcast = (rm_to msg = []) \<rparr>]\<rparr>))"
  by (auto simp: relay_receive_def addressed_def last_seq_def Let_def)

lemma receive_node_id [simp]: "rl_node_id (snd (relay_receive msg r)) = rl_node_id r"
  by (simp add: relay_receive_cases)

lemma receive_last_seq:
  "last_seq (snd (relay_receive msg r)) i =
     (if addressed r msg \<and> i = rm_from msg then max (last_seq r i) (rm_seq msg) else last_seq r i)"
  by (auto simp: relay_receive_cases last_seq_def max_def)

lemma receive_accepts:
  "fst (relay_receive msg r) \<noteq> None \<longleftrightarrow> addressed r msg \<and> last_seq r (rm_from msg) < rm_seq msg"
  by (auto simp: relay_receive_cases not_le)

lemma receive_all_Cons:
  "fst (receive_all (msg # msgs) r) =
     (if addressed r msg \<and> last_seq r (rm_from msg) < rm_seq msg then [msg] else []) @
     fst (receive_all msgs (snd (relay_receive msg r)))"
  by (auto simp: relay_receive_cases split: prod.split)

lemma receive_all_Cons_state:
  "snd (receive_all (msg # msgs) r) = snd (receive_all msgs (snd (relay_receive msg r)))"
  by (simp split: prod.split)

declare receive_all.simps(2) [simp del]

lemma receive_all_append:
  "fst (receive_all (xs @ ys) r) = fst (receive_all xs r) @ fst (receive_all ys (snd (receive_all xs r)))"
  by (induction xs arbitrary: r) (simp_all add: receive_all_Cons receive_all_Cons_state)

lemma addressed_receive [simp]: "addressed (snd (relay_receive msg r)) = addressed r"
  by (simp add: addressed_def fun_eq_iff)

text \<open>The accepted messages of one sender, in the order of arrival.\<close>

definition from_sender :: "node_id \<Rightarrow> relay_message list \<Rightarrow> relay_message list" where
  "from_sender i msgs = filter (\<lambda>m. rm_from m = i) msgs"

lemma accepted_above:
  "m \<in> set (fst (receive_all msgs r)) \<Longrightarrow> last_seq r (rm_from m) < rm_seq m \<and> addressed r m \<and> m \<in> set msgs"
proof (induction msgs arbitrary: r)
  case Nil
  then show ?case by simp
next
  case (Cons msg msgs)
  then show ?case
    using Cons.IH [of "snd (relay_receive msg r)"]
    by (auto simp: receive_all_Cons receive_last_seq split: if_splits)
qed

lemma accepted_increasing:
  "sorted_wrt (\<lambda>m m'. rm_seq m < rm_seq m') (from_sender i (fst (receive_all msgs r)))"
proof (induction msgs arbitrary: r)
  case Nil
  then show ?case by (simp add: from_sender_def)
next
  case (Cons msg msgs)
  have "rm_seq msg < rm_seq m"
    if "m \<in> set (fst (receive_all msgs (snd (relay_receive msg r))))" "rm_from m = rm_from msg"
      "addressed r msg" for m
    using accepted_above [OF that(1)] that by (auto simp: receive_last_seq)
  with Cons.IH [of "snd (relay_receive msg r)"] show ?case
    by (auto simp: receive_all_Cons from_sender_def)
qed

lemma last_seq_mono: "last_seq r i \<le> last_seq (snd (receive_all msgs r)) i"
proof (induction msgs arbitrary: r)
  case Nil
  then show ?case by simp
next
  case (Cons msg msgs)
  have "last_seq r i \<le> last_seq (snd (relay_receive msg r)) i" by (simp add: receive_last_seq)
  with Cons [of "snd (relay_receive msg r)"] show ?case
    by (simp add: receive_all_Cons_state)
qed

text \<open>After a stream, none of its messages is accepted again.\<close>

lemma seen_after:
  "m \<in> set msgs \<Longrightarrow> addressed r m \<Longrightarrow> rm_seq m \<le> last_seq (snd (receive_all msgs r)) (rm_from m)"
proof (induction msgs arbitrary: r)
  case Nil
  then show ?case by simp
next
  case (Cons msg msgs)
  show ?case
  proof (cases "m \<in> set msgs")
    case True
    with Cons.IH [of "snd (relay_receive msg r)"] Cons.prems show ?thesis
      by (simp add: receive_all_Cons_state)
  next
    case False
    with Cons.prems have "rm_seq m \<le> last_seq (snd (relay_receive m r)) (rm_from m)"
      by (simp add: receive_last_seq)
    with last_seq_mono [of "snd (relay_receive m r)" "rm_from m" msgs] False Cons.prems show ?thesis
      by (simp add: receive_all_Cons_state)
  qed
qed

lemma receive_all_addressed [simp]: "addressed (snd (receive_all msgs r)) = addressed r"
  by (induction msgs arbitrary: r) (simp_all add: receive_all_Cons_state)

lemma replay_dropped: "fst (receive_all msgs (snd (receive_all msgs r))) = []"
proof -
  have "m \<notin> set (fst (receive_all msgs (snd (receive_all msgs r))))" for m
    using accepted_above [of m msgs "snd (receive_all msgs r)"] seen_after [of m msgs r] by auto
  then show ?thesis by (metis last_in_set)
qed

text \<open>When the messages of one sender arrive in order and above the last seen number, mixed with messages
  of others, those addressed to the node are accepted.\<close>

lemma in_order_accepted:
  assumes "\<forall>m \<in> set (from_sender i msgs). last_seq r i < rm_seq m"
    and "sorted_wrt (\<lambda>m m'. rm_seq m < rm_seq m') (from_sender i msgs)"
  shows "from_sender i (fst (receive_all msgs r)) = filter (addressed r) (from_sender i msgs)"
  using assms
proof (induction msgs arbitrary: r)
  case Nil
  then show ?case by (simp add: from_sender_def)
next
  case (Cons msg msgs)
  have "from_sender i (fst (receive_all msgs (snd (relay_receive msg r)))) = filter (addressed r) (from_sender i msgs)"
    using Cons.prems Cons.IH [of "snd (relay_receive msg r)"]
    by (auto simp: receive_last_seq from_sender_def split: if_splits)
  with Cons.prems show ?case by (auto simp: receive_all_Cons from_sender_def)
qed

section \<open>What a sender puts on the wire\<close>

lemma send_all_fields [simp]: "rl_node_id (send_all ms r) = rl_node_id r"
  by (induction ms arbitrary: r) (auto simp: relay_send_def Let_def)

lemma send_all_sent:
  "map im_message (rl_sent (send_all ms r)) =
     map im_message (rl_sent r) @
     map (\<lambda>(k, now, to, topic, payload). relay_message_new now (rl_next_seq r + of_nat k) (rl_node_id r) to topic payload)
       (enumerate 0 ms)"
proof (induction ms arbitrary: r)
  case Nil
  then show ?case by simp
next
  case (Cons m ms)
  obtain now to topic payload where m: "m = (now, to, topic, payload)" by (rule prod_cases4)
  let ?r = "snd (relay_send now to topic payload r)"
  have r: "rl_next_seq ?r = rl_next_seq r + 1" "rl_node_id ?r = rl_node_id r"
    "map im_message (rl_sent ?r) =
       map im_message (rl_sent r) @ [relay_message_new now (rl_next_seq r) (rl_node_id r) to topic payload]"
    by (simp_all add: relay_send_def Let_def relay_message_new_def)
  have en: "enumerate 0 (m # ms) = (0, m) # map (apfst Suc) (enumerate 0 ms)"
    by (simp add: enumerate_Suc_eq)
  show ?case
    using Cons.IH [of ?r] unfolding m send_all.simps r en [unfolded m]
    by (simp add: comp_def case_prod_unfold add.assoc)
qed

lemma filter_enumerate: "map snd (filter (\<lambda>x. P (snd x)) (enumerate n xs)) = filter P xs"
  by (induction xs arbitrary: n) simp_all

lemma unat_seq: "unat s + k < 2 ^ 64 \<Longrightarrow> unat ((s :: u64) + of_nat k) = unat s + k"
  by (simp add: unat_word_ariths unsigned_of_nat take_bit_nat_eq_self)

lemma seq_strict_mono: "j < k \<Longrightarrow> unat s + k < 2 ^ 64 \<Longrightarrow> (s :: u64) + of_nat j < s + of_nat k"
  by (simp add: word_less_nat_alt unat_seq)

lemma seq_above: "n < s \<Longrightarrow> unat s + k < 2 ^ 64 \<Longrightarrow> (n :: u64) < s + of_nat k"
  by (simp add: word_less_nat_alt unat_seq)

section \<open>Properties\<close>

text \<open>De-duplication is safe: whatever stream of messages arrives, those accepted from
  one sender have strictly increasing sequence numbers, so no message is accepted twice,
  and all are addressed to this node or broadcast by another one.\<close>

theorem relay_accepts_each_once:
  "sorted_wrt (\<lambda>m m'. rm_seq m < rm_seq m') (from_sender i (fst (receive_all msgs r))) \<and>
   (\<forall>m \<in> set (fst (receive_all msgs r)). m \<in> set msgs \<and> rm_from m \<noteq> rl_node_id r \<and>
      (rm_to m = [] \<or> rm_to m = rl_node_id r))"
  using accepted_increasing accepted_above by (fastforce simp: addressed_def)

text \<open>A replayed and a foreign message among new ones: three of the five are accepted.\<close>

definition sample_stream :: "relay_message list" where
  "sample_stream =
     [relay_message_new 0 1 ''a'' [] ''t'' JNull, relay_message_new 0 2 ''a'' ''b'' ''t'' JNull,
      relay_message_new 0 1 ''a'' [] ''t'' JNull, relay_message_new 0 3 ''a'' ''c'' ''t'' JNull,
      relay_message_new 0 4 ''a'' [] ''t'' JNull]"

theorem relay_accepts_each_once_witness:
  "map rm_seq (fst (receive_all sample_stream (relay_new ''b''))) = [1, 2, 4] \<and>
   sorted_wrt (\<lambda>m m'. rm_seq m < rm_seq m') (from_sender ''a'' (fst (receive_all sample_stream (relay_new ''b''))))"
proof
  show "map rm_seq (fst (receive_all sample_stream (relay_new ''b''))) = [1, 2, 4]"
    by code_simp
  show "sorted_wrt (\<lambda>m m'. rm_seq m < rm_seq m') (from_sender ''a'' (fst (receive_all sample_stream (relay_new ''b''))))"
    by (rule conjunct1 [OF relay_accepts_each_once])
qed

definition sample_stream2 :: "relay_message list" where
  "sample_stream2 =
     [relay_message_new 1 1 ''a'' [] ''t'' JNull, relay_message_new 9 7 ''z'' [] ''q'' JNull,
      relay_message_new 2 2 ''a'' ''c'' ''u'' JNull, relay_message_new 3 3 ''a'' ''b'' ''v'' JNull]"

text \<open>C31. Delivery. A relay sends any list of messages, to any nodes, and its 64-bit sequence counter
  does not wrap; another node has not yet seen a sequence number of this sender as high as the
  next one (so the sender was not restarted with a lower counter). When these messages arrive at
  that node in the order they were sent, mixed with any messages of other nodes, and the whole
  stream is then repeated, the node accepts of this sender exactly the messages addressed to it or
  broadcast, each once and in order.\<close>

theorem relay_delivers:
  assumes "rl_node_id ra \<noteq> rl_node_id rb" and "unat (rl_next_seq ra) + length ms \<le> 2 ^ 64"
    and "last_seq rb (rl_node_id ra) < rl_next_seq ra"
    and "from_sender (rl_node_id ra) stream = drop (length (rl_sent ra)) (map im_message (rl_sent (send_all ms ra)))"
  shows "map (\<lambda>m. (rm_timestamp m, rm_to m, rm_topic m, rm_payload m))
      (from_sender (rl_node_id ra) (fst (receive_all (stream @ stream) rb))) =
    filter (\<lambda>(now, to, topic, payload). to = [] \<or> to = rl_node_id rb) ms"
proof -
  let ?a = "rl_node_id ra" and ?s = "rl_next_seq ra"
  let ?msg = "\<lambda>(k, now, to, topic, payload). relay_message_new now (?s + of_nat k) ?a to topic payload"
  have wire: "from_sender ?a stream = map ?msg (enumerate 0 ms)"
    unfolding assms(4) send_all_sent by simp
  have "sorted_wrt (\<lambda>m m'. rm_seq m < rm_seq m') (from_sender ?a stream)"
    unfolding wire sorted_wrt_iff_nth_less using assms(2)
    by (auto simp: nth_enumerate_eq relay_message_new_def case_prod_unfold intro!: seq_strict_mono)
  moreover have "\<forall>m \<in> set (from_sender ?a stream). last_seq rb ?a < rm_seq m"
    unfolding wire using assms(2,3)
    by (auto simp: in_set_enumerate_eq relay_message_new_def case_prod_unfold intro!: seq_above)
  ultimately have "from_sender ?a (fst (receive_all stream rb)) = filter (addressed rb) (map ?msg (enumerate 0 ms))"
    using in_order_accepted wire by metis
  moreover have "addressed rb \<circ> ?msg = (\<lambda>(to, _). to = [] \<or> to = rl_node_id rb) \<circ> snd \<circ> snd"
    using assms(1) by (auto simp: addressed_def relay_message_new_def fun_eq_iff)
  ultimately show ?thesis
    using filter_enumerate [of "\<lambda>x. fst (snd x) = [] \<or> fst (snd x) = rl_node_id rb" 0 ms]
    by (simp add: receive_all_append replay_dropped filter_map comp_def case_prod_unfold relay_message_new_def)
qed

text \<open>A message to a third node and one of another sender in between.\<close>

theorem relay_delivers_witness:
  "map (\<lambda>m. (rm_timestamp m, rm_to m, rm_topic m, rm_payload m))
     (from_sender ''a'' (fst (receive_all (sample_stream2 @ sample_stream2) (relay_new ''b'')))) =
   [(1, [], ''t'', JNull), (3, ''b'', ''v'', JNull)]"
proof -
  let ?ms = "[(1, [], ''t'', JNull), (2, ''c'', ''u'', JNull), (3, ''b'', ''v'', JNull)]"
  have "from_sender ''a'' sample_stream2 = map im_message (rl_sent (send_all ?ms (relay_new ''a'')))"
    by (simp add: sample_stream2_def from_sender_def relay_new_def relay_send_def relay_message_new_def Let_def)
  then show ?thesis
    using relay_delivers [of "relay_new ''a''" "relay_new ''b''" ?ms sample_stream2]
    by (simp add: relay_new_def last_seq_def)
qed

end
