(* ===== verification/Fleet_State.thy ===== *)
theory Fleet_State
  imports Fleet_Registry
begin

text \<open>
  Distributed crew runs with barriers and checkpoints, \<open>fleet/state.rs\<close>. A \<open>HashSet\<close> of
  node ids is a list without repetitions. Fresh run ids and \<open>Utc::now\<close> are arguments.
\<close>

type_synonym crew_run_id = uuid

datatype crew_phase =
    PhInitializing
  | PhRunning
  | PhWaitingBarrier string
  | PhCheckpointing
  | PhCompleted
  | PhFailed string
  | PhCancelled

record node_progress =
  np_node_id :: node_id
  np_tasks_completed :: nat
  np_tasks_total :: nat
  np_current_task :: "string option"
  np_last_update :: instant

record checkpoint =
  cp_name :: string
  cp_created_at :: instant
  cp_node_states :: "(node_id, json) hmap"

record distributed_crew_state =
  dcs_run_id :: crew_run_id
  dcs_phase :: crew_phase
  dcs_is_checkpointing :: bool
  dcs_participating_nodes :: "node_id list"
  dcs_node_progress :: "(node_id, node_progress) hmap"
  dcs_checkpoints :: "checkpoint list"
  dcs_created_at :: instant
  dcs_updated_at :: instant

datatype barrier_result = Waiting nat | AllReached | UnknownRun | UnknownNode

record crew_state_manager =
  csm_states :: "(crew_run_id, distributed_crew_state) hmap"
  csm_barriers :: "(crew_run_id, (string, node_id list) hmap) hmap"

definition MAX_RETAINED_RUNS :: nat where
  "MAX_RETAINED_RUNS = 1000"

definition crew_state_manager_new :: crew_state_manager where
  "crew_state_manager_new = \<lparr> csm_states = hm_empty, csm_barriers = hm_empty \<rparr>"

fun terminal :: "crew_phase \<Rightarrow> bool" where
  "terminal PhCompleted = True"
| "terminal (PhFailed _) = True"
| "terminal PhCancelled = True"
| "terminal _ = False"

definition evict_if_needed :: "crew_state_manager \<Rightarrow> crew_state_manager" where
  "evict_if_needed m =
     (if MAX_RETAINED_RUNS \<le> hm_len (csm_states m) then
        (let to_remove = map fst (filter (\<lambda>(_, s). terminal (dcs_phase s)) (csm_states m))
         in m\<lparr>csm_states := hm_remove_all to_remove (csm_states m),
              csm_barriers := hm_remove_all to_remove (csm_barriers m)\<rparr>)
      else m)"

definition create_run :: "uuid \<Rightarrow> instant \<Rightarrow> node_id list \<Rightarrow> nat \<Rightarrow> crew_state_manager
    \<Rightarrow> crew_run_id \<times> crew_state_manager" where
  "create_run fresh now nodes tasks_per_node m =
     (let m = evict_if_needed m;
          progress = fold (\<lambda>i. hm_insert i
             \<lparr> np_node_id = i, np_tasks_completed = 0, np_tasks_total = tasks_per_node,
               np_current_task = None, np_last_update = now \<rparr>) nodes hm_empty;
          state =
            \<lparr> dcs_run_id = fresh, dcs_phase = PhInitializing, dcs_is_checkpointing = False,
              dcs_participating_nodes = nodes, dcs_node_progress = progress, dcs_checkpoints = [],
              dcs_created_at = now, dcs_updated_at = now \<rparr>
      in (fresh, m\<lparr>csm_states := hm_insert fresh state (csm_states m)\<rparr>))"

definition get_run :: "crew_run_id \<Rightarrow> crew_state_manager \<Rightarrow> distributed_crew_state option" where
  "get_run r m = hm_get (csm_states m) r"

text \<open>Moving from \<open>Initializing\<close> to \<open>Running\<close> and touching \<open>updated_at\<close>.\<close>

definition start_running :: "instant \<Rightarrow> distributed_crew_state \<Rightarrow> distributed_crew_state" where
  "start_running now s =
     (if dcs_phase s = PhInitializing then s\<lparr>dcs_phase := PhRunning\<rparr> else s)\<lparr>dcs_updated_at := now\<rparr>"

definition set_phase :: "instant \<Rightarrow> crew_phase \<Rightarrow> distributed_crew_state \<Rightarrow> distributed_crew_state" where
  "set_phase now p s = s\<lparr>dcs_phase := p, dcs_updated_at := now\<rparr>"

definition report_progress :: "instant \<Rightarrow> crew_run_id \<Rightarrow> node_id \<Rightarrow> nat \<Rightarrow> string option
    \<Rightarrow> crew_state_manager \<Rightarrow> bool \<times> crew_state_manager" where
  "report_progress now r n tasks_completed current_task m =
     (case hm_get (csm_states m) r of
        None \<Rightarrow> (False, m)
      | Some s \<Rightarrow>
          (case hm_get (dcs_node_progress s) n of
             None \<Rightarrow> (False, m)
           | Some p \<Rightarrow>
               (let p = p\<lparr>np_tasks_completed := tasks_completed, np_current_task := current_task,
                          np_last_update := now\<rparr>;
                    s = s\<lparr>dcs_node_progress := hm_insert n p (dcs_node_progress s)\<rparr>
                in (True, m\<lparr>csm_states := hm_insert r (start_running now s) (csm_states m)\<rparr>))))"

definition run_barriers :: "crew_run_id \<Rightarrow> crew_state_manager \<Rightarrow> (string, node_id list) hmap" where
  "run_barriers r m = (case hm_get (csm_barriers m) r of None \<Rightarrow> hm_empty | Some rb \<Rightarrow> rb)"

definition arrived_at :: "string \<Rightarrow> (string, node_id list) hmap \<Rightarrow> node_id list" where
  "arrived_at b rb = (case hm_get rb b of None \<Rightarrow> [] | Some a \<Rightarrow> a)"

definition reach_barrier :: "instant \<Rightarrow> crew_run_id \<Rightarrow> node_id \<Rightarrow> string \<Rightarrow> crew_state_manager
    \<Rightarrow> barrier_result \<times> crew_state_manager" where
  "reach_barrier now r n b m =
     (case hm_get (csm_states m) r of
        None \<Rightarrow> (UnknownRun, m)
      | Some s \<Rightarrow>
          if n \<notin> set (dcs_participating_nodes s) then (UnknownNode, m)
          else
            (let arrived = List.insert n (arrived_at b (run_barriers r m));
                 barriers = hm_insert r (hm_insert b arrived (run_barriers r m)) (csm_barriers m);
                 whole = length (dcs_participating_nodes s);
                 reached = length arrived
             in if whole \<le> reached then
                  (AllReached,
                   m\<lparr>csm_states := hm_insert r (set_phase now PhRunning s) (csm_states m),
                     csm_barriers := barriers\<rparr>)
                else
                  (Waiting (whole - reached),
                   m\<lparr>csm_states := hm_insert r (set_phase now (PhWaitingBarrier b) s) (csm_states m),
                     csm_barriers := barriers\<rparr>)))"

definition force_barrier :: "instant \<Rightarrow> crew_run_id \<Rightarrow> string \<Rightarrow> crew_state_manager
    \<Rightarrow> bool \<times> crew_state_manager" where
  "force_barrier now r b m =
     (case hm_get (csm_states m) r of
        None \<Rightarrow> (False, m)
      | Some s \<Rightarrow>
          (True, m\<lparr>csm_states := hm_insert r (set_phase now PhRunning s) (csm_states m),
                   csm_barriers := hm_modify r (hm_remove b) (csm_barriers m)\<rparr>))"

text \<open>The loop over the satisfied barriers in \<open>remove_node\<close>.\<close>

definition complete_barrier :: "string \<Rightarrow> (string, node_id list) hmap \<times> distributed_crew_state
    \<Rightarrow> (string, node_id list) hmap \<times> distributed_crew_state" where
  "complete_barrier b = (\<lambda>(rb, s).
     (hm_remove b rb, if dcs_phase s = PhWaitingBarrier b then s\<lparr>dcs_phase := PhRunning\<rparr> else s))"

definition remove_node :: "instant \<Rightarrow> crew_run_id \<Rightarrow> node_id \<Rightarrow> crew_state_manager
    \<Rightarrow> bool \<times> crew_state_manager" where
  "remove_node now r n m =
     (case hm_get (csm_states m) r of
        None \<Rightarrow> (False, m)
      | Some s \<Rightarrow>
          (let s = s\<lparr>dcs_participating_nodes := filter (\<lambda>k. k \<noteq> n) (dcs_participating_nodes s),
                     dcs_node_progress := hm_remove n (dcs_node_progress s),
                     dcs_updated_at := now\<rparr>
           in case hm_get (csm_barriers m) r of
                None \<Rightarrow> (True, m\<lparr>csm_states := hm_insert r s (csm_states m)\<rparr>)
              | Some rb \<Rightarrow>
                  (let satisfied = map fst (filter (\<lambda>(_, arrived).
                         list_all (\<lambda>k. k \<in> set arrived) (dcs_participating_nodes s)) rb);
                       (rb', s') = fold complete_barrier satisfied (rb, s)
                   in (True, m\<lparr>csm_states := hm_insert r s' (csm_states m),
                               csm_barriers := hm_insert r rb' (csm_barriers m)\<rparr>))))"

definition take_checkpoint :: "instant \<Rightarrow> crew_run_id \<Rightarrow> string \<Rightarrow> (node_id, json) hmap
    \<Rightarrow> crew_state_manager \<Rightarrow> bool \<times> crew_state_manager" where
  "take_checkpoint now r name node_states m =
     (case hm_get (csm_states m) r of
        None \<Rightarrow> (False, m)
      | Some s \<Rightarrow>
          (let s = s\<lparr>dcs_is_checkpointing := True\<rparr>;
               s = s\<lparr>dcs_checkpoints := dcs_checkpoints s @
                      [\<lparr> cp_name = name, cp_created_at = now, cp_node_states = node_states \<rparr>]\<rparr>;
               s = s\<lparr>dcs_is_checkpointing := False\<rparr>
           in (True, m\<lparr>csm_states := hm_insert r (start_running now s) (csm_states m)\<rparr>)))"

definition end_run :: "instant \<Rightarrow> crew_phase \<Rightarrow> crew_run_id \<Rightarrow> crew_state_manager
    \<Rightarrow> bool \<times> crew_state_manager" where
  "end_run now p r m =
     (case hm_get (csm_states m) r of
        None \<Rightarrow> (False, m)
      | Some s \<Rightarrow> (True, m\<lparr>csm_states := hm_insert r (set_phase now p s) (csm_states m)\<rparr>))"

definition complete_run :: "instant \<Rightarrow> crew_run_id \<Rightarrow> crew_state_manager \<Rightarrow> bool \<times> crew_state_manager" where
  "complete_run now r m = end_run now PhCompleted r m"

definition fail_run :: "instant \<Rightarrow> crew_run_id \<Rightarrow> string \<Rightarrow> crew_state_manager
    \<Rightarrow> bool \<times> crew_state_manager" where
  "fail_run now r reason m = end_run now (PhFailed reason) r m"

definition cancel_run :: "instant \<Rightarrow> crew_run_id \<Rightarrow> crew_state_manager \<Rightarrow> bool \<times> crew_state_manager" where
  "cancel_run now r m = end_run now PhCancelled r m"

definition active_runs :: "crew_state_manager \<Rightarrow> crew_run_id list" where
  "active_runs m =
     map dcs_run_id (filter (\<lambda>s. \<not> terminal (dcs_phase s)) (hm_values (csm_states m)))"

definition overall_progress :: "crew_run_id \<Rightarrow> crew_state_manager \<Rightarrow> rat option" where
  "overall_progress r m =
     (case hm_get (csm_states m) r of
        None \<Rightarrow> None
      | Some s \<Rightarrow>
          (let ps = hm_values (dcs_node_progress s);
               completed = sum_list (map np_tasks_completed ps);
               whole = sum_list (map np_tasks_total ps)
           in if whole = 0 then Some 1 else Some (of_nat completed / of_nat whole)))"

section \<open>The manager's invariant\<close>

text \<open>Every run is kept under its id, its participants and the arrivals at its barriers have
  no repetitions, and it tracks the progress of exactly its participants.\<close>

definition run_ok :: "crew_run_id \<Rightarrow> distributed_crew_state \<Rightarrow> bool" where
  "run_ok r s \<longleftrightarrow> dcs_run_id s = r \<and> distinct (dcs_participating_nodes s) \<and>
     hm_wf (dcs_node_progress s) \<and> dom (hm_get (dcs_node_progress s)) = set (dcs_participating_nodes s) \<and>
     \<not> dcs_is_checkpointing s"

definition crew_states_ok :: "crew_state_manager \<Rightarrow> bool" where
  "crew_states_ok m \<longleftrightarrow> hm_wf (csm_states m) \<and> hm_wf (csm_barriers m) \<and>
     (\<forall>r s. hm_get (csm_states m) r = Some s \<longrightarrow> run_ok r s) \<and>
     (\<forall>r rb. hm_get (csm_barriers m) r = Some rb \<longrightarrow> hm_wf rb \<and>
        hm_get (csm_states m) r \<noteq> None \<and> (\<forall>b a. hm_get rb b = Some a \<longrightarrow> distinct a))"

lemma run_ok_simps [simp]:
  "run_ok r (set_phase now p s) = run_ok r s"
  "run_ok r (start_running now s) = run_ok r s"
  "run_ok r (s\<lparr>dcs_phase := p\<rparr>) = run_ok r s"
  by (simp_all add: run_ok_def set_phase_def start_running_def)

lemma crew_states_okD:
  assumes "crew_states_ok m"
  shows "hm_get (csm_states m) r = Some s \<Longrightarrow> run_ok r s"
    and "hm_get (csm_barriers m) r = Some rb \<Longrightarrow> hm_get rb b = Some a \<Longrightarrow> distinct a"
    and "hm_get (csm_barriers m) r = Some rb \<Longrightarrow> hm_wf rb"
    and "hm_wf (run_barriers r m)"
    and "distinct (arrived_at b (run_barriers r m))"
  using assms by (auto simp: crew_states_ok_def run_barriers_def arrived_at_def split: option.splits)

text \<open>Storing a new state of a known run.\<close>

lemma crew_states_ok_put:
  assumes "crew_states_ok m" and "run_ok r s"
  shows "crew_states_ok (m\<lparr>csm_states := hm_insert r s (csm_states m)\<rparr>)"
  using assms by (auto simp: crew_states_ok_def)

lemma crew_states_ok_put_both:
  assumes "crew_states_ok m" and "run_ok r s" and "hm_wf rb"
    and "\<And>b a. hm_get rb b = Some a \<Longrightarrow> distinct a"
  shows "crew_states_ok (m\<lparr>csm_states := hm_insert r s (csm_states m),
    csm_barriers := hm_insert r rb (csm_barriers m)\<rparr>)"
  using assms by (auto simp: crew_states_ok_def)

lemma evict_ok: "crew_states_ok m \<Longrightarrow> crew_states_ok (evict_if_needed m)"
  by (auto simp: crew_states_ok_def evict_if_needed_def Let_def split: if_splits)

lemma progress_insert_all:
  "dom (hm_get (fold (\<lambda>i. hm_insert i (f i)) ns m)) = set ns \<union> dom (hm_get m)"
  "hm_wf m \<Longrightarrow> hm_wf (fold (\<lambda>i. hm_insert i (f i)) ns m)"
  by (induction ns arbitrary: m) auto

lemma create_run_ok [invariant_intros]:
  "crew_states_ok m \<Longrightarrow> distinct nodes \<Longrightarrow> crew_states_ok (snd (create_run fresh now nodes k m))"
  using evict_ok [of m]
  by (simp add: create_run_def Let_def crew_states_ok_put run_ok_def progress_insert_all)

lemma report_progress_ok [invariant_intros]:
  "crew_states_ok m \<Longrightarrow> crew_states_ok (snd (report_progress now r n k cur m))"
proof -
  assume ok: "crew_states_ok m"
  have "run_ok r (s\<lparr>dcs_node_progress := hm_insert n p (dcs_node_progress s)\<rparr>)"
    if "run_ok r s" "hm_get (dcs_node_progress s) n \<noteq> None" for s p
    using that by (auto simp: run_ok_def)
  with ok show ?thesis
    by (auto simp: report_progress_def Let_def crew_states_okD(1) intro!: crew_states_ok_put
          split: option.split)
qed

lemma reach_barrier_ok [invariant_intros]:
  assumes ok: "crew_states_ok m"
  shows "crew_states_ok (snd (reach_barrier now r n b m))"
proof (cases "hm_get (csm_states m) r")
  case None
  then show ?thesis using ok by (simp add: reach_barrier_def)
next
  case (Some s)
  let ?rb = "hm_insert b (List.insert n (arrived_at b (run_barriers r m))) (run_barriers r m)"
  have "crew_states_ok (m\<lparr>csm_states := hm_insert r (set_phase now p s) (csm_states m),
      csm_barriers := hm_insert r ?rb (csm_barriers m)\<rparr>)" for p
  proof (rule crew_states_ok_put_both [OF ok])
    show "distinct a" if "hm_get ?rb b' = Some a" for b' a
      using that ok crew_states_okD(2,5) [OF ok, where r = r]
      by (auto simp: run_barriers_def split: if_splits option.splits)
  qed (use Some crew_states_okD(1,4) [OF ok] in auto)
  with ok Some show ?thesis by (simp add: reach_barrier_def Let_def)
qed

lemma force_barrier_ok [invariant_intros]:
  assumes ok: "crew_states_ok m"
  shows "crew_states_ok (snd (force_barrier now r b m))"
proof (cases "hm_get (csm_states m) r")
  case None
  then show ?thesis using ok by (simp add: force_barrier_def)
next
  case (Some s)
  have s: "run_ok r (set_phase now PhRunning s)" using crew_states_okD(1) [OF ok Some] by simp
  show ?thesis
  proof (cases "hm_get (csm_barriers m) r")
    case None
    with Some crew_states_ok_put [OF ok s] show ?thesis by (simp add: force_barrier_def hm_modify_def)
  next
    case (Some rb)
    have "crew_states_ok (m\<lparr>csm_states := hm_insert r (set_phase now PhRunning s) (csm_states m),
        csm_barriers := hm_insert r (hm_remove b rb) (csm_barriers m)\<rparr>)"
      using crew_states_okD(2,3) [OF ok Some]
      by (intro crew_states_ok_put_both ok s) (auto split: if_splits)
    with Some \<open>hm_get (csm_states m) r = Some s\<close> show ?thesis
      by (simp add: force_barrier_def hm_modify_def)
  qed
qed

text \<open>What the loop of \<open>remove_node\<close> does: the satisfied barriers go, and a run that waits
  at one of them runs again.\<close>

lemma complete_barrier_pair:
  "complete_barrier b (rb, s) =
     (hm_remove b rb, if dcs_phase s = PhWaitingBarrier b then s\<lparr>dcs_phase := PhRunning\<rparr> else s)"
  by (simp add: complete_barrier_def)

lemma complete_barriers:
  "fold complete_barrier bs (rb, s) =
     (hm_remove_all bs rb,
      if \<exists>b \<in> set bs. dcs_phase s = PhWaitingBarrier b then s\<lparr>dcs_phase := PhRunning\<rparr> else s)"
proof (induction bs arbitrary: rb s)
  case Nil
  then show ?case by (simp add: hm_remove_all_def)
next
  case (Cons b bs)
  have "fold complete_barrier bs (hm_remove b rb, s') = (hm_remove_all (b # bs) rb,
      if \<exists>c \<in> set bs. dcs_phase s' = PhWaitingBarrier c then s'\<lparr>dcs_phase := PhRunning\<rparr> else s')" for s'
    using Cons.IH [of "hm_remove b rb" s'] by (simp add: hm_remove_all_def)
  then show ?case by (simp add: complete_barrier_pair)
qed

text \<open>The state and the barriers that \<open>remove_node\<close> stores.\<close>

definition without_node :: "instant \<Rightarrow> node_id \<Rightarrow> distributed_crew_state \<Rightarrow> distributed_crew_state" where
  "without_node now n s =
     s\<lparr>dcs_participating_nodes := filter (\<lambda>k. k \<noteq> n) (dcs_participating_nodes s),
       dcs_node_progress := hm_remove n (dcs_node_progress s), dcs_updated_at := now\<rparr>"

definition satisfied_barriers :: "node_id list \<Rightarrow> (string, node_id list) hmap \<Rightarrow> string list" where
  "satisfied_barriers nodes rb =
     map fst (filter (\<lambda>(_, arrived). list_all (\<lambda>k. k \<in> set arrived) nodes) rb)"

lemma satisfied_iff:
  "hm_wf rb \<Longrightarrow> b \<in> set (satisfied_barriers nodes rb) \<longleftrightarrow>
     (\<exists>a. hm_get rb b = Some a \<and> set nodes \<subseteq> set a)"
  by (force simp: satisfied_barriers_def hm_get_mem list_all_iff)

lemma remove_node_eq:
  assumes "hm_get (csm_states m) r = Some s"
  shows "remove_node now r n m =
    (let s1 = without_node now n s
     in case hm_get (csm_barriers m) r of
          None \<Rightarrow> (True, m\<lparr>csm_states := hm_insert r s1 (csm_states m)\<rparr>)
        | Some rb \<Rightarrow>
            (let bs = satisfied_barriers (dcs_participating_nodes s1) rb
             in (True, m\<lparr>csm_states := hm_insert r
                   (if \<exists>b \<in> set bs. dcs_phase s1 = PhWaitingBarrier b then s1\<lparr>dcs_phase := PhRunning\<rparr> else s1)
                   (csm_states m),
                 csm_barriers := hm_insert r (hm_remove_all bs rb) (csm_barriers m)\<rparr>)))"
  using assms
  by (simp add: remove_node_def without_node_def satisfied_barriers_def complete_barriers Let_def
        split: option.split)

lemma run_ok_without_node: "run_ok r s \<Longrightarrow> run_ok r (without_node now n s)"
  by (auto simp: run_ok_def without_node_def)

lemma remove_node_ok [invariant_intros]:
  assumes ok: "crew_states_ok m"
  shows "crew_states_ok (snd (remove_node now r n m))"
proof (cases "hm_get (csm_states m) r")
  case None
  then show ?thesis using ok by (simp add: remove_node_def)
next
  case (Some s)
  have s: "run_ok r (without_node now n s)"
    using crew_states_okD(1) [OF ok Some] by (rule run_ok_without_node)
  then show ?thesis
    using crew_states_okD(2,3) [OF ok]
    by (auto simp: remove_node_eq [OF Some] Let_def split: option.split if_splits
          intro!: crew_states_ok_put [OF ok] crew_states_ok_put_both [OF ok])
qed

lemma take_checkpoint_ok [invariant_intros]:
  "crew_states_ok m \<Longrightarrow> crew_states_ok (snd (take_checkpoint now r name ns m))"
proof -
  assume ok: "crew_states_ok m"
  have "run_ok r (s\<lparr>dcs_checkpoints := cps, dcs_is_checkpointing := False\<rparr>)" if "run_ok r s" for s cps
    using that by (simp add: run_ok_def)
  with ok show ?thesis
    by (auto simp: take_checkpoint_def Let_def crew_states_okD(1) intro!: crew_states_ok_put split: option.split)
qed

lemma end_run_ok [invariant_intros]:
  "crew_states_ok m \<Longrightarrow> crew_states_ok (snd (end_run now p r m))"
  by (auto simp: end_run_def crew_states_okD(1) intro!: crew_states_ok_put split: option.split)

section \<open>The manager as a state machine\<close>

datatype crew_op =
    OpCreate uuid instant "node_id list" nat
  | OpReport instant crew_run_id node_id nat "string option"
  | OpReach instant crew_run_id node_id string
  | OpForce instant crew_run_id string
  | OpRemove instant crew_run_id node_id
  | OpCheckpoint instant crew_run_id string "(node_id, json) hmap"
  | OpComplete instant crew_run_id
  | OpFail instant crew_run_id string
  | OpCancel instant crew_run_id

fun crew_step :: "crew_op \<Rightarrow> crew_state_manager \<Rightarrow> crew_state_manager" where
  "crew_step (OpCreate fresh now nodes k) m = snd (create_run fresh now (remdups nodes) k m)"
| "crew_step (OpReport now r n k cur) m = snd (report_progress now r n k cur m)"
| "crew_step (OpReach now r n b) m = snd (reach_barrier now r n b m)"
| "crew_step (OpForce now r b) m = snd (force_barrier now r b m)"
| "crew_step (OpRemove now r n) m = snd (remove_node now r n m)"
| "crew_step (OpCheckpoint now r name ns) m = snd (take_checkpoint now r name ns m)"
| "crew_step (OpComplete now r) m = snd (complete_run now r m)"
| "crew_step (OpFail now r reason) m = snd (fail_run now r reason m)"
| "crew_step (OpCancel now r) m = snd (cancel_run now r m)"

interpretation csm: invariant_machine "\<lambda>m. m = crew_state_manager_new" crew_step crew_states_ok
proof unfold_locales
  show "crew_states_ok m" if "m = crew_state_manager_new" for m
    using that by (simp add: crew_states_ok_def crew_state_manager_new_def)
  show "crew_states_ok (crew_step e m)" if "crew_states_ok m" for e m
    using that
    by (cases e) (simp_all add: invariant_intros complete_run_def fail_run_def cancel_run_def)
qed

section \<open>Barriers\<close>

lemma arrived_at_insert [simp]: "arrived_at b (hm_insert b a rb) = a"
  by (simp add: arrived_at_def)

lemma run_barriers_put [simp]:
  "run_barriers r (m\<lparr>csm_states := x, csm_barriers := hm_insert r rb y\<rparr>) = rb"
  by (simp add: run_barriers_def)

lemma reach_barrier_state:
  assumes "hm_get (csm_states m) r = Some s" and "n \<in> set (dcs_participating_nodes s)"
  shows "\<exists>s'. hm_get (csm_states (snd (reach_barrier now r n b m))) r = Some s' \<and>
      dcs_participating_nodes s' = dcs_participating_nodes s"
    and "set (arrived_at b (run_barriers r (snd (reach_barrier now r n b m)))) =
      insert n (set (arrived_at b (run_barriers r m)))"
  using assms
  by (simp_all add: reach_barrier_def Let_def set_phase_def)

lemma reach_barriers_state:
  assumes "crew_states_ok m" and "hm_get (csm_states m) r = Some s"
    and "set ns \<subseteq> set (dcs_participating_nodes s)"
  shows "crew_states_ok (fold (\<lambda>n m. snd (reach_barrier now r n b m)) ns m) \<and>
    (\<exists>s'. hm_get (csm_states (fold (\<lambda>n m. snd (reach_barrier now r n b m)) ns m)) r = Some s' \<and>
       dcs_participating_nodes s' = dcs_participating_nodes s) \<and>
    set (arrived_at b (run_barriers r (fold (\<lambda>n m. snd (reach_barrier now r n b m)) ns m))) =
      set ns \<union> set (arrived_at b (run_barriers r m))"
  using assms
proof (induction ns arbitrary: m s)
  case Nil
  then show ?case by simp
next
  case (Cons n ns)
  then have n: "n \<in> set (dcs_participating_nodes s)" by simp
  note step = reach_barrier_state [OF Cons.prems(2) n, where now = now and b = b]
  from step(1) obtain s' where s': "hm_get (csm_states (snd (reach_barrier now r n b m))) r = Some s'"
    "dcs_participating_nodes s' = dcs_participating_nodes s" by blast
  from Cons.IH [OF reach_barrier_ok [OF Cons.prems(1)] s'(1)] Cons.prems(3) s'(2) step(2)
  show ?case by auto
qed

text \<open>One arrival, when only participants have arrived before.\<close>

lemma reach_barrier_result:
  assumes ok: "crew_states_ok m" and s: "hm_get (csm_states m) r = Some s"
    and n: "n \<in> set (dcs_participating_nodes s)"
    and sub: "set (arrived_at b (run_barriers r m)) \<subseteq> set (dcs_participating_nodes s)"
  shows "fst (reach_barrier now r n b m) =
    (let missing = set (dcs_participating_nodes s) - insert n (set (arrived_at b (run_barriers r m)))
     in if missing = {} then AllReached else Waiting (card missing))"
proof -
  let ?P = "set (dcs_participating_nodes s)" and ?A = "insert n (set (arrived_at b (run_barriers r m)))"
  have "length (dcs_participating_nodes s) = card ?P"
    using crew_states_okD(1) [OF ok s] by (simp add: run_ok_def distinct_card)
  moreover have "length (List.insert n (arrived_at b (run_barriers r m))) = card ?A"
    using crew_states_okD(5) [OF ok, of b r] by (metis distinct_card distinct_insert set_insert)
  moreover have AP: "?A \<subseteq> ?P" using n sub by simp
  moreover have "card (?P - ?A) = card ?P - card ?A" using AP by (simp add: card_Diff_subset)
  moreover have "card ?P \<le> card ?A \<longleftrightarrow> ?P - ?A = {}"
    using AP by (metis Diff_eq_empty_iff List.finite_set card_mono card_seteq finite_subset)
  ultimately show ?thesis using s n by (simp add: reach_barrier_def Let_def)
qed

section \<open>Properties\<close>

text \<open>C28. Barriers synchronise: when the participants of a run reach a barrier in any order,
  possibly repeatedly, starting from no arrivals, an arrival reports \<open>AllReached\<close> exactly
  when every participant has arrived by then, and otherwise the number of participants that
  are still missing.\<close>

theorem barrier_synchronises:
  assumes "crew_states_ok m" and "hm_get (csm_states m) r = Some s"
    and "arrived_at b (run_barriers r m) = []"
    and "set (n # ns) \<subseteq> set (dcs_participating_nodes s)"
  shows "fst (reach_barrier now r n b (fold (\<lambda>n m. snd (reach_barrier now r n b m)) ns m)) =
    (if set (dcs_participating_nodes s) \<subseteq> set (n # ns) then AllReached
     else Waiting (card (set (dcs_participating_nodes s) - set (n # ns))))"
proof -
  let ?m = "fold (\<lambda>n m. snd (reach_barrier now r n b m)) ns m"
  have sub: "set ns \<subseteq> set (dcs_participating_nodes s)" using assms(4) by simp
  obtain s' where ok: "crew_states_ok ?m" and s': "hm_get (csm_states ?m) r = Some s'"
    "dcs_participating_nodes s' = dcs_participating_nodes s"
    and arr: "set (arrived_at b (run_barriers r ?m)) = set ns"
    using reach_barriers_state [OF assms(1,2) sub, of now b] assms(3) by auto
  have "fst (reach_barrier now r n b ?m) =
      (let missing = set (dcs_participating_nodes s) - set (n # ns)
       in if missing = {} then AllReached else Waiting (card missing))"
    using reach_barrier_result [OF ok s'(1), of n b now] assms(4) s'(2) arr sub by simp
  then show ?thesis by (simp add: Let_def)
qed

definition sample_run :: crew_state_manager where
  "sample_run = snd (create_run 1 0 [''a'', ''b'', ''c''] 2 crew_state_manager_new)"

lemma sample_run_ok: "crew_states_ok sample_run"
  using csm.run_good [of crew_state_manager_new "[OpCreate 1 0 [''a'', ''b'', ''c''] 2]"]
  by (simp add: sample_run_def)

theorem barrier_synchronises_witness:
  "fst (reach_barrier 9 1 ''c'' ''sync'' (fold (\<lambda>n m. snd (reach_barrier 9 1 n ''sync'' m)) [''a'', ''a''] sample_run))
   = Waiting 1"
proof -
  obtain s where s: "hm_get (csm_states sample_run) 1 = Some s"
    "dcs_participating_nodes s = [''a'', ''b'', ''c'']"
    by (simp add: sample_run_def create_run_def Let_def)
  have "arrived_at ''sync'' (run_barriers 1 sample_run) = []" by code_simp
  from barrier_synchronises [OF sample_run_ok s(1) this, of "''c''" "[''a'', ''a'']" 9] s(2)
  show ?thesis by (simp add: insert_Diff_if)
qed

text \<open>C29. Removing a dead node releases a barrier it blocked: a run that waits at a barrier
  runs again exactly when all the remaining participants have arrived there (and then the
  barrier is forgotten); otherwise it keeps waiting.\<close>

theorem remove_node_releases_barrier:
  assumes "crew_states_ok m" and "hm_get (csm_states m) r = Some s"
    and "dcs_phase s = PhWaitingBarrier b"
    and "hm_get (csm_barriers m) r = Some rb" and "hm_get rb b = Some arrived"
  shows "\<exists>s' rb'. hm_get (csm_states (snd (remove_node now r n m))) r = Some s' \<and>
    hm_get (csm_barriers (snd (remove_node now r n m))) r = Some rb' \<and>
    set (dcs_participating_nodes s') = set (dcs_participating_nodes s) - {n} \<and>
    (if set (dcs_participating_nodes s) - {n} \<subseteq> set arrived
     then dcs_phase s' = PhRunning \<and> hm_get rb' b = None
     else dcs_phase s' = PhWaitingBarrier b \<and> hm_get rb' b = Some arrived)"
proof -
  have sat: "b \<in> set (satisfied_barriers (dcs_participating_nodes (without_node now n s)) rb) \<longleftrightarrow>
      set (dcs_participating_nodes s) - {n} \<subseteq> set arrived"
    using crew_states_okD(3) [OF assms(1,4)] assms(5) by (auto simp: satisfied_iff without_node_def)
  show ?thesis
    using assms(3-5) sat by (auto simp: remove_node_eq [OF assms(2)] Let_def without_node_def)
qed

definition sample_waiting :: crew_state_manager where
  "sample_waiting = fold (\<lambda>n m. snd (reach_barrier 4 1 n ''sync'' m)) [''a'', ''b''] sample_run"

theorem remove_node_releases_barrier_witness:
  "\<exists>s'. hm_get (csm_states (snd (remove_node 5 1 ''c'' sample_waiting))) 1 = Some s' \<and>
    dcs_phase s' = PhRunning"
proof -
  have ok: "crew_states_ok sample_waiting"
    using sample_run_ok by (simp add: reach_barrier_ok sample_waiting_def)
  have "map_option (\<lambda>s. (dcs_phase s, dcs_participating_nodes s)) (hm_get (csm_states sample_waiting) 1) =
      Some (PhWaitingBarrier ''sync'', [''a'', ''b'', ''c''])"
    by code_simp
  then obtain s where s: "hm_get (csm_states sample_waiting) 1 = Some s"
    "dcs_phase s = PhWaitingBarrier ''sync''" "dcs_participating_nodes s = [''a'', ''b'', ''c'']"
    by auto
  have rb: "hm_get (csm_barriers sample_waiting) 1 = Some [(''sync'', [''b'', ''a''])]" by code_simp
  have a: "hm_get [(''sync'', [''b'', ''a''])] ''sync'' = Some [''b'', ''a'']" by code_simp
  have "set (dcs_participating_nodes s) - {''c''} \<subseteq> set [''b'', ''a'']" using s(3) by auto
  with remove_node_releases_barrier [OF ok s(1,2) rb a, of 5 "''c''"] show ?thesis by metis
qed

text \<open>Eviction spares active runs: creating a run never changes another run that is not
  finished, nor its barriers, and the new run starts in phase \<open>Initializing\<close> with the given
  participants.\<close>

theorem create_run_keeps_active:
  assumes "crew_states_ok m" and "hm_get (csm_states m) r = Some s" and "\<not> terminal (dcs_phase s)"
    and "create_run fresh now nodes k m = (i, m')" and "fresh \<noteq> r"
  shows "hm_get (csm_states m') r = Some s \<and> run_barriers r m' = run_barriers r m \<and>
    (\<exists>s'. hm_get (csm_states m') i = Some s' \<and> dcs_phase s' = PhInitializing \<and>
       dcs_participating_nodes s' = nodes)"
proof -
  have "r \<notin> fst ` set (filter (\<lambda>(_, s). terminal (dcs_phase s)) (csm_states m))"
    using assms(1-3) by (auto simp: crew_states_ok_def hm_get_mem [symmetric])
  then have "hm_get (csm_states (evict_if_needed m)) r = Some s"
    "hm_get (csm_barriers (evict_if_needed m)) r = hm_get (csm_barriers m) r"
    using assms(2) by (auto simp: evict_if_needed_def Let_def)
  with assms(4,5) show ?thesis
    by (auto simp: create_run_def Let_def run_barriers_def)
qed

theorem create_run_keeps_active_witness:
  "\<exists>s. hm_get (csm_states sample_run) 1 = Some s \<and>
     hm_get (csm_states (snd (create_run 2 5 [''d''] 1 sample_run))) 1 = Some s"
proof -
  obtain s where s: "hm_get (csm_states sample_run) 1 = Some s" "\<not> terminal (dcs_phase s)"
    by (simp add: sample_run_def create_run_def Let_def)
  obtain i m' where c: "create_run 2 5 [''d''] 1 sample_run = (i, m')" by (rule prod.exhaust)
  from create_run_keeps_active [OF sample_run_ok s c] s(1) c show ?thesis by simp
qed

section \<open>Where the barrier accounting goes wrong\<close>

text \<open>Arrivals of a removed node still count: node \<open>a\<close> arrives and is removed, node \<open>b\<close> arrives,
  and the barrier opens although participant \<open>c\<close> has not arrived.\<close>

lemma barrier_opens_early:
  "let m = snd (remove_node 2 1 ''a'' (snd (reach_barrier 1 1 ''a'' ''sync'' sample_run)));
       m' = snd (reach_barrier 3 1 ''b'' ''sync'' m)
   in fst (reach_barrier 3 1 ''b'' ''sync'' m) = AllReached \<and>
      map_option dcs_participating_nodes (hm_get (csm_states m') 1) = Some [''b'', ''c''] \<and>
      ''c'' \<notin> set (arrived_at ''sync'' (run_barriers 1 m'))"
  by code_simp

text \<open>A completed run is made active again by a late arrival.\<close>

lemma completed_run_resurrected:
  "map_option dcs_phase (hm_get (csm_states
     (snd (reach_barrier 3 1 ''b'' ''sync'' (snd (complete_run 2 1 sample_run))))) 1)
   = Some (PhWaitingBarrier ''sync'')"
  by code_simp

end
