(* ===== verification/Fleet_Coordinator.thy ===== *)
theory Fleet_Coordinator
  imports Fleet_State
begin

text \<open>
  The fleet coordinator, \<open>fleet/coordinator.rs\<close>: fan-out of tasks to nodes over the state
  manager, and failover with a bounded number of retries; and the topology scores of
  \<open>fleet/topology.rs\<close>. The sharding plan is computed by the ai-hwaccel crate and is left out.
\<close>

datatype fleet_task_status = FtPending | FtAssigned | FtRunning | FtCompleted | FtFailed | FtReassigned

record fleet_task =
  ft_task_id :: uuid
  ft_description :: string
  ft_assigned_node :: "node_id option"
  ft_status :: fleet_task_status

datatype failover_action = FoRetry | FoExhausted | FoUnknownTask

definition MAX_RETAINED_TASKS :: nat where
  "MAX_RETAINED_TASKS = 10000"

record fleet_coordinator =
  fo_state_manager :: crew_state_manager
  fo_tasks :: "(uuid, fleet_task) hmap"
  fo_max_retries :: nat
  fo_retry_counts :: "(uuid, nat) hmap"

definition with_max_retries :: "nat \<Rightarrow> fleet_coordinator" where
  "with_max_retries n =
     \<lparr> fo_state_manager = crew_state_manager_new, fo_tasks = hm_empty, fo_max_retries = n,
       fo_retry_counts = hm_empty \<rparr>"

definition fleet_coordinator_new :: fleet_coordinator where
  "fleet_coordinator_new = with_max_retries 3"

definition task_ended :: "fleet_task \<Rightarrow> bool" where
  "task_ended t \<longleftrightarrow> ft_status t = FtCompleted \<or> ft_status t = FtFailed"

definition evict_completed_tasks :: "fleet_coordinator \<Rightarrow> fleet_coordinator" where
  "evict_completed_tasks f =
     (if MAX_RETAINED_TASKS \<le> hm_len (fo_tasks f) then
        (let to_remove = map fst (filter (\<lambda>(_, t). task_ended t) (fo_tasks f))
         in f\<lparr>fo_tasks := hm_remove_all to_remove (fo_tasks f),
              fo_retry_counts := hm_remove_all to_remove (fo_retry_counts f)\<rparr>)
      else f)"

text \<open>One iteration of the loop of \<open>fan_out\<close>: the task map, the nodes, the tasks per node.\<close>

definition fan_out_task :: "(uuid, node_id) hmap \<Rightarrow> uuid \<times> string
    \<Rightarrow> (uuid, fleet_task) hmap \<times> node_id list \<times> (node_id, nat) hmap
    \<Rightarrow> (uuid, fleet_task) hmap \<times> node_id list \<times> (node_id, nat) hmap" where
  "fan_out_task assignment_map = (\<lambda>(tid, description) (tasks, nodes, per_node).
     (let node = hm_get assignment_map tid;
          (nodes, per_node) =
            (case node of
               None \<Rightarrow> (nodes, per_node)
             | Some n \<Rightarrow> (List.insert n nodes,
                 hm_insert n (Suc (case hm_get per_node n of None \<Rightarrow> 0 | Some k \<Rightarrow> k)) per_node))
      in (hm_insert tid
            \<lparr> ft_task_id = tid, ft_description = description, ft_assigned_node = node,
              ft_status = (if hm_contains assignment_map tid then FtAssigned else FtPending) \<rparr> tasks,
          nodes, per_node)))"

definition fan_out :: "uuid \<Rightarrow> instant \<Rightarrow> (uuid \<times> string) list \<Rightarrow> (uuid \<times> node_id) list
    \<Rightarrow> fleet_coordinator \<Rightarrow> crew_run_id \<times> fleet_coordinator" where
  "fan_out fresh now tasks assignments f =
     (let f = evict_completed_tasks f;
          assignment_map = fold (\<lambda>(tid, n). hm_insert tid n) assignments hm_empty;
          (task_map, nodes, per_node) = fold (fan_out_task assignment_map) tasks (fo_tasks f, [], hm_empty);
          max_tasks = (case max_by_key (\<lambda>k. k) (hm_values per_node) of None \<Rightarrow> 0 | Some k \<Rightarrow> k);
          (run, sm) = create_run fresh now nodes max_tasks (fo_state_manager f)
      in (run, f\<lparr>fo_tasks := task_map, fo_state_manager := sm\<rparr>))"

definition task_completed :: "uuid \<Rightarrow> fleet_coordinator \<Rightarrow> bool \<times> fleet_coordinator" where
  "task_completed tid f =
     (case hm_get (fo_tasks f) tid of
        None \<Rightarrow> (False, f)
      | Some t \<Rightarrow> (True, f\<lparr>fo_tasks := hm_insert tid (t\<lparr>ft_status := FtCompleted\<rparr>) (fo_tasks f)\<rparr>))"

definition retry_count :: "uuid \<Rightarrow> fleet_coordinator \<Rightarrow> nat" where
  "retry_count tid f = (case hm_get (fo_retry_counts f) tid of None \<Rightarrow> 0 | Some k \<Rightarrow> k)"

definition task_failed :: "uuid \<Rightarrow> fleet_coordinator \<Rightarrow> failover_action \<times> fleet_coordinator" where
  "task_failed tid f =
     (case hm_get (fo_tasks f) tid of
        None \<Rightarrow> (FoUnknownTask, f)
      | Some t \<Rightarrow>
          (let cnt = Suc (retry_count tid f);
               f = f\<lparr>fo_retry_counts := hm_insert tid cnt (fo_retry_counts f)\<rparr>
           in if cnt < fo_max_retries f then
                (FoRetry, f\<lparr>fo_tasks := hm_insert tid (t\<lparr>ft_status := FtReassigned\<rparr>) (fo_tasks f)\<rparr>)
              else
                (FoExhausted, f\<lparr>fo_tasks := hm_insert tid (t\<lparr>ft_status := FtFailed\<rparr>) (fo_tasks f)\<rparr>)))"

definition tasks_for_node :: "node_id \<Rightarrow> fleet_coordinator \<Rightarrow> fleet_task list" where
  "tasks_for_node n f = filter (\<lambda>t. ft_assigned_node t = Some n) (hm_values (fo_tasks f))"

definition is_complete :: "fleet_coordinator \<Rightarrow> bool" where
  "is_complete f =
     (if fo_tasks f = [] then True else list_all task_ended (hm_values (fo_tasks f)))"

definition completion_pct :: "fleet_coordinator \<Rightarrow> rat" where
  "completion_pct f =
     (if fo_tasks f = [] then 1
      else of_nat (length (filter (\<lambda>t. ft_status t = FtCompleted) (hm_values (fo_tasks f))))
         / of_nat (hm_len (fo_tasks f)))"

definition pending_reassignment :: "fleet_coordinator \<Rightarrow> fleet_task list" where
  "pending_reassignment f = filter (\<lambda>t. ft_status t = FtReassigned) (hm_values (fo_tasks f))"

definition reassign :: "uuid \<Rightarrow> node_id \<Rightarrow> fleet_coordinator \<Rightarrow> bool \<times> fleet_coordinator" where
  "reassign tid new_node f =
     (case hm_get (fo_tasks f) tid of
        None \<Rightarrow> (False, f)
      | Some t \<Rightarrow>
          (True, f\<lparr>fo_tasks := hm_insert tid
             (t\<lparr>ft_assigned_node := Some new_node, ft_status := FtAssigned\<rparr>) (fo_tasks f)\<rparr>))"

section \<open>Topology (fleet/topology.rs)\<close>

datatype interconnect_type = Pcie | NvLink | Xgmi | Cxl

record device_link =
  dl_device_a :: nat
  dl_device_b :: nat
  dl_interconnect :: interconnect_type
  dl_bandwidth_gbps :: rat

record node_topology =
  nt_links :: "device_link list"

definition high_bw_links :: "node_topology \<Rightarrow> nat" where
  "high_bw_links t = length (filter (\<lambda>l. 50 \<le> dl_bandwidth_gbps l) (nt_links t))"

definition topology_score :: "node_topology \<Rightarrow> hardware_inventory \<Rightarrow> rat" where
  "topology_score t hi =
     (let gpu_count = length (filter (\<lambda>d. dev_accelerator d \<noteq> Cpu) (inv_devices hi))
      in if gpu_count \<le> 1 then 1
         else if nt_links t = [] then 0
         else
           (let pairs = gpu_count * (gpu_count - 1) div 2
            in if pairs = 0 then 1 else of_nat (high_bw_links t) / of_nat pairs))"

definition supports_tensor_parallel :: "node_topology \<Rightarrow> nat \<Rightarrow> bool" where
  "supports_tensor_parallel t device_count =
     (if device_count \<le> 1 then True else device_count - 1 \<le> high_bw_links t)"

section \<open>Failover\<close>

lemma task_failed_known:
  assumes "hm_get (fo_tasks f) tid \<noteq> None"
  shows "fst (task_failed tid f) = (if Suc (retry_count tid f) < fo_max_retries f then FoRetry else FoExhausted)"
    and "retry_count tid (snd (task_failed tid f)) = Suc (retry_count tid f)"
    and "fo_max_retries (snd (task_failed tid f)) = fo_max_retries f"
    and "hm_get (fo_tasks (snd (task_failed tid f))) tid \<noteq> None"
    and "map_option ft_status (hm_get (fo_tasks (snd (task_failed tid f))) tid) =
      Some (if Suc (retry_count tid f) < fo_max_retries f then FtReassigned else FtFailed)"
  using assms by (auto simp: task_failed_def Let_def retry_count_def split: option.splits)

lemma reassign_known:
  assumes "hm_get (fo_tasks f) tid \<noteq> None"
  shows "retry_count tid (snd (reassign tid n f)) = retry_count tid f"
    and "fo_max_retries (snd (reassign tid n f)) = fo_max_retries f"
    and "hm_get (fo_tasks (snd (reassign tid n f))) tid \<noteq> None"
  using assms by (auto simp: reassign_def retry_count_def)

text \<open>A task that fails on one node after the other: the answers to its failures, each
  followed by a reassignment to the next node.\<close>

fun failover :: "uuid \<Rightarrow> node_id list \<Rightarrow> fleet_coordinator \<Rightarrow> failover_action list" where
  "failover tid [] f = []"
| "failover tid (n # ns) f =
     (case task_failed tid f of
        (act, f1) \<Rightarrow> act # failover tid ns (snd (reassign tid n f1)))"

lemma failover_answers:
  assumes "hm_get (fo_tasks f) tid \<noteq> None"
  shows "failover tid ns f =
    map (\<lambda>k. if retry_count tid f + k < fo_max_retries f then FoRetry else FoExhausted) [1..<Suc (length ns)]"
  using assms
proof (induction ns arbitrary: f)
  case Nil
  then show ?case by simp
next
  case (Cons n ns)
  let ?f = "snd (reassign tid n (snd (task_failed tid f)))"
  note tf = task_failed_known [OF Cons.prems] and re = reassign_known [OF task_failed_known(4) [OF Cons.prems], of n]
  have up: "[1..<Suc (length (n # ns))] = 1 # map Suc [1..<Suc (length ns)]"
    by (simp add: upt_conv_Cons map_Suc_upt del: upt_Suc)
  have "failover tid ns ?f = map (\<lambda>k. if Suc (retry_count tid f) + k < fo_max_retries f then FoRetry else FoExhausted)
      [1..<Suc (length ns)]"
    using Cons.IH [OF re(3)] by (simp add: re tf)
  then show ?case
    unfolding up using tf(1) by (simp add: case_prod_unfold comp_def)
qed

section \<open>Fan-out\<close>

lemma assignment_map_get:
  "hm_get (fold (\<lambda>(tid, n). hm_insert tid n) as m) tid =
     (case map_of (rev as) tid of None \<Rightarrow> hm_get m tid | Some n \<Rightarrow> Some n)"
proof (induction as arbitrary: m)
  case Nil
  then show ?case by simp
next
  case (Cons a as)
  then show ?case by (cases a) (auto split: option.splits)
qed

definition fanned :: "(uuid, node_id) hmap \<Rightarrow> uuid \<times> string \<Rightarrow> fleet_task" where
  "fanned am = (\<lambda>(tid, description).
     \<lparr> ft_task_id = tid, ft_description = description, ft_assigned_node = hm_get am tid,
       ft_status = (if hm_get am tid = None then FtPending else FtAssigned) \<rparr>)"

lemma fan_out_task_eq:
  "fan_out_task am t (tasks, nodes, per_node) =
     (hm_insert (fst t) (fanned am t) tasks,
      case hm_get am (fst t) of None \<Rightarrow> nodes | Some n \<Rightarrow> List.insert n nodes,
      case hm_get am (fst t) of None \<Rightarrow> per_node
      | Some n \<Rightarrow> hm_insert n (Suc (case hm_get per_node n of None \<Rightarrow> 0 | Some k \<Rightarrow> k)) per_node)"
  by (cases t) (auto simp: fan_out_task_def fanned_def hm_contains_def Let_def split: option.split)

definition node_load :: "(uuid, node_id) hmap \<Rightarrow> (uuid \<times> string) list \<Rightarrow> node_id \<Rightarrow> nat" where
  "node_load am ts n = length (filter (\<lambda>t. hm_get am (fst t) = Some n) ts)"

lemma fan_out_fold:
  assumes "fold (fan_out_task am) ts (tasks, nodes, per_node) = (tasks', nodes', per_node')"
    and "distinct nodes" and "hm_wf per_node"
  shows "distinct nodes' \<and> set nodes' = set nodes \<union> {n. \<exists>t \<in> set ts. hm_get am (fst t) = Some n} \<and>
    hm_wf per_node' \<and>
    (\<forall>n. (case hm_get per_node' n of None \<Rightarrow> 0 | Some k \<Rightarrow> k) =
       (case hm_get per_node n of None \<Rightarrow> 0 | Some k \<Rightarrow> k) + node_load am ts n) \<and>
    tasks' = fold (\<lambda>t. hm_insert (fst t) (fanned am t)) ts tasks"
  using assms
proof (induction ts arbitrary: tasks nodes per_node)
  case Nil
  then show ?case by (simp add: node_load_def)
next
  case (Cons t ts)
  show ?case
  proof (cases "hm_get am (fst t)")
    case None
    with Cons.prems Cons.IH [of "hm_insert (fst t) (fanned am t) tasks" nodes per_node] show ?thesis
      by (simp add: fan_out_task_eq node_load_def)
  next
    case (Some n)
    with Cons.prems Cons.IH [of "hm_insert (fst t) (fanned am t) tasks" "List.insert n nodes"
        "hm_insert n (Suc (case hm_get per_node n of None \<Rightarrow> 0 | Some k \<Rightarrow> k)) per_node"]
    show ?thesis by (auto simp: fan_out_task_eq node_load_def split: if_splits)
  qed
qed

lemma fold_insert_get:
  "distinct (map fst ts) \<Longrightarrow> t \<in> set ts \<Longrightarrow>
   hm_get (fold (\<lambda>t. hm_insert (fst t) (g t)) ts m) (fst t) = Some (g t)"
proof (induction ts arbitrary: m rule: rev_induct)
  case Nil
  then show ?case by simp
next
  case (snoc u ts)
  then show ?case by (cases "t = u") (auto simp: rev_image_eqI)
qed

lemma progress_get:
  "hm_get (fold (\<lambda>i. hm_insert i (f i)) ns m) i = (if i \<in> set ns then Some (f i) else hm_get m i)"
  by (induction ns arbitrary: m) auto

lemma create_run_state:
  "fst (create_run fresh now nodes k m) = fresh"
  "\<exists>s. hm_get (csm_states (snd (create_run fresh now nodes k m))) fresh = Some s \<and>
     dcs_phase s = PhInitializing \<and> dcs_participating_nodes s = nodes \<and>
     (\<forall>n. (case hm_get (dcs_node_progress s) n of None \<Rightarrow> 0 | Some p \<Rightarrow> np_tasks_total p) =
        (if n \<in> set nodes then k else 0))"
  by (simp_all add: create_run_def Let_def progress_get)

lemma max_load:
  fixes pn :: "('k, nat) hmap"
  assumes "hm_wf pn"
  shows "(case hm_get pn n of None \<Rightarrow> 0 | Some k \<Rightarrow> k) \<le>
    (case max_by_key (\<lambda>k. k) (hm_values pn) of None \<Rightarrow> 0 | Some k \<Rightarrow> k)"
proof (cases "hm_get pn n")
  case None
  then show ?thesis by simp
next
  case (Some k)
  then have "k \<in> set (hm_values pn)" using assms by (auto simp: hm_values_get)
  moreover from this obtain j where "max_by_key (\<lambda>k. k) (hm_values pn) = Some j"
    by (metis empty_iff empty_set max_by_key_None not_None_eq)
  ultimately show ?thesis using Some max_by_key_Some [of "\<lambda>k. k"] by fastforce
qed

section \<open>Properties\<close>

text \<open>Failover is bounded: of the successive failures of a registered task, reassigned
  to another node after each, exactly the first \<open>max_retries - 1\<close> are answered with \<open>Retry\<close>,
  all later ones with \<open>Exhausted\<close>.\<close>

theorem failover_bounded:
  assumes "hm_get (fo_tasks f) tid \<noteq> None" and "retry_count tid f = 0"
  shows "failover tid ns f =
    replicate (min (length ns) (fo_max_retries f - 1)) FoRetry @
    replicate (length ns - (fo_max_retries f - 1)) FoExhausted"
  using assms
  by (auto simp: failover_answers nth_append less_diff_conv intro!: nth_equalityI simp del: upt_Suc)

text \<open>Fan-out registers every task with the node it is assigned to (the last assignment of
  a task counts), as assigned or pending; the run it creates has exactly the assigned nodes
  as participants, and expects of each of them the greatest number of tasks that any
  node got.\<close>

theorem fan_out_registers:
  assumes "fan_out fresh now tasks assignments f = (run, f')" and "distinct (map fst tasks)"
  shows "run = fresh \<and>
    (\<forall>(tid, description) \<in> set tasks. hm_get (fo_tasks f') tid =
       Some \<lparr> ft_task_id = tid, ft_description = description,
              ft_assigned_node = map_of (rev assignments) tid,
              ft_status = (if map_of (rev assignments) tid = None then FtPending else FtAssigned) \<rparr>) \<and>
    (\<exists>s. hm_get (csm_states (fo_state_manager f')) run = Some s \<and> dcs_phase s = PhInitializing \<and>
       set (dcs_participating_nodes s) = {n. \<exists>t \<in> set tasks. map_of (rev assignments) (fst t) = Some n} \<and>
       (\<forall>n. length (filter (\<lambda>t. map_of (rev assignments) (fst t) = Some n) tasks) \<le>
          (case hm_get (dcs_node_progress s) n of None \<Rightarrow> 0 | Some p \<Rightarrow> np_tasks_total p)))"
proof -
  let ?am = "fold (\<lambda>(tid, n). hm_insert tid n) assignments hm_empty"
  let ?f = "evict_completed_tasks f"
  have am: "hm_get ?am = map_of (rev assignments)"
    by (simp add: fun_eq_iff assignment_map_get split: option.split)
  obtain tm nodes pn where fold: "fold (fan_out_task ?am) tasks (fo_tasks ?f, [], hm_empty) = (tm, nodes, pn)"
    by (rule prod_cases3)
  let ?k = "case max_by_key (\<lambda>k. k) (hm_values pn) of None \<Rightarrow> 0 | Some k \<Rightarrow> k"
  have nodes: "set nodes = {n. \<exists>t \<in> set tasks. hm_get ?am (fst t) = Some n}" and wf: "hm_wf pn"
    and load: "\<And>n. (case hm_get pn n of None \<Rightarrow> 0 | Some k \<Rightarrow> k) = node_load ?am tasks n"
    and tm: "tm = fold (\<lambda>t. hm_insert (fst t) (fanned ?am t)) tasks (fo_tasks ?f)"
    using fan_out_fold [OF fold] by auto
  have cr: "create_run fresh now nodes ?k (fo_state_manager ?f) =
      (fresh, snd (create_run fresh now nodes ?k (fo_state_manager ?f)))"
    by (metis create_run_state(1) prod.collapse)
  have "(run, f') = (fresh, ?f\<lparr>fo_tasks := tm,
      fo_state_manager := snd (create_run fresh now nodes ?k (fo_state_manager ?f))\<rparr>)"
    unfolding assms(1) [symmetric] fan_out_def Let_def fold prod.case by (subst cr) simp
  then have eqs: "run = fresh" "fo_tasks f' = tm"
    "fo_state_manager f' = snd (create_run fresh now nodes ?k (fo_state_manager ?f))"
    by simp_all
  have task: "hm_get (fo_tasks f') (fst t) = Some (fanned ?am t)" if "t \<in> set tasks" for t
    unfolding eqs tm by (rule fold_insert_get [OF assms(2) that])
  obtain s where s: "hm_get (csm_states (fo_state_manager f')) fresh = Some s" "dcs_phase s = PhInitializing"
    "dcs_participating_nodes s = nodes"
    "\<And>n. (case hm_get (dcs_node_progress s) n of None \<Rightarrow> 0 | Some p \<Rightarrow> np_tasks_total p) =
       (if n \<in> set nodes then ?k else 0)"
    unfolding eqs using create_run_state(2) [of fresh now nodes ?k "fo_state_manager ?f"] by blast
  have "node_load ?am tasks n \<le> (if n \<in> set nodes then ?k else 0)" for n
  proof (cases "n \<in> set nodes")
    case True
    then show ?thesis using max_load [OF wf, of n] load [of n] by simp
  next
    case False
    then show ?thesis by (auto simp: nodes node_load_def filter_empty_conv)
  qed
  then have "length (filter (\<lambda>t. map_of (rev assignments) (fst t) = Some n) tasks) \<le>
      (case hm_get (dcs_node_progress s) n of None \<Rightarrow> 0 | Some p \<Rightarrow> np_tasks_total p)" for n
    unfolding s(4) by (simp add: node_load_def am)
  moreover have "set (dcs_participating_nodes s) =
      {n. \<exists>t \<in> set tasks. map_of (rev assignments) (fst t) = Some n}"
    unfolding s(3) nodes am ..
  ultimately show ?thesis
    using task s(1,2) eqs(1) by (auto simp: fanned_def am)
qed

definition sample_fleet :: fleet_coordinator where
  "sample_fleet = snd (fan_out 9 0 [(1, ''x''), (2, ''y''), (3, ''z'')] [(1, ''n1''), (2, ''n1'')] fleet_coordinator_new)"

theorem failover_bounded_witness:
  "failover 1 [''n2'', ''n3'', ''n4'', ''n5''] sample_fleet = [FoRetry, FoRetry, FoExhausted, FoExhausted]"
proof -
  have "hm_get (fo_tasks sample_fleet) 1 \<noteq> None" "retry_count 1 sample_fleet = 0" "fo_max_retries sample_fleet = 3"
    by (simp_all add: sample_fleet_def fan_out_def fan_out_task_eq fleet_coordinator_new_def with_max_retries_def
          evict_completed_tasks_def MAX_RETAINED_TASKS_def retry_count_def Let_def case_prod_unfold)
  from failover_bounded [OF this(1,2), of "[''n2'', ''n3'', ''n4'', ''n5'']"] this(3) show ?thesis
    by (simp add: numeral_2_eq_2)
qed

theorem fan_out_registers_witness:
  "map_option ft_assigned_node (hm_get (fo_tasks sample_fleet) 2) = Some (Some ''n1'')"
proof -
  have "distinct (map fst [(1, ''x''), (2, ''y''), (3 :: uuid, ''z'')])" by simp
  from fan_out_registers [OF prod.collapse [symmetric] this, of 9 0 "[(1, ''n1''), (2, ''n1'')]" fleet_coordinator_new]
  show ?thesis by (simp add: sample_fleet_def)
qed

text \<open>The topology score is documented to be at most 1, but it counts the links it is given,
  so duplicate links between two devices raise it above 1.\<close>

lemma topology_score_above_one:
  "topology_score
     \<lparr> nt_links = replicate 2 \<lparr> dl_device_a = 0, dl_device_b = 1, dl_interconnect = NvLink, dl_bandwidth_gbps = 300 \<rparr> \<rparr>
     (hardware_inventory_new 8 1000 [compute_device_new 0 ''g0'' Cuda 80, compute_device_new 1 ''g1'' Cuda 80]) = 2"
  by (simp add: topology_score_def high_bw_links_def hardware_inventory_new_def compute_device_new_def
        numeral_2_eq_2)

end
