(* ===== verification/Text_Numbers.thy ===== *)
theory Text_Numbers
  imports Output_Validation
begin

text \<open>
  Numbers in text, as the sources read them from files and environment variables:
  \<open>str::parse\<close> for unsigned integers, \<open>str::split_whitespace\<close>, and the lemmas that the decimal
  form of a number is read back.
\<close>

text \<open>\<open>str::split_whitespace\<close>: \<open>w\<close> is the word read so far, in reverse; a step consumes at
  least one byte, so the length of the text is enough fuel.\<close>

fun split_ws :: "nat \<Rightarrow> string \<Rightarrow> string \<Rightarrow> string list" where
  "split_ws 0 w s = (if w = [] then [] else [rev w])"
| "split_ws (Suc n) w [] = (if w = [] then [] else [rev w])"
| "split_ws (Suc n) w (c # cs) =
     (case find (starts_with (c # cs)) WHITE_SPACE of
        Some p \<Rightarrow> (if w = [] then [] else [rev w]) @ split_ws n [] (drop (length p) (c # cs))
      | None \<Rightarrow> split_ws n (c # w) cs)"

definition split_whitespace :: "string \<Rightarrow> string list" where
  "split_whitespace s = split_ws (length s) [] s"

text \<open>\<open>str::parse\<close> for an unsigned integer of \<open>bits\<close> bits: an optional plus sign and decimal digits; a number that does not fit
  is an error.\<close>

definition is_decimal_digit :: "char \<Rightarrow> bool" where
  "is_decimal_digit c \<longleftrightarrow> 48 \<le> (of_char c :: nat) \<and> (of_char c :: nat) \<le> 57"

definition digits_value :: "string \<Rightarrow> nat" where
  "digits_value ds = foldl (\<lambda>n c. 10 * n + (of_char c - 48)) 0 ds"

definition parse_uint :: "nat \<Rightarrow> string \<Rightarrow> nat option" where
  "parse_uint bits s =
     (let ds = (case s of c # cs \<Rightarrow> if c = CHR ''+'' then cs else s | [] \<Rightarrow> s)
      in if ds = [] \<or> \<not> list_all is_decimal_digit ds \<or> 2 ^ bits \<le> digits_value ds then None
         else Some (digits_value ds))"

definition parse_u64 :: "string \<Rightarrow> u64 option" where
  "parse_u64 s = map_option of_nat (parse_uint 64 s)"

definition parse_u16 :: "string \<Rightarrow> 16 word option" where
  "parse_u16 s = map_option of_nat (parse_uint 16 s)"

section \<open>Reading a number back\<close>

lemma nat_str_digits: "list_all is_decimal_digit (nat_str n)"
proof (induction n rule: nat_str.induct)
  case (1 n)
  have d: "is_decimal_digit (char_of (48 + m))" if "m < 10" for m :: nat
    using that by (simp add: is_decimal_digit_def)
  show ?case
  proof (cases "n < 10")
    case True
    then show ?thesis using d by (simp add: nat_str.simps [of n])
  next
    case False
    then show ?thesis using d 1 by (simp add: nat_str.simps [of n])
  qed
qed

lemma digits_value_snoc: "digits_value (ds @ [c]) = 10 * digits_value ds + (of_char c - 48)"
  by (simp add: digits_value_def)

text \<open>Reading the decimal form gives the number back.\<close>

lemma digits_value_nat_str: "digits_value (nat_str n) = n"
proof (induction n rule: nat_str.induct)
  case (1 n)
  show ?case
  proof (cases "n < 10")
    case True
    then show ?thesis by (simp add: nat_str.simps [of n] digits_value_def)
  next
    case False
    with 1 show ?thesis by (simp add: nat_str.simps [of n] digits_value_snoc)
  qed
qed

lemma nat_str_nonempty [simp]: "nat_str n \<noteq> []"
  by (subst nat_str.simps) simp

theorem parse_uint_nat_str:
  assumes "n < 2 ^ bits"
  shows "parse_uint bits (nat_str n) = Some n"
proof -
  have "hd (nat_str n) \<noteq> CHR ''+''"
    using nat_str_digits [of n] by (cases "nat_str n") (auto simp: is_decimal_digit_def)
  then have "(case nat_str n of c # cs \<Rightarrow> if c = CHR ''+'' then cs else nat_str n | [] \<Rightarrow> nat_str n)
      = nat_str n" by (cases "nat_str n") auto
  with assms show ?thesis
    using nat_str_digits [of n] by (simp add: parse_uint_def digits_value_nat_str Let_def)
qed

lemma parse_u64_nat_str: "parse_u64 (nat_str (unat w)) = Some w"
proof -
  have "unat w < 2 ^ 64" using unsigned_less [of w] by simp
  then show ?thesis by (simp add: parse_u64_def parse_uint_nat_str)
qed

lemma parse_u16_nat_str: "parse_u16 (nat_str (unat w)) = Some w"
proof -
  have "unat w < 2 ^ 16" using unsigned_less [of w] by simp
  then show ?thesis by (simp add: parse_u16_def parse_uint_nat_str)
qed

text \<open>A number at the start of a text is not white space, and neither is one at its end.\<close>

lemma white_space_no_digits:
  "list_all (\<lambda>p. p \<noteq> [] \<and> \<not> is_decimal_digit (hd p) \<and> \<not> is_decimal_digit (last p)) WHITE_SPACE"
  by code_simp

lemma white_space_head:
  "WHITE_SPACE = [CHR 0x09] # [CHR 0x0A] # [CHR 0x0B] # [CHR 0x0C] # [CHR 0x0D] # [CHR 0x20] # drop 6 WHITE_SPACE"
  by code_simp

lemma no_prefix_digit:
  assumes "is_decimal_digit c" and "list_all (\<lambda>p. p \<noteq> [] \<and> \<not> is_decimal_digit (hd p)) ps"
  shows "find (starts_with (c # cs)) ps = None"
proof -
  have "\<not> starts_with (c # cs) p" if "p \<in> set ps" for p
    using assms that by (cases p) (auto simp: list_all_iff starts_with_def)
  then show ?thesis by (auto simp: find_None_iff)
qed

lemma drop_prefixes_digit:
  assumes "is_decimal_digit c" and "list_all (\<lambda>p. p \<noteq> [] \<and> \<not> is_decimal_digit (hd p)) ps"
  shows "drop_prefixes n ps (c # cs) = c # cs"
  using no_prefix_digit [OF assms] by (cases n) simp_all

lemma split_ws_digits:
  "list_all is_decimal_digit ds \<Longrightarrow> split_ws (length ds + n) w (ds @ rest) = split_ws n (rev ds @ w) rest"
proof (induction ds arbitrary: w)
  case Nil
  then show ?case by simp
next
  case (Cons d ds)
  have "list_all (\<lambda>p. p \<noteq> [] \<and> \<not> is_decimal_digit (hd p)) WHITE_SPACE"
    using white_space_no_digits by (auto simp: list_all_iff)
  with Cons show ?case by (simp add: no_prefix_digit)
qed

lemma split_ws_space:
  assumes "c = CHR 0x0A \<or> c = CHR 0x20"
  shows "split_ws (Suc n) w (c # cs) = (if w = [] then [] else [rev w]) @ split_ws n [] cs"
proof -
  have "find (starts_with (c # cs)) WHITE_SPACE = Some [c]"
    using assms by (subst white_space_head) (auto simp: starts_with_def)
  then show ?thesis by simp
qed

text \<open>The two numbers of a \<open>cpu.max\<close> file.\<close>

lemma split_two_numbers:
  assumes "ds \<noteq> []" and "list_all is_decimal_digit ds" and "es \<noteq> []" and "list_all is_decimal_digit es"
  shows "split_whitespace (ds @ CHR 0x20 # es @ [CHR 0x0A]) = [ds, es]"
proof -
  have sp: "split_ws (Suc n) w (CHR 0x20 # cs) = (if w = [] then [] else [rev w]) @ split_ws n [] cs"
    and nl: "split_ws (Suc n) w (CHR 0x0A # cs) = (if w = [] then [] else [rev w]) @ split_ws n [] cs" for n w cs
    by (rule split_ws_space; simp)+
  have "split_whitespace (ds @ CHR 0x20 # es @ [CHR 0x0A])
      = split_ws (length ds + Suc (length es + Suc 0)) [] (ds @ CHR 0x20 # es @ [CHR 0x0A])"
    by (simp add: split_whitespace_def)
  also have "\<dots> = [ds, es]"
    using assms by (simp only: split_ws_digits sp nl) simp
  finally show ?thesis .
qed

lemma str_trim_number:
  assumes "ds \<noteq> []" and "list_all is_decimal_digit ds"
  shows "str_trim (ds @ [CHR 0x0A]) = ds"
proof -
  obtain c cs where c: "ds = c # cs" "is_decimal_digit c" using assms by (cases ds) auto
  have "rev ds \<noteq> []" "list_all is_decimal_digit (rev ds)" using assms by simp_all
  then obtain e es where e: "rev ds = e # es" "is_decimal_digit e" by (cases "rev ds") auto
  have ws: "list_all (\<lambda>p. p \<noteq> [] \<and> \<not> is_decimal_digit (hd p)) WHITE_SPACE"
    "list_all (\<lambda>p. p \<noteq> [] \<and> \<not> is_decimal_digit (hd p)) (map rev WHITE_SPACE)"
    using white_space_no_digits by (auto simp: list_all_iff hd_rev)
  have front: "drop_prefixes n WHITE_SPACE (ds @ [CHR 0x0A]) = ds @ [CHR 0x0A]" for n
    using drop_prefixes_digit [OF c(2) ws(1), of n] c(1) by simp
  have "find (starts_with (CHR 0x0A # rev ds)) (map rev WHITE_SPACE) = Some [CHR 0x0A]"
    by (subst white_space_head) (simp add: starts_with_def)
  then have "drop_prefixes (Suc n) (map rev WHITE_SPACE) (CHR 0x0A # rev ds) = rev ds" for n
    using drop_prefixes_digit [OF e(2) ws(2), of n] e(1) by simp
  then show ?thesis by (simp add: str_trim_def Let_def front)
qed

end
