(* ===== verification/Fleet_Planning.thy ===== *)
theory Fleet_Planning
  imports Text_Numbers
begin

text \<open>
  Planning a fleet: the cost of a crew and the choice of a model within a budget
  (\<open>fleet/cost_planning.rs\<close>), the nodes a discovery backend reports (\<open>fleet/discovery.rs\<close>) and
  the environment and resource limits of the process (\<open>fleet/environment.rs\<close>). Dollars and token
  rates are rationals; the environment variables, the file system, the Unicode lower-case mapping
  and the decimal parser of \<open>f64\<close> are arguments.
\<close>

section \<open>Cost of a crew\<close>

record gpu_pricing =
  gp_a100 :: rat
  gp_h100 :: rat
  gp_rtx4090 :: rat
  gp_t4 :: rat
  gp_l4 :: rat

definition gpu_pricing_default :: gpu_pricing where
  "gpu_pricing_default =
     \<lparr> gp_a100 = 3, gp_h100 = 9 / 2, gp_rtx4090 = 6 / 5, gp_t4 = 35 / 100, gp_l4 = 8 / 10 \<rparr>"

definition model_throughput :: "string \<Rightarrow> gpu_pricing \<Rightarrow> (string \<times> rat \<times> rat) option" where
  "model_throughput model pricing =
     (let lower = to_ascii_lowercase model
      in if str_contains lower ''gpt-4'' \<or> str_contains lower ''claude-3-opus''
           then Some (''large'', 40, gp_a100 pricing)
         else if str_contains lower ''gpt-3.5'' \<or> str_contains lower ''claude-3-sonnet''
           then Some (''medium'', 80, gp_l4 pricing)
         else if str_contains lower ''llama-70b'' \<or> str_contains lower ''mixtral''
           then Some (''open-large'', 50, gp_a100 pricing)
         else if str_contains lower ''llama-7b'' \<or> str_contains lower ''llama-8b'' \<or> str_contains lower ''mistral-7b''
           then Some (''open-small'', 120, gp_t4 pricing)
         else Some (''unknown'', 80, gp_l4 pricing))"

definition estimate_crew_cost :: "nat \<Rightarrow> u64 \<Rightarrow> string \<Rightarrow> gpu_pricing \<Rightarrow> rat" where
  "estimate_crew_cost tasks avg_tokens_per_task model pricing =
     (case model_throughput model pricing of
        None \<Rightarrow> 0
      | Some (_, tps, hourly) \<Rightarrow>
          (let total_tokens = of_nat tasks * of_nat (unat avg_tokens_per_task);
               seconds = total_tokens / tps;
               hours = seconds / 3600
           in hours * hourly))"

definition BUDGET_MODELS :: "string list" where
  "BUDGET_MODELS = [''llama-7b'', ''mistral-7b'', ''gpt-3.5-turbo'', ''llama-70b'', ''mixtral-8x7b'',
     ''claude-3-sonnet'', ''gpt-4'', ''claude-3-opus'']"

text \<open>The loop over the candidates, cheapest first.\<close>

fun first_within :: "rat \<Rightarrow> (string \<times> rat) list \<Rightarrow> string option" where
  "first_within budget_usd [] = None"
| "first_within budget_usd ((model, cost) # cs) =
     (if cost \<le> budget_usd then Some model else first_within budget_usd cs)"

definition select_cheapest_model :: "rat \<Rightarrow> nat \<Rightarrow> u64 \<Rightarrow> gpu_pricing \<Rightarrow> string option" where
  "select_cheapest_model budget_usd tasks avg_tokens_per_task pricing =
     (let candidates = map (\<lambda>m. (m, estimate_crew_cost tasks avg_tokens_per_task m pricing)) BUDGET_MODELS
      in first_within budget_usd (sort_key snd candidates))"

section \<open>Discovery\<close>

record discovered_node =
  dn_address :: string
  dn_port :: "16 word"
  dn_metadata :: "(string, string) hmap"

definition discovered_node_new :: "string \<Rightarrow> 16 word \<Rightarrow> discovered_node" where
  "discovered_node_new address port = \<lparr> dn_address = address, dn_port = port, dn_metadata = hm_empty \<rparr>"

definition node_with_metadata :: "string \<Rightarrow> string \<Rightarrow> discovered_node \<Rightarrow> discovered_node" where
  "node_with_metadata key val n = n\<lparr>dn_metadata := hm_insert key val (dn_metadata n)\<rparr>"

definition socket_addr :: "discovered_node \<Rightarrow> string" where
  "socket_addr n = dn_address n @ '':'' @ nat_str (unat (dn_port n))"

text \<open>The two implementations of the trait \<open>DiscoveryBackend\<close>.\<close>

datatype discovery_backend = StaticDiscovery "discovered_node list" | DnsDiscovery string

fun discover :: "discovery_backend \<Rightarrow> discovered_node list" where
  "discover (StaticDiscovery nodes) = nodes"
| "discover (DnsDiscovery srv_name) = []"

section \<open>Environment\<close>

datatype runtime_environment = Bare | InContainer | Vm | Kubernetes | UnknownEnv

fun environment_display :: "runtime_environment \<Rightarrow> string" where
  "environment_display Bare = ''bare-metal''"
| "environment_display InContainer = ''container''"
| "environment_display Vm = ''vm''"
| "environment_display Kubernetes = ''kubernetes''"
| "environment_display UnknownEnv = ''unknown''"

text \<open>The host: \<open>std::env::var\<close>, \<open>std::fs::read_to_string\<close> (\<open>None\<close> for an error), \<open>Path::exists\<close>,
  \<open>str::to_lowercase\<close> and \<open>str::parse::<f64>\<close>.\<close>

record host =
  ho_var :: "string \<Rightarrow> string option"
  ho_read :: "string \<Rightarrow> string option"
  ho_exists :: "string \<Rightarrow> bool"
  ho_to_lowercase :: "string \<Rightarrow> string"
  ho_parse_f64 :: "string \<Rightarrow> rat option"

definition detect :: "host \<Rightarrow> runtime_environment" where
  "detect h =
     (let rest =
        (if ho_exists h ''/.dockerenv'' then InContainer
         else if ho_exists h ''/sys/hypervisor/type'' then Vm
         else if ho_exists h ''/proc/1/cgroup'' then Bare
         else UnknownEnv)
      in if ho_var h ''KUBERNETES_SERVICE_HOST'' \<noteq> None then Kubernetes
         else case ho_read h ''/proc/1/cgroup'' of
           Some cgroup \<Rightarrow>
             (let lower = ho_to_lowercase h cgroup
              in if str_contains lower ''kubepods'' then Kubernetes
                 else if str_contains lower ''docker'' \<or> str_contains lower ''containerd''
                     \<or> str_contains lower ''lxc'' \<or> str_contains lower ''/system.slice/containerd''
                   then InContainer
                 else rest)
         | None \<Rightarrow> rest)"

definition read_cgroup_v2_cpu :: "host \<Rightarrow> rat option" where
  "read_cgroup_v2_cpu h =
     Option.bind (ho_read h ''/sys/fs/cgroup/cpu.max'') (\<lambda>content.
       (let parts = split_whitespace content
        in if 2 \<le> length parts then
             Option.bind (ho_parse_f64 h (parts ! 0)) (\<lambda>quota.
             Option.bind (ho_parse_f64 h (parts ! 1)) (\<lambda>period.
               if quota < 0 \<or> period \<le> 0 then None else Some (quota / period)))
           else None))"

definition read_cgroup_v1_cpu :: "host \<Rightarrow> rat option" where
  "read_cgroup_v1_cpu h =
     Option.bind (ho_read h ''/sys/fs/cgroup/cpu/cpu.cfs_quota_us'') (\<lambda>q.
     Option.bind (ho_parse_f64 h (str_trim q)) (\<lambda>quota.
       if quota < 0 then None
       else
         Option.bind (ho_read h ''/sys/fs/cgroup/cpu/cpu.cfs_period_us'') (\<lambda>p.
         Option.bind (ho_parse_f64 h (str_trim p)) (\<lambda>period.
           if period \<le> 0 then None else Some (quota / period)))))"

definition read_cgroup_v2_memory :: "host \<Rightarrow> u64 option" where
  "read_cgroup_v2_memory h =
     Option.bind (ho_read h ''/sys/fs/cgroup/memory.max'') (\<lambda>content.
       (let trimmed = str_trim content
        in if trimmed = ''max'' then None else parse_u64 trimmed))"

definition read_cgroup_v1_memory :: "host \<Rightarrow> u64 option" where
  "read_cgroup_v1_memory h =
     Option.bind (ho_read h ''/sys/fs/cgroup/memory/memory.limit_in_bytes'') (\<lambda>content.
     Option.bind (parse_u64 (str_trim content)) (\<lambda>val.
       if push_bit 62 1 < val then None else Some val))"

record cgroup_limits =
  rl_cpu_quota :: "rat option"
  rl_memory_limit_bytes :: "u64 option"

definition resource_limits :: "host \<Rightarrow> cgroup_limits" where
  "resource_limits h =
     \<lparr> rl_cpu_quota = (case read_cgroup_v2_cpu h of Some q \<Rightarrow> Some q | None \<Rightarrow> read_cgroup_v1_cpu h),
       rl_memory_limit_bytes =
         (case read_cgroup_v2_memory h of Some m \<Rightarrow> Some m | None \<Rightarrow> read_cgroup_v1_memory h) \<rparr>"

section \<open>The cheapest model\<close>

lemma first_within_Some:
  "first_within b cs = Some m \<Longrightarrow> \<exists>c. (m, c) \<in> set cs \<and> c \<le> b"
  by (induction b cs rule: first_within.induct) (auto split: if_splits)

lemma first_within_None: "first_within b cs = None \<longleftrightarrow> (\<forall>(m, c) \<in> set cs. b < c)"
  by (induction b cs rule: first_within.induct) auto

text \<open>In an ascending list only the first candidate matters.\<close>

lemma first_within_sorted:
  "sorted (map snd cs) \<Longrightarrow> first_within b cs = (case cs of [] \<Rightarrow> None | (m, c) # _ \<Rightarrow> if c \<le> b then Some m else None)"
  by (cases cs) (fastforce simp: first_within_None split: prod.splits)+

lemma find_map: "find P (map f xs) = map_option f (find (P \<circ> f) xs)"
  by (induction xs) simp_all

lemma sort_key_hd:
  assumes "sort_key f xs = y # ys"
  shows "y \<in> set xs" and "\<forall>x \<in> set xs. f y \<le> f x" and "find (\<lambda>x. f x = f y) xs = Some y"
proof -
  have eq: "set (y # ys) = set xs" by (metis assms set_sort)
  then show "y \<in> set xs" by auto
  have "sorted (map f (y # ys))" by (metis assms sorted_sort_key)
  then have "\<forall>x \<in> set (y # ys). f y \<le> f x" by auto
  then show "\<forall>x \<in> set xs. f y \<le> f x" by (simp only: eq)
  have "filter (\<lambda>x. f x = f y) xs = y # filter (\<lambda>x. f x = f y) ys"
    using sort_key_stable [of f "f y" xs] by (simp add: assms)
  then show "find (\<lambda>x. f x = f y) xs = Some y"
    by (induction xs) (auto split: if_splits)
qed

text \<open>The choice is the head of the sorted candidates, when it fits.\<close>

lemma select_cheapest_model_hd:
  fixes tasks tokens pricing
  defines "cost \<equiv> \<lambda>m. estimate_crew_cost tasks tokens m pricing"
  obtains m where "m \<in> set BUDGET_MODELS" and "list_all (\<lambda>n. cost m \<le> cost n) BUDGET_MODELS"
    and "find (\<lambda>n. cost n = cost m) BUDGET_MODELS = Some m"
    and "\<And>budget. select_cheapest_model budget tasks tokens pricing = (if cost m \<le> budget then Some m else None)"
proof -
  let ?cs = "map (\<lambda>m. (m, cost m)) BUDGET_MODELS"
  have "length (sort_key snd ?cs) \<noteq> 0" by (simp add: BUDGET_MODELS_def)
  then obtain y ys where s: "sort_key snd ?cs = y # ys" by (cases "sort_key snd ?cs") simp_all
  obtain m c where y: "y = (m, c)" by (cases y)
  note hd = sort_key_hd [OF s]
  have m: "m \<in> set BUDGET_MODELS" "c = cost m" using hd(1) y by auto
  have "list_all (\<lambda>n. cost m \<le> cost n) BUDGET_MODELS"
    using hd(2) y m(2) by (auto simp: list_all_iff)
  moreover have "find (\<lambda>n. cost n = cost m) BUDGET_MODELS = Some m"
    using hd(3) y m(2) by (auto simp: find_map comp_def)
  moreover have "select_cheapest_model budget tasks tokens pricing = (if cost m \<le> budget then Some m else None)" for budget
    using first_within_sorted [of "sort_key snd ?cs" budget] s y m(2)
    by (simp add: select_cheapest_model_def cost_def)
  ultimately show thesis using that m(1) by blast
qed

text \<open>\<open>select_cheapest_model\<close> returns a model of the table that fits the budget and costs no
  more than any other, and nothing exactly when no model fits.\<close>

theorem select_cheapest_model_correct:
  "(case select_cheapest_model budget tasks tokens pricing of
      None \<Rightarrow> list_all (\<lambda>m. budget < estimate_crew_cost tasks tokens m pricing) BUDGET_MODELS
    | Some m \<Rightarrow> m \<in> set BUDGET_MODELS \<and> estimate_crew_cost tasks tokens m pricing \<le> budget \<and>
        list_all (\<lambda>n. estimate_crew_cost tasks tokens m pricing \<le> estimate_crew_cost tasks tokens n pricing)
          BUDGET_MODELS)"
  by (rule select_cheapest_model_hd [of tasks tokens pricing]) (auto simp: list_all_iff intro: less_le_trans)

lemma throughput_table:
  "map (\<lambda>m. model_throughput m gpu_pricing_default) BUDGET_MODELS =
     [Some (''open-small'', 120, 35 / 100), Some (''open-small'', 120, 35 / 100), Some (''medium'', 80, 8 / 10),
      Some (''open-large'', 50, 3), Some (''open-large'', 50, 3), Some (''medium'', 80, 8 / 10),
      Some (''large'', 40, 3), Some (''large'', 40, 3)]"
  by (simp add: BUDGET_MODELS_def model_throughput_def gpu_pricing_default_def to_ascii_lowercase_def
      ascii_lower_char_def starts_with_def)

lemma default_llama_least:
  assumes "m \<in> set BUDGET_MODELS"
  shows "estimate_crew_cost tasks tokens ''llama-7b'' gpu_pricing_default
    \<le> estimate_crew_cost tasks tokens m gpu_pricing_default"
proof -
  define k :: rat where "k = of_nat tasks * of_nat (unat tokens)"
  have est: "estimate_crew_cost tasks tokens n pricing = (case model_throughput n pricing of None \<Rightarrow> 0
      | Some (_, tps, hourly) \<Rightarrow> k / tps / 3600 * hourly)" for n pricing
    by (simp only: estimate_crew_cost_def Let_def k_def)
  have "0 \<le> k" unfolding k_def by (intro mult_nonneg_nonneg of_nat_0_le_iff)
  with assms throughput_table show ?thesis
    by (auto simp: BUDGET_MODELS_def est field_simps)
qed

text \<open>At the default prices the choice is always the first model of the table.\<close>

theorem default_selects_llama:
  "select_cheapest_model budget tasks tokens gpu_pricing_default =
     (if estimate_crew_cost tasks tokens ''llama-7b'' gpu_pricing_default \<le> budget then Some ''llama-7b'' else None)"
proof (rule select_cheapest_model_hd [of tasks tokens gpu_pricing_default])
  let ?cost = "\<lambda>m. estimate_crew_cost tasks tokens m gpu_pricing_default"
  fix m
  assume m: "m \<in> set BUDGET_MODELS" "list_all (\<lambda>n. ?cost m \<le> ?cost n) BUDGET_MODELS"
    "find (\<lambda>n. ?cost n = ?cost m) BUDGET_MODELS = Some m"
    "\<And>budget. select_cheapest_model budget tasks tokens gpu_pricing_default = (if ?cost m \<le> budget then Some m else None)"
  have "?cost ''llama-7b'' = ?cost m"
    using default_llama_least [OF m(1)] m(2) by (intro antisym) (auto simp: BUDGET_MODELS_def)
  with m(3) have "m = ''llama-7b''" by (simp add: BUDGET_MODELS_def)
  with m(4) show ?thesis by simp
qed

text \<open>A model that is not recognised is charged as a medium one, not as free.\<close>

theorem unknown_model_is_charged:
  "estimate_crew_cost 1000 3600 ''bert'' gpu_pricing_default = 10"
  by (simp add: estimate_crew_cost_def model_throughput_def gpu_pricing_default_def to_ascii_lowercase_def
      ascii_lower_char_def starts_with_def)

section \<open>Addresses\<close>

text \<open>The socket string determines the address and the port, also when the address contains
  colons: two discovered nodes share one only if they are the same endpoint.\<close>

theorem socket_addr_injective:
  "socket_addr n = socket_addr m \<longleftrightarrow> dn_address n = dn_address m \<and> dn_port n = dn_port m"
proof
  assume eq: "socket_addr n = socket_addr m"
  have no_colon: "CHR '':'' \<notin> set (nat_str k)" for k
    using nat_str_digits [of k] by (auto simp: list_all_iff is_decimal_digit_def)
  have rev: "rev (socket_addr x) = rev (nat_str (unat (dn_port x))) @ CHR '':'' # rev (dn_address x)" for x
    by (simp add: socket_addr_def)
  have cut: "takeWhile (\<lambda>c. c \<noteq> CHR '':'') (rev (socket_addr x)) = rev (nat_str (unat (dn_port x)))" for x
    unfolding rev by (rule takeWhile_neq_first) (simp add: no_colon)
  have "nat_str (unat (dn_port n)) = nat_str (unat (dn_port m))"
    using cut [of n] cut [of m] eq by simp
  then have "unat (dn_port n) = unat (dn_port m)" by (metis digits_value_nat_str)
  then have "dn_port n = dn_port m" by (rule unsigned_word_eqI)
  with eq show "dn_address n = dn_address m \<and> dn_port n = dn_port m" by (simp add: socket_addr_def)
qed (simp add: socket_addr_def)

section \<open>Detection and limits\<close>

text \<open>The fourth text that \<open>detect\<close> looks for contains the second.\<close>

lemma containerd_slice: "str_contains s ''/system.slice/containerd'' \<Longrightarrow> str_contains s ''containerd''"
proof -
  assume "str_contains s ''/system.slice/containerd''"
  then obtain a b where "s = a @ ''/system.slice/containerd'' @ b" by (auto simp: str_contains_iff)
  then have "s = (a @ ''/system.slice/'') @ ''containerd'' @ b" by simp
  then show ?thesis unfolding str_contains_iff by blast
qed

text \<open>Kubernetes is reported exactly for the environment variable or a pod's cgroup.\<close>

theorem detect_kubernetes:
  "detect h = Kubernetes \<longleftrightarrow> ho_var h ''KUBERNETES_SERVICE_HOST'' \<noteq> None \<or>
     (\<exists>cgroup. ho_read h ''/proc/1/cgroup'' = Some cgroup \<and> str_contains (ho_to_lowercase h cgroup) ''kubepods'')"
  by (auto simp: detect_def Let_def split: option.splits)

lemma limits_cpu_nonneg:
  "rl_cpu_quota (resource_limits h) = Some q \<Longrightarrow> 0 \<le> q"
  by (auto simp: resource_limits_def read_cgroup_v2_cpu_def read_cgroup_v1_cpu_def Let_def bind_eq_Some_conv
      split: option.splits if_splits)

text \<open>The limit in a version 2 file is read back, whatever it is.\<close>

theorem memory_limit_round_trip:
  assumes "ho_read h ''/sys/fs/cgroup/memory.max'' = Some (nat_str (unat w) @ [CHR 0x0A])"
  shows "rl_memory_limit_bytes (resource_limits h) = Some w"
proof -
  have t: "str_trim (nat_str (unat w) @ [CHR 0x0A]) = nat_str (unat w)"
    by (intro str_trim_number nat_str_digits) simp
  have "nat_str (unat w) \<noteq> ''max''" using nat_str_digits [of "unat w"] by (auto simp: is_decimal_digit_def)
  with assms t show ?thesis
    by (simp add: resource_limits_def read_cgroup_v2_memory_def parse_u64_nat_str)
qed

text \<open>An unlimited group of version 2 is not reported as unlimited: \<open>or_else\<close> goes on to the
  files of version 1, and a limit that is found there is returned.\<close>

theorem unlimited_v2_falls_back:
  assumes "ho_read h ''/sys/fs/cgroup/memory.max'' = Some (''max'' @ [CHR 0x0A])"
    and "ho_read h ''/sys/fs/cgroup/memory/memory.limit_in_bytes'' = Some (nat_str (unat w) @ [CHR 0x0A])"
    and "w \<le> push_bit 62 1"
  shows "rl_memory_limit_bytes (resource_limits h) = Some w"
proof -
  have "str_trim (''max'' @ [CHR 0x0A]) = ''max''" by code_simp
  moreover have "str_trim (nat_str (unat w) @ [CHR 0x0A]) = nat_str (unat w)"
    by (intro str_trim_number nat_str_digits) simp
  ultimately show ?thesis using assms
    by (simp add: resource_limits_def read_cgroup_v2_memory_def read_cgroup_v1_memory_def parse_u64_nat_str not_less)
qed

text \<open>The quota of a version 2 file with two numbers is their quotient.\<close>

theorem cpu_quota_round_trip:
  assumes "ho_read h ''/sys/fs/cgroup/cpu.max'' = Some (nat_str q @ CHR 0x20 # nat_str p @ [CHR 0x0A])"
    and "ho_parse_f64 h (nat_str q) = Some (of_nat q)" and "ho_parse_f64 h (nat_str p) = Some (of_nat p)"
    and "0 < p"
  shows "rl_cpu_quota (resource_limits h) = Some (of_nat q / of_nat p)"
  using assms split_two_numbers [OF nat_str_nonempty nat_str_digits nat_str_nonempty nat_str_digits, of q p]
  by (simp add: resource_limits_def read_cgroup_v2_cpu_def)

end
