(* ===== verification/Inference_Queue.thy ===== *)
theory Inference_Queue
  imports Scheduler Task_Execution
begin

text \<open>
  The priority inference queue, \<open>llm/inference_queue.rs\<close>. The queue itself is
  \<open>ConcurrentPriorityQueue\<close> of the majra crate: its operations and its priority constants are
  the fields of \<open>majra_ops\<close>, and what the code relies on (the element that leaves is one of
  the greatest priority) is the contract \<open>priority_pool\<close>. The language model is an argument.

  \<open>enqueue\<close> hands the insertion to a spawned task, \<open>spawn_worker\<close> starts a loop in another one,
  and both may be started any number of times, so the component is a state machine: an event
  is one step of one task, between two \<open>await\<close> points, and a run is any sequence of events.
\<close>

section \<open>Data\<close>

text \<open>A oneshot channel is the position of its request among the accepted ones.\<close>

record queued_inference =
  qi_request :: inference_request
  qi_reply :: nat
  qi_label :: string

record 'p queue_item =
  it_priority :: 'p
  it_payload :: queued_inference

record ('p, 'q) majra_ops =
  mj_background :: 'p
  mj_low :: 'p
  mj_normal :: 'p
  mj_high :: 'p
  mj_critical :: 'p
  mj_new :: 'q
  mj_enqueue :: "'p queue_item \<Rightarrow> 'q \<Rightarrow> 'q"
  mj_dequeue :: "'q \<Rightarrow> 'p queue_item option \<times> 'q"
  mj_len :: "'q \<Rightarrow> nat"

abbreviation majra_laws :: "('p::linorder, 'q) majra_ops \<Rightarrow> ('q \<Rightarrow> 'p queue_item multiset \<Rightarrow> bool) \<Rightarrow> bool" where
  "majra_laws ops holds \<equiv>
     priority_pool holds (mj_new ops) (mj_enqueue ops) (mj_dequeue ops) it_priority"

fun map_priority :: "('p, 'q) majra_ops \<Rightarrow> task_priority \<Rightarrow> 'p" where
  "map_priority ops Background = mj_background ops"
| "map_priority ops Low = mj_low ops"
| "map_priority ops Normal = mj_normal ops"
| "map_priority ops High = mj_high ops"
| "map_priority ops Critical = mj_critical ops"

text \<open>A worker task is about to call \<open>dequeue\<close>, sleeps, waits for the model's answer to an item,
  or was aborted through its handle.\<close>

datatype 'p worker = Polling | Sleeping | Asking "'p queue_item" | Aborted

text \<open>
  The state: the majra queue, the insertions that were spawned and have not run, the workers,
  the channels whose receiver was dropped and the values that reached a receiver. The items
  accepted by \<open>enqueue\<close>, the channels whose inference call returned, in order, and the channels
  whose sender was dropped with an aborted worker are the history that the properties read.
\<close>

record ('p, 'q) iq_state =
  iq_queue :: 'q
  iq_spawned :: "'p queue_item list"
  iq_workers :: "'p worker list"
  iq_dropped :: "nat set"
  iq_replies :: "(nat \<times> (string + inference_response)) list"
  iq_alive :: bool
  iq_accepted :: "'p queue_item list"
  iq_calls :: "nat list"
  iq_aborted :: "nat list"

section \<open>Operations\<close>

definition inference_queue_new :: "('p, 'q) majra_ops \<Rightarrow> ('p, 'q) iq_state" where
  "inference_queue_new ops =
     \<lparr> iq_queue = mj_new ops, iq_spawned = [], iq_workers = [], iq_dropped = {}, iq_replies = [],
       iq_alive = True, iq_accepted = [], iq_calls = [], iq_aborted = [] \<rparr>"

text \<open>\<open>enqueue\<close>: the channel, the item, the spawned insertion; the receiver is returned.\<close>

definition iq_enqueue :: "inference_request \<Rightarrow> 'p \<Rightarrow> string \<Rightarrow> ('p, 'q) iq_state \<Rightarrow> nat \<times> ('p, 'q) iq_state" where
  "iq_enqueue request priority label s =
     (let rx = length (iq_accepted s);
          item = \<lparr> it_priority = priority,
            it_payload = \<lparr> qi_request = request, qi_reply = rx, qi_label = label \<rparr> \<rparr>
      in (rx, s\<lparr>iq_spawned := iq_spawned s @ [item], iq_accepted := iq_accepted s @ [item]\<rparr>))"

definition enqueue_normal ::
    "('p, 'q) majra_ops \<Rightarrow> inference_request \<Rightarrow> string \<Rightarrow> ('p, 'q) iq_state \<Rightarrow> nat \<times> ('p, 'q) iq_state" where
  "enqueue_normal ops request label s = iq_enqueue request (mj_normal ops) label s"

definition enqueue_background ::
    "('p, 'q) majra_ops \<Rightarrow> inference_request \<Rightarrow> string \<Rightarrow> ('p, 'q) iq_state \<Rightarrow> nat \<times> ('p, 'q) iq_state" where
  "enqueue_background ops request label s = iq_enqueue request (mj_background ops) label s"

definition iq_pending :: "('p, 'q) majra_ops \<Rightarrow> ('p, 'q) iq_state \<Rightarrow> nat" where
  "iq_pending ops s = mj_len ops (iq_queue s)"

text \<open>The body of the spawned insertion.\<close>

definition run_insertion :: "('p, 'q) majra_ops \<Rightarrow> nat \<Rightarrow> ('p, 'q) iq_state \<Rightarrow> ('p, 'q) iq_state" where
  "run_insertion ops i s =
     s\<lparr>iq_queue := mj_enqueue ops (iq_spawned s ! i) (iq_queue s),
       iq_spawned := take i (iq_spawned s) @ drop (Suc i) (iq_spawned s)\<rparr>"

definition spawn_worker :: "('p, 'q) iq_state \<Rightarrow> ('p, 'q) iq_state" where
  "spawn_worker s = s\<lparr>iq_workers := iq_workers s @ [Polling]\<rparr>"

text \<open>The steps of the worker loop: \<open>dequeue\<close> with its two branches, the end of the sleep, and
  the answer of the model, which is sent on the channel of the item; \<open>let _ =\<close> ignores a
  receiver that is gone.\<close>

definition worker_poll :: "('p, 'q) majra_ops \<Rightarrow> nat \<Rightarrow> ('p, 'q) iq_state \<Rightarrow> ('p, 'q) iq_state" where
  "worker_poll ops w s =
     (case mj_dequeue ops (iq_queue s) of
        (Some item, q) \<Rightarrow> s\<lparr>iq_queue := q, iq_workers := (iq_workers s)[w := Asking item]\<rparr>
      | (None, q) \<Rightarrow> s\<lparr>iq_queue := q, iq_workers := (iq_workers s)[w := Sleeping]\<rparr>)"

definition worker_wake :: "nat \<Rightarrow> ('p, 'q) iq_state \<Rightarrow> ('p, 'q) iq_state" where
  "worker_wake w s = s\<lparr>iq_workers := (iq_workers s)[w := Polling]\<rparr>"

definition infer_result :: "('e \<Rightarrow> string) \<Rightarrow> 'e + inference_response \<Rightarrow> string + inference_response" where
  "infer_result err_str r = map_sum err_str id r"

definition worker_answer :: "('e \<Rightarrow> string) \<Rightarrow> (nat \<Rightarrow> inference_request \<Rightarrow> 'e + inference_response)
    \<Rightarrow> nat \<Rightarrow> 'p queue_item \<Rightarrow> ('p, 'q) iq_state \<Rightarrow> ('p, 'q) iq_state" where
  "worker_answer err_str llm w item s =
     (let queued = it_payload item;
          result = infer_result err_str (llm (length (iq_calls s)) (qi_request queued))
      in s\<lparr>iq_workers := (iq_workers s)[w := Polling],
           iq_calls := iq_calls s @ [qi_reply queued],
           iq_replies := (if qi_reply queued \<in> iq_dropped s then iq_replies s
             else iq_replies s @ [(qi_reply queued, result)])\<rparr>)"

text \<open>\<open>JoinHandle::abort\<close> drops the task at its \<open>await\<close>, and with it the item it has taken.\<close>

definition worker_abort :: "nat \<Rightarrow> ('p, 'q) iq_state \<Rightarrow> ('p, 'q) iq_state" where
  "worker_abort w s =
     s\<lparr>iq_workers := (iq_workers s)[w := Aborted],
       iq_aborted := iq_aborted s
         @ (case iq_workers s ! w of Asking item \<Rightarrow> [qi_reply (it_payload item)] | _ \<Rightarrow> [])\<rparr>"

text \<open>The events. Dropping the \<open>InferenceQueue\<close> releases one reference to the majra queue; every
  worker and every spawned insertion holds another.\<close>

datatype 'p iq_event =
    Enqueue inference_request 'p string
  | Insertion nat
  | SpawnWorker
  | Poll nat
  | Wake nat
  | Answer nat
  | Abort nat
  | DropReceiver nat
  | DropQueue

fun iq_exec :: "('p, 'q) majra_ops \<Rightarrow> ('e \<Rightarrow> string) \<Rightarrow> (nat \<Rightarrow> inference_request \<Rightarrow> 'e + inference_response)
    \<Rightarrow> 'p iq_event \<Rightarrow> ('p, 'q) iq_state \<Rightarrow> ('p, 'q) iq_state option" where
  "iq_exec ops err_str llm (Enqueue request priority label) s =
     (if iq_alive s then Some (snd (iq_enqueue request priority label s)) else None)"
| "iq_exec ops err_str llm (Insertion i) s =
     (if i < length (iq_spawned s) then Some (run_insertion ops i s) else None)"
| "iq_exec ops err_str llm SpawnWorker s = (if iq_alive s then Some (spawn_worker s) else None)"
| "iq_exec ops err_str llm (Poll w) s =
     (if w < length (iq_workers s) then
        (case iq_workers s ! w of Polling \<Rightarrow> Some (worker_poll ops w s) | _ \<Rightarrow> None)
      else None)"
| "iq_exec ops err_str llm (Wake w) s =
     (if w < length (iq_workers s) then
        (case iq_workers s ! w of Sleeping \<Rightarrow> Some (worker_wake w s) | _ \<Rightarrow> None)
      else None)"
| "iq_exec ops err_str llm (Answer w) s =
     (if w < length (iq_workers s) then
        (case iq_workers s ! w of Asking item \<Rightarrow> Some (worker_answer err_str llm w item s) | _ \<Rightarrow> None)
      else None)"
| "iq_exec ops err_str llm (Abort w) s =
     (if w < length (iq_workers s) \<and> iq_workers s ! w \<noteq> Aborted then Some (worker_abort w s) else None)"
| "iq_exec ops err_str llm (DropReceiver c) s =
     (if c < length (iq_accepted s) then Some (s\<lparr>iq_dropped := insert c (iq_dropped s)\<rparr>) else None)"
| "iq_exec ops err_str llm DropQueue s = Some (s\<lparr>iq_alive := False\<rparr>)"

primrec iq_run :: "('p, 'q) majra_ops \<Rightarrow> ('e \<Rightarrow> string) \<Rightarrow> (nat \<Rightarrow> inference_request \<Rightarrow> 'e + inference_response)
    \<Rightarrow> 'p iq_event list \<Rightarrow> ('p, 'q) iq_state \<Rightarrow> ('p, 'q) iq_state option" where
  "iq_run ops err_str llm [] s = Some s"
| "iq_run ops err_str llm (e # es) s =
     (case iq_exec ops err_str llm e s of None \<Rightarrow> None | Some s' \<Rightarrow> iq_run ops err_str llm es s')"

inductive iq_reachable :: "('p, 'q) majra_ops \<Rightarrow> ('e \<Rightarrow> string)
    \<Rightarrow> (nat \<Rightarrow> inference_request \<Rightarrow> 'e + inference_response) \<Rightarrow> ('p, 'q) iq_state \<Rightarrow> bool"
  for ops :: "('p, 'q) majra_ops" and err_str :: "'e \<Rightarrow> string" and llm where
  initial: "iq_reachable ops err_str llm (inference_queue_new ops)"
| step: "iq_reachable ops err_str llm s \<Longrightarrow> iq_exec ops err_str llm e s = Some s' \<Longrightarrow>
    iq_reachable ops err_str llm s'"

section \<open>Every accepted request is in one place\<close>

fun asking_of :: "'p worker \<Rightarrow> 'p queue_item list" where
  "asking_of (Asking item) = [item]"
| "asking_of _ = []"

definition asking :: "'p worker list \<Rightarrow> 'p queue_item list" where
  "asking ws = concat (map asking_of ws)"

abbreviation channel :: "'p queue_item \<Rightarrow> nat" where
  "channel item \<equiv> qi_reply (it_payload item)"

lemma asking_append [simp]: "asking (ws @ ws') = asking ws @ asking ws'"
  by (simp add: asking_def)

lemma asking_single [simp]: "asking [w] = asking_of w"
  by (simp add: asking_def)

lemma asking_split: "w < length ws \<Longrightarrow>
    mset (asking ws) = mset (asking_of (ws ! w)) + mset (asking (take w ws @ drop (Suc w) ws))"
  by (subst id_take_nth_drop [of w ws]) (simp_all add: asking_def)

lemma asking_update: "w < length ws \<Longrightarrow>
    mset (asking (ws[w := v])) = mset (asking_of v) + mset (asking (take w ws @ drop (Suc w) ws))"
  by (simp add: asking_split [of w "ws[w := v]"])

lemma mset_remove_nth: "i < length xs \<Longrightarrow> mset xs = add_mset (xs ! i) (mset (take i xs @ drop (Suc i) xs))"
  by (metis Cons_nth_drop_Suc append_take_drop_id mset.simps(2) mset_append union_mset_add_mset_right)

text \<open>The items whose sender is used up: answered, or dropped with an aborted worker.\<close>

definition settled :: "('p, 'q) iq_state \<Rightarrow> 'p queue_item list" where
  "settled s = map ((!) (iq_accepted s)) (iq_calls s @ iq_aborted s)"

text \<open>The items that are not settled, in the order of the pipeline.\<close>

definition unsettled :: "'p queue_item multiset \<Rightarrow> ('p, 'q) iq_state \<Rightarrow> 'p queue_item multiset" where
  "unsettled M s = mset (iq_spawned s) + M + mset (asking (iq_workers s))"

definition channels_ok :: "('p, 'q) iq_state \<Rightarrow> bool" where
  "channels_ok s \<longleftrightarrow> map channel (iq_accepted s) = [0..<length (iq_accepted s)] \<and>
     set (iq_calls s @ iq_aborted s) \<subseteq> {..<length (iq_accepted s)}"

definition iq_ok :: "('q \<Rightarrow> 'p queue_item multiset \<Rightarrow> bool) \<Rightarrow> ('p, 'q) iq_state \<Rightarrow> bool" where
  "iq_ok holds s \<longleftrightarrow> channels_ok s \<and>
     (\<exists>M. holds (iq_queue s) M \<and> unsettled M s + mset (settled s) = mset (iq_accepted s))"

text \<open>The values that reached a receiver: one for each inference call whose receiver was there,
  and each the answer to the request of its channel.\<close>

definition replies_ok :: "('e \<Rightarrow> string) \<Rightarrow> (nat \<Rightarrow> inference_request \<Rightarrow> 'e + inference_response)
    \<Rightarrow> ('p, 'q) iq_state \<Rightarrow> bool" where
  "replies_ok err_str llm s \<longleftrightarrow> distinct (map fst (iq_replies s)) \<and>
     set (iq_calls s) \<subseteq> fst ` set (iq_replies s) \<union> iq_dropped s \<and>
     (\<forall>(c, v) \<in> set (iq_replies s). \<exists>k < length (iq_calls s). iq_calls s ! k = c \<and>
        v = infer_result err_str (llm k (qi_request (it_payload (iq_accepted s ! c)))))"

lemma channels_okD:
  assumes "channels_ok s"
  shows channel_nth: "c < length (iq_accepted s) \<Longrightarrow> channel (iq_accepted s ! c) = c"
    and channel_member: "x \<in> set (iq_accepted s) \<Longrightarrow> channel x < length (iq_accepted s) \<and> iq_accepted s ! channel x = x"
    and settled_channels: "map channel (settled s) = iq_calls s @ iq_aborted s"
proof -
  have nth: "channel (iq_accepted s ! c) = c" if "c < length (iq_accepted s)" for c
  proof -
    have "map channel (iq_accepted s) ! c = [0..<length (iq_accepted s)] ! c"
      using assms by (simp only: channels_ok_def)
    with that show ?thesis by simp
  qed
  then show "c < length (iq_accepted s) \<Longrightarrow> channel (iq_accepted s ! c) = c" .
  show "x \<in> set (iq_accepted s) \<Longrightarrow> channel x < length (iq_accepted s) \<and> iq_accepted s ! channel x = x"
    using nth by (auto simp: in_set_conv_nth)
  have "channel (iq_accepted s ! c) = c" if "c \<in> set (iq_calls s @ iq_aborted s)" for c
    using that assms nth by (auto simp: channels_ok_def)
  then show "map channel (settled s) = iq_calls s @ iq_aborted s"
    unfolding settled_def by (simp add: map_idI)
qed

text \<open>An item is settled at most once, and not while it is on its way.\<close>

lemma iq_ok_distinct:
  assumes "channels_ok s" and "unsettled M s + mset (settled s) = mset (iq_accepted s)"
  shows "distinct (iq_calls s @ iq_aborted s)"
    and "x \<in># unsettled M s \<Longrightarrow> channel x \<notin> set (iq_calls s @ iq_aborted s)"
    and "x \<in># unsettled M s \<Longrightarrow> channel x < length (iq_accepted s) \<and> iq_accepted s ! channel x = x"
proof -
  have "image_mset channel (unsettled M s) + mset (map channel (settled s)) = mset [0..<length (iq_accepted s)]"
    using arg_cong [OF assms(2), of "image_mset channel"] assms(1)
    by (metis channels_ok_def image_mset_union mset_map)
  then have eq: "image_mset channel (unsettled M s) + mset (iq_calls s @ iq_aborted s)
      = mset [0..<length (iq_accepted s)]"
    by (simp only: settled_channels [OF assms(1)])
  obtain us where us: "image_mset channel (unsettled M s) = mset us" by (metis ex_mset)
  with eq have "mset (us @ iq_calls s @ iq_aborted s) = mset [0..<length (iq_accepted s)]" by simp
  then have d: "distinct (us @ iq_calls s @ iq_aborted s)"
    by (metis distinct_upt mset_eq_imp_distinct_iff)
  then show "distinct (iq_calls s @ iq_aborted s)" by simp
  show "channel x \<notin> set (iq_calls s @ iq_aborted s)" if "x \<in># unsettled M s"
  proof -
    have "channel x \<in> set us" using that us by (metis image_eqI set_image_mset set_mset_mset)
    with d show ?thesis by auto
  qed
  show "channel x < length (iq_accepted s) \<and> iq_accepted s ! channel x = x" if "x \<in># unsettled M s"
    using that assms channel_member by (metis in_multiset_in_set union_iff)
qed

text \<open>A request is in front of the model when a worker is asking for it; it was there when its call
  returned or its worker was aborted while it asked. No request is there twice.\<close>

lemma iq_ok_asked_once:
  assumes "channels_ok s" and "unsettled M s + mset (settled s) = mset (iq_accepted s)"
  shows "distinct (iq_calls s @ iq_aborted s @ map channel (asking (iq_workers s)))"
proof -
  have "image_mset channel (unsettled M s) + mset (map channel (settled s)) = mset (map channel (iq_accepted s))"
    using arg_cong [OF assms(2), of "image_mset channel"] by simp
  then have eq: "image_mset channel (mset (iq_spawned s) + M) + mset (map channel (asking (iq_workers s)))
      + mset (iq_calls s @ iq_aborted s) = mset [0..<length (iq_accepted s)]"
    using assms(1) unfolding settled_channels [OF assms(1)] channels_ok_def unsettled_def
    by (simp only: image_mset_union mset_map)
  obtain us where us: "image_mset channel (mset (iq_spawned s) + M) = mset us" by (metis ex_mset)
  have "mset (us @ map channel (asking (iq_workers s)) @ iq_calls s @ iq_aborted s) = mset [0..<length (iq_accepted s)]"
    using eq unfolding us by (simp add: add.assoc)
  then have "distinct (us @ map channel (asking (iq_workers s)) @ iq_calls s @ iq_aborted s)"
    by (metis distinct_upt mset_eq_imp_distinct_iff)
  then show ?thesis by auto
qed

lemma settled_accept: "channels_ok s \<Longrightarrow> settled (s\<lparr>iq_spawned := sp, iq_accepted := iq_accepted s @ [x]\<rparr>) = settled s"
  by (auto simp: settled_def channels_ok_def nth_append)

lemma iq_ok_init: "majra_laws ops holds \<Longrightarrow> iq_ok holds (inference_queue_new ops)"
  by (auto simp: iq_ok_def channels_ok_def unsettled_def settled_def inference_queue_new_def asking_def
      intro: priority_pool.holds_init)

lemma iq_ok_enqueue:
  assumes "iq_ok holds s"
  shows "iq_ok holds (snd (iq_enqueue r p l s))"
proof -
  from assms obtain M where M: "channels_ok s" "holds (iq_queue s) M"
    "unsettled M s + mset (settled s) = mset (iq_accepted s)" by (auto simp: iq_ok_def)
  let ?s = "snd (iq_enqueue r p l s)"
  have "channels_ok ?s" using M(1) by (auto simp: channels_ok_def iq_enqueue_def Let_def)
  moreover have "settled ?s = settled s" using M(1) by (simp add: iq_enqueue_def Let_def settled_accept)
  ultimately show ?thesis using M(2,3)
    by (auto simp: iq_ok_def iq_enqueue_def Let_def unsettled_def intro!: exI [of _ M])
qed

lemma iq_ok_insertion:
  assumes "majra_laws ops holds" and "iq_ok holds s" and "i < length (iq_spawned s)"
  shows "iq_ok holds (run_insertion ops i s)"
proof -
  from assms(2) obtain M where M: "channels_ok s" "holds (iq_queue s) M"
    "unsettled M s + mset (settled s) = mset (iq_accepted s)" by (auto simp: iq_ok_def)
  let ?M = "add_mset (iq_spawned s ! i) M" and ?s = "run_insertion ops i s"
  have "holds (iq_queue ?s) ?M"
    using priority_pool.holds_enq [OF assms(1) M(2)] by (simp add: run_insertion_def)
  moreover have "unsettled ?M ?s = unsettled M s"
    using mset_remove_nth [OF assms(3)] by (simp add: unsettled_def run_insertion_def)
  moreover have "channels_ok ?s" "settled ?s = settled s" "iq_accepted ?s = iq_accepted s"
    using M(1) by (simp_all add: channels_ok_def settled_def run_insertion_def)
  ultimately show ?thesis using M(3) unfolding iq_ok_def by metis
qed

lemma iq_ok_poll:
  assumes "majra_laws ops holds" and "iq_ok holds s" and "w < length (iq_workers s)"
    and "iq_workers s ! w = Polling"
  shows "iq_ok holds (worker_poll ops w s)"
proof -
  from assms(2) obtain M where M: "channels_ok s" "holds (iq_queue s) M"
    "unsettled M s + mset (settled s) = mset (iq_accepted s)" by (auto simp: iq_ok_def)
  let ?s = "worker_poll ops w s"
  have keep: "channels_ok ?s" "settled ?s = settled s" "iq_accepted ?s = iq_accepted s"
    using M(1) by (auto simp: channels_ok_def settled_def worker_poll_def split: prod.splits option.splits)
  obtain x q where d: "mj_dequeue ops (iq_queue s) = (x, q)" by (cases "mj_dequeue ops (iq_queue s)")
  show ?thesis
  proof (cases x)
    case None
    with priority_pool.deq_None [OF assms(1) M(2)] d have "M = {#}" "q = iq_queue s" by auto
    with M d None assms(3,4) keep show ?thesis
      by (auto simp: iq_ok_def unsettled_def worker_poll_def asking_update asking_split [of w "iq_workers s"] intro!: exI [of _ "{#}"])
  next
    case (Some y)
    with priority_pool.deq_Some [OF assms(1) M(2)] d have y: "y \<in># M" "holds q (M - {#y#})" by auto
    then have "unsettled (M - {#y#}) ?s = unsettled M s" using d Some assms(3,4)
      by (auto simp: unsettled_def worker_poll_def asking_update asking_split [of w "iq_workers s"])
    with y M(3) keep d Some show ?thesis
      unfolding iq_ok_def by (auto simp: worker_poll_def intro!: exI [of _ "M - {#y#}"])
  qed
qed

lemma iq_ok_retire:
  assumes "iq_ok holds s" and "w < length (iq_workers s)" and "iq_workers s ! w = Asking item"
    and "asking_of v = []" and "iq_workers s' = (iq_workers s)[w := v]"
    and "iq_queue s' = iq_queue s" and "iq_spawned s' = iq_spawned s" and "iq_accepted s' = iq_accepted s"
    and "mset (iq_calls s' @ iq_aborted s') = add_mset (channel item) (mset (iq_calls s @ iq_aborted s))"
  shows "iq_ok holds s'"
proof -
  from assms(1) obtain M where M: "channels_ok s" "holds (iq_queue s) M"
    "unsettled M s + mset (settled s) = mset (iq_accepted s)" by (auto simp: iq_ok_def)
  have un: "unsettled M s = add_mset item (unsettled M s')"
    using assms(2-7) by (simp add: unsettled_def asking_update asking_split [of w "iq_workers s"])
  then have item: "channel item < length (iq_accepted s)" "iq_accepted s ! channel item = item"
    using iq_ok_distinct(3) [OF M(1,3), of item] by auto
  have "mset (settled s') = add_mset item (mset (settled s))"
    using arg_cong [OF assms(9), of "image_mset ((!) (iq_accepted s))"] item(2) assms(8)
    by (simp add: settled_def)
  moreover have "channels_ok s'"
    using M(1) item(1) assms(8) arg_cong [OF assms(9), of set_mset] by (auto simp: channels_ok_def)
  ultimately show ?thesis using un M(2,3) assms(6,8) by (auto simp: iq_ok_def)
qed

lemma iq_ok_idle:
  assumes "iq_ok holds s" and "w < length (iq_workers s)" and "asking_of (iq_workers s ! w) = []"
    and "asking_of v = []"
  shows "iq_ok holds (s\<lparr>iq_workers := (iq_workers s)[w := v]\<rparr>)"
  using assms
  by (auto simp: iq_ok_def channels_ok_def settled_def unsettled_def asking_update asking_split [of w "iq_workers s"])


lemma iq_ok_exec:
  assumes "majra_laws ops holds" and "iq_ok holds s" and "iq_exec ops err_str llm e s = Some s'"
  shows "iq_ok holds s'"
proof (cases e)
  case (Enqueue r p l)
  with assms show ?thesis by (auto split: if_splits intro: iq_ok_enqueue)
next
  case (Insertion i)
  with assms show ?thesis by (auto split: if_splits intro: iq_ok_insertion)
next
  case SpawnWorker
  with assms show ?thesis
    by (auto simp: spawn_worker_def iq_ok_def channels_ok_def settled_def unsettled_def split: if_splits)
next
  case (Poll w)
  with assms show ?thesis by (auto split: if_splits worker.splits intro: iq_ok_poll)
next
  case (Wake w)
  with assms show ?thesis
    by (auto simp: worker_wake_def split: if_splits worker.splits intro: iq_ok_idle)
next
  case (Answer w)
  with assms(3) obtain item where w: "w < length (iq_workers s)" "iq_workers s ! w = Asking item"
    "s' = worker_answer err_str llm w item s" by (auto split: if_splits worker.splits)
  show ?thesis
    by (rule iq_ok_retire [OF assms(2) w(1,2), of Polling]) (auto simp: w(3) worker_answer_def Let_def)
next
  case (Abort w)
  with assms(3) have w: "w < length (iq_workers s)" "s' = worker_abort w s" by (auto split: if_splits)
  show ?thesis
  proof (cases "asking_of (iq_workers s ! w)")
    case Nil
    then have "s' = s\<lparr>iq_workers := (iq_workers s)[w := Aborted]\<rparr>"
      using w(2) by (cases "iq_workers s ! w") (auto simp: worker_abort_def)
    with iq_ok_idle [OF assms(2) w(1) Nil, of Aborted] show ?thesis by simp
  next
    case (Cons item xs)
    then have a: "iq_workers s ! w = Asking item" by (cases "iq_workers s ! w") auto
    show ?thesis
      by (rule iq_ok_retire [OF assms(2) w(1) a, of Aborted]) (auto simp: w(2) worker_abort_def a)
  qed
next
  case (DropReceiver c)
  with assms show ?thesis by (auto simp: iq_ok_def channels_ok_def settled_def unsettled_def split: if_splits)
next
  case DropQueue
  with assms show ?thesis by (auto simp: iq_ok_def channels_ok_def settled_def unsettled_def)
qed

lemma reachable_ok: "iq_reachable ops err_str llm s \<Longrightarrow> majra_laws ops holds \<Longrightarrow> iq_ok holds s"
  by (induction rule: iq_reachable.induct) (auto intro: iq_ok_init iq_ok_exec)

text \<open>The events other than an answer leave the calls and the replies alone.\<close>

lemma replies_ok_frame:
  assumes "replies_ok err_str llm s" and "channels_ok s" and "iq_calls s' = iq_calls s" and "iq_replies s' = iq_replies s"
    and "iq_dropped s \<subseteq> iq_dropped s'" and "iq_accepted s' = iq_accepted s @ xs"
  shows "replies_ok err_str llm s'"
proof -
  have acc: "iq_accepted s' ! c = iq_accepted s ! c" if "c \<in> set (iq_calls s)" for c
    using that assms(2,6) by (auto simp: channels_ok_def nth_append)
  have "\<exists>k < length (iq_calls s). iq_calls s ! k = c \<and>
      v = infer_result err_str (llm k (qi_request (it_payload (iq_accepted s' ! c))))"
    if "(c, v) \<in> set (iq_replies s)" for c v
  proof -
    from assms(1) that obtain k where k: "k < length (iq_calls s)" "iq_calls s ! k = c"
      "v = infer_result err_str (llm k (qi_request (it_payload (iq_accepted s ! c))))"
      unfolding replies_ok_def by auto
    with acc [of c] nth_mem [OF k(1)] show ?thesis by auto
  qed
  moreover have "set (iq_calls s) \<subseteq> fst ` set (iq_replies s) \<union> iq_dropped s'"
    using assms(1,5) unfolding replies_ok_def by blast
  ultimately show ?thesis using assms(1,3,4) unfolding replies_ok_def by auto
qed

lemma replies_ok_answer:
  assumes "replies_ok err_str llm s" and "iq_ok holds s" and "w < length (iq_workers s)"
    and "iq_workers s ! w = Asking item"
  shows "replies_ok err_str llm (worker_answer err_str llm w item s)"
proof -
  from assms(2) obtain M where M: "channels_ok s" "unsettled M s + mset (settled s) = mset (iq_accepted s)"
    by (auto simp: iq_ok_def)
  have "item \<in># unsettled M s"
    using assms(3,4) by (simp add: unsettled_def asking_split [of w "iq_workers s"])
  note item = iq_ok_distinct(2,3) [OF M this]
  have "fst ` set (iq_replies s) \<subseteq> set (iq_calls s)"
    using assms(1) by (force simp: replies_ok_def)
  with item(1) have "channel item \<notin> fst ` set (iq_replies s)" by auto
  with assms(1) item(2) show ?thesis
    by (fastforce simp: replies_ok_def worker_answer_def Let_def nth_append less_Suc_eq)
qed

lemma replies_ok_exec:
  assumes "replies_ok err_str llm s" and "iq_ok holds s" and "iq_exec ops err_str llm e s = Some s'"
  shows "replies_ok err_str llm s'"
proof -
  have ok: "channels_ok s" using assms(2) by (simp add: iq_ok_def)
  note frame = replies_ok_frame [OF assms(1) ok]
  show ?thesis
  proof (cases e)
    case (Answer w)
    with assms show ?thesis by (auto split: if_splits worker.splits intro: replies_ok_answer)
  next
    case (Enqueue r p l)
    with assms(3) show ?thesis by (auto simp: iq_enqueue_def Let_def split: if_splits intro!: frame)
  next
    case (Poll w)
    with assms(3) show ?thesis
      by (auto simp: worker_poll_def split: if_splits worker.splits prod.splits option.splits intro!: frame)
  qed (use assms(3) in \<open>auto simp: run_insertion_def spawn_worker_def worker_wake_def worker_abort_def
      split: if_splits worker.splits intro!: frame\<close>)
qed

lemma reachable_replies:
  assumes "iq_reachable ops err_str llm s" and "majra_laws ops holds"
  shows "replies_ok err_str llm s"
  using assms(1)
proof (induction rule: iq_reachable.induct)
  case initial
  show ?case by (simp add: replies_ok_def inference_queue_new_def)
next
  case (step s e s')
  with reachable_ok [OF step.hyps(1) assms(2)] show ?case by (blast intro: replies_ok_exec)
qed


section \<open>Progress\<close>

text \<open>
  The steps an item takes to its answer: the insertion, the \<open>dequeue\<close> that takes it and the
  answer. Polling an empty queue and waking up change nothing for the items.
\<close>

fun internal :: "'p iq_event \<Rightarrow> bool" where
  "internal (Insertion i) = True"
| "internal (Poll w) = True"
| "internal (Wake w) = True"
| "internal (Answer w) = True"
| "internal _ = False"

definition iq_work :: "nat \<Rightarrow> ('p, 'q) iq_state \<Rightarrow> nat" where
  "iq_work n s = 3 * length (iq_spawned s) + 2 * n + length (asking (iq_workers s))"

definition live_worker :: "nat \<Rightarrow> ('p, 'q) iq_state \<Rightarrow> bool" where
  "live_worker w s \<longleftrightarrow> w < length (iq_workers s) \<and> iq_workers s ! w \<noteq> Aborted"

text \<open>A request that is not settled needs at most an insertion, a poll and an answer.\<close>

lemma iq_work_le:
  assumes "unsettled M s + mset (settled s) = mset (iq_accepted s)"
  shows "iq_work (size M) s \<le> 3 * (length (iq_accepted s) - length (iq_calls s) - length (iq_aborted s))"
proof -
  have "length (iq_spawned s) + size M + length (asking (iq_workers s)) + (length (iq_calls s) + length (iq_aborted s))
      = length (iq_accepted s)"
    using arg_cong [OF assms, of size] by (simp add: unsettled_def settled_def)
  then show ?thesis by (simp add: iq_work_def)
qed

lemma length_asking_update: "w < length ws \<Longrightarrow>
    length (asking (ws[w := v])) + length (asking_of (ws ! w)) = length (asking ws) + length (asking_of v)"
  using arg_cong [OF asking_update [of w ws v], of size] arg_cong [OF asking_split [of w ws], of size]
  by simp

text \<open>A worker that polls a queue with an item in it takes one of the greatest priority.\<close>

lemma poll_takes_greatest:
  assumes "majra_laws ops holds" and "holds (iq_queue s) M" and "M \<noteq> {#}"
    and "w < length (iq_workers s)"
  shows "\<exists>x. iq_workers (worker_poll ops w s) = (iq_workers s)[w := Asking x] \<and> x \<in># M
    \<and> holds (iq_queue (worker_poll ops w s)) (M - {#x#}) \<and> (\<forall>y \<in># M. it_priority y \<le> it_priority x)"
  using priority_pool.holds_deq [OF assms(1-3)] by (auto simp: worker_poll_def)

text \<open>While an item is unsettled and a worker is alive, one or two steps do some of the work.\<close>

lemma work_step:
  assumes "majra_laws ops holds" and "holds (iq_queue s) M" and "live_worker w s"
    and "0 < iq_work (size M) s"
  shows "\<exists>es s' M'. iq_run ops err_str llm es s = Some s' \<and> list_all internal es \<and> length es \<le> 2 \<and>
    holds (iq_queue s') M' \<and> iq_work (size M') s' < iq_work (size M) s \<and> live_worker w s' \<and>
    iq_accepted s' = iq_accepted s \<and> iq_aborted s' = iq_aborted s"
proof (cases "iq_spawned s")
  case (Cons x xs)
  let ?s = "run_insertion ops 0 s"
  have "iq_run ops err_str llm [Insertion 0] s = Some ?s" using Cons by simp
  moreover have "holds (iq_queue ?s) (add_mset x M)"
    using priority_pool.holds_enq [OF assms(1,2)] Cons by (simp add: run_insertion_def)
  moreover have "iq_work (size (add_mset x M)) ?s < iq_work (size M) s" "live_worker w ?s"
    "iq_accepted ?s = iq_accepted s" "iq_aborted ?s = iq_aborted s"
    using Cons assms(3) by (simp_all add: iq_work_def run_insertion_def live_worker_def)
  ultimately show ?thesis
    by (intro exI [of _ "[Insertion 0]"] exI [of _ ?s] exI [of _ "add_mset x M"]) simp
next
  case Nil
  have w: "w < length (iq_workers s)" "iq_workers s ! w \<noteq> Aborted"
    using assms(3) by (simp_all add: live_worker_def)
  show ?thesis
  proof (cases "asking (iq_workers s)")
    case (Cons y ys)
    then have "y \<in> set (asking (iq_workers s))" by simp
    then obtain u where "u \<in> set (iq_workers s)" "asking_of u \<noteq> []"
      by (force simp: asking_def)
    then obtain v where v: "v < length (iq_workers s)" "asking_of (iq_workers s ! v) \<noteq> []"
      by (metis in_set_conv_nth)
    then obtain item where item: "iq_workers s ! v = Asking item" by (cases "iq_workers s ! v") auto
    let ?s = "worker_answer err_str llm v item s"
    have "iq_run ops err_str llm [Answer v] s = Some ?s" using v(1) item by simp
    moreover have "iq_work (size M) ?s < iq_work (size M) s"
      using length_asking_update [OF v(1), of Polling] item
      by (simp add: iq_work_def worker_answer_def Let_def)
    moreover have "holds (iq_queue ?s) M" "live_worker w ?s" "iq_accepted ?s = iq_accepted s"
      "iq_aborted ?s = iq_aborted s"
      using assms(2,3) v(1) by (auto simp: worker_answer_def Let_def live_worker_def nth_list_update)
    ultimately show ?thesis
      by (intro exI [of _ "[Answer v]"] exI [of _ ?s] exI [of _ M]) simp
  next
    case no_asking: Nil
    with Nil assms(4) have "M \<noteq> {#}" by (auto simp: iq_work_def)
    have "asking_of (iq_workers s ! w) = []"
      using no_asking nth_mem [OF w(1)] by (auto simp: asking_def)
    then have idle: "iq_workers s ! w = Polling \<or> iq_workers s ! w = Sleeping"
      using w(2) by (cases "iq_workers s ! w") auto
    define t where "t = worker_wake w s"
    have t: "w < length (iq_workers t)" "holds (iq_queue t) M" "iq_workers t ! w = Polling"
      "iq_spawned t = iq_spawned s" "iq_accepted t = iq_accepted s" "iq_aborted t = iq_aborted s"
      using w(1) assms(2) by (simp_all add: t_def worker_wake_def)
    let ?es = "(if iq_workers s ! w = Sleeping then [Wake w] else []) @ [Poll w]"
    have same: "iq_workers s ! w = Polling \<Longrightarrow> t = s"
      unfolding t_def worker_wake_def by (metis iq_state.surjective iq_state.update_convs(3) list_update_id)
    let ?s = "worker_poll ops w t"
    have run: "iq_run ops err_str llm ?es s = Some ?s"
      using idle same t(1,3) w(1) by (auto simp: t_def)
    from poll_takes_greatest [OF assms(1) t(2) \<open>M \<noteq> {#}\<close> t(1)] obtain x where
      x: "iq_workers ?s = (iq_workers t)[w := Asking x]" "x \<in># M" "holds (iq_queue ?s) (M - {#x#})"
      by blast
    have keep: "iq_spawned ?s = iq_spawned s" "iq_accepted ?s = iq_accepted s" "iq_aborted ?s = iq_aborted s"
      using t by (auto simp: worker_poll_def split: prod.splits option.splits)
    have "length (asking (iq_workers ?s)) = 1"
      using length_asking_update [OF t(1), of "Asking x"] t(3) x(1) no_asking
        length_asking_update [OF w(1), of Polling] idle by (auto simp: t_def worker_wake_def)
    then have "iq_work (size (M - {#x#})) ?s < iq_work (size M) s"
      using keep Nil no_asking size_Suc_Diff1 [OF x(2)] by (simp add: iq_work_def)
    moreover have "live_worker w ?s" using x(1) t(1) by (simp add: live_worker_def)
    ultimately show ?thesis using run x(3) keep
      by (intro exI [of _ ?es] exI [of _ ?s] exI [of _ "M - {#x#}"]) simp
  qed
qed

lemma iq_run_append:
  "iq_run ops err_str llm (es @ es') s = (case iq_run ops err_str llm es s of None \<Rightarrow> None
     | Some t \<Rightarrow> iq_run ops err_str llm es' t)"
  by (induction es arbitrary: s) (auto split: option.splits)

lemma iq_run_reachable:
  "iq_run ops err_str llm es s = Some s' \<Longrightarrow> iq_reachable ops err_str llm s \<Longrightarrow> iq_reachable ops err_str llm s'"
  by (induction es arbitrary: s) (auto split: option.splits intro: iq_reachable.step)

lemma all_work_done:
  assumes "majra_laws ops holds" and "holds (iq_queue s) M" and "live_worker w s"
  shows "\<exists>es s' M'. iq_run ops err_str llm es s = Some s' \<and> list_all internal es \<and>
    length es \<le> 2 * iq_work (size M) s \<and> holds (iq_queue s') M' \<and> iq_work (size M') s' = 0 \<and>
    iq_accepted s' = iq_accepted s \<and> iq_aborted s' = iq_aborted s"
  using assms(2,3)
proof (induction "iq_work (size M) s" arbitrary: s M rule: less_induct)
  case less
  show ?case
  proof (cases "iq_work (size M) s = 0")
    case True
    with less.prems(1) show ?thesis by (intro exI [of _ "[]"] exI [of _ s] exI [of _ M]) simp
  next
    case False
    then obtain es t N where t: "iq_run ops err_str llm es s = Some t" "list_all internal es" "length es \<le> 2"
      "holds (iq_queue t) N" "iq_work (size N) t < iq_work (size M) s" "live_worker w t"
      "iq_accepted t = iq_accepted s" "iq_aborted t = iq_aborted s"
      using work_step [OF assms(1) less.prems] by (metis neq0_conv)
    from less.hyps [OF t(5,4,6)] obtain es' s' M' where s': "iq_run ops err_str llm es' t = Some s'"
      "list_all internal es'" "length es' \<le> 2 * iq_work (size N) t" "holds (iq_queue s') M'"
      "iq_work (size M') s' = 0" "iq_accepted s' = iq_accepted t" "iq_aborted s' = iq_aborted t"
      by blast
    from t s' show ?thesis
      by (intro exI [of _ "es @ es'"] exI [of _ s'] exI [of _ M']) (simp add: iq_run_append)
  qed
qed


lemma internal_keeps_dropped:
  "iq_exec ops err_str llm e s = Some s' \<Longrightarrow> internal e \<Longrightarrow> iq_dropped s' = iq_dropped s"
  by (cases e) (auto simp: run_insertion_def worker_poll_def worker_wake_def worker_answer_def Let_def
      split: if_splits worker.splits prod.splits option.splits)

lemma internal_run_keeps_dropped:
  "iq_run ops err_str llm es s = Some s' \<Longrightarrow> list_all internal es \<Longrightarrow> iq_dropped s' = iq_dropped s"
  by (induction es arbitrary: s) (auto split: option.splits dest!: internal_keeps_dropped)

lemma no_work_settled:
  assumes "iq_ok holds s" and "majra_laws ops holds" and "holds (iq_queue s) M" and "iq_work (size M) s = 0"
  shows "set (iq_calls s) \<union> set (iq_aborted s) = {..<length (iq_accepted s)}"
proof -
  from assms(1) obtain N where N: "channels_ok s" "holds (iq_queue s) N"
    "unsettled N s + mset (settled s) = mset (iq_accepted s)" by (auto simp: iq_ok_def)
  have "holds (iq_queue s) {#}" using assms(3,4) by (simp add: iq_work_def)
  then have "mj_dequeue ops (iq_queue s) = (None, iq_queue s)"
    by (rule priority_pool.holds_deq_empty [OF assms(2)])
  then have "N = {#}" using priority_pool.deq_None [OF assms(2) N(2)] by blast
  then have "mset (settled s) = mset (iq_accepted s)"
    using N(3) assms(4) by (simp add: unsettled_def iq_work_def)
  then have "set (map channel (settled s)) = set (map channel (iq_accepted s))"
    using mset_eq_setD by (metis mset_map)
  then have "set (iq_calls s @ iq_aborted s) = set [0..<length (iq_accepted s)]"
    using N(1) by (simp only: settled_channels [OF N(1)] channels_ok_def)
  then show ?thesis by (simp add: atLeast0LessThan)
qed

section \<open>A concrete queue\<close>

text \<open>A list in the order of service keeps the contract of the majra queue.\<close>

definition list_ops :: "(nat, nat queue_item list) majra_ops" where
  "list_ops = \<lparr> mj_background = 0, mj_low = 1, mj_normal = 2, mj_high = 3, mj_critical = 4, mj_new = [],
     mj_enqueue = (\<lambda>x q. sort_desc it_priority (q @ [x])),
     mj_dequeue = (\<lambda>q. case q of [] \<Rightarrow> (None, []) | x # xs \<Rightarrow> (Some x, xs)), mj_len = length \<rparr>"

definition list_holds :: "nat queue_item list \<Rightarrow> nat queue_item multiset \<Rightarrow> bool" where
  "list_holds q M \<longleftrightarrow> mset q = M \<and> sorted_wrt (\<lambda>a b. it_priority b \<le> it_priority a) q"

lemma list_ops_laws: "majra_laws list_ops list_holds"
proof unfold_locales
  show "list_holds (mj_new list_ops) {#}" by (simp add: list_holds_def list_ops_def)
  show "list_holds (mj_enqueue list_ops x q) (add_mset x M)" if "list_holds q M" for q M x
    using that by (simp add: list_holds_def list_ops_def sort_desc_sorted)
  show "mj_dequeue list_ops q = (None, q)" if "list_holds q {#}" for q
    using that by (simp add: list_holds_def list_ops_def)
  show "\<exists>x q'. mj_dequeue list_ops q = (Some x, q') \<and> x \<in># M \<and> list_holds q' (M - {#x#})
      \<and> (\<forall>y \<in># M. it_priority y \<le> it_priority x)" if "list_holds q M" "M \<noteq> {#}" for q M
    using that by (cases q) (auto simp: list_holds_def list_ops_def)
qed

definition sample_request :: inference_request where
  "sample_request = \<lparr> rq_model = ''m'', rq_prompt = ''p'', rq_system = None, rq_messages = [],
     rq_max_tokens = None, rq_temperature = None \<rparr>"

definition sample_llm :: "nat \<Rightarrow> inference_request \<Rightarrow> string + inference_response" where
  "sample_llm n r = Inl ''offline''"

lemmas iq_eval = iq_enqueue_def run_insertion_def spawn_worker_def worker_poll_def worker_wake_def
  worker_answer_def infer_result_def list_ops_def inference_queue_new_def sort_desc_def sample_llm_def
  sample_request_def Let_def

definition sample_item :: "nat \<Rightarrow> nat \<Rightarrow> nat queue_item" where
  "sample_item p c = \<lparr> it_priority = p,
     it_payload = \<lparr> qi_request = sample_request, qi_reply = c, qi_label = [] \<rparr> \<rparr>"

text \<open>Two requests, the worker not yet started; then the answer to the first.\<close>

definition sample_queued :: "(nat, nat queue_item list) iq_state" where
  "sample_queued = (inference_queue_new list_ops)\<lparr>iq_queue := [sample_item 4 1], iq_workers := [Polling],
     iq_accepted := [sample_item 0 0, sample_item 4 1], iq_spawned := [sample_item 0 0]\<rparr>"

definition sample_answered :: "(nat, nat queue_item list) iq_state" where
  "sample_answered = sample_queued\<lparr>iq_queue := [], iq_calls := [1], iq_replies := [(1, Inl ''offline'')]\<rparr>"

lemma sample_queued_run:
  "iq_run list_ops id sample_llm [Enqueue sample_request 0 [], Enqueue sample_request 4 [], SpawnWorker, Insertion 1]
     (inference_queue_new list_ops) = Some sample_queued"
  by (simp add: iq_eval sample_queued_def sample_item_def)

lemma sample_answered_run:
  "iq_run list_ops id sample_llm [Poll 0, Answer 0] sample_queued = Some sample_answered"
  by (simp add: iq_eval sample_queued_def sample_answered_def sample_item_def)

lemma sample_reachable:
  "iq_reachable list_ops id sample_llm sample_queued" "iq_reachable list_ops id sample_llm sample_answered"
proof -
  show "iq_reachable list_ops id sample_llm sample_queued"
    by (rule iq_run_reachable [OF sample_queued_run iq_reachable.initial])
  then show "iq_reachable list_ops id sample_llm sample_answered"
    by (rule iq_run_reachable [OF sample_answered_run])
qed

section \<open>Properties\<close>

text \<open>C38. The inference queue keeps channels and requests together. In every reachable state each
  request was passed to the model at most once, where a request was passed to the model when its
  call returned, when its worker was aborted during the call, or when the call is under way now;
  each channel received at most one value, that
  value is the model's answer to the request that was enqueued with the channel, and every
  completed call was delivered unless the caller had dropped its receiver. The majra queue hands
  out what was put in, a greatest priority first.\<close>

theorem inference_replies_correct:
  assumes "majra_laws ops holds" and "iq_reachable ops err_str llm s"
  shows "distinct (iq_calls s @ iq_aborted s @ map channel (asking (iq_workers s))) \<and>
    distinct (map fst (iq_replies s)) \<and>
    set (iq_calls s) \<subseteq> fst ` set (iq_replies s) \<union> iq_dropped s \<and>
    (\<forall>(c, v) \<in> set (iq_replies s). \<exists>k < length (iq_calls s). iq_calls s ! k = c \<and>
       v = infer_result err_str (llm k (qi_request (it_payload (iq_accepted s ! c)))))"
proof -
  have "distinct (iq_calls s @ iq_aborted s @ map channel (asking (iq_workers s)))"
    using reachable_ok [OF assms(2,1)] iq_ok_asked_once by (auto simp only: iq_ok_def)
  with reachable_replies [OF assms(2,1)] show ?thesis unfolding replies_ok_def by blast
qed

theorem inference_replies_correct_witness:
  "distinct (iq_calls sample_answered @ iq_aborted sample_answered @ map channel (asking (iq_workers sample_answered))) \<and>
    distinct (map fst (iq_replies sample_answered)) \<and>
    (\<exists>k. k < length (iq_calls sample_answered) \<and> iq_calls sample_answered ! k = 1 \<and>
       Inl ''offline'' = infer_result id (sample_llm k (qi_request (it_payload (iq_accepted sample_answered ! 1)))))"
proof -
  have "(1, Inl ''offline'') \<in> set (iq_replies sample_answered)"
    by (simp add: sample_answered_def)
  with inference_replies_correct [OF list_ops_laws sample_reachable(2)] show ?thesis by blast
qed

text \<open>C40. Every accepted request can be answered, and soon: from any reachable state with a live worker
  there is a run of insertions and worker steps alone, of at most six steps for each accepted
  request that has neither been answered nor dropped with an aborted worker, after which the model
  was asked for every accepted request that was not dropped with an
  aborted worker, and every receiver that still exists has its value. The majra queue hands
  out what was put in, a greatest priority first.\<close>

theorem inference_queue_answers_all:
  assumes "majra_laws ops holds" and "iq_reachable ops err_str llm s" and "live_worker w s"
  shows "\<exists>es s'. iq_run ops err_str llm es s = Some s' \<and> list_all internal es \<and>
    length es \<le> 6 * (length (iq_accepted s) - length (iq_calls s) - length (iq_aborted s)) \<and>
    iq_accepted s' = iq_accepted s \<and>
    set (iq_calls s') \<union> set (iq_aborted s) = {..<length (iq_accepted s)} \<and>
    {..<length (iq_accepted s)} - set (iq_aborted s) - iq_dropped s \<subseteq> fst ` set (iq_replies s')"
proof -
  from reachable_ok [OF assms(2,1)] obtain M where M: "holds (iq_queue s) M"
    "unsettled M s + mset (settled s) = mset (iq_accepted s)" by (auto simp: iq_ok_def)
  from all_work_done [OF assms(1) M(1) assms(3)] obtain es s' M' where
    run: "iq_run ops err_str llm es s = Some s'" "list_all internal es" "length es \<le> 2 * iq_work (size M) s"
    and s': "holds (iq_queue s') M'" "iq_work (size M') s' = 0"
      "iq_accepted s' = iq_accepted s" "iq_aborted s' = iq_aborted s" by blast
  have reach: "iq_reachable ops err_str llm s'" by (rule iq_run_reachable [OF run(1) assms(2)])
  have "set (iq_calls s') \<union> set (iq_aborted s) = {..<length (iq_accepted s)}"
    using no_work_settled [OF reachable_ok [OF reach assms(1)] assms(1) s'(1,2)] s'(3,4) by simp
  moreover have "set (iq_calls s') \<subseteq> fst ` set (iq_replies s') \<union> iq_dropped s"
    using reachable_replies [OF reach assms(1)] internal_run_keeps_dropped [OF run(1,2)]
    by (simp add: replies_ok_def)
  moreover have "length es \<le> 6 * (length (iq_accepted s) - length (iq_calls s) - length (iq_aborted s))"
    using run(3) iq_work_le [OF M(2)] by simp
  ultimately show ?thesis using run s'(3) by blast
qed

theorem inference_queue_answers_all_witness:
  "\<exists>es s'. iq_run list_ops id sample_llm es sample_queued = Some s' \<and> length es \<le> 12 \<and>
    {..<2} - set [] - {} \<subseteq> fst ` set (iq_replies s')"
proof -
  have s: "live_worker 0 sample_queued" "length (iq_accepted sample_queued) = 2"
    "iq_aborted sample_queued = []" "iq_dropped sample_queued = {}" "iq_calls sample_queued = []"
    by (simp_all add: live_worker_def sample_queued_def inference_queue_new_def)
  from inference_queue_answers_all [OF list_ops_laws sample_reachable(1) s(1)] show ?thesis
    unfolding s(2-5) by auto
qed

text \<open>A worker asks for a request of the greatest priority among those in the queue.\<close>

theorem worker_takes_greatest:
  assumes "majra_laws ops holds" and "iq_reachable ops err_str llm s"
    and "iq_exec ops err_str llm (Poll w) s = Some s'" and "iq_workers s' ! w = Asking x"
  shows "\<exists>M. holds (iq_queue s) M \<and> x \<in># M \<and> (\<forall>y \<in># M. it_priority y \<le> it_priority x)"
proof -
  from reachable_ok [OF assms(2,1)] obtain M where M: "holds (iq_queue s) M" by (auto simp: iq_ok_def)
  have w: "w < length (iq_workers s)" "s' = worker_poll ops w s"
    using assms(3) by (auto split: if_splits worker.splits)
  then have d: "mj_dequeue ops (iq_queue s) = (Some x, iq_queue s')"
    using assms(4) by (auto simp: worker_poll_def split: prod.splits option.splits)
  from priority_pool.deq_Some [OF assms(1) M this] M show ?thesis by blast
qed

text \<open>A worker ends only through its own handle: dropping the queue, among all other events,
  leaves it running.\<close>

theorem worker_survives:
  assumes "iq_run ops err_str llm es s = Some s'" and "live_worker w s" and "Abort w \<notin> set es"
  shows "live_worker w s'"
  using assms
proof (induction es arbitrary: s)
  case Nil
  then show ?case by simp
next
  case (Cons e es)
  then obtain t where t: "iq_exec ops err_str llm e s = Some t" "iq_run ops err_str llm es t = Some s'"
    by (auto split: option.splits)
  have "live_worker w t"
    using t(1) Cons.prems(2,3)
    by (cases e) (auto simp: live_worker_def iq_enqueue_def run_insertion_def spawn_worker_def worker_poll_def
        worker_wake_def worker_answer_def worker_abort_def Let_def nth_append nth_list_update
        split: if_splits worker.splits prod.splits option.splits)
  with Cons.IH [OF t(2)] Cons.prems(3) show ?case by simp
qed

text \<open>The insertion is a task of its own, so a request that \<open>enqueue\<close> has already accepted does
  not hold back a later one of lower priority: here the critical request was accepted first and
  the background request is asked first.\<close>

theorem background_before_critical:
  "\<exists>s. iq_run list_ops id sample_llm [Enqueue sample_request 4 [], Enqueue sample_request 0 [], SpawnWorker,
      Insertion 1, Poll 0] (inference_queue_new list_ops) = Some s \<and>
    map it_priority (asking (iq_workers s)) = [0] \<and> map it_priority (iq_accepted s) = [4, 0]"
  by (simp add: iq_eval asking_def)

end
