(* ===== verification/Hot_Config.thy ===== *)
theory Hot_Config
  imports Prelude
begin

text \<open>
  The reloadable configuration, \<open>server/hot_config.rs\<close>. The holder owns both ends of a tokio
  watch channel: the latest value and the number of receivers. \<open>send\<close> stores the value unless no
  receiver is left; the holder's own receiver is one of them.
\<close>

record 'a watch =
  wa_value :: 'a
  wa_receivers :: nat

definition watch_send :: "'a \<Rightarrow> 'a watch \<Rightarrow> ('a + unit) \<times> 'a watch" where
  "watch_send v ch = (if wa_receivers ch = 0 then (Inl v, ch) else (Inr (), ch\<lparr>wa_value := v\<rparr>))"

definition config_new :: "'a \<Rightarrow> 'a watch" where
  "config_new initial = \<lparr> wa_value = initial, wa_receivers = 1 \<rparr>"

definition config_get :: "'a watch \<Rightarrow> 'a" where
  "config_get ch = wa_value ch"

definition config_receiver :: "'a watch \<Rightarrow> 'a watch" where
  "config_receiver ch = ch\<lparr>wa_receivers := wa_receivers ch + 1\<rparr>"

definition config_update :: "'a \<Rightarrow> 'a watch \<Rightarrow> 'a watch" where
  "config_update new_config ch = snd (watch_send new_config ch)"

record runtime_config =
  rc_max_concurrent_crews :: nat
  rc_inference_timeout_secs :: u64
  rc_auth_enabled :: bool
  rc_log_level :: string

definition runtime_config_default :: runtime_config where
  "runtime_config_default =
     \<lparr> rc_max_concurrent_crews = 10, rc_inference_timeout_secs = 300, rc_auth_enabled = False,
       rc_log_level = ''agnosai=info'' \<rparr>"

section \<open>Readers see the last update\<close>

text \<open>The operations of the holder, and a client that drops a receiver it was given; the one in
  the holder lives as long as the holder.\<close>

datatype 'a config_event = Update 'a | TakeReceiver | ReleaseReceiver

fun config_step :: "'a config_event \<Rightarrow> 'a watch \<Rightarrow> 'a watch" where
  "config_step (Update v) ch = config_update v ch"
| "config_step TakeReceiver ch = config_receiver ch"
| "config_step ReleaseReceiver ch =
     (if 1 < wa_receivers ch then ch\<lparr>wa_receivers := wa_receivers ch - 1\<rparr> else ch)"

interpretation cfg: invariant_machine "\<lambda>ch. \<exists>v. ch = config_new v" config_step "\<lambda>ch. 0 < wa_receivers ch"
proof unfold_locales
  show "0 < wa_receivers ch" if "\<exists>v. ch = config_new v" for ch :: "'a watch"
    using that by (auto simp: config_new_def)
  show "0 < wa_receivers (config_step e ch)" if "0 < wa_receivers ch" for e and ch :: "'a watch"
    using that by (cases e) (auto simp: config_update_def watch_send_def config_receiver_def)
qed

text \<open>The value of the last update, or the initial one.\<close>

fun last_update :: "'a \<Rightarrow> 'a config_event list \<Rightarrow> 'a" where
  "last_update v [] = v"
| "last_update v (Update w # es) = last_update w es"
| "last_update v (TakeReceiver # es) = last_update v es"
| "last_update v (ReleaseReceiver # es) = last_update v es"

lemma config_run:
  "0 < wa_receivers ch \<Longrightarrow> config_get (fold config_step es ch) = last_update (wa_value ch) es"
proof (induction es arbitrary: ch)
  case Nil
  then show ?case by (simp add: config_get_def)
next
  case (Cons e es)
  have "config_get (fold config_step (e # es) ch) = last_update (wa_value (config_step e ch)) es"
    using Cons.IH [OF cfg.step_good [OF Cons.prems]] by simp
  also have "\<dots> = last_update (wa_value ch) (e # es)"
    using Cons.prems by (cases e) (simp_all add: config_update_def watch_send_def config_receiver_def)
  finally show ?case .
qed

text \<open>No update is lost: whatever receivers are taken and dropped, \<open>get\<close> returns the
  configuration that was pushed last.\<close>

theorem config_get_latest: "config_get (fold config_step es (config_new v)) = last_update v es"
  by (simp add: config_run config_new_def)

end
