(* ===== verification/Server_Startup.thy ===== *)
theory Server_Startup
  imports Server Text_Numbers
begin

text \<open>
  The end of \<open>main.rs\<close>, where the address of the server is chosen, and the preset route
  \<open>server/routes/definitions.rs\<close>. Binding the socket, serving and waiting for a signal are axum's
  and tokio's.
\<close>

definition listen_port :: "(string \<Rightarrow> string option) \<Rightarrow> 16 word" where
  "listen_port var =
     (let p = (case var ''PORT'' of Some p \<Rightarrow> Some p | None \<Rightarrow> var ''AGNOSAI_PORT'')
      in case Option.bind p parse_u16 of Some port \<Rightarrow> port | None \<Rightarrow> 8080)"

text \<open>\<open>to_value\<close> is serde_json's; a preset that cannot be converted is left out.\<close>

definition list_presets :: "('p preset_spec \<Rightarrow> json option) \<Rightarrow> (string \<Rightarrow> string + 'p preset_spec) \<Rightarrow> string list \<Rightarrow> json list" where
  "list_presets to_value parse jsons = List.map_filter to_value (builtin_presets parse jsons)"

section \<open>Properties\<close>

text \<open>A port that is written in decimal is the one listened on, and \<open>PORT\<close> comes first.\<close>

theorem listen_port_given:
  assumes "var ''PORT'' = Some (nat_str (unat port)) \<or>
    var ''PORT'' = None \<and> var ''AGNOSAI_PORT'' = Some (nat_str (unat port))"
  shows "listen_port var = port"
  using assms by (auto simp: listen_port_def parse_u16_nat_str)

text \<open>A \<open>PORT\<close> that is no port number hides \<open>AGNOSAI_PORT\<close>: the default is used.\<close>

theorem bad_port_hides_fallback:
  assumes "var ''PORT'' = Some p" and "parse_u16 p = None"
  shows "listen_port var = 8080"
  using assms by (simp add: listen_port_def)

text \<open>The route answers with the value of every compiled-in preset that parses and converts, in
  the order of the presets.\<close>

lemma list_presets_all:
  assumes "map parse jsons = map Inr presets" and "map to_value presets = map Some vals"
  shows "list_presets to_value parse jsons = vals"
proof -
  have "builtin_presets parse jsons = presets"
    using assms(1)
    by (induction jsons arbitrary: presets)
      (auto simp: builtin_presets_def load_preset_from_json_def map_filter_simps split: sum.splits)
  moreover have "List.map_filter to_value presets = vals"
    using assms(2) by (induction presets arbitrary: vals) (auto simp: map_filter_simps)
  ultimately show ?thesis by (simp add: list_presets_def)
qed

end
