(* ===== verification/Hardware_Detection.thy ===== *)
theory Hardware_Detection
  imports Resource
begin

text \<open>
  The part of \<open>core/resource.rs\<close> behind the \<open>hwaccel\<close> feature: the inventory built from the
  profiles that the ai-hwaccel crate detects, and the memory estimate for a training run. The
  crate's accelerator type is a type variable; \<open>kind\<close> says which of the variants named in the
  code's \<open>match\<close> a value is, \<open>dbg\<close> is its \<open>Debug\<close> text and \<open>parallelism\<close> the result of
  \<open>available_parallelism\<close>. Gigabytes are rationals.
\<close>

section \<open>Detection\<close>

datatype hw_kind = HwCpu | HwCudaGpu | HwRocmGpu | HwMetalGpu | HwVulkanGpu | HwTpu | HwOther

fun type_from_hwaccel :: "hw_kind \<Rightarrow> accelerator_type" where
  "type_from_hwaccel HwCpu = Cpu"
| "type_from_hwaccel HwCudaGpu = Cuda"
| "type_from_hwaccel HwRocmGpu = Rocm"
| "type_from_hwaccel HwMetalGpu = Metal"
| "type_from_hwaccel HwVulkanGpu = Vulkan"
| "type_from_hwaccel HwTpu = Tpu"
| "type_from_hwaccel HwOther = Cpu"

record 'h accelerator_profile =
  pf_accelerator :: 'h
  pf_memory_bytes :: u64
  pf_memory_free_bytes :: "u64 option"

definition profile_device :: "('h \<Rightarrow> hw_kind) \<Rightarrow> ('h \<Rightarrow> string) \<Rightarrow> nat \<Rightarrow> 'h accelerator_profile \<Rightarrow> compute_device" where
  "profile_device kind dbg i profile =
     \<lparr> dev_index = i, dev_name = dbg (pf_accelerator profile),
       dev_accelerator = type_from_hwaccel (kind (pf_accelerator profile)),
       dev_memory_total_mb = pf_memory_bytes profile div (1024 * 1024),
       dev_memory_available_mb =
         (case pf_memory_free_bytes profile of None \<Rightarrow> pf_memory_bytes profile | Some b \<Rightarrow> b) div (1024 * 1024) \<rparr>"

text \<open>The loop of \<open>HardwareInventory::from_hwaccel\<close> over the enumerated profiles.\<close>

fun inventory_loop :: "('h \<Rightarrow> hw_kind) \<Rightarrow> ('h \<Rightarrow> string) \<Rightarrow> nat option \<Rightarrow> nat
    \<Rightarrow> 'h accelerator_profile list \<Rightarrow> hardware_inventory \<Rightarrow> hardware_inventory" where
  "inventory_loop kind dbg parallelism i [] hi = hi"
| "inventory_loop kind dbg parallelism i (profile # ps) hi =
     (if kind (pf_accelerator profile) = HwCpu
      then inventory_loop kind dbg parallelism (Suc i) ps
        (hi\<lparr>inv_memory_total_mb := pf_memory_bytes profile div (1024 * 1024),
            inv_cpu_cores := (case parallelism of None \<Rightarrow> 1 | Some p \<Rightarrow> p)\<rparr>)
      else inventory_loop kind dbg parallelism (Suc i) ps
        (hi\<lparr>inv_devices := inv_devices hi @ [profile_device kind dbg i profile]\<rparr>))"

definition inventory_from_hwaccel :: "('h \<Rightarrow> hw_kind) \<Rightarrow> ('h \<Rightarrow> string) \<Rightarrow> nat option
    \<Rightarrow> 'h accelerator_profile list \<Rightarrow> hardware_inventory" where
  "inventory_from_hwaccel kind dbg parallelism profiles =
     inventory_loop kind dbg parallelism 0 profiles (hardware_inventory_new 0 0 [])"

section \<open>Training memory\<close>

record training_memory_estimate =
  tm_model_gb :: rat
  tm_optimizer_gb :: rat
  tm_activation_gb :: rat
  tm_total_gb :: rat

text \<open>\<open>est\<close> is the crate's \<open>estimate_training_memory\<close>.\<close>

definition training_estimate ::
    "(u64 \<Rightarrow> 'm \<Rightarrow> 't \<Rightarrow> rat \<times> rat \<times> rat \<times> rat) \<Rightarrow> u64 \<Rightarrow> 'm \<Rightarrow> 't \<Rightarrow> training_memory_estimate" where
  "training_estimate est model_params_millions meth target =
     (let (model_gb, optimizer_gb, activation_gb, total_gb) = est model_params_millions meth target
      in \<lparr> tm_model_gb = model_gb, tm_optimizer_gb = optimizer_gb, tm_activation_gb = activation_gb,
           tm_total_gb = total_gb \<rparr>)"

definition fits_in :: "training_memory_estimate \<Rightarrow> hardware_inventory \<Rightarrow> bool" where
  "fits_in t inventory \<longleftrightarrow>
     tm_total_gb t \<le> sum_list (map (\<lambda>d. of_nat (unat (dev_memory_total_mb d)) / 1024) (inv_devices inventory))"

text \<open>\<open>x as u64\<close> for a float: towards zero, saturating at both ends.\<close>

definition float_as_u64 :: "rat \<Rightarrow> u64" where
  "float_as_u64 x = (if x < 0 then 0 else if 2 ^ 64 \<le> \<lfloor>x\<rfloor> then - 1 else of_int \<lfloor>x\<rfloor>)"

definition total_bytes :: "training_memory_estimate \<Rightarrow> u64" where
  "total_bytes t = float_as_u64 (tm_total_gb t * 1024 * 1024 * 1024)"

section \<open>Properties\<close>

lemma inventory_loop_devices:
  "inv_devices (inventory_loop kind dbg par i ps hi) = inv_devices hi @
     map (\<lambda>(j, p). profile_device kind dbg j p)
       (filter (\<lambda>(j, p). kind (pf_accelerator p) \<noteq> HwCpu) (List.enumerate i ps))"
  by (induction kind dbg par i ps hi rule: inventory_loop.induct) simp_all

lemma inventory_loop_cores:
  "inv_cpu_cores (inventory_loop kind dbg par i ps hi) =
     (if list_ex (\<lambda>p. kind (pf_accelerator p) = HwCpu) ps then (case par of None \<Rightarrow> 1 | Some p \<Rightarrow> p)
      else inv_cpu_cores hi)"
  by (induction kind dbg par i ps hi rule: inventory_loop.induct) simp_all

text \<open>Every profile that is not the CPU becomes exactly one device, in order, under its position
  among all profiles; the core count is known exactly when a CPU profile was found.\<close>

theorem inventory_from_hwaccel_exact:
  "inv_devices (inventory_from_hwaccel kind dbg par ps) =
     map (\<lambda>(j, p). profile_device kind dbg j p)
       (filter (\<lambda>(j, p). kind (pf_accelerator p) \<noteq> HwCpu) (List.enumerate 0 ps)) \<and>
   inv_cpu_cores (inventory_from_hwaccel kind dbg par ps) =
     (if list_ex (\<lambda>p. kind (pf_accelerator p) = HwCpu) ps then (case par of None \<Rightarrow> 1 | Some p \<Rightarrow> p) else 0)"
  by (simp add: inventory_from_hwaccel_def inventory_loop_devices inventory_loop_cores hardware_inventory_new_def)

text \<open>The indices of the devices are distinct, so that an index names one device.\<close>

theorem inventory_indices_distinct:
  "distinct (map dev_index (inv_devices (inventory_from_hwaccel kind dbg par ps)))"
proof -
  have "map dev_index (inv_devices (inventory_from_hwaccel kind dbg par ps))
      = map fst (filter (\<lambda>(j, p). kind (pf_accelerator p) \<noteq> HwCpu) (List.enumerate 0 ps))"
    by (auto simp: inventory_from_hwaccel_exact profile_device_def)
  moreover have "distinct (map fst (List.enumerate 0 ps))" by simp
  ultimately show ?thesis by (metis distinct_map_filter)
qed

text \<open>With the CPU profile first, as the crate lists it, the first accelerator has index one.\<close>

theorem first_device_index:
  assumes "kind (pf_accelerator c) = HwCpu" and "kind (pf_accelerator g) \<noteq> HwCpu"
  shows "map dev_index (inv_devices (inventory_from_hwaccel kind dbg par [c, g])) = [1]"
  using assms by (simp add: inventory_from_hwaccel_exact profile_device_def)

lemma float_as_u64_exact: "0 \<le> x \<Longrightarrow> x < 2 ^ 64 \<Longrightarrow> int (unat (float_as_u64 x)) = \<lfloor>x\<rfloor>"
proof -
  assume x: "0 \<le> x" "x < 2 ^ 64"
  then have f: "0 \<le> \<lfloor>x\<rfloor>" "\<lfloor>x\<rfloor> < 2 ^ 64" by (simp_all add: floor_less_iff)
  then have "float_as_u64 x = of_int \<lfloor>x\<rfloor>" using x(1) by (simp add: float_as_u64_def)
  moreover have "uint (of_int \<lfloor>x\<rfloor> :: u64) = \<lfloor>x\<rfloor>" using f by (simp add: unsigned_of_int take_bit_int_eq_self)
  ultimately show ?thesis by simp
qed

text \<open>Up to sixteen exabytes \<open>total_bytes\<close> is the estimate in whole bytes.\<close>

theorem total_bytes_exact:
  assumes "0 \<le> tm_total_gb t" and "tm_total_gb t < 2 ^ 34"
  shows "int (unat (total_bytes t)) = \<lfloor>tm_total_gb t * 2 ^ 30\<rfloor>"
proof -
  define x where "x = tm_total_gb t * 2 ^ 30"
  have "0 \<le> x" "x < 2 ^ 64" using assms by (simp_all add: x_def)
  moreover have "total_bytes t = float_as_u64 x" by (simp add: total_bytes_def x_def mult.commute)
  ultimately show ?thesis unfolding x_def [symmetric] by (simp only: float_as_u64_exact)
qed

end
