(* ===== verification/Kavach.thy ===== *)
theory Kavach
  imports Sandbox
begin

text \<open>
  Running a command through the kavach crate, the second half of \<open>sandbox/kavach_bridge.rs\<close>. What
  the crate answers may depend on everything it was asked before: the answers are functions of
  the calls so far, and \<open>execute\<close> returns its result with the calls it made.
\<close>

datatype kavach_state = SbRunning | SbStopped | SbDestroyed

datatype kavach_call = KCreate kavach_config | KTransition kavach_state | KExec string

record exec_result =
  xr_exit_code :: "32 word"
  xr_stdout :: string
  xr_stderr :: string
  xr_duration_ms :: u64
  xr_timed_out :: bool

text \<open>The fields of \<open>kavach::SandboxPolicy\<close> that the code sets, and the others as one field.\<close>

record 'x kavach_policy =
  kp_network_enabled :: bool
  kp_seccomp_enabled :: bool
  kp_seccomp_profile :: "string option"
  kp_rest :: 'x

datatype scan_verdict = VerdictPass | VerdictBlock

record ('x, 'sc) kavach_ops =
  kv_default_policy :: externalization_policy
  kv_basic :: "'x kavach_policy"
  kv_score_backend :: "kavach_backend \<Rightarrow> 'x kavach_policy \<Rightarrow> 'sc"
  kv_create :: "kavach_config \<Rightarrow> string + unit"
  kv_transition :: "kavach_call list \<Rightarrow> kavach_state \<Rightarrow> string + unit"
  kv_exec :: "kavach_call list \<Rightarrow> string \<Rightarrow> string + exec_result"
  kv_gate :: "exec_result \<Rightarrow> externalization_policy \<Rightarrow> string + exec_result"

record 'sc kavach_tool_result =
  kt_output :: string
  kt_stderr :: string
  kt_exit_code :: "32 word"
  kt_timed_out :: bool
  kt_duration_ms :: u64
  kt_strength :: 'sc
  kt_scan_verdict :: "scan_verdict option"

definition to_kavach_policy :: "('x, 'sc) kavach_ops \<Rightarrow> sandbox_policy \<Rightarrow> 'x kavach_policy" where
  "to_kavach_policy ops p =
     (let kp = (kv_basic ops)\<lparr>kp_network_enabled := sp_needs_network p\<rparr>
      in if IsoProcess \<le> effective_isolation p
         then kp\<lparr>kp_seccomp_enabled := True, kp_seccomp_profile := Some ''basic''\<rparr>
         else kp)"

definition strength_for_policy :: "('x, 'sc) kavach_ops \<Rightarrow> sandbox_policy \<Rightarrow> 'sc" where
  "strength_for_policy ops p =
     kv_score_backend ops (map_backend (effective_isolation p)) (to_kavach_policy ops p)"

text \<open>The errors of the two last transitions are logged and dropped, so their answers do not
  matter.\<close>

definition kavach_execute :: "('x, 'sc) kavach_ops \<Rightarrow> string \<Rightarrow> sandbox_policy \<Rightarrow> string option
    \<Rightarrow> (string + 'sc kavach_tool_result) \<times> kavach_call list" where
  "kavach_execute ops command p agent_id =
     (let config = build_config (kv_default_policy ops) p agent_id;
          strength = strength_for_policy ops p
      in case kv_create ops config of
           Inl e \<Rightarrow> (Inl (''kavach create failed: '' @ e), [KCreate config])
         | Inr _ \<Rightarrow>
             (let calls = [KCreate config]
              in case kv_transition ops calls SbRunning of
                   Inl e \<Rightarrow> (Inl (''kavach start failed: '' @ e), calls @ [KTransition SbRunning])
                 | Inr _ \<Rightarrow>
                     (let calls = calls @ [KTransition SbRunning];
                          result = kv_exec ops calls command;
                          calls = calls @ [KExec command, KTransition SbStopped, KTransition SbDestroyed]
                      in case result of
                           Inl e \<Rightarrow> (Inl (''kavach exec failed: '' @ e), calls)
                         | Inr r \<Rightarrow>
                             (Inr \<lparr> kt_output = xr_stdout r, kt_stderr = xr_stderr r,
                                kt_exit_code = xr_exit_code r, kt_timed_out = xr_timed_out r,
                                kt_duration_ms = xr_duration_ms r, kt_strength = strength,
                                kt_scan_verdict = None \<rparr>, calls))))"

definition scan_output :: "('x, 'sc) kavach_ops \<Rightarrow> string \<Rightarrow> scan_verdict" where
  "scan_output ops output =
     (let result = \<lparr> xr_exit_code = 0, xr_stdout = output, xr_stderr = [], xr_duration_ms = 0,
            xr_timed_out = False \<rparr>
      in case kv_gate ops result (kv_default_policy ops) of
           Inr _ \<Rightarrow> VerdictPass
         | Inl e \<Rightarrow> VerdictBlock)"

section \<open>Properties\<close>

text \<open>The sandbox that is scored is the one that is created: the same backend, the same network
  access and the same seccomp profile, when the crate's basic policy sets no profile itself.\<close>

theorem scored_policy_matches_config:
  assumes "kp_seccomp_profile (kv_basic ops) = None"
  shows "kp_network_enabled (to_kavach_policy ops p) = kc_network (build_config d p a) \<and>
    kp_seccomp_profile (to_kavach_policy ops p) = kc_seccomp (build_config d p a)"
  using assms by (simp add: to_kavach_policy_def build_config_def Let_def)

text \<open>A sandbox that was started is stopped and then destroyed, also when the command fails, and
  the command runs only in a started sandbox.\<close>

theorem kavach_execute_lifecycle:
  "snd (kavach_execute ops command p agent_id) \<in>
     (let c = KCreate (build_config (kv_default_policy ops) p agent_id); r = KTransition SbRunning
      in {[c], [c, r], [c, r, KExec command, KTransition SbStopped, KTransition SbDestroyed]}) \<and>
   (KExec command \<in> set (snd (kavach_execute ops command p agent_id)) \<longleftrightarrow>
     kv_create ops (build_config (kv_default_policy ops) p agent_id) = Inr () \<and>
     kv_transition ops [KCreate (build_config (kv_default_policy ops) p agent_id)] SbRunning = Inr ())"
  by (auto simp: kavach_execute_def Let_def split: sum.splits)

text \<open>A successful execution carries the output of the command, and never a verdict of the
  externalization gate, although the configuration always enables the gate.\<close>

theorem kavach_execute_no_verdict:
  assumes "fst (kavach_execute ops command p agent_id) = Inr t"
  shows "kt_scan_verdict t = None \<and> (\<exists>h r. kv_exec ops h command = Inr r \<and> kt_output t = xr_stdout r)"
  using assms by (fastforce simp: kavach_execute_def Let_def split: sum.splits)

end
