(* ===== verification/K8s_Crd.thy ===== *)
theory K8s_Crd
  imports Core_Types
begin

text \<open>
  The custom resources of \<open>definitions/k8s_crd.rs\<close>: the structures, and the conversions from and
  to JSON values that their serde attributes ask for (camel-case names, defaults for missing
  fields, unknown fields ignored). A conversion that serde refuses is \<open>None\<close>.
\<close>

section \<open>Data\<close>

record object_meta =
  om_name :: string
  om_namespace :: string
  om_labels :: "(string, string) hmap"
  om_annotations :: "(string, string) hmap"

record agent_crd_spec =
  ac_agent_key :: string
  ac_name :: string
  ac_role :: string
  ac_goal :: string
  ac_tools :: "string list"
  ac_complexity :: string
  ac_domain :: "string option"

record task_crd_spec =
  tc_description :: string
  tc_expected_output :: "string option"
  tc_priority :: string
  tc_risk :: string
  tc_dependencies :: "nat list"

record crew_crd_spec =
  cc_name :: string
  cc_agents :: "agent_crd_spec list"
  cc_tasks :: "task_crd_spec list"
  cc_process_mode :: string
  cc_trust_level :: string

record crew_crd =
  crd_api_version :: string
  crd_kind :: string
  crd_metadata :: object_meta
  crd_spec :: crew_crd_spec

definition crd_default_process_mode :: string where
  "crd_default_process_mode = ''sequential''"

definition crd_default_trust :: string where
  "crd_default_trust = ''basic''"

definition crd_default_complexity :: string where
  "crd_default_complexity = ''medium''"

definition crd_default_priority :: string where
  "crd_default_priority = ''normal''"

definition crd_default_risk :: string where
  "crd_default_risk = ''low''"

section \<open>From JSON\<close>

text \<open>Fields of an object: required, with a default for a missing one, and the conversions of
  strings, indices (\<open>usize\<close> on a 64-bit target), sequences, options and string maps.\<close>

definition req_field :: "string \<Rightarrow> (json \<Rightarrow> 'a option) \<Rightarrow> (string \<times> json) list \<Rightarrow> 'a option" where
  "req_field k f m = (case map_of m k of None \<Rightarrow> None | Some v \<Rightarrow> f v)"

definition def_field :: "string \<Rightarrow> 'a \<Rightarrow> (json \<Rightarrow> 'a option) \<Rightarrow> (string \<times> json) list \<Rightarrow> 'a option" where
  "def_field k d f m = (case map_of m k of None \<Rightarrow> Some d | Some v \<Rightarrow> f v)"

fun de_usize :: "json \<Rightarrow> nat option" where
  "de_usize (JNumber q) = (if 0 \<le> q \<and> of_int \<lfloor>q\<rfloor> = q \<and> q < 2 ^ 64 then Some (nat \<lfloor>q\<rfloor>) else None)"
| "de_usize _ = None"

fun opt_all :: "('a \<Rightarrow> 'b option) \<Rightarrow> 'a list \<Rightarrow> 'b list option" where
  "opt_all f [] = Some []"
| "opt_all f (x # xs) = (case f x of None \<Rightarrow> None | Some y \<Rightarrow> map_option (Cons y) (opt_all f xs))"

fun de_vec :: "(json \<Rightarrow> 'a option) \<Rightarrow> json \<Rightarrow> 'a list option" where
  "de_vec f (JArray xs) = opt_all f xs"
| "de_vec f _ = None"

fun de_option :: "(json \<Rightarrow> 'a option) \<Rightarrow> json \<Rightarrow> 'a option option" where
  "de_option f JNull = Some None"
| "de_option f v = map_option Some (f v)"

fun de_string_map :: "json \<Rightarrow> (string, string) hmap option" where
  "de_string_map (JObject m) = opt_all (\<lambda>(k, v). map_option (Pair k) (as_str v)) m"
| "de_string_map _ = None"

fun de_object_meta :: "json \<Rightarrow> object_meta option" where
  "de_object_meta (JObject m) =
     Option.bind (def_field ''name'' [] as_str m) (\<lambda>name.
     Option.bind (def_field ''namespace'' [] as_str m) (\<lambda>namespace.
     Option.bind (def_field ''labels'' hm_empty de_string_map m) (\<lambda>labels.
     Option.bind (def_field ''annotations'' hm_empty de_string_map m) (\<lambda>annotations.
       Some \<lparr> om_name = name, om_namespace = namespace, om_labels = labels, om_annotations = annotations \<rparr>))))"
| "de_object_meta _ = None"

fun de_agent :: "json \<Rightarrow> agent_crd_spec option" where
  "de_agent (JObject m) =
     Option.bind (req_field ''agentKey'' as_str m) (\<lambda>agent_key.
     Option.bind (req_field ''name'' as_str m) (\<lambda>name.
     Option.bind (req_field ''role'' as_str m) (\<lambda>role.
     Option.bind (req_field ''goal'' as_str m) (\<lambda>goal.
     Option.bind (def_field ''tools'' [] (de_vec as_str) m) (\<lambda>tools.
     Option.bind (def_field ''complexity'' crd_default_complexity as_str m) (\<lambda>complexity.
     Option.bind (def_field ''domain'' None (de_option as_str) m) (\<lambda>domain.
       Some \<lparr> ac_agent_key = agent_key, ac_name = name, ac_role = role, ac_goal = goal, ac_tools = tools,
              ac_complexity = complexity, ac_domain = domain \<rparr>)))))))"
| "de_agent _ = None"

fun de_task :: "json \<Rightarrow> task_crd_spec option" where
  "de_task (JObject m) =
     Option.bind (req_field ''description'' as_str m) (\<lambda>description.
     Option.bind (def_field ''expectedOutput'' None (de_option as_str) m) (\<lambda>expected_output.
     Option.bind (def_field ''priority'' crd_default_priority as_str m) (\<lambda>priority.
     Option.bind (def_field ''risk'' crd_default_risk as_str m) (\<lambda>risk.
     Option.bind (def_field ''dependencies'' [] (de_vec de_usize) m) (\<lambda>dependencies.
       Some \<lparr> tc_description = description, tc_expected_output = expected_output, tc_priority = priority,
              tc_risk = risk, tc_dependencies = dependencies \<rparr>)))))"
| "de_task _ = None"

fun de_crew_spec :: "json \<Rightarrow> crew_crd_spec option" where
  "de_crew_spec (JObject m) =
     Option.bind (req_field ''name'' as_str m) (\<lambda>name.
     Option.bind (def_field ''agents'' [] (de_vec de_agent) m) (\<lambda>agents.
     Option.bind (def_field ''tasks'' [] (de_vec de_task) m) (\<lambda>tasks.
     Option.bind (def_field ''processMode'' crd_default_process_mode as_str m) (\<lambda>process_mode.
     Option.bind (def_field ''trustLevel'' crd_default_trust as_str m) (\<lambda>trust_level.
       Some \<lparr> cc_name = name, cc_agents = agents, cc_tasks = tasks, cc_process_mode = process_mode,
              cc_trust_level = trust_level \<rparr>)))))"
| "de_crew_spec _ = None"

fun de_crew_crd :: "json \<Rightarrow> crew_crd option" where
  "de_crew_crd (JObject m) =
     Option.bind (req_field ''apiVersion'' as_str m) (\<lambda>api_version.
     Option.bind (req_field ''kind'' as_str m) (\<lambda>kind.
     Option.bind (req_field ''metadata'' de_object_meta m) (\<lambda>metadata.
     Option.bind (req_field ''spec'' de_crew_spec m) (\<lambda>spec.
       Some \<lparr> crd_api_version = api_version, crd_kind = kind, crd_metadata = metadata, crd_spec = spec \<rparr>))))"
| "de_crew_crd _ = None"

section \<open>To JSON\<close>

definition ser_string_map :: "(string, string) hmap \<Rightarrow> json" where
  "ser_string_map m = JObject (map (\<lambda>(k, v). (k, JString v)) m)"

definition ser_opt_string :: "string option \<Rightarrow> json" where
  "ser_opt_string x = (case x of None \<Rightarrow> JNull | Some s \<Rightarrow> JString s)"

definition ser_object_meta :: "object_meta \<Rightarrow> json" where
  "ser_object_meta o1 = JObject [(''name'', JString (om_name o1)), (''namespace'', JString (om_namespace o1)),
     (''labels'', ser_string_map (om_labels o1)), (''annotations'', ser_string_map (om_annotations o1))]"

definition ser_agent :: "agent_crd_spec \<Rightarrow> json" where
  "ser_agent a = JObject [(''agentKey'', JString (ac_agent_key a)), (''name'', JString (ac_name a)),
     (''role'', JString (ac_role a)), (''goal'', JString (ac_goal a)), (''tools'', JArray (map JString (ac_tools a))),
     (''complexity'', JString (ac_complexity a)), (''domain'', ser_opt_string (ac_domain a))]"

definition ser_task :: "task_crd_spec \<Rightarrow> json" where
  "ser_task t = JObject [(''description'', JString (tc_description t)),
     (''expectedOutput'', ser_opt_string (tc_expected_output t)), (''priority'', JString (tc_priority t)),
     (''risk'', JString (tc_risk t)), (''dependencies'', JArray (map (\<lambda>i. JNumber (of_nat i)) (tc_dependencies t)))]"

definition ser_crew_spec :: "crew_crd_spec \<Rightarrow> json" where
  "ser_crew_spec c = JObject [(''name'', JString (cc_name c)), (''agents'', JArray (map ser_agent (cc_agents c))),
     (''tasks'', JArray (map ser_task (cc_tasks c))), (''processMode'', JString (cc_process_mode c)),
     (''trustLevel'', JString (cc_trust_level c))]"

definition ser_crew_crd :: "crew_crd \<Rightarrow> json" where
  "ser_crew_crd c = JObject [(''apiVersion'', JString (crd_api_version c)), (''kind'', JString (crd_kind c)),
     (''metadata'', ser_object_meta (crd_metadata c)), (''spec'', ser_crew_spec (crd_spec c))]"

section \<open>Round trip\<close>

lemmas field_defs = req_field_def def_field_def

lemma opt_all_map: "(\<And>x. x \<in> set xs \<Longrightarrow> f (g x) = Some (h x)) \<Longrightarrow> opt_all f (map g xs) = Some (map h xs)"
  by (induction xs) auto

lemma opt_all_inverse: "(\<And>x. x \<in> set xs \<Longrightarrow> f (g x) = Some x) \<Longrightarrow> opt_all f (map g xs) = Some xs"
  using opt_all_map [of xs f g "\<lambda>x. x"] by simp

lemma de_ser_string_map [simp]: "de_string_map (ser_string_map m) = Some m"
  by (auto simp: ser_string_map_def intro: opt_all_inverse)

lemma de_ser_opt_string [simp]: "de_option as_str (ser_opt_string x) = Some x"
  by (cases x) (simp_all add: ser_opt_string_def)

lemma de_ser_strings [simp]: "opt_all as_str (map JString xs) = Some xs"
  by (rule opt_all_inverse) simp

lemma de_ser_meta [simp]: "de_object_meta (ser_object_meta m) = Some m"
  by (simp add: ser_object_meta_def field_defs)

lemma de_ser_agent [simp]: "de_agent (ser_agent a) = Some a"
  by (simp add: ser_agent_def field_defs)

lemma de_usize_of_nat: "i < 2 ^ 64 \<Longrightarrow> de_usize (JNumber (of_nat i)) = Some i"
proof -
  assume "i < 2 ^ 64"
  then have "(of_nat i :: rat) < of_nat (2 ^ 64)" by (simp only: of_nat_less_iff)
  then show ?thesis by simp
qed

lemma de_ser_task: "\<forall>i \<in> set (tc_dependencies t). i < 2 ^ 64 \<Longrightarrow> de_task (ser_task t) = Some t"
  by (simp add: ser_task_def field_defs opt_all_inverse de_usize_of_nat del: de_usize.simps)

text \<open>A resource that is written and read again is the same resource, provided that its
  dependency indices fit into 64 bits, as every \<open>usize\<close> does.\<close>

theorem crew_crd_round_trip:
  assumes "\<forall>t \<in> set (cc_tasks (crd_spec c)). \<forall>i \<in> set (tc_dependencies t). i < 2 ^ 64"
  shows "de_crew_crd (ser_crew_crd c) = Some c"
proof -
  have "opt_all de_task (map ser_task (cc_tasks (crd_spec c))) = Some (cc_tasks (crd_spec c))"
    using assms by (intro opt_all_inverse de_ser_task) auto
  moreover have "opt_all de_agent (map ser_agent (cc_agents (crd_spec c))) = Some (cc_agents (crd_spec c))"
    by (rule opt_all_inverse) simp
  ultimately have "de_crew_spec (ser_crew_spec (crd_spec c)) = Some (crd_spec c)"
    by (simp add: ser_crew_spec_def field_defs)
  then show ?thesis by (simp add: ser_crew_crd_def field_defs)
qed

text \<open>The smallest resource: everything that has a default may be missing. The API version and
  the kind are not checked.\<close>

theorem minimal_crew_crd:
  "de_crew_crd (JObject [(''apiVersion'', JString v), (''kind'', JString k), (''metadata'', JObject []),
     (''spec'', JObject [(''name'', JString n)])]) =
   Some \<lparr> crd_api_version = v, crd_kind = k,
     crd_metadata = \<lparr> om_name = [], om_namespace = [], om_labels = hm_empty, om_annotations = hm_empty \<rparr>,
     crd_spec = \<lparr> cc_name = n, cc_agents = [], cc_tasks = [], cc_process_mode = ''sequential'',
       cc_trust_level = ''basic'' \<rparr> \<rparr>"
  by (simp add: field_defs crd_default_process_mode_def crd_default_trust_def)

end
