(* ===== verification/Tool_Sdk.thy ===== *)
theory Tool_Sdk
  imports Sandbox_Tools
begin

text \<open>
  The guest side of a WASM tool, the crate \<open>sdk/agnosai-tool-sdk\<close>, and its composition with the
  host side of \<open>tools/wasm_tool.rs\<close>. \<open>from_str\<close> and \<open>to_string\<close> are serde_json's parser and printer of
  JSON texts, \<open>de_str\<close> the wording of its errors; what the derived \<open>Deserialize\<close> and \<open>Serialize\<close>
  make of a JSON value is modelled. \<open>run_tool\<close> is the text that the guest leaves on its standard
  output (\<open>let _ =\<close> drops the error of writing it).
\<close>

record tool_result =
  tr_success :: bool
  tr_result :: "json option"
  tr_error :: "string option"


definition result_err :: "string \<Rightarrow> tool_result" where
  "result_err msg = \<lparr> tr_success = False, tr_result = None, tr_error = Some msg \<rparr>"

definition sdk_get :: "string \<Rightarrow> (string, json) hmap \<Rightarrow> json option" where
  "sdk_get key parameters = hm_get parameters key"


definition sdk_get_bool :: "string \<Rightarrow> (string, json) hmap \<Rightarrow> bool option" where
  "sdk_get_bool key parameters = Option.bind (hm_get parameters key) as_bool"

text \<open>The derived serialization: \<open>skip_serializing_if\<close> leaves out the absent fields.\<close>

definition result_value :: "tool_result \<Rightarrow> json" where
  "result_value r =
     JObject ([(''success'', JBool (tr_success r))] @
       (case tr_result r of None \<Rightarrow> [] | Some v \<Rightarrow> [(''result'', v)]) @
       (case tr_error r of None \<Rightarrow> [] | Some e \<Rightarrow> [(''error'', JString e)]))"

definition write_result :: "(json \<Rightarrow> string option) \<Rightarrow> tool_result \<Rightarrow> string" where
  "write_result to_string r =
     (case to_string (result_value r) of
        Some json \<Rightarrow> json
      | None \<Rightarrow> ''{\"success\":false,\"error\":\"failed to serialize result\"}'')"

text \<open>The derived deserialization of the input: the fields in the order of the text, unknown ones
  ignored, \<open>parameters\<close> required once and an object, whose later pairs replace earlier ones of the
  same name; a structure is also read from an array of its fields.\<close>

datatype de_error = MissingField string | DuplicateField string | InvalidType | InvalidLength | TrailingCharacters

fun de_parameters :: "json \<Rightarrow> de_error + (string, json) hmap" where
  "de_parameters (JObject ps) = Inr (fold (\<lambda>(k, v). hm_insert k v) ps hm_empty)"
| "de_parameters _ = Inl InvalidType"

fun de_input_fields :: "(string \<times> json) list \<Rightarrow> (string, json) hmap option \<Rightarrow> de_error + (string, json) hmap" where
  "de_input_fields [] parameters =
     (case parameters of None \<Rightarrow> Inl (MissingField ''parameters'') | Some ps \<Rightarrow> Inr ps)"
| "de_input_fields ((k, v) # fs) parameters =
     (if k = ''parameters''
      then if parameters \<noteq> None then Inl (DuplicateField ''parameters'')
           else case de_parameters v of Inl e \<Rightarrow> Inl e | Inr ps \<Rightarrow> de_input_fields fs (Some ps)
      else de_input_fields fs parameters)"

fun de_tool_input :: "json \<Rightarrow> de_error + (string, json) hmap" where
  "de_tool_input (JObject fs) = de_input_fields fs None"
| "de_tool_input (JArray []) = Inl InvalidLength"
| "de_tool_input (JArray (v # vs)) =
     (case de_parameters v of Inl e \<Rightarrow> Inl e | Inr ps \<Rightarrow> if vs = [] then Inr ps else Inl TrailingCharacters)"
| "de_tool_input _ = Inl InvalidType"

definition run_tool :: "(string \<Rightarrow> string + json) \<Rightarrow> (de_error \<Rightarrow> string) \<Rightarrow> (json \<Rightarrow> string option)
    \<Rightarrow> ((string, json) hmap \<Rightarrow> tool_result) \<Rightarrow> string + string \<Rightarrow> string" where
  "run_tool from_str de_str to_string handler stdin =
     (case stdin of
        Inl e \<Rightarrow> write_result to_string (result_err (''failed to read stdin: '' @ e))
      | Inr buf \<Rightarrow>
          if str_trim buf = [] then write_result to_string (handler hm_empty)
          else case (case from_str buf of Inl e \<Rightarrow> Inl e | Inr v \<Rightarrow> map_sum de_str id (de_tool_input v)) of
            Inl e \<Rightarrow> write_result to_string (result_err (''invalid input JSON: '' @ e))
          | Inr input \<Rightarrow> write_result to_string (handler input))"

section \<open>Host and guest\<close>












text \<open>An input that is JSON but not an envelope is answered with an error, not passed to the handler.\<close>

theorem envelope_required:
  assumes "str_trim buf \<noteq> []" and "from_str buf = Inr (JObject fs)" and "''parameters'' \<notin> fst ` set fs"
  shows "run_tool from_str de_str to_string handler (Inr buf) =
    write_result to_string (result_err (''invalid input JSON: '' @ de_str (MissingField ''parameters'')))"
proof -
  have "de_input_fields fs None = Inl (MissingField ''parameters'')"
    using assms(3) by (induction fs) auto
  with assms(1,2) show ?thesis by (simp add: run_tool_def)
qed

text \<open>A result that is successful and carries no value (which neither constructor builds) is not
  \<open>null\<close> for the caller: the host falls back to the whole object.\<close>

theorem success_without_result:
  "parsed_output (result_value \<lparr> tr_success = True, tr_result = None, tr_error = None \<rparr>)
     = tool_ok (JObject [(''success'', JBool True)])"
  by (simp add: parsed_output_def result_value_def json_field_def)

end
