(* ===== verification/Spec2Isabelle.thy ===== *)
theory Spec2Isabelle
  imports
    Scheduler Scoring Budget PubSub Approval Memory Plan_Cache Tenants Ipc Retry
    Learning Replay Output_Filter Crew_Routes Server Metrics Sandbox_Tools Durable_State
    Fleet_Placement Fleet_Gpu Fleet_Federation Fleet_Relay Fleet_Coordinator Fleet_Planning
    Inference_Queue Hot_Config Server_Startup Hardware_Detection Kavach K8s_Crd Tool_Sdk
begin

text \<open>
  AgnosAI runs crews of language-model agents: a crew is a set of tasks with dependencies, each
  task is given to the agent that scores best for it, and the crew is executed in one of four
  modes behind an HTTP server, on one machine or over a fleet. This development models the Rust
  implementation under \<open>rust-old/src\<close> and the tool SDK under \<open>sdk\<close>, and proves what its parts
  promise. File names below are relative to \<open>rust-old/src\<close>.

  \<^bold>\<open>The parts and how they interact.\<close> A request enters through the router (\<open>server/mod.rs\<close>), whose
  authentication layer (\<open>server/auth.rs\<close>) guards the API. The crew route checks the request,
  including a cycle search over the task indices, builds the crew and calls the orchestrator
  (\<open>orchestrator/orchestrator.rs\<close>), which admits it under a semaphore, registers its state and its
  cancellation token, runs it with a timeout through the crew runner
  (\<open>orchestrator/crew_runner.rs\<close>) and stores the outcome. The runner orders tasks with the
  scheduler (\<open>orchestrator/scheduler.rs\<close>), ranks agents (\<open>orchestrator/scoring.rs\<close>), spawns tasks,
  asks the model through the routing matrix and the retry loop (\<open>llm/\<close>), validates output against
  a schema and publishes events on the bus (\<open>server/sse.rs\<close>). Tools (\<open>tools/\<close>) are called over
  JSON-RPC and may run in a sandbox (\<open>sandbox/\<close>). The fleet part (\<open>fleet/\<close>) places work on nodes,
  keeps barriers between them and relays messages.

  \<^bold>\<open>Theories and sources.\<close>
  \<^item> Foundations: Prelude (types, hash maps, sorting, strings, the generic locales), Resource and
    Hardware_Detection (\<open>core/resource.rs\<close>), Core_Types (\<open>core/\<close>), Text_Numbers (numbers in text).
  \<^item> Scheduling: Kahn, Scheduler (\<open>orchestrator/scheduler.rs\<close>), Ranking, Scoring (\<open>orchestrator/scoring.rs\<close>,
    \<open>orchestrator/hierarchical.rs\<close>).
  \<^item> Execution: Task_Execution, Join_Set, Crew_Runner, Crew_Modes, Crew_Dag, Crew_Life
    (\<open>orchestrator/crew_runner.rs\<close>), Orchestrator (\<open>orchestrator/orchestrator.rs\<close>), Event_Bus
    (\<open>server/sse.rs\<close>), Approval, Budget, Memory, Plan_Cache, PubSub, Tenants, Ipc, Durable_State,
    Output_Validation (the files of these names under \<open>orchestrator/\<close>; Tenants is \<open>multi_tenant.rs\<close>).
  \<^item> Models: Llm_Router, Retry, Inference_Queue (\<open>llm/\<close>), Learning and Replay (\<open>learning/\<close>).
  \<^item> Server: Server_Security (\<open>server/ssrf.rs\<close>, \<open>auth.rs\<close>, \<open>rate_limit.rs\<close>), Prompt_Guard, Output_Filter,
    Metrics (\<open>server/prometheus.rs\<close>), Hot_Config, Crew_Routes, Server (\<open>server/mod.rs\<close>, \<open>state.rs\<close>, the
    other routes and \<open>main.rs\<close>), Server_Startup.
  \<^item> Tools and sandboxes: Tools, Builtin_Tools, Audit_Tools, Tool_Service (\<open>tools/\<close>), Sandbox, Kavach,
    Sandbox_Tools (\<open>sandbox/\<close> and the sandboxed tools), Tool_Sdk (\<open>sdk/agnosai-tool-sdk\<close>, outside
    \<open>rust-old\<close>).
  \<^item> Definitions: Definitions, Packaging, K8s_Crd (\<open>definitions/\<close>).
  \<^item> Fleet: Liveness, Fleet_Registry, Fleet_Placement, Fleet_Gpu, Fleet_State, Fleet_Federation,
    Fleet_Relay, Fleet_Coordinator, Fleet_Planning (\<open>fleet/\<close>).

  \<^bold>\<open>How code becomes definitions.\<close> A struct is a record, an enum a datatype, a function a
  definition of the same name where that is free, with every early return and error as a branch.
  State is passed explicitly. \<open>Result\<close> is a sum with the error on the left; \<open>None\<close> in an option
  result that the code does not have is a panic or a run that never returns. Sized integers are
  words where they can wrap (the release profile has no overflow checks) and \<open>usize\<close> is \<open>nat\<close>;
  UUIDs are 128-bit words. \<open>f64\<close> values are exact rationals, so rounding, infinities and NaN are not
  modelled. Strings are lists of UTF-8 bytes, and slicing inside a character is a panic. Hash maps
  are association lists whose order is that of insertion; no property depends on it beyond what
  the code fixes by sorting. Clocks, random draws, fresh identifiers, scheduling choices and the
  functions of other crates (serde_json, axum, tokio channels, hoosh, majra, kavach, bote, bhava, zip,
  wasmtime, ai-hwaccel) are arguments; a property that relies on one of them names what it relies
  on as a hypothesis. The release profile aborts on a panic, so the join errors of spawned tasks in
  the model are those of builds that unwind. Logging is left out.

  \<^bold>\<open>Concurrency.\<close> Spawned tasks are phases moved by an arbitrary choice function (Join_Set), so a
  statement for every choice covers every interleaving. The orchestrator (\<open>orch_step\<close>), the WASM
  epoch clock (\<open>epoch_step\<close>) and the inference queue (\<open>iq_exec\<close>, \<open>iq_reachable\<close>) are step relations
  over the atomic steps of their callers and workers, with invariants by rule induction.

  \<^bold>\<open>Interfaces.\<close> Contracts between parts are locales, each interpreted on the definitions of the
  provider: \<open>map_contract\<close> (hash maps), \<open>invariant_machine\<close> and \<open>commuting_machine\<close> (components with
  an invariant, and with commuting updates), \<open>priority_pool\<close> and its refinement
  \<open>fifo_priority_queue\<close> (the scheduler's queues; majra's queue is required to be a priority pool),
  \<open>kahn_graph\<close> (both topological sorts), \<open>ranking\<close> (agents and nodes), \<open>joined_tasks\<close> (parallel and
  DAG mode), \<open>heartbeat_liveness\<close> (nodes and clusters), \<open>tool\<close> and \<open>checked_tool\<close> (all tools) and
  \<open>state_store\<close> (durable state).

  \<^bold>\<open>What is proved.\<close>
  \<^item> Scheduling: both sorts are sound, decide acyclicity, and the task sort is greedy in priority; a
    loaded DAG with distinct task ids always has a ready task until it is done; dequeuing is a stable priority sort.
  \<^item> Execution: in DAG mode no task starts before its dependencies are completed and none runs
    twice, for every interleaving; a run returns; a completed crew has a completed result for each
    task; the parallel mode respects its bound; a task with a schema that the model completes has an
    output that fits the schema, except for the answer of the third round, which is not checked.
    A crew that the route accepts can run to completion: the checks of the route and those of the
    runner agree.
  \<^item> Orchestration: the number of crews stays bounded, no crew is orphaned, a cancellation takes
    effect, and every outcome of \<open>run_crew\<close> is characterised.
  \<^item> Inference queue: requests and replies are never mixed up or repeated, and with a live worker
    every accepted request can be answered, in at most six steps per request.
  \<^item> Server: a protected route is reached only with a valid credential; every handler, mixed with
    approvals requested and withdrawn by tasks of the process, keeps the invariant of the state; a tool call without a required parameter is an error; the outbound URL
    check and the request check are exact.
  \<^item> Tools: the SDK's protocol delivers the caller's parameters to the handler and the value or the
    error of the handler to the caller of the tool; sandboxes
    confine what the policy says.
  \<^item> Storage: packages, frames and crew states are read back as written (within the stated limits, and with
    each operation of the disk meeting its own faults); the version store is a
    window of the complete history.
  \<^item> Fleet: memory is never over-committed, barriers synchronise, removing a node does not leave a
    barrier stuck, the relay accepts the messages of a sender once and in order, elections and placements are
    correct.
  Other theorems record where comments and code differ.

  \<^bold>\<open>Termination and fuel.\<close> Recursions are structural or have a measure. Two loops are partial
  functions into \<open>option\<close> (\<open>visit\<close>, the cycle search, and \<open>redact_prefix\<close>), and both are proved to
  return. The executor \<open>join_all\<close> takes three steps of fuel for each parallel task and two for each
  task of a DAG wave, which the locale \<open>joined_tasks\<close> shows to be enough; without enough fuel the
  result would be \<open>None\<close>, and the theorems say that it is not. Trimming and splitting text use the
  length of the text as fuel, since each step consumes a byte. The inference queue has no fuel: its
  liveness theorem gives a finite run.

  \<^bold>\<open>Not modelled.\<close> Telemetry (\<open>telemetry/\<close>) and logging have no effect on the state; the HTTP
  transport, signal handling and the concurrency limit are those of axum and tokio; quantization
  advice and the sharding plan are calls of ai-hwaccel; the token bucket of the rate limiter is
  majra's; float formatting in two \<open>Display\<close> implementations is left out; constructors that only
  store their arguments are record expressions. The second implementation of the program, in the
  language Cyrius under \<open>src\<close>, is not modelled.
\<close>

end
